(* ===== verification/Prelude.thy ===== *)
theory Prelude
  imports Complex_Main "HOL-Library.Word" "HOL-Library.Sublist"
begin

text \<open>
  Shared vocabulary of the DetectBase development.

  \<^item> Type names for the numeric types of the C++ sources: \<open>float\<close> and \<open>double\<close> values are exact
    reals (rounding is not modelled; every theory that uses them says so), \<open>unsigned int\<close> and
    \<open>uint64_t\<close> counters are words, \<open>int\<close> identifiers are mathematical integers whose range is
    stated where it matters.
  \<^item> Named collections the component theories feed and use.
  \<^item> List lemmas shared by the queue, dispatcher, history and tracker theories.
  \<^item> The locale \<open>op_system\<close>: operations of a component run one after the other, in any order,
    preserve what each of them preserves.  Every stateful component interprets it.
\<close>

type_synonym cfloat = real
type_synonym u32 = "32 word"
type_synonym u64 = "64 word"

named_theorems model_defs \<open>definitions of model operations, for unfolding\<close>
named_theorems inv_intros \<open>operations preserve their component's invariant\<close>

subsection \<open>Lists\<close>

definition last_n :: "nat \<Rightarrow> 'a list \<Rightarrow> 'a list" where
  "last_n n xs = drop (length xs - n) xs"

lemma length_last_n [simp]: "length (last_n n xs) = min n (length xs)"
  by (simp add: last_n_def)

lemma last_n_all [simp]: "length xs \<le> n \<Longrightarrow> last_n n xs = xs"
  by (simp add: last_n_def)

lemma last_n_snoc_full:
  assumes "n \<le> length xs" and "0 < n"
  shows "last_n n (xs @ [x]) = tl (last_n n xs) @ [x]"
proof -
  have "Suc (length xs) - n = Suc (length xs - n)" using assms by simp
  then show ?thesis using assms by (simp add: last_n_def drop_Suc tl_drop)
qed

lemma last_n_snoc_short: "length xs < n \<Longrightarrow> last_n n (xs @ [x]) = last_n n xs @ [x]"
  by (simp add: last_n_def)

lemma filter_distinct_map: "distinct (map f xs) \<Longrightarrow> distinct (map f (filter P xs))"
  by (induction xs) auto

lemma find_SomeD: "find P xs = Some x \<Longrightarrow> x \<in> set xs \<and> P x"
  by (auto simp: find_Some_iff)

subsection \<open>Clamping\<close>

definition clamp_range :: "'a::linorder \<Rightarrow> 'a \<Rightarrow> 'a \<Rightarrow> 'a" where
  "clamp_range lo x hi = min (max x lo) hi"

lemma clamp_range_bounds: "lo \<le> hi \<Longrightarrow> lo \<le> clamp_range lo x hi \<and> clamp_range lo x hi \<le> hi"
  by (auto simp: clamp_range_def)

lemma clamp_range_id: "lo \<le> x \<Longrightarrow> x \<le> hi \<Longrightarrow> clamp_range lo x hi = x"
  by (simp add: clamp_range_def)

subsection \<open>Loops that may stop\<close>

text \<open>A range \<open>for\<close> whose body may fail: the first failure ends the loop.\<close>

fun for_each :: "('a \<Rightarrow> 's \<Rightarrow> 's option) \<Rightarrow> 'a list \<Rightarrow> 's \<Rightarrow> 's option" where
  "for_each body [] s = Some s"
| "for_each body (x # xs) s = Option.bind (body x s) (for_each body xs)"

lemma for_each_total:
  "(\<And>x t. x \<in> set xs \<Longrightarrow> body x t = Some (f x t)) \<Longrightarrow> for_each body xs s = Some (fold f xs s)"
  by (induction xs arbitrary: s) auto

lemma for_each_inv:
  assumes "I s" and "\<And>x t. x \<in> set xs \<Longrightarrow> I t \<Longrightarrow> \<exists>t'. body x t = Some t' \<and> I t'"
  shows "\<exists>s'. for_each body xs s = Some s' \<and> I s'"
  using assms
proof (induction xs arbitrary: s)
  case (Cons x xs)
  then obtain t where t: "body x s = Some t" "I t" by (meson list.set_intros(1))
  with Cons.IH [of t] Cons.prems(2) show ?case by auto
qed simp

subsection \<open>Operation systems\<close>

text \<open>
  A component whose methods run under one lock is a deterministic system: a state, a type of
  calls, and the function that runs one call.  An invariant kept by each call of a class of calls
  is kept by every sequence of such calls.
\<close>

locale op_system =
  fixes step :: "'s \<Rightarrow> 'c \<Rightarrow> 's"
    and ok :: "'c \<Rightarrow> bool"
    and inv :: "'s \<Rightarrow> bool"
  assumes inv_step: "inv s \<Longrightarrow> ok c \<Longrightarrow> inv (step s c)"
begin

lemma inv_run: "inv s \<Longrightarrow> list_all ok cs \<Longrightarrow> inv (foldl step s cs)"
  by (induction cs arbitrary: s) (auto intro: inv_step)

lemma frame_run:
  assumes "\<And>t d. inv t \<Longrightarrow> ok d \<Longrightarrow> f (step t d) = f t"
  shows "inv s \<Longrightarrow> list_all ok cs \<Longrightarrow> f (foldl step s cs) = f s"
  using assms by (induction cs arbitrary: s) (auto simp: inv_step)

end

end
