(* ===== verification/Safe_Queue.thy ===== *)
theory Safe_Queue
  imports Prelude
begin

text \<open>
  \<open>SafeQueue<T>\<close> of \<open>BasicLibs/core/structure/SafeQueue.h\<close>: the deque every pipeline stage of
  DetectBase uses, with an optional capacity (drop oldest), a drop counter and a termination
  flag.  Each method body runs under the queue's mutex, so a method is one transition of the
  record \<open>safe_queue\<close>; \<open>dequeue_wait_for\<close> gives the mutex up while it sleeps on the condition
  variable, so its model takes, for each wake-up, the calls other threads made before it.
\<close>

record 'a safe_queue =
  sq_q :: "'a list"
  b_terminate :: bool
  max_size :: nat
  drop_count :: u64

definition SafeQueue_init :: "'a safe_queue" where
  "SafeQueue_init = \<lparr>sq_q = [], b_terminate = False, max_size = 0, drop_count = 0\<rparr>"

definition SetMaxSize :: "nat \<Rightarrow> 'a safe_queue \<Rightarrow> 'a safe_queue" where
  "SetMaxSize n q = q\<lparr>max_size := n\<rparr>"

definition enqueue_copy :: "'a \<Rightarrow> 'a safe_queue \<Rightarrow> 'a safe_queue" where
  "enqueue_copy t q =
     (let q' = (if max_size q > 0 \<and> length (sq_q q) \<ge> max_size q
                then q\<lparr>sq_q := tl (sq_q q), drop_count := drop_count q + 1\<rparr>
                else q)
      in q'\<lparr>sq_q := sq_q q' @ [t]\<rparr>)"

definition enqueue_move :: "'a \<Rightarrow> 'a safe_queue \<Rightarrow> 'a safe_queue" where
  "enqueue_move t q =
     (let q' = (if max_size q > 0 \<and> length (sq_q q) \<ge> max_size q
                then q\<lparr>sq_q := tl (sq_q q), drop_count := drop_count q + 1\<rparr>
                else q)
      in q'\<lparr>sq_q := sq_q q' @ [t]\<rparr>)"

definition GetDropCount :: "'a safe_queue \<Rightarrow> u64" where
  "GetDropCount q = drop_count q"

definition sq_size :: "'a safe_queue \<Rightarrow> nat" where
  "sq_size q = length (sq_q q)"

definition sq_empty :: "'a safe_queue \<Rightarrow> bool" where
  "sq_empty q = (sq_size q = 0)"

definition terminate :: "'a safe_queue \<Rightarrow> 'a safe_queue" where
  "terminate q = q\<lparr>b_terminate := True\<rparr>"

definition is_terminated :: "'a safe_queue \<Rightarrow> bool" where
  "is_terminated q = b_terminate q"

text \<open>
  \<open>clear_with_action\<close> swaps the contents out and runs the action on each element in order.  An
  exception of the action is caught and reported on stderr, and the loop goes on.
\<close>

datatype action_exn = Std_exception string | Unknown_exception

fun clear_message :: "action_exn \<Rightarrow> string" where
  "clear_message (Std_exception what) =
     ''SafeQueue::clear_with_action: Exception caught during cleanup action: '' @ what"
| "clear_message Unknown_exception =
     ''SafeQueue::clear_with_action: Unknown exception caught during cleanup action.''"

fun drain :: "('a \<Rightarrow> 's \<Rightarrow> action_exn option \<times> 's) \<Rightarrow> 'a list \<Rightarrow> 's \<times> string list \<Rightarrow> 's \<times> string list" where
  "drain action [] (s, err) = (s, err)"
| "drain action (x # xs) (s, err) =
     (case action x s of
        (None, s') \<Rightarrow> drain action xs (s', err)
      | (Some e, s') \<Rightarrow> drain action xs (s', err @ [clear_message e]))"

definition clear_with_action ::
  "('a \<Rightarrow> 's \<Rightarrow> action_exn option \<times> 's) \<Rightarrow> 's \<Rightarrow> 'a safe_queue \<Rightarrow> 'a safe_queue \<times> 's \<times> string list" where
  "clear_with_action action s q = (q\<lparr>sq_q := []\<rparr>, drain action (sq_q q) (s, []))"

definition clear_without_action :: "'a safe_queue \<Rightarrow> 'a safe_queue" where
  "clear_without_action q = q\<lparr>sq_q := []\<rparr>"

text \<open>The calls another thread can complete while a consumer sleeps.\<close>

datatype 'a sq_call =
  Call_SetMaxSize nat | Call_enqueue_copy 'a | Call_enqueue_move 'a | Call_terminate | Call_clear
| Call_dequeue

text \<open>The part of \<open>dequeue_wait_for\<close> after a successful wait, under the lock.\<close>

definition wait_pred :: "'a safe_queue \<Rightarrow> bool" where
  "wait_pred q = (sq_q q \<noteq> [] \<or> b_terminate q)"

definition take_front :: "'a safe_queue \<Rightarrow> 'a option \<times> 'a safe_queue" where
  "take_front q = (if b_terminate q then (None, q)
                   else (Some (hd (sq_q q)), q\<lparr>sq_q := tl (sq_q q)\<rparr>))"

definition dequeue_now :: "'a safe_queue \<Rightarrow> 'a option \<times> 'a safe_queue" where
  "dequeue_now q = (if b_terminate q then (None, q)
                    else if wait_pred q then take_front q else (None, q))"

fun sq_step :: "'a safe_queue \<Rightarrow> 'a sq_call \<Rightarrow> 'a safe_queue" where
  "sq_step q (Call_SetMaxSize n) = SetMaxSize n q"
| "sq_step q (Call_enqueue_copy t) = enqueue_copy t q"
| "sq_step q (Call_enqueue_move t) = enqueue_move t q"
| "sq_step q Call_terminate = terminate q"
| "sq_step q Call_clear = clear_without_action q"
| "sq_step q Call_dequeue = snd (dequeue_now q)"

text \<open>
  \<open>c.wait_for(lck, d, pred)\<close>: while the predicate is false, sleep; on a wake-up before the
  deadline test it again; at the deadline (no wake-up left) its value decides.
\<close>

fun wait_loop :: "'a sq_call list list \<Rightarrow> 'a safe_queue \<Rightarrow> 'a option \<times> 'a safe_queue" where
  "wait_loop [] q = (if wait_pred q then take_front q else (None, q))"
| "wait_loop (calls # wakes) q =
     (if wait_pred q then take_front q else wait_loop wakes (foldl sq_step q calls))"

definition dequeue_wait_for :: "'a sq_call list list \<Rightarrow> 'a safe_queue \<Rightarrow> 'a option \<times> 'a safe_queue" where
  "dequeue_wait_for wakes q = (if b_terminate q then (None, q) else wait_loop wakes q)"

subsection \<open>The queue interface\<close>

text \<open>
  What the pipeline relies on: below the capacity (or with none) an enqueue appends; at the
  capacity it drops the oldest element first.
\<close>

locale drop_oldest_queue =
  fixes enq :: "'a \<Rightarrow> 'q \<Rightarrow> 'q"
    and contents :: "'q \<Rightarrow> 'a list"
    and cap :: "'q \<Rightarrow> nat"
  assumes enq_room: "cap q = 0 \<or> length (contents q) < cap q \<Longrightarrow> contents (enq x q) = contents q @ [x]"
    and enq_full: "0 < cap q \<Longrightarrow> cap q \<le> length (contents q) \<Longrightarrow> contents (enq x q) = tl (contents q) @ [x]"
    and enq_cap: "cap (enq x q) = cap q"
begin

definition enq_all :: "'a list \<Rightarrow> 'q \<Rightarrow> 'q" where
  "enq_all xs q = foldl (\<lambda>q x. enq x q) q xs"

lemma cap_enq_all: "cap (enq_all xs q) = cap q"
  unfolding enq_all_def by (induction xs arbitrary: q) (auto simp: enq_cap)

lemma contents_enq_all_unbounded: "cap q = 0 \<Longrightarrow> contents (enq_all xs q) = contents q @ xs"
  unfolding enq_all_def by (induction xs arbitrary: q) (auto simp: enq_cap enq_room)

lemma contents_enq_all:
  assumes "0 < cap q" and "length (contents q) \<le> cap q"
  shows "contents (enq_all xs q) = last_n (cap q) (contents q @ xs)"
proof (induction xs rule: rev_induct)
  case Nil
  then show ?case using assms by (simp add: enq_all_def)
next
  case (snoc x xs)
  have step: "enq_all (xs @ [x]) q = enq x (enq_all xs q)" by (simp add: enq_all_def)
  show ?case
  proof (cases "length (contents q @ xs) < cap q")
    case True
    with snoc show ?thesis
      by (simp add: step enq_room cap_enq_all del: append_assoc add: append_assoc [symmetric])
  next
    case False
    then have full: "cap (enq_all xs q) \<le> length (contents (enq_all xs q))"
      using snoc by (simp add: cap_enq_all)
    from False have "last_n (cap q) ((contents q @ xs) @ [x])
        = tl (last_n (cap q) (contents q @ xs)) @ [x]"
      by (intro last_n_snoc_full) (use assms in auto)
    with full snoc assms show ?thesis
      by (simp add: step enq_full cap_enq_all)
  qed
qed

end

lemma enqueue_move_copy: "enqueue_move = enqueue_copy"
  by (intro ext) (simp add: enqueue_move_def enqueue_copy_def)

lemma sq_q_enqueue:
  "sq_q (enqueue_copy t q) =
     (if max_size q > 0 \<and> length (sq_q q) \<ge> max_size q then tl (sq_q q) else sq_q q) @ [t]"
  by (simp add: enqueue_copy_def Let_def)

lemma enqueue_frame [simp]:
  "max_size (enqueue_copy t q) = max_size q" "b_terminate (enqueue_copy t q) = b_terminate q"
  by (simp_all add: enqueue_copy_def Let_def)

lemma drop_count_enqueue:
  "drop_count (enqueue_copy t q) = drop_count q +
     (if max_size q > 0 \<and> length (sq_q q) \<ge> max_size q then 1 else 0)"
  by (simp add: enqueue_copy_def Let_def)

interpretation sq: drop_oldest_queue enqueue_copy sq_q max_size
  by unfold_locales (auto simp: sq_q_enqueue)

lemma sq_enq_all_Cons [simp]: "sq.enq_all (x # xs) q = sq.enq_all xs (enqueue_copy x q)"
  by (simp add: sq.enq_all_def)

lemma sq_enq_all_Nil [simp]: "sq.enq_all [] q = q"
  by (simp add: sq.enq_all_def)

lemma drop_count_enq_all:
  assumes "0 < max_size q" and "length (sq_q q) \<le> max_size q"
  shows "drop_count (sq.enq_all ts q) =
           drop_count q + of_nat (length (sq_q q) + length ts - max_size q)"
  using assms
proof (induction ts arbitrary: q)
  case (Cons t ts)
  let ?q = "enqueue_copy t q"
  have "length (sq_q ?q) \<le> max_size ?q" using Cons.prems by (auto simp: sq_q_enqueue)
  then have "drop_count (sq.enq_all ts ?q)
      = drop_count ?q + of_nat (length (sq_q ?q) + length ts - max_size q)"
    using Cons.IH [of ?q] Cons.prems by simp
  then show ?case using Cons.prems
    by (auto simp: drop_count_enqueue sq_q_enqueue Suc_diff_le)
qed simp

subsection \<open>Sequences of calls\<close>

fun is_SetMaxSize :: "'a sq_call \<Rightarrow> bool" where
  "is_SetMaxSize (Call_SetMaxSize n) = True"
| "is_SetMaxSize c = False"

definition within_cap :: "nat \<Rightarrow> 'a safe_queue \<Rightarrow> bool" where
  "within_cap n q = (max_size q = n \<and> length (sq_q q) \<le> n)"

lemma dequeue_now_cases:
  "dequeue_now q = (if b_terminate q \<or> sq_q q = [] then (None, q)
                    else (Some (hd (sq_q q)), q\<lparr>sq_q := tl (sq_q q)\<rparr>))"
  by (auto simp: dequeue_now_def wait_pred_def take_front_def)

lemma sq_step_terminate: "b_terminate q \<Longrightarrow> b_terminate (sq_step q c)"
  by (cases c) (auto simp: SetMaxSize_def enqueue_move_copy terminate_def clear_without_action_def
      dequeue_now_cases)

lemma sq_step_within_cap: "0 < n \<Longrightarrow> within_cap n q \<Longrightarrow> \<not> is_SetMaxSize c \<Longrightarrow> within_cap n (sq_step q c)"
  by (cases c) (auto simp: within_cap_def enqueue_move_copy sq_q_enqueue terminate_def
      clear_without_action_def dequeue_now_cases)

interpretation sq_term: op_system sq_step "\<lambda>_. True" b_terminate
  by unfold_locales (rule sq_step_terminate)

interpretation sq_cap: op_system sq_step "\<lambda>c. \<not> is_SetMaxSize c" "\<lambda>q. within_cap (Suc n) q" for n
  by unfold_locales (auto intro: sq_step_within_cap)

fun enqueued_by :: "'a sq_call \<Rightarrow> 'a list" where
  "enqueued_by (Call_enqueue_copy t) = [t]"
| "enqueued_by (Call_enqueue_move t) = [t]"
| "enqueued_by c = []"

fun delivered_by :: "'a safe_queue \<Rightarrow> 'a sq_call \<Rightarrow> 'a list" where
  "delivered_by q Call_dequeue = (case fst (dequeue_now q) of None \<Rightarrow> [] | Some x \<Rightarrow> [x])"
| "delivered_by q c = []"

fun deliveries :: "'a safe_queue \<Rightarrow> 'a sq_call list \<Rightarrow> 'a list" where
  "deliveries q [] = []"
| "deliveries q (c # cs) = delivered_by q c @ deliveries (sq_step q c) cs"

lemma subseq_tl: "subseq (tl xs) xs"
  by (cases xs) auto

lemma subseq_step: "subseq (delivered_by q c @ sq_q (sq_step q c)) (sq_q q @ enqueued_by c)"
proof (cases c)
  case Call_dequeue
  then show ?thesis by (cases "sq_q q") (auto simp: dequeue_now_cases)
qed (auto simp: SetMaxSize_def enqueue_move_copy sq_q_enqueue terminate_def
      clear_without_action_def subseq_tl)

lemma exact_step:
  assumes "max_size q = 0" "\<not> is_SetMaxSize c" "c \<noteq> Call_clear"
  shows "delivered_by q c @ sq_q (sq_step q c) = sq_q q @ enqueued_by c \<and> max_size (sq_step q c) = 0"
  using assms by (cases c) (auto simp: enqueue_move_copy sq_q_enqueue terminate_def dequeue_now_cases)

text \<open>
  Backpressure.  From a queue whose contents fit its capacity \<open>n > 0\<close>, after any burst of
  enqueues the queue holds exactly the newest \<open>n\<close> elements, oldest first, and the drop counter has
  advanced by the number of elements that were pushed out (modulo 2 to the 64).
\<close>

theorem enqueue_keeps_newest:
  assumes "0 < max_size q" and "length (sq_q q) \<le> max_size q"
  shows "sq_q (foldl (\<lambda>q t. enqueue_copy t q) q ts) = last_n (max_size q) (sq_q q @ ts)
       \<and> GetDropCount (foldl (\<lambda>q t. enqueue_copy t q) q ts)
           = GetDropCount q + of_nat (length (sq_q q) + length ts - max_size q)"
  using sq.contents_enq_all [OF assms] drop_count_enq_all [OF assms]
  by (simp add: sq.enq_all_def GetDropCount_def)

theorem enqueue_keeps_newest_witness:
  "sq_q (foldl (\<lambda>q t. enqueue_copy t q) (SetMaxSize 2 SafeQueue_init) [1::int, 2, 3]) = [2, 3]
   \<and> GetDropCount (foldl (\<lambda>q t. enqueue_copy t q) (SetMaxSize 2 SafeQueue_init) [1::int, 2, 3]) = 1"
  using enqueue_keeps_newest [of "SetMaxSize 2 SafeQueue_init" "[1::int, 2, 3]"]
  by (simp add: SetMaxSize_def SafeQueue_init_def last_n_def GetDropCount_def)

text \<open>
  First in, first out.  Whatever calls run and in whatever order (capacity changes, drops,
  clears and termination included), the elements delivered so far followed by those still queued
  are a subsequence of the initial contents followed by everything enqueued: nothing is delivered
  twice, invented or reordered.  With no capacity, no capacity change and no clear nothing is lost.
\<close>

theorem deliveries_fifo:
  "subseq (deliveries q cs @ sq_q (foldl sq_step q cs)) (sq_q q @ concat (map enqueued_by cs))
   \<and> (max_size q = 0 \<and> list_all (\<lambda>c. \<not> is_SetMaxSize c \<and> c \<noteq> Call_clear) cs \<longrightarrow>
        deliveries q cs @ sq_q (foldl sq_step q cs) = sq_q q @ concat (map enqueued_by cs))"
proof (induction cs arbitrary: q)
  case (Cons c cs)
  let ?q = "sq_step q c" and ?rest = "concat (map enqueued_by cs)"
  have "subseq (deliveries ?q cs @ sq_q (foldl sq_step ?q cs)) (sq_q ?q @ ?rest)"
    using Cons.IH by blast
  then have "subseq (delivered_by q c @ deliveries ?q cs @ sq_q (foldl sq_step ?q cs))
      ((delivered_by q c @ sq_q ?q) @ ?rest)"
    unfolding append_assoc by (rule list_emb_append_mono [OF subseq_order.order_refl])
  moreover have "subseq ((delivered_by q c @ sq_q ?q) @ ?rest) ((sq_q q @ enqueued_by c) @ ?rest)"
    by (intro list_emb_append_mono subseq_step) simp
  ultimately have sub: "subseq (deliveries q (c # cs) @ sq_q (foldl sq_step q (c # cs)))
      (sq_q q @ concat (map enqueued_by (c # cs)))"
    by (simp add: subseq_order.order_trans)
  have exact: "deliveries q (c # cs) @ sq_q (foldl sq_step q (c # cs))
      = sq_q q @ concat (map enqueued_by (c # cs))"
    if "max_size q = 0" "list_all (\<lambda>c. \<not> is_SetMaxSize c \<and> c \<noteq> Call_clear) (c # cs)"
  proof -
    have step: "delivered_by q c @ sq_q ?q = sq_q q @ enqueued_by c" "max_size ?q = 0"
      using that exact_step [of q c] by simp_all
    then have rest: "deliveries ?q cs @ sq_q (foldl sq_step ?q cs) = sq_q ?q @ ?rest"
      using that Cons.IH [of ?q] by simp
    have "deliveries q (c # cs) @ sq_q (foldl sq_step q (c # cs))
        = (delivered_by q c @ sq_q ?q) @ ?rest" using rest by simp
    with step(1) show ?thesis by simp
  qed
  from sub exact show ?case by blast
qed simp

theorem deliveries_fifo_witness:
  "deliveries SafeQueue_init [Call_enqueue_copy (1::int), Call_enqueue_move 2, Call_dequeue]
     @ sq_q (foldl sq_step SafeQueue_init [Call_enqueue_copy 1, Call_enqueue_move 2, Call_dequeue])
   = [1, 2]"
  using deliveries_fifo [of SafeQueue_init "[Call_enqueue_copy (1::int), Call_enqueue_move 2, Call_dequeue]"]
  by (simp add: SafeQueue_init_def)

text \<open>
  The capacity is an invariant: once the contents fit a positive capacity, every sequence of
  calls that does not change the capacity keeps them within it.
\<close>

theorem capacity_invariant:
  assumes "within_cap n q" and "0 < n" and "list_all (\<lambda>c. \<not> is_SetMaxSize c) cs"
  shows "within_cap n (foldl sq_step q cs) \<and> sq_size (foldl sq_step q cs) \<le> n"
  using sq_cap.inv_run [of "n - 1" q cs] assms by (simp add: within_cap_def sq_size_def)

theorem capacity_invariant_witness:
  "within_cap 1 (foldl sq_step (SetMaxSize 1 SafeQueue_init) [Call_enqueue_copy (7::int), Call_enqueue_copy 8])
   \<and> sq_size (foldl sq_step (SetMaxSize 1 SafeQueue_init) [Call_enqueue_copy (7::int), Call_enqueue_copy 8]) \<le> 1"
  by (rule capacity_invariant) (simp_all add: within_cap_def SetMaxSize_def SafeQueue_init_def)

text \<open>
  Termination is final: once \<open>terminate\<close> is among the calls made, every later
  \<open>dequeue_wait_for\<close>, whatever happens while it would wait, returns nothing at once and leaves the
  queue (elements still in it included) as it is.
\<close>

theorem terminated_queue_delivers_nothing:
  assumes "Call_terminate \<in> set cs"
  shows "dequeue_wait_for wakes (foldl sq_step q cs) = (None, foldl sq_step q cs)
       \<and> is_terminated (foldl sq_step q cs)"
proof -
  from assms obtain us vs where cs: "cs = us @ Call_terminate # vs" by (auto simp: in_set_conv_decomp)
  have "b_terminate (foldl sq_step (terminate (foldl sq_step q us)) vs)"
    by (rule sq_term.inv_run) (simp_all add: terminate_def list_all_iff)
  then show ?thesis by (simp add: cs dequeue_wait_for_def is_terminated_def)
qed

theorem terminated_queue_delivers_nothing_witness:
  "dequeue_wait_for [[Call_enqueue_copy 5]] (foldl sq_step SafeQueue_init [Call_enqueue_copy (4::int), Call_terminate])
     = (None, foldl sq_step SafeQueue_init [Call_enqueue_copy 4, Call_terminate])
   \<and> is_terminated (foldl sq_step SafeQueue_init [Call_enqueue_copy (4::int), Call_terminate])"
  by (rule terminated_queue_delivers_nothing) simp

subsection \<open>Waiting\<close>

lemma wait_loop_ready: "wait_pred q \<Longrightarrow> wait_loop wakes q = take_front q"
  by (cases wakes) auto

lemma wait_loop_skip:
  "\<forall>k \<le> length ws. \<not> wait_pred (foldl sq_step q (concat (take k ws))) \<Longrightarrow>
   wait_loop (ws @ vs) q = wait_loop vs (foldl sq_step q (concat ws))"
proof (induction ws arbitrary: q)
  case (Cons w ws)
  have "\<not> wait_pred q" using Cons.prems [rule_format, of 0] by simp
  moreover have "\<forall>k \<le> length ws. \<not> wait_pred (foldl sq_step (foldl sq_step q w) (concat (take k ws)))"
    using Cons.prems by (metis Suc_le_mono concat.simps(2) foldl_append length_Cons take_Suc_Cons)
  ultimately show ?case using Cons.IH by simp
qed simp

text \<open>
  C34. No wake-up is lost.  A consumer that found the queue empty and slept through wake-ups that
  left it empty receives, at the first wake-up after which an element is there and the queue is
  not terminated, the oldest element; the element is removed.
\<close>

theorem sleeping_consumer_receives:
  assumes idle: "\<forall>k \<le> length ws. \<not> wait_pred (foldl sq_step q (concat (take k ws)))"
    and arrival: "sq_q (foldl sq_step q (concat (ws @ [w]))) = x # xs"
    and live: "\<not> b_terminate (foldl sq_step q (concat (ws @ [w])))"
  shows "dequeue_wait_for (ws @ w # vs) q =
           (Some x, (foldl sq_step q (concat (ws @ [w])))\<lparr>sq_q := xs\<rparr>)"
proof -
  let ?q' = "foldl sq_step q (concat ws)"
  have "\<not> wait_pred q" using idle [rule_format, of 0] by simp
  then have nt: "\<not> b_terminate q" by (simp add: wait_pred_def)
  have "\<not> wait_pred ?q'" using idle [rule_format, of "length ws"] by simp
  moreover have "wait_loop (ws @ w # vs) q = wait_loop (w # vs) ?q'"
    by (rule wait_loop_skip) (use idle in simp)
  moreover have "wait_pred (foldl sq_step ?q' w)" using arrival by (simp add: wait_pred_def)
  ultimately show ?thesis using nt arrival live
    by (simp add: dequeue_wait_for_def wait_loop_ready take_front_def)
qed

theorem sleeping_consumer_receives_witness:
  "dequeue_wait_for [[], [Call_enqueue_copy (3::int), Call_enqueue_copy 4]] SafeQueue_init =
     (Some 3, (foldl sq_step SafeQueue_init [Call_enqueue_copy 3, Call_enqueue_copy 4])\<lparr>sq_q := [4]\<rparr>)"
  using sleeping_consumer_receives
    [of "[[]]" SafeQueue_init "[Call_enqueue_copy (3::int), Call_enqueue_copy 4]" 3 "[4]" "[]"]
  by (auto simp: wait_pred_def SafeQueue_init_def sq_q_enqueue le_Suc_eq)

lemma drain_log: "drain (\<lambda>x s. (exn x, s @ [x])) xs (s, err)
    = (s @ xs, err @ map clear_message (List.map_filter exn xs))"
  by (induction xs arbitrary: s err) (auto split: option.splits simp: map_filter_simps)

text \<open>
  Draining.  \<open>clear_with_action\<close> empties the queue, hands every element to the action exactly
  once and in order whatever the action throws, and reports one line per exception.
\<close>

theorem clear_with_action_visits_all:
  "clear_with_action (\<lambda>x seen. (exn x, seen @ [x])) [] q =
     (q\<lparr>sq_q := []\<rparr>, sq_q q, map clear_message (List.map_filter exn (sq_q q)))"
  by (simp add: clear_with_action_def drain_log)

end
