(* ===== verification/Safe_Thread.thy ===== *)
theory Safe_Thread
  imports Prelude
begin

text \<open>
  \<open>SafeThread\<close> of \<open>BasicLibs/core/structure/SafeThread.h\<close>: a restartable worker thread.
  \<open>is_running_\<close> is exchanged atomically, so a call to \<open>Start\<close> or \<open>Stop\<close> is one transition.  What
  the calls do to the outside (spawn, closer, join) is recorded in a log.  Assigning to a
  \<open>std::thread\<close> that is still joinable calls \<open>std::terminate\<close>: that is the error branch of \<open>Start\<close>.
\<close>

datatype 'f thread_event = Spawned "'f option" | Closer_called 'f | Joined

datatype thread_error = Std_terminate

record 'f safe_thread =
  is_running :: bool
  joinable :: bool
  thread_runner :: "'f option"
  thread_closer :: "'f option"
  thread_log :: "'f thread_event list"

definition SafeThread_init :: "'f safe_thread" where
  "SafeThread_init = \<lparr>is_running = False, joinable = False, thread_runner = None,
     thread_closer = None, thread_log = []\<rparr>"

definition SetThreadFunctions :: "'f option \<Rightarrow> 'f option \<Rightarrow> 'f safe_thread \<Rightarrow> 'f safe_thread" where
  "SetThreadFunctions runner closer t =
     (let t1 = (if runner \<noteq> None then t\<lparr>thread_runner := runner\<rparr> else t)
      in if closer \<noteq> None then t1\<lparr>thread_closer := closer\<rparr> else t1)"

definition Start :: "'f safe_thread \<Rightarrow> thread_error + bool \<times> 'f safe_thread" where
  "Start t =
     (if is_running t then Inr (True, t)
      else let t1 = t\<lparr>is_running := True\<rparr>
           in if joinable t1 then Inl Std_terminate
              else Inr (True, t1\<lparr>joinable := True, thread_log := thread_log t1 @ [Spawned (thread_runner t1)]\<rparr>))"

definition Stop :: "'f safe_thread \<Rightarrow> 'f safe_thread" where
  "Stop t =
     (if is_running t
      then let t1 = t\<lparr>is_running := False\<rparr>;
               t2 = (case thread_closer t1 of None \<Rightarrow> t1
                     | Some f \<Rightarrow> t1\<lparr>thread_log := thread_log t1 @ [Closer_called f]\<rparr>)
           in if joinable t2 then t2\<lparr>joinable := False, thread_log := thread_log t2 @ [Joined]\<rparr> else t2
      else t)"

datatype 'f thread_call = Call_set "'f option" "'f option" | Call_start | Call_stop

fun thread_step :: "thread_error + 'f safe_thread \<Rightarrow> 'f thread_call \<Rightarrow> thread_error + 'f safe_thread" where
  "thread_step (Inl e) c = Inl e"
| "thread_step (Inr t) (Call_set r c) = Inr (SetThreadFunctions r c t)"
| "thread_step (Inr t) Call_start = map_sum id snd (Start t)"
| "thread_step (Inr t) Call_stop = Inr (Stop t)"

fun count_spawned :: "'f thread_event list \<Rightarrow> nat" where
  "count_spawned [] = 0"
| "count_spawned (Spawned f # es) = Suc (count_spawned es)"
| "count_spawned (e # es) = count_spawned es"

lemma count_spawned_append [simp]: "count_spawned (xs @ ys) = count_spawned xs + count_spawned ys"
  by (induction xs rule: count_spawned.induct) auto

definition count_joined :: "'f thread_event list \<Rightarrow> nat" where
  "count_joined es = length (filter (\<lambda>e. e = Joined) es)"

definition thread_inv :: "'f safe_thread \<Rightarrow> bool" where
  "thread_inv t = (joinable t = is_running t \<and>
     count_spawned (thread_log t) = count_joined (thread_log t) + (if is_running t then 1 else 0))"

lemma thread_inv_SetThreadFunctions: "thread_inv t \<Longrightarrow> thread_inv (SetThreadFunctions r c t)"
  by (auto simp: thread_inv_def SetThreadFunctions_def Let_def)

lemma thread_inv_Start: "thread_inv t \<Longrightarrow> \<exists>t'. Start t = Inr (True, t') \<and> thread_inv t' \<and> is_running t'"
  by (auto simp: thread_inv_def Start_def Let_def count_joined_def)

lemma thread_inv_Stop: "thread_inv t \<Longrightarrow> thread_inv (Stop t) \<and> \<not> is_running (Stop t)"
  by (auto simp: thread_inv_def Stop_def Let_def count_joined_def split: option.splits)

lemma thread_step_inv: "\<exists>t. s = Inr t \<and> thread_inv t \<Longrightarrow> \<exists>t'. thread_step s c = Inr t' \<and> thread_inv t'"
  by (cases c) (auto dest: thread_inv_Start simp: thread_inv_SetThreadFunctions thread_inv_Stop)

interpretation sthread: op_system thread_step "\<lambda>_. True" "\<lambda>s. \<exists>t. s = Inr t \<and> thread_inv t"
  by unfold_locales (rule thread_step_inv)

text \<open>
  A \<open>SafeThread\<close> can be configured, started and stopped in any order and any number of times:
  no sequence of calls overwrites a joinable thread (which would abort the process), and at every
  point the number of threads spawned exceeds the number joined by exactly the one that runs.
\<close>

theorem safe_thread_never_aborts:
  "\<exists>t. foldl thread_step (Inr SafeThread_init) cs = Inr t \<and> joinable t = is_running t
     \<and> count_spawned (thread_log t) = count_joined (thread_log t) + (if is_running t then 1 else 0)"
proof -
  have "\<exists>t::'a safe_thread. Inr SafeThread_init = (Inr t :: thread_error + 'a safe_thread) \<and> thread_inv t"
    by (simp add: thread_inv_def SafeThread_init_def count_joined_def)
  from sthread.inv_run [OF this, of cs] show ?thesis by (auto simp: thread_inv_def list_all_iff)
qed

end
