(* ===== verification/Reply_Dispatcher.thy ===== *)
theory Reply_Dispatcher
  imports Safe_Thread "HOL-Library.AList"
begin

text \<open>
  \<open>ReplyDispatcher<T, U>\<close> of \<open>BasicLibs/core/structure/ReplyDispatcher.h\<close>: replies are matched to
  requests by UUID in a table sharded over buckets.  A bucket maps a UUID to a \<open>shared_ptr\<close>, so
  entries live in a heap (\<open>entries\<close>, indexed by address) and stay alive for a waiter after they
  have left the table.  Bucket and entry have separate mutexes: every operation is written as the
  sequence of its critical sections, and what other threads do between two critical sections of
  \<open>wait_and_get\<close> is an argument.  \<open>std::hash\<close> is the parameter \<open>h\<close>; the effect that moving out of
  a value of type \<open>T\<close> has on the source is the parameter \<open>mv\<close> (moving out of an engaged
  \<open>std::optional\<close> leaves it engaged, holding the moved-from value).
\<close>

record 't reply_entry =
  entry_data :: "'t option"
  created_time :: int

record ('u, 't) dispatcher =
  shard_count :: nat
  buckets :: "('u \<times> nat) list list"
  entries :: "nat \<Rightarrow> 't reply_entry"
  next_addr :: nat

definition new_entry :: "int \<Rightarrow> 't reply_entry" where
  "new_entry now = \<lparr>entry_data = None, created_time = now\<rparr>"

definition ReplyDispatcher_init :: "nat \<Rightarrow> ('u, 't) dispatcher" where
  "ReplyDispatcher_init n =
     \<lparr>shard_count = n, buckets = replicate n [], entries = (\<lambda>_. new_entry 0), next_addr = 0\<rparr>"

definition get_bucket :: "('u \<Rightarrow> nat) \<Rightarrow> 'u \<Rightarrow> ('u, 't) dispatcher \<Rightarrow> nat" where
  "get_bucket h uuid d = h uuid mod shard_count d"

text \<open>The critical section \<open>try_emplace\<close> shared by \<open>set_reply\<close> and \<open>wait_and_get\<close>.\<close>

definition emplace_entry ::
  "('u \<Rightarrow> nat) \<Rightarrow> int \<Rightarrow> 'u \<Rightarrow> ('u, 't) dispatcher \<Rightarrow> nat \<times> ('u, 't) dispatcher" where
  "emplace_entry h now uuid d =
     (let i = get_bucket h uuid d in
      case map_of (buckets d ! i) uuid of
        Some a \<Rightarrow> (a, d)
      | None \<Rightarrow> (next_addr d,
          d\<lparr>buckets := (buckets d)[i := (uuid, next_addr d) # buckets d ! i],
            entries := (entries d)(next_addr d := new_entry now),
            next_addr := Suc (next_addr d)\<rparr>))"

definition write_data :: "nat \<Rightarrow> 't option \<Rightarrow> ('u, 't) dispatcher \<Rightarrow> ('u, 't) dispatcher" where
  "write_data a v d = d\<lparr>entries := (entries d)(a := (entries d a)\<lparr>entry_data := v\<rparr>)\<rparr>"

definition set_reply ::
  "('u \<Rightarrow> nat) \<Rightarrow> int \<Rightarrow> 'u \<Rightarrow> 't \<Rightarrow> ('u, 't) dispatcher \<Rightarrow> ('u, 't) dispatcher" where
  "set_reply h now uuid reply_data d =
     (case emplace_entry h now uuid d of (a, d1) \<Rightarrow> write_data a (Some reply_data) d1)"

definition erase_uuid :: "('u \<Rightarrow> nat) \<Rightarrow> 'u \<Rightarrow> ('u, 't) dispatcher \<Rightarrow> ('u, 't) dispatcher" where
  "erase_uuid h uuid d =
     (let i = get_bucket h uuid d in d\<lparr>buckets := (buckets d)[i := AList.delete uuid (buckets d ! i)]\<rparr>)"

definition is_exist_in_entry :: "('u \<Rightarrow> nat) \<Rightarrow> 'u \<Rightarrow> ('u, 't) dispatcher \<Rightarrow> bool" where
  "is_exist_in_entry h uuid d = (map_of (buckets d ! get_bucket h uuid d) uuid \<noteq> None)"

definition remove_expired :: "int \<Rightarrow> int \<Rightarrow> ('u, 't) dispatcher \<Rightarrow> ('u, 't) dispatcher" where
  "remove_expired now expiration d =
     d\<lparr>buckets := map (filter (\<lambda>(uuid, a). \<not> (now - created_time (entries d a) > expiration))) (buckets d)\<rparr>"

definition total_size :: "('u, 't) dispatcher \<Rightarrow> nat" where
  "total_size d = sum_list (map length (buckets d))"

definition remove :: "('u \<Rightarrow> nat) \<Rightarrow> 'u \<Rightarrow> ('u, 't) dispatcher \<Rightarrow> ('u, 't) dispatcher" where
  "remove h uuid d = erase_uuid h uuid d"

definition dispatcher_terminate :: "('u, 't) dispatcher \<Rightarrow> ('u, 't) dispatcher" where
  "dispatcher_terminate d =
     foldl (\<lambda>d i. foldl (\<lambda>d a. write_data a None d) (d\<lparr>buckets := (buckets d)[i := []]\<rparr>)
                        (map snd (buckets d ! i)))
           d [0..<length (buckets d)]"

text \<open>
  The critical sections another thread can complete while a waiter sleeps.  \<open>Call_write\<close> is the
  second critical section of a \<open>set_reply\<close> whose first one (which found address \<open>a\<close>) ran before.
\<close>

datatype ('u, 't) rd_call =
  Call_set_reply int 'u 't | Call_write nat 't | Call_remove 'u | Call_remove_expired int int
| Call_terminate

fun rd_step :: "('u \<Rightarrow> nat) \<Rightarrow> ('u, 't) dispatcher \<Rightarrow> ('u, 't) rd_call \<Rightarrow> ('u, 't) dispatcher" where
  "rd_step h d (Call_set_reply now uuid v) = set_reply h now uuid v d"
| "rd_step h d (Call_write a v) = write_data a (Some v) d"
| "rd_step h d (Call_remove uuid) = remove h uuid d"
| "rd_step h d (Call_remove_expired now e) = remove_expired now e d"
| "rd_step h d Call_terminate = dispatcher_terminate d"

text \<open>The wait on the entry at address \<open>a\<close>: one list of calls per wake-up, then the deadline.\<close>

fun wait_entry ::
  "('u \<Rightarrow> nat) \<Rightarrow> nat \<Rightarrow> ('u, 't) rd_call list list \<Rightarrow> ('u, 't) dispatcher \<Rightarrow> bool \<times> ('u, 't) dispatcher" where
  "wait_entry h a [] d = (entry_data (entries d a) \<noteq> None, d)"
| "wait_entry h a (calls # wakes) d =
     (if entry_data (entries d a) \<noteq> None then (True, d)
      else wait_entry h a wakes (foldl (rd_step h) d calls))"

text \<open>\<open>race\<close> is what other threads complete after the entry's mutex is released and before the
  bucket's mutex is taken again.\<close>

definition wait_and_get ::
  "('u \<Rightarrow> nat) \<Rightarrow> ('t \<Rightarrow> 't) \<Rightarrow> int \<Rightarrow> 'u \<Rightarrow> ('u, 't) rd_call list list \<Rightarrow> ('u, 't) rd_call list \<Rightarrow>
   ('u, 't) dispatcher \<Rightarrow> 't option \<times> ('u, 't) dispatcher" where
  "wait_and_get h mv now uuid wakes race d =
     (case emplace_entry h now uuid d of
        (a, d1) \<Rightarrow>
          (case wait_entry h a wakes d1 of
             (success, d2) \<Rightarrow>
               if success
               then let result = entry_data (entries d2 a);
                        d3 = write_data a (map_option mv result) d2;
                        d4 = foldl (rd_step h) d3 race
                    in (result, erase_uuid h uuid d4)
               else (None, foldl (rd_step h) d2 race)))"

subsection \<open>The table as a flat map\<close>

definition addr_of :: "('u \<Rightarrow> nat) \<Rightarrow> ('u, 't) dispatcher \<Rightarrow> 'u \<rightharpoonup> nat" where
  "addr_of h d u = map_of (buckets d ! get_bucket h u d) u"

definition reply_map :: "('u \<Rightarrow> nat) \<Rightarrow> ('u, 't) dispatcher \<Rightarrow> 'u \<rightharpoonup> 't reply_entry" where
  "reply_map h d u = map_option (entries d) (addr_of h d u)"

definition pending :: "('u \<Rightarrow> nat) \<Rightarrow> ('u, 't) dispatcher \<Rightarrow> 'u \<rightharpoonup> 't" where
  "pending h d u = Option.bind (reply_map h d u) entry_data"

definition sharded :: "('u \<Rightarrow> nat) \<Rightarrow> ('u, 't) dispatcher \<Rightarrow> bool" where
  "sharded h d = (0 < shard_count d \<and> length (buckets d) = shard_count d \<and>
     (\<forall>i < shard_count d. distinct (map fst (buckets d ! i)) \<and>
        (\<forall>u \<in> fst ` set (buckets d ! i). h u mod shard_count d = i)))"

definition rd_inv :: "('u \<Rightarrow> nat) \<Rightarrow> ('u, 't) dispatcher \<Rightarrow> bool" where
  "rd_inv h d = (sharded h d \<and>
     (\<forall>u a. addr_of h d u = Some a \<longrightarrow> a < next_addr d) \<and>
     (\<forall>u v a. addr_of h d u = Some a \<longrightarrow> addr_of h d v = Some a \<longrightarrow> u = v))"

lemma get_bucket_less: "sharded h d \<Longrightarrow> get_bucket h u d < length (buckets d)"
  by (simp add: sharded_def get_bucket_def)

lemma rd_inv_init: "0 < n \<Longrightarrow> rd_inv h (ReplyDispatcher_init n)"
  by (simp add: rd_inv_def sharded_def ReplyDispatcher_init_def addr_of_def get_bucket_def)

lemma reply_map_init: "0 < n \<Longrightarrow> reply_map h (ReplyDispatcher_init n) = Map.empty"
  by (auto simp: reply_map_def addr_of_def ReplyDispatcher_init_def get_bucket_def)

lemma write_data_frame [simp]:
  "shard_count (write_data a v d) = shard_count d" "buckets (write_data a v d) = buckets d"
  "next_addr (write_data a v d) = next_addr d" "addr_of h (write_data a v d) = addr_of h d"
  "sharded h (write_data a v d) = sharded h d" "rd_inv h (write_data a v d) = rd_inv h d"
  by (simp_all add: write_data_def addr_of_def get_bucket_def sharded_def rd_inv_def fun_eq_iff)

lemma entries_write_data [simp]:
  "entries (write_data a v d) b = (if b = a then (entries d a)\<lparr>entry_data := v\<rparr> else entries d b)"
  by (simp add: write_data_def)

lemma addr_of_bucket:
  assumes "sharded h d" and "i < shard_count d" and "(u, a) \<in> set (buckets d ! i)"
  shows "addr_of h d u = Some a"
proof -
  have "h u mod shard_count d = i" "distinct (map fst (buckets d ! i))"
    using assms by (force simp: sharded_def)+
  then show ?thesis using assms(3) by (simp add: addr_of_def get_bucket_def)
qed

lemma reply_map_write_data:
  "reply_map h (write_data a v d) w =
     map_option ((entries d)(a := (entries d a)\<lparr>entry_data := v\<rparr>)) (addr_of h d w)"
  by (simp only: reply_map_def write_data_frame) (simp add: write_data_def)

lemma emplace_entry_spec:
  assumes inv: "rd_inv h d" and em: "emplace_entry h now u d = (a, d')"
  shows "addr_of h d' = (addr_of h d)(u \<mapsto> a)" and "rd_inv h d'"
    and "addr_of h d u = None \<Longrightarrow> entries d' = (entries d)(a := new_entry now) \<and> a = next_addr d"
    and "addr_of h d u \<noteq> None \<Longrightarrow> d' = d \<and> addr_of h d u = Some a"
proof -
  have sh: "sharded h d" using inv by (simp add: rd_inv_def)
  note less = get_bucket_less [OF sh]
  have hit: "d' = d \<and> addr_of h d u = Some a" if "addr_of h d u \<noteq> None"
    using em that by (auto simp: emplace_entry_def addr_of_def Let_def split: option.splits)
  have miss: "a = next_addr d \<and> d' = d\<lparr>buckets := (buckets d)[get_bucket h u d := (u, a) # buckets d ! get_bucket h u d],
      entries := (entries d)(a := new_entry now), next_addr := Suc a\<rparr>" if "addr_of h d u = None"
    using em that by (auto simp: emplace_entry_def addr_of_def Let_def split: option.splits)
  show addr: "addr_of h d' = (addr_of h d)(u \<mapsto> a)"
  proof (cases "addr_of h d u")
    case None
    then show ?thesis using miss less
      by (auto simp: addr_of_def fun_eq_iff get_bucket_def nth_list_update)
  qed (use hit in auto)
  show "rd_inv h d'"
  proof (cases "addr_of h d u")
    case None
    have "sharded h d'" using sh miss [OF None] None
      by (auto simp: sharded_def nth_list_update get_bucket_def addr_of_def map_of_eq_None_iff)
    moreover have "a = next_addr d" "next_addr d' = Suc a" using miss [OF None] by auto
    ultimately show ?thesis using inv unfolding rd_inv_def addr
      by (auto simp: less_Suc_eq split: if_splits)
  qed (use hit inv in auto)
  show "addr_of h d u = None \<Longrightarrow> entries d' = (entries d)(a := new_entry now) \<and> a = next_addr d"
    using miss by simp
  show "addr_of h d u \<noteq> None \<Longrightarrow> d' = d \<and> addr_of h d u = Some a" by (rule hit)
qed

lemma rd_inv_set_reply: "rd_inv h d \<Longrightarrow> rd_inv h (set_reply h now u v d)"
  by (cases "emplace_entry h now u d") (auto simp: set_reply_def dest: emplace_entry_spec(2))

lemma reply_map_set_reply:
  assumes "rd_inv h d"
  shows "reply_map h (set_reply h now u v d) = (reply_map h d)(u \<mapsto>
     \<lparr>entry_data = Some v,
      created_time = (case reply_map h d u of None \<Rightarrow> now | Some e \<Rightarrow> created_time e)\<rparr>)"
proof -
  obtain a d1 where em: "emplace_entry h now u d = (a, d1)" by force
  note spec = emplace_entry_spec [OF assms em]
  have other: "addr_of h d w \<noteq> Some a" if "w \<noteq> u" for w
    using assms spec(3,4) that by (cases "addr_of h d u") (auto simp: rd_inv_def)
  let ?e = "\<lparr>entry_data = Some v,
      created_time = (case reply_map h d u of None \<Rightarrow> now | Some e \<Rightarrow> created_time e)\<rparr>"
  have here: "(entries d1 a)\<lparr>entry_data := Some v\<rparr> = ?e"
    using spec(3,4) by (cases "addr_of h d u") (auto simp: reply_map_def new_entry_def)
  have there: "map_option ((entries d1)(a := e)) (addr_of h d w) = reply_map h d w" if "w \<noteq> u" for w e
  proof (cases "addr_of h d u")
    case None
    then have "entries d1 = (entries d)(a := new_entry now)" using spec(3) by simp
    then show ?thesis using other [OF that] by (cases "addr_of h d w") (auto simp: reply_map_def)
  next
    case (Some b)
    then have "d1 = d" using spec(4) by simp
    then show ?thesis using other [OF that] by (cases "addr_of h d w") (auto simp: reply_map_def)
  qed
  have "reply_map h (write_data a (Some v) d1) w = ((reply_map h d)(u \<mapsto> ?e)) w" for w
    using there [of w] here by (simp add: reply_map_write_data spec(1))
  then show ?thesis by (auto simp: set_reply_def em)
qed

lemma addr_of_erase:
  assumes "sharded h d"
  shows "addr_of h (erase_uuid h u d) = (addr_of h d)(u := None)"
  using get_bucket_less [OF assms]
  by (auto simp: addr_of_def erase_uuid_def get_bucket_def fun_eq_iff nth_list_update Let_def delete_conv)

lemma erase_frame [simp]:
  "entries (erase_uuid h u d) = entries d" "shard_count (erase_uuid h u d) = shard_count d"
  "next_addr (erase_uuid h u d) = next_addr d"
  by (simp_all add: erase_uuid_def Let_def)

lemma sharded_erase: "sharded h d \<Longrightarrow> sharded h (erase_uuid h u d)"
  by (auto simp: sharded_def erase_uuid_def Let_def nth_list_update get_bucket_def
      AList.delete_eq intro: filter_distinct_map)

lemma rd_inv_erase: "rd_inv h d \<Longrightarrow> rd_inv h (erase_uuid h u d)"
  by (auto simp: rd_inv_def addr_of_erase sharded_erase split: if_splits)

lemma reply_map_erase: "rd_inv h d \<Longrightarrow> reply_map h (erase_uuid h u d) = (reply_map h d)(u := None)"
  by (auto simp: reply_map_def rd_inv_def addr_of_erase)

lemma map_of_filter_key:
  "distinct (map fst al) \<Longrightarrow> map_of (filter (\<lambda>(u, a). P a) al) u =
     (case map_of al u of None \<Rightarrow> None | Some a \<Rightarrow> if P a then Some a else None)"
  by (induction al) (auto split: option.splits simp: map_of_eq_None_iff image_iff)

lemma addr_of_remove_expired:
  assumes "sharded h d"
  shows "addr_of h (remove_expired now ex d) u = (case addr_of h d u of None \<Rightarrow> None
     | Some a \<Rightarrow> if now - created_time (entries d a) > ex then None else Some a)"
proof -
  have "get_bucket h u d < length (buckets d)" "distinct (map fst (buckets d ! get_bucket h u d))"
    using assms get_bucket_less [OF assms] by (auto simp: sharded_def)
  then show ?thesis
    using map_of_filter_key [of "buckets d ! get_bucket h u d"
        "\<lambda>a. \<not> (now - created_time (entries d a) > ex)" u]
    by (auto simp: addr_of_def remove_expired_def get_bucket_def split: option.splits)
qed

lemma sharded_remove_expired: "sharded h d \<Longrightarrow> sharded h (remove_expired now ex d)"
  by (auto simp: sharded_def remove_expired_def intro: filter_distinct_map)

lemma remove_expired_frame [simp]:
  "entries (remove_expired now ex d) = entries d" "next_addr (remove_expired now ex d) = next_addr d"
  by (simp_all add: remove_expired_def)

lemma rd_inv_remove_expired: "rd_inv h d \<Longrightarrow> rd_inv h (remove_expired now ex d)"
  unfolding rd_inv_def
  by (auto simp: addr_of_remove_expired sharded_remove_expired split: option.splits if_splits)

lemma foldl_write_None_frame [simp]:
  "buckets (foldl (\<lambda>d a. write_data a None d) d as) = buckets d"
  "shard_count (foldl (\<lambda>d a. write_data a None d) d as) = shard_count d"
  "next_addr (foldl (\<lambda>d a. write_data a None d) d as) = next_addr d"
  by (induction as arbitrary: d) auto

lemma terminate_frame [simp]:
  "shard_count (dispatcher_terminate d) = shard_count d"
  "next_addr (dispatcher_terminate d) = next_addr d"
proof -
  have "shard_count (foldl (\<lambda>d i. foldl (\<lambda>d a. write_data a None d) (d\<lparr>buckets := (buckets d)[i := []]\<rparr>)
          (map snd (buckets d ! i))) d is) = shard_count d"
    "next_addr (foldl (\<lambda>d i. foldl (\<lambda>d a. write_data a None d) (d\<lparr>buckets := (buckets d)[i := []]\<rparr>)
          (map snd (buckets d ! i))) d is) = next_addr d" for "is"
    by (induction "is" arbitrary: d) auto
  then show "shard_count (dispatcher_terminate d) = shard_count d"
    "next_addr (dispatcher_terminate d) = next_addr d"
    by (simp_all add: dispatcher_terminate_def)
qed

lemma buckets_terminate: "buckets (dispatcher_terminate d) = replicate (length (buckets d)) []"
proof -
  have clear: "buckets (foldl (\<lambda>d i. foldl (\<lambda>d a. write_data a None d) (d\<lparr>buckets := (buckets d)[i := []]\<rparr>)
          (map snd (buckets d ! i))) d [0..<n]) = replicate n [] @ drop n (buckets d)"
    if "n \<le> length (buckets d)" for n
    using that
  proof (induction n)
    case (Suc n)
    then show ?case
      by (simp add: list_update_append replicate_append_same flip: Cons_nth_drop_Suc)
  qed simp
  show ?thesis using clear [of "length (buckets d)"] by (simp add: dispatcher_terminate_def)
qed

lemma addr_of_terminate: "sharded h d \<Longrightarrow> addr_of h (dispatcher_terminate d) = Map.empty"
  by (auto simp: addr_of_def buckets_terminate get_bucket_def sharded_def)

lemma rd_inv_terminate: "rd_inv h d \<Longrightarrow> rd_inv h (dispatcher_terminate d)"
  by (auto simp: rd_inv_def addr_of_terminate) (simp add: sharded_def buckets_terminate)

lemma rd_step_inv: "rd_inv h d \<Longrightarrow> rd_inv h (rd_step h d c)"
  by (cases c) (simp_all add: rd_inv_set_reply remove_def rd_inv_erase rd_inv_remove_expired rd_inv_terminate)

interpretation rd_ops: op_system "rd_step h" "\<lambda>_. True" "rd_inv h" for h
  by unfold_locales (rule rd_step_inv)

lemma rd_inv_run: "rd_inv h d \<Longrightarrow> rd_inv h (foldl (rd_step h) d cs)"
  using rd_ops.inv_run by (simp add: list_all_iff)

subsection \<open>The reply store interface\<close>

text \<open>What the request side relies on: a reply is delivered once, to its own UUID only.\<close>

locale reply_store =
  fixes replies :: "'d \<Rightarrow> 'u \<rightharpoonup> 't"
    and put :: "'u \<Rightarrow> 't \<Rightarrow> 'd \<Rightarrow> 'd"
    and get :: "'u \<Rightarrow> 'd \<Rightarrow> 't option \<times> 'd"
    and inv :: "'d \<Rightarrow> bool"
  assumes replies_put: "inv d \<Longrightarrow> replies (put u v d) = (replies d)(u \<mapsto> v)"
    and inv_put: "inv d \<Longrightarrow> inv (put u v d)"
    and get_result: "inv d \<Longrightarrow> fst (get u d) = replies d u"
    and replies_get: "inv d \<Longrightarrow> replies (snd (get u d)) = (replies d)(u := None)"
    and inv_get: "inv d \<Longrightarrow> inv (snd (get u d))"
begin

primrec put_all :: "('u \<times> 't) list \<Rightarrow> 'd \<Rightarrow> 'd" where
  "put_all [] d = d"
| "put_all (r # rs) d = put_all rs (put (fst r) (snd r) d)"

primrec get_all :: "'u list \<Rightarrow> 'd \<Rightarrow> 't option list" where
  "get_all [] d = []"
| "get_all (u # us) d = fst (get u d) # get_all us (snd (get u d))"

lemma put_all_replies:
  "inv d \<Longrightarrow> inv (put_all rs d) \<and> replies (put_all rs d) = replies d ++ map_of (rev rs)"
  by (induction rs arbitrary: d) (auto simp: inv_put replies_put map_add_def fun_eq_iff split: option.splits)

lemma get_all_replies: "inv d \<Longrightarrow> distinct us \<Longrightarrow> get_all us d = map (replies d) us"
  by (induction us arbitrary: d) (auto simp: inv_get get_result replies_get)

lemma put_get_all:
  assumes "inv d" and "distinct (map fst rs)" and "distinct us"
  shows "get_all us (put_all rs d) = map (replies d ++ map_of rs) us"
proof -
  have "map_of (rev rs) = map_of rs"
    using assms(2) by (intro map_of_eqI) (auto simp: rev_map [symmetric] map_of_inject_set)
  then show ?thesis using put_all_replies [OF assms(1)] get_all_replies assms(3) by metis
qed

end

definition get_now :: "('u \<Rightarrow> nat) \<Rightarrow> ('t \<Rightarrow> 't) \<Rightarrow> int \<Rightarrow> 'u \<Rightarrow> ('u, 't) dispatcher \<Rightarrow> 't option \<times> ('u, 't) dispatcher" where
  "get_now h mv now uuid d = wait_and_get h mv now uuid [] [] d"

lemma pending_set_reply: "rd_inv h d \<Longrightarrow> pending h (set_reply h now u v d) = (pending h d)(u \<mapsto> v)"
  by (auto simp: pending_def reply_map_set_reply fun_eq_iff)

lemma pending_erase: "rd_inv h d \<Longrightarrow> pending h (erase_uuid h u d) = (pending h d)(u := None)"
  by (auto simp: pending_def reply_map_erase fun_eq_iff)

lemma pending_emplace:
  assumes "rd_inv h d" and "emplace_entry h now u d = (a, d')"
  shows "pending h d' = pending h d" and "pending h d' u = entry_data (entries d' a)"
proof -
  note spec = emplace_entry_spec [OF assms]
  have fresh: "addr_of h d w \<noteq> Some (next_addr d)" for w using assms(1) by (auto simp: rd_inv_def)
  show eq: "pending h d' = pending h d"
  proof (cases "addr_of h d u")
    case None
    then show ?thesis using spec(1,3) fresh
      by (auto simp: pending_def reply_map_def fun_eq_iff new_entry_def Option.bind_map_option
          split: bind_split)
  qed (use spec(4) in auto)
  show "pending h d' u = entry_data (entries d' a)" using spec(1) by (simp add: pending_def reply_map_def)
qed

lemma pending_write_same:
  assumes "rd_inv h d" and "addr_of h d u = Some a"
  shows "(pending h (write_data a v d))(u := None) = (pending h d)(u := None)"
proof -
  have "addr_of h d w \<noteq> Some a" if "w \<noteq> u" for w using assms that by (auto simp: rd_inv_def)
  then show ?thesis
    by (fastforce simp: fun_eq_iff pending_def reply_map_def Option.bind_map_option split: bind_split)
qed

lemma get_now_spec:
  assumes inv: "rd_inv h d"
  shows "fst (get_now h mv now u d) = pending h d u"
    and "pending h (snd (get_now h mv now u d)) = (pending h d)(u := None)"
    and "rd_inv h (snd (get_now h mv now u d))"
proof -
  obtain a d1 where em: "emplace_entry h now u d = (a, d1)" by force
  note spec = emplace_entry_spec [OF inv em] and pend = pending_emplace [OF inv em]
  have a: "addr_of h d1 u = Some a" using spec(1) by simp
  show "fst (get_now h mv now u d) = pending h d u"
    using pend by (auto simp: get_now_def wait_and_get_def em Let_def)
  show "pending h (snd (get_now h mv now u d)) = (pending h d)(u := None)"
    using pend a spec(2) pending_write_same [OF spec(2) a]
    by (auto simp: get_now_def wait_and_get_def em Let_def pending_erase)
  show "rd_inv h (snd (get_now h mv now u d))"
    using spec(2) by (auto simp: get_now_def wait_and_get_def em Let_def rd_inv_erase)
qed

interpretation rd: reply_store "pending h" "set_reply h now" "get_now h mv now" "rd_inv h" for h mv now
  by unfold_locales (simp_all add: pending_set_reply rd_inv_set_reply get_now_spec)

fun reply_all :: "('u \<Rightarrow> nat) \<Rightarrow> int \<Rightarrow> ('u \<times> 't) list \<Rightarrow> ('u, 't) dispatcher \<Rightarrow> ('u, 't) dispatcher" where
  "reply_all h now [] d = d"
| "reply_all h now ((u, v) # rs) d = reply_all h now rs (set_reply h now u v d)"

fun collect_all :: "('u \<Rightarrow> nat) \<Rightarrow> ('t \<Rightarrow> 't) \<Rightarrow> int \<Rightarrow> 'u list \<Rightarrow> ('u, 't) dispatcher \<Rightarrow> 't option list" where
  "collect_all h mv now [] d = []"
| "collect_all h mv now (u # us) d =
     fst (get_now h mv now u d) # collect_all h mv now us (snd (get_now h mv now u d))"

lemma reply_all_put_all: "reply_all h now rs d = rd.put_all h now rs d"
  by (induction rs arbitrary: d) auto

lemma collect_all_get_all: "collect_all h mv now us d = rd.get_all h mv now us d"
  by (induction us arbitrary: d) auto


lemma entries_foldl_write_other:
  "a \<notin> set as \<Longrightarrow> entries (foldl (\<lambda>d b. write_data b None d) d as) a = entries d a"
  by (induction as arbitrary: d) auto

lemma entries_terminate_other:
  assumes "sharded h d" and "\<forall>u. addr_of h d u \<noteq> Some a"
  shows "entries (dispatcher_terminate d) a = entries d a"
proof -
  let ?clear = "\<lambda>d i. foldl (\<lambda>d a. write_data a None d) (d\<lparr>buckets := (buckets d)[i := []]\<rparr>)
          (map snd (buckets d ! i))"
  have keep: "entries (foldl ?clear e is) a = entries e a"
    if "\<forall>i < length (buckets e). a \<notin> snd ` set (buckets e ! i)" "set is \<subseteq> {..<length (buckets e)}"
    for e :: "('a, 'b) dispatcher" and "is"
    using that
  proof (induction "is" arbitrary: e)
    case (Cons i js)
    have "\<forall>j < length (buckets (?clear e i)). a \<notin> snd ` set (buckets (?clear e i) ! j)"
      using Cons.prems by (auto simp: nth_list_update)
    moreover have "entries (?clear e i) a = entries e a"
      using Cons.prems by (subst entries_foldl_write_other) auto
    ultimately show ?case using Cons.prems Cons.IH [of "?clear e i"] by simp
  qed simp
  have "\<forall>i < length (buckets d). a \<notin> snd ` set (buckets d ! i)"
  proof (intro allI impI notI)
    fix i assume "i < length (buckets d)" "a \<in> snd ` set (buckets d ! i)"
    moreover then obtain u where "(u, a) \<in> set (buckets d ! i)" by force
    ultimately have "addr_of h d u = Some a" using assms(1) by (simp add: addr_of_bucket sharded_def)
    with assms(2) show False by blast
  qed
  from keep [OF this, of "[0..<length (buckets d)]"] show ?thesis
    by (simp add: dispatcher_terminate_def lessThan_atLeast0)
qed

lemma entries_rd_step_other:
  assumes "rd_inv h d" and "a < next_addr d" and "\<forall>u. addr_of h d u \<noteq> Some a"
    and "\<And>v. c \<noteq> Call_write a v"
  shows "entries (rd_step h d c) a = entries d a \<and> a < next_addr (rd_step h d c)
       \<and> (\<forall>u. addr_of h (rd_step h d c) u \<noteq> Some a)"
proof (cases c)
  case (Call_set_reply now u v)
  obtain b d1 where em: "emplace_entry h now u d = (b, d1)" by force
  note spec = emplace_entry_spec [OF assms(1) em]
  have "b \<noteq> a" using spec(3,4) assms(2,3) by (cases "addr_of h d u") auto
  moreover have "entries d1 a = entries d a \<and> a < next_addr d1"
    using spec(3,4) assms(2) em
    by (cases "addr_of h d u") (auto simp: emplace_entry_def Let_def addr_of_def split: option.splits)
  ultimately show ?thesis using assms(3) spec(1)
    by (auto simp: Call_set_reply set_reply_def em)
next
  case (Call_write b v)
  then show ?thesis using assms by (auto simp: write_data_def addr_of_def get_bucket_def)
next
  case (Call_remove u)
  then show ?thesis using assms
    by (auto simp: remove_def rd_inv_def addr_of_erase split: if_splits)
next
  case (Call_remove_expired now ex)
  then show ?thesis using assms
    by (auto simp: rd_inv_def addr_of_remove_expired split: option.splits if_splits)
next
  case Call_terminate
  then show ?thesis using assms entries_terminate_other [OF _ assms(3)]
    by (auto simp: addr_of_terminate rd_inv_def)
qed


lemma entries_run_other:
  assumes "rd_inv h d" and "a < next_addr d" and "\<forall>u. addr_of h d u \<noteq> Some a"
    and "list_all (\<lambda>c. \<forall>v. c \<noteq> Call_write a v) cs"
  shows "entries (foldl (rd_step h) d cs) a = entries d a
       \<and> a < next_addr (foldl (rd_step h) d cs)
       \<and> (\<forall>u. addr_of h (foldl (rd_step h) d cs) u \<noteq> Some a)"
  using assms
proof (induction cs arbitrary: d)
  case (Cons c cs)
  then have "entries (rd_step h d c) a = entries d a" "a < next_addr (rd_step h d c)"
    "\<forall>u. addr_of h (rd_step h d c) u \<noteq> Some a"
    using entries_rd_step_other [of h d a c] by auto
  then show ?case using Cons.IH [of "rd_step h d c"] Cons.prems rd_step_inv [of h d c] by simp
qed simp

lemma wait_orphan:
  assumes "rd_inv h d" and "a < next_addr d" and "\<forall>u. addr_of h d u \<noteq> Some a"
    and "entry_data (entries d a) = None"
    and "list_all (list_all (\<lambda>c. \<forall>v. c \<noteq> Call_write a v)) wakes"
  shows "wait_entry h a wakes d = (False, foldl (rd_step h) d (concat wakes))"
  using assms
proof (induction wakes arbitrary: d)
  case (Cons w ws)
  let ?d = "foldl (rd_step h) d w"
  have "entries ?d a = entries d a" "a < next_addr ?d" "\<forall>u. addr_of h ?d u \<noteq> Some a"
    using entries_run_other [of h d a w] Cons.prems by auto
  then show ?case using Cons.IH [of ?d] Cons.prems rd_inv_run [of h d w] by simp
qed simp

lemma dom_reply_map:
  assumes "sharded h d"
  shows "dom (reply_map h d) = (\<Union>i\<in>{..<shard_count d}. fst ` set (buckets d ! i))"
proof -
  have "addr_of h d u \<noteq> None \<longleftrightarrow> (\<exists>i < shard_count d. u \<in> fst ` set (buckets d ! i))" for u
  proof
    assume "addr_of h d u \<noteq> None"
    then have "u \<in> fst ` set (buckets d ! get_bucket h u d)" by (simp add: addr_of_def map_of_eq_None_iff)
    moreover have "get_bucket h u d < shard_count d" using assms by (simp add: sharded_def get_bucket_def)
    ultimately show "\<exists>i < shard_count d. u \<in> fst ` set (buckets d ! i)" by blast
  qed (use addr_of_bucket [OF assms] in force)
  then show ?thesis by (auto simp: reply_map_def dom_def)
qed

lemma total_size_card:
  assumes "sharded h d"
  shows "total_size d = card (dom (reply_map h d))"
proof -
  have card: "card (fst ` set (buckets d ! i)) = length (buckets d ! i)" if "i < shard_count d" for i
    using assms that distinct_card [of "map fst (buckets d ! i)"] by (simp add: sharded_def)
  have "card (\<Union>i\<in>{..<shard_count d}. fst ` set (buckets d ! i))
      = (\<Sum>i < shard_count d. card (fst ` set (buckets d ! i)))"
    using assms by (intro card_UN_disjoint) (auto simp: sharded_def, metis fst_conv image_eqI)
  also have "\<dots> = (\<Sum>i < shard_count d. length (buckets d ! i))" using card by simp
  also have "\<dots> = total_size d"
    using assms by (simp add: total_size_def sharded_def sum_list_sum_nth lessThan_atLeast0)
  finally show ?thesis by (simp add: dom_reply_map [OF assms])
qed

subsection \<open>Properties\<close>



text \<open>
  C33. Matching of replies to requests.  When replies for pairwise different UUIDs have arrived, in
  any order, waiters that ask for pairwise different UUIDs, in any order, each get exactly the
  reply of their own UUID (and a reply that was pending before if none arrived).
\<close>

theorem replies_reach_their_requests:
  assumes "rd_inv h d" and "distinct (map fst rs)" and "distinct us"
  shows "collect_all h mv now us (reply_all h now rs d) = map (pending h d ++ map_of rs) us"
  using rd.put_get_all [OF assms] by (simp add: reply_all_put_all collect_all_get_all)

theorem replies_reach_their_requests_witness:
  "collect_all id id 1 [3, 19, 4] (reply_all id 1 [(19, ''b''), (3, ''a'')] (ReplyDispatcher_init 16))
     = [Some ''a'', Some ''b'', None]"
  using replies_reach_their_requests [OF rd_inv_init, of 16 "[(19, ''b''), (3, ''a'')]" "[3, 19, 4]" id id 1]
  by (simp add: pending_def reply_map_init)

text \<open>
  Termination does not wake a waiter.  A thread waiting for a UUID whose reply is not there
  stays asleep through \<open>terminate\<close> and through everything that follows, replies to its own UUID
  included (unless a \<open>set_reply\<close> that had already fetched the old entry writes into it): it returns
  only at its deadline, with nothing.
\<close>

theorem terminate_leaves_waiters_asleep:
  assumes "rd_inv h d" and "emplace_entry h now u d = (a, d1)" and "pending h d u = None"
    and "list_all (list_all (\<lambda>c. \<forall>v. c \<noteq> Call_write a v)) wakes"
  shows "wait_and_get h mv now u ([Call_terminate] # wakes) [] d =
           (None, foldl (rd_step h) (dispatcher_terminate d1) (concat wakes))"
proof -
  note spec = emplace_entry_spec [OF assms(1,2)] and pend = pending_emplace [OF assms(1,2)]
  let ?d = "dispatcher_terminate d1"
  have none: "entry_data (entries d1 a) = None" using pend assms(3) by simp
  have "addr_of h d1 u = Some a" using spec(1) by simp
  then have less: "a < next_addr d1" using spec(2) unfolding rd_inv_def by blast
  have keep: "entry_data (entries ?d a) = None"
  proof -
    have "entry_data (entries (foldl (\<lambda>d b. write_data b None d) e bs) a) = None"
      if "entry_data (entries e a) = None" for e :: "('a, 'b) dispatcher" and bs
      using that by (induction bs arbitrary: e) auto
    then have "entry_data (entries (foldl (\<lambda>d i. foldl (\<lambda>d a. write_data a None d)
        (d\<lparr>buckets := (buckets d)[i := []]\<rparr>) (map snd (buckets d ! i))) e is) a) = None"
      if "entry_data (entries e a) = None" for e :: "('a, 'b) dispatcher" and "is"
      using that by (induction "is" arbitrary: e) auto
    then show ?thesis using none by (simp add: dispatcher_terminate_def)
  qed
  have gone: "\<forall>w. addr_of h ?d w \<noteq> Some a" using spec(2) by (simp add: rd_inv_def addr_of_terminate)
  have "wait_entry h a wakes ?d = (False, foldl (rd_step h) ?d (concat wakes))"
    by (rule wait_orphan [OF rd_inv_terminate [OF spec(2)] _ gone keep assms(4)]) (simp add: less)
  then show ?thesis using assms(2) none by (simp add: wait_and_get_def)
qed

theorem terminate_leaves_waiters_asleep_witness:
  "fst (wait_and_get id id 0 3 [[Call_terminate], [Call_set_reply 1 3 (42::int)]] []
     (ReplyDispatcher_init 16)) = None"
  by (subst terminate_leaves_waiters_asleep [OF rd_inv_init surjective_pairing])
    (simp_all add: pending_def reply_map_def addr_of_def ReplyDispatcher_init_def get_bucket_def)

text \<open>
  A reply can be lost.  \<open>wait_and_get\<close> takes the data under the entry's mutex and erases the
  UUID later under the bucket's: a second reply to the same UUID that arrives in between is
  acknowledged by \<open>set_reply\<close> and then erased, so the next request for it finds nothing pending.
\<close>

theorem second_reply_lost_in_race:
  assumes "rd_inv h d" and "pending h d u = Some v1"
  shows "fst (wait_and_get h mv now u [] [Call_set_reply t u v2] d) = Some v1
       \<and> pending h (snd (wait_and_get h mv now u [] [Call_set_reply t u v2] d)) u = None"
proof -
  obtain a d1 where em: "emplace_entry h now u d = (a, d1)" by force
  note spec = emplace_entry_spec [OF assms(1) em] and pend = pending_emplace [OF assms(1) em]
  have "entry_data (entries d1 a) = Some v1" using pend assms(2) by simp
  moreover have "rd_inv h (set_reply h t u v2 (write_data a (Some (mv v1)) d1))"
    using spec(2) by (simp add: rd_inv_set_reply)
  ultimately show ?thesis by (simp add: wait_and_get_def em pending_erase)
qed

theorem second_reply_lost_in_race_witness:
  "fst (wait_and_get id id 0 3 [] [Call_set_reply 0 3 (2::int)] (set_reply id 0 3 1 (ReplyDispatcher_init 16))) = Some 1
   \<and> pending id (snd (wait_and_get id id 0 3 [] [Call_set_reply 0 3 (2::int)]
        (set_reply id 0 3 1 (ReplyDispatcher_init 16)))) 3 = None"
  by (rule second_reply_lost_in_race) (simp_all add: rd_inv_set_reply rd_inv_init pending_set_reply)

end
