(* ===== verification/Reply_Cleaner.thy ===== *)
theory Reply_Cleaner
  imports Reply_Dispatcher
begin

text \<open>
  \<open>ReplyDispatcherWithCleaner\<close> of \<open>BasicLibs/core/structure/ReplyDispatcherWithCleaner.h\<close>: a
  dispatcher with a \<open>SafeThread\<close> that removes expired entries periodically.  The delegating methods
  apply the dispatcher's; the cleanup loop is a function of what its iterations observe (the
  running flag, the clock, what other threads did to the dispatcher while it slept).
\<close>

datatype cleaner_fun = Cleanup_runner | Cleanup_closer

record ('u, 't) reply_cleaner =
  dispatcher_state :: "('u, 't) dispatcher"
  cleaner_thread :: "cleaner_fun safe_thread"
  expiration_time_ms :: int
  interval_time_ms :: int

definition ReplyCleaner_init :: "('u, 't) reply_cleaner" where
  "ReplyCleaner_init = \<lparr>dispatcher_state = ReplyDispatcher_init 16, cleaner_thread = SafeThread_init,
     expiration_time_ms = 30000, interval_time_ms = 30000\<rparr>"

definition cleaner_set_reply ::
  "('u \<Rightarrow> nat) \<Rightarrow> int \<Rightarrow> 'u \<Rightarrow> 't \<Rightarrow> ('u, 't) reply_cleaner \<Rightarrow> ('u, 't) reply_cleaner" where
  "cleaner_set_reply h now uuid data r =
     r\<lparr>dispatcher_state := set_reply h now uuid data (dispatcher_state r)\<rparr>"

definition cleaner_wait_and_get ::
  "('u \<Rightarrow> nat) \<Rightarrow> ('t \<Rightarrow> 't) \<Rightarrow> int \<Rightarrow> 'u \<Rightarrow> ('u, 't) rd_call list list \<Rightarrow> ('u, 't) rd_call list \<Rightarrow>
   ('u, 't) reply_cleaner \<Rightarrow> 't option \<times> ('u, 't) reply_cleaner" where
  "cleaner_wait_and_get h mv now uuid wakes race r =
     (case wait_and_get h mv now uuid wakes race (dispatcher_state r) of
        (v, d) \<Rightarrow> (v, r\<lparr>dispatcher_state := d\<rparr>))"

definition cleaner_terminate :: "('u, 't) reply_cleaner \<Rightarrow> ('u, 't) reply_cleaner" where
  "cleaner_terminate r = r\<lparr>dispatcher_state := dispatcher_terminate (dispatcher_state r)\<rparr>"

text \<open>
  One element per iteration: the running flag when the loop condition is tested, the clock in
  \<open>remove_expired\<close>, the calls of other threads during the wait, and the flag after it.
\<close>

type_synonym ('u, 't) cleanup_tick = "bool \<times> int \<times> ('u, 't) rd_call list \<times> bool"

fun CleanupRunner ::
  "('u \<Rightarrow> nat) \<Rightarrow> int \<Rightarrow> ('u, 't) cleanup_tick list \<Rightarrow> ('u, 't) dispatcher \<Rightarrow> ('u, 't) dispatcher" where
  "CleanupRunner h expiration [] d = d"
| "CleanupRunner h expiration ((running, now, calls, running') # ticks) d =
     (if running
      then let d1 = foldl (rd_step h) (remove_expired now expiration d) calls
           in if running' then CleanupRunner h expiration ticks d1 else d1
      else d)"

definition StartAutoCleanup ::
  "int \<Rightarrow> int \<Rightarrow> ('u, 't) reply_cleaner \<Rightarrow> thread_error + ('u, 't) reply_cleaner" where
  "StartAutoCleanup expiration_ms interval_ms r =
     (let interval = (if interval_ms < 100 then 100 else interval_ms);
          r1 = r\<lparr>expiration_time_ms := expiration_ms, interval_time_ms := interval\<rparr>;
          t = SetThreadFunctions (Some Cleanup_runner) (Some Cleanup_closer) (cleaner_thread r1)
      in map_sum id (\<lambda>(ok, t'). r1\<lparr>cleaner_thread := t'\<rparr>) (Start t))"

definition StopAutoCleanup :: "('u, 't) reply_cleaner \<Rightarrow> ('u, 't) reply_cleaner" where
  "StopAutoCleanup r = r\<lparr>cleaner_thread := Stop (cleaner_thread r)\<rparr>"

lemma CleanupRunner_inv: "rd_inv h d \<Longrightarrow> rd_inv h (CleanupRunner h e ticks d)"
  by (induction h e ticks d rule: CleanupRunner.induct)
    (auto simp: Let_def rd_inv_run rd_inv_remove_expired)

text \<open>
  The cleaner bounds the age of what is kept.  After a round at time \<open>now\<close>, every entry of the
  table is at most \<open>expiration\<close> old and is an entry that was there before with its data; nothing
  younger is lost.
\<close>

theorem cleanup_round_keeps_exactly_young:
  assumes "rd_inv h d"
  shows "reply_map h (CleanupRunner h ex [(True, now, [], False)] d) u = Some e \<longleftrightarrow>
           reply_map h d u = Some e \<and> now - created_time e \<le> ex"
  using assms by (cases "addr_of h d u")
    (auto simp: reply_map_def rd_inv_def addr_of_remove_expired)

theorem cleanup_round_keeps_exactly_young_witness:
  "reply_map id (CleanupRunner id 30000 [(True, 40000, [], False)]
      (set_reply id 1000 3 ''r'' (ReplyDispatcher_init 16))) 3 = None"
proof -
  let ?d = "set_reply id 1000 3 ''r'' (ReplyDispatcher_init 16)"
  have inv: "rd_inv id ?d" by (simp add: rd_inv_set_reply rd_inv_init)
  have "reply_map id ?d 3 = Some e \<Longrightarrow> created_time e = 1000" for e
    by (auto simp: reply_map_set_reply rd_inv_init reply_map_init)
  then have "reply_map id (CleanupRunner id 30000 [(True, 40000, [], False)] ?d) 3 \<noteq> Some e" for e
    using cleanup_round_keeps_exactly_young [OF inv, of 30000 40000 3 e] by auto
  then show ?thesis by fastforce
qed

text \<open>
  Starting the cleaner never aborts on a thread in a consistent state, never polls faster than
  every 100 ms, and installs the cleanup loop; stopping joins the thread.
\<close>

theorem auto_cleanup_lifecycle:
  assumes "thread_inv (cleaner_thread r)"
  shows "\<exists>r'. StartAutoCleanup ex iv r = Inr r' \<and> interval_time_ms r' = max 100 iv
           \<and> expiration_time_ms r' = ex \<and> is_running (cleaner_thread r')
           \<and> thread_runner (cleaner_thread r') = Some Cleanup_runner
           \<and> \<not> is_running (cleaner_thread (StopAutoCleanup r'))
           \<and> \<not> joinable (cleaner_thread (StopAutoCleanup r'))"
proof -
  let ?t = "SetThreadFunctions (Some Cleanup_runner) (Some Cleanup_closer) (cleaner_thread r)"
  have inv: "thread_inv ?t" using assms by (rule thread_inv_SetThreadFunctions)
  then obtain t' where t': "Start ?t = Inr (True, t')" "thread_inv t'" "is_running t'"
    using thread_inv_Start by blast
  moreover have "thread_runner t' = Some Cleanup_runner"
    using t'(1) by (auto simp: Start_def SetThreadFunctions_def Let_def split: if_splits)
  moreover have "thread_inv (Stop t')" "\<not> is_running (Stop t')"
    using thread_inv_Stop [OF t'(2)] by auto
  ultimately show ?thesis
    by (auto simp: StartAutoCleanup_def StopAutoCleanup_def Let_def thread_inv_def)
qed

theorem auto_cleanup_lifecycle_witness:
  "\<exists>r'. StartAutoCleanup 30000 5 (ReplyCleaner_init :: (nat, int) reply_cleaner) = Inr r'
     \<and> interval_time_ms r' = 100"
proof -
  have "thread_inv (cleaner_thread (ReplyCleaner_init :: (nat, int) reply_cleaner))"
    by (simp add: ReplyCleaner_init_def thread_inv_def SafeThread_init_def count_joined_def)
  from auto_cleanup_lifecycle [OF this, of 30000 5] show ?thesis by auto
qed

end
