(* ===== verification/Schedule_Types.thy ===== *)
theory Schedule_Types
  imports Prelude
begin

text \<open>
  The data of an abnormal-event schedule: \<open>EventClass\<close> (\<open>AbnormalEventTypes.h\<close>), the constants of
  \<open>DefineDefault\<close>, the event levels, the ROI type codes and \<open>AbnormalEventScheduleInfo\<close>
  (\<open>SettingData.h\<close>), and the tracking flags (\<open>TrackerTypes.h\<close>).  An \<open>enum class\<close> over \<open>int\<close> can hold
  any \<open>int\<close> (the parser casts the code it receives), so \<open>EventClass\<close> has a constructor for a code
  that is none of the enumerators.
\<close>

datatype EventClass = NoEvent | LineIntrusion | AreaIntrusion | VehicleIntrusion | VehicleParking
  | OtherEvent int

definition EventClass_of_int :: "int \<Rightarrow> EventClass" where
  "EventClass_of_int c =
     (if c = -1 then NoEvent else if c = 202 then LineIntrusion else if c = 203 then AreaIntrusion
      else if c = 209 then VehicleIntrusion else if c = 210 then VehicleParking else OtherEvent c)"

definition MIN_ABOUT_1_DAY :: int where "MIN_ABOUT_1_DAY = 1440"
definition DAY_ABOUT_1_WEEK :: nat where "DAY_ABOUT_1_WEEK = 7"
definition WEEKLY_DAY_ON :: int where "WEEKLY_DAY_ON = 1"
definition MINIMUM_EVENT_ACTIVE_INTERVAL_SEC :: int where "MINIMUM_EVENT_ACTIVE_INTERVAL_SEC = 60"
definition DEFAULT_EVENT_REQUIR_DURATION_SEC :: int where "DEFAULT_EVENT_REQUIR_DURATION_SEC = 1"
definition DEFAULT_EVENT_LOITER_DURATION_SEC :: int where "DEFAULT_EVENT_LOITER_DURATION_SEC = 60"
definition DEFAULT_EVENT_FRAME_RELEASE_S_SEC :: int where "DEFAULT_EVENT_FRAME_RELEASE_S_SEC = 10"
definition DEFAULT_EVENT_FRAME_RELEASE_L_SEC :: int where "DEFAULT_EVENT_FRAME_RELEASE_L_SEC = 120"

lemmas DefineDefault_defs = MIN_ABOUT_1_DAY_def DAY_ABOUT_1_WEEK_def WEEKLY_DAY_ON_def
  MINIMUM_EVENT_ACTIVE_INTERVAL_SEC_def DEFAULT_EVENT_REQUIR_DURATION_SEC_def
  DEFAULT_EVENT_LOITER_DURATION_SEC_def DEFAULT_EVENT_FRAME_RELEASE_S_SEC_def
  DEFAULT_EVENT_FRAME_RELEASE_L_SEC_def

definition LowLevel :: int where "LowLevel = 1"
definition IncludeArea :: int where "IncludeArea = 1"
definition ExcludeArea :: int where "ExcludeArea = 2"
definition TwoWayLine :: int where "TwoWayLine = 3"
definition OneWayLine :: int where "OneWayLine = 4"

lemmas RoiType_defs = IncludeArea_def ExcludeArea_def TwoWayLine_def OneWayLine_def

type_synonym ROI_OneArea = "(cfloat \<times> cfloat) list"
type_synonym ROI = "ROI_OneArea list"

record AbnormalEventScheduleInfo =
  schedule_id :: int
  event_code :: EventClass
  level_code :: int
  start_time :: string
  range_minutes :: int
  weekly :: "int list"
  roi :: ROI
  exclude_roi :: ROI
  two_way_roi :: ROI
  one_way_roi :: ROI
  black_list_days :: "string list"
  notification_min_interval_sec :: int
  loitering_require_dur_sec :: int

definition NON_TRACKING_IDX :: int where "NON_TRACKING_IDX = -1"

type_synonym TrackFlag = "8 word"

definition TRACK_ALL_OFF :: TrackFlag where "TRACK_ALL_OFF = 0b00000000"
definition TRACK_ON_PERSON :: TrackFlag where "TRACK_ON_PERSON = 0b00000001"
definition TRACK_ON_CAR :: TrackFlag where "TRACK_ON_CAR = 0b00000010"

end
