(* ===== verification/Json.thy ===== *)
theory Json
  imports Prelude "HOL-Library.AList"
begin

text \<open>
  The JSON values of \<open>nlohmann::json\<close> (vendored as \<open>BasicLibs/core/parser/json/json.hpp\<close>) and the
  accessors the sources use.  An accessor that throws is \<open>None\<close>.  The members of an object are an
  association list; only look-ups are observed, so their order does not matter.  Numbers keep the
  two kinds the library distinguishes, integers (signed or unsigned, 64 bits) and floating point.
\<close>

datatype json = JNull | JBool bool | JInt int | JFloat cfloat | JString string
  | JArray "json list" | JObject "(string \<times> json) list"

fun is_null :: "json \<Rightarrow> bool" where
  "is_null JNull = True" | "is_null _ = False"

fun is_object :: "json \<Rightarrow> bool" where
  "is_object (JObject _) = True" | "is_object _ = False"

fun is_array :: "json \<Rightarrow> bool" where
  "is_array (JArray _) = True" | "is_array _ = False"

fun is_string :: "json \<Rightarrow> bool" where
  "is_string (JString _) = True" | "is_string _ = False"

fun is_number_integer :: "json \<Rightarrow> bool" where
  "is_number_integer (JInt _) = True" | "is_number_integer _ = False"

fun is_number :: "json \<Rightarrow> bool" where
  "is_number (JInt _) = True" | "is_number (JFloat _) = True" | "is_number _ = False"

text \<open>Iteration and \<open>size\<close> are only used on arrays; \<open>empty\<close> on any value.\<close>

fun elements :: "json \<Rightarrow> json list" where
  "elements (JArray xs) = xs" | "elements _ = []"

fun json_empty :: "json \<Rightarrow> bool" where
  "json_empty JNull = True"
| "json_empty (JArray xs) = (xs = [])"
| "json_empty (JObject ms) = (ms = [])"
| "json_empty _ = False"

fun contains :: "json \<Rightarrow> string \<Rightarrow> bool" where
  "contains (JObject ms) key = (map_of ms key \<noteq> None)"
| "contains _ _ = False"

text \<open>The constant \<open>operator[]\<close>: an absent key is an assertion failure, another type throws.\<close>

fun at_key :: "json \<Rightarrow> string \<Rightarrow> json option" where
  "at_key (JObject ms) key = map_of ms key"
| "at_key _ _ = None"

text \<open>Assignment through the mutable \<open>operator[]\<close>.\<close>

fun set_key :: "json \<Rightarrow> string \<Rightarrow> json \<Rightarrow> json option" where
  "set_key JNull key v = Some (JObject [(key, v)])"
| "set_key (JObject ms) key v = Some (JObject (AList.update key v ms))"
| "set_key _ _ _ = None"

text \<open>Conversions to 32-bit integers wrap; a floating-point number is truncated.\<close>

definition to_int32 :: "int \<Rightarrow> int" where
  "to_int32 i = (i + 2 ^ 31) mod 2 ^ 32 - 2 ^ 31"

definition trunc_float :: "cfloat \<Rightarrow> int" where
  "trunc_float r = (if 0 \<le> r then \<lfloor>r\<rfloor> else \<lceil>r\<rceil>)"

fun get_int :: "json \<Rightarrow> int option" where
  "get_int (JInt i) = Some (to_int32 i)"
| "get_int (JFloat r) = Some (trunc_float r)"
| "get_int (JBool b) = Some (if b then 1 else 0)"
| "get_int _ = None"

text \<open>An enumeration is read as a number, without the boolean case.\<close>

fun get_enum :: "json \<Rightarrow> int option" where
  "get_enum (JInt i) = Some (to_int32 i)"
| "get_enum (JFloat r) = Some (trunc_float r)"
| "get_enum _ = None"

fun get_float :: "json \<Rightarrow> cfloat option" where
  "get_float (JInt i) = Some (of_int i)"
| "get_float (JFloat r) = Some r"
| "get_float (JBool b) = Some (if b then 1 else 0)"
| "get_float _ = None"

fun get_string :: "json \<Rightarrow> string option" where
  "get_string (JString s) = Some s"
| "get_string _ = None"

text \<open>\<open>value(key, default)\<close>, for the reader \<open>get\<close> of the type of the default.\<close>

fun json_value :: "(json \<Rightarrow> 'a option) \<Rightarrow> json \<Rightarrow> string \<Rightarrow> 'a \<Rightarrow> 'a option" where
  "json_value get (JObject ms) key d = (case map_of ms key of None \<Rightarrow> Some d | Some v \<Rightarrow> get v)"
| "json_value get _ key d = None"

lemma contains_iff_at_key: "contains j key \<longleftrightarrow> (\<exists>v. at_key j key = Some v)"
  by (cases j) auto

lemma to_int32_id: "- (2 ^ 31) \<le> i \<Longrightarrow> i < 2 ^ 31 \<Longrightarrow> to_int32 i = i"
  by (simp add: to_int32_def)

lemma to_int32_range: "- (2 ^ 31) \<le> to_int32 i \<and> to_int32 i < 2 ^ 31"
  by (simp add: to_int32_def)

lemma get_int_integer: "is_number_integer j \<Longrightarrow> \<exists>i. get_int j = Some i"
  by (cases j) auto

lemma get_float_number: "is_number j \<Longrightarrow> \<exists>r. get_float j = Some r"
  by (cases j) auto

lemma get_string_string: "is_string j \<Longrightarrow> \<exists>s. get_string j = Some s"
  by (cases j) auto

end
