(* ===== verification/Infer_Object.thy ===== *)
theory Infer_Object
  imports Prelude
begin

unbundle bit_operations_syntax

text \<open>
  \<open>InferObject\<close>, \<open>ImageExpressStyle\<close> and the coordinate conversions of
  \<open>BasicLibs/core/types/InferObject.h\<close> and \<open>InferObject.cpp\<close>: a detection moves between the letterboxed
  frame the network sees, the camera frame and the 0..1 ratio system.  \<open>float\<close> arithmetic is exact
  real arithmetic.  The branches for enum values outside the enumerators do not exist in the
  datatypes.
\<close>

datatype BBoxReferenceType = cx_type | ltx_type

datatype BBoxCoordinateFormat = ratio_float | pixel_int

record InferBBox =
  bbox_x :: cfloat
  bbox_y :: cfloat
  bbox_w :: cfloat
  bbox_h :: cfloat

record InferObject =
  infer_engine_id :: u32
  class_id :: int
  track_id :: int
  score :: cfloat
  bbox :: InferBBox
  xy_ref_type :: BBoxReferenceType
  coord_format :: BBoxCoordinateFormat
  extend_data :: "cfloat list"

definition InferBBox_default :: InferBBox where
  "InferBBox_default = \<lparr>bbox_x = 0, bbox_y = 0, bbox_w = 0, bbox_h = 0\<rparr>"

definition InferObject_default :: InferObject where
  "InferObject_default = \<lparr>infer_engine_id = 0, class_id = -1, track_id = -2, score = 0,
     bbox = InferBBox_default, xy_ref_type = ltx_type, coord_format = pixel_int, extend_data = []\<rparr>"

text \<open>Copying and moving; the second component of a move is the moved-from source object.\<close>

definition InferObject_copy :: "InferObject \<Rightarrow> InferObject" where
  "InferObject_copy other = \<lparr>infer_engine_id = infer_engine_id other, class_id = class_id other,
     track_id = track_id other, score = score other, bbox = bbox other,
     xy_ref_type = xy_ref_type other, coord_format = coord_format other,
     extend_data = extend_data other\<rparr>"

definition InferObject_move :: "InferObject \<Rightarrow> InferObject \<times> InferObject" where
  "InferObject_move other =
     (\<lparr>infer_engine_id = infer_engine_id other, class_id = class_id other,
       track_id = track_id other, score = score other, bbox = bbox other,
       xy_ref_type = xy_ref_type other, coord_format = coord_format other,
       extend_data = extend_data other\<rparr>,
      other\<lparr>infer_engine_id := 0, class_id := -1, track_id := -2, score := 0,
        xy_ref_type := ltx_type, coord_format := pixel_int, extend_data := []\<rparr>)"

definition FLT_EPSILON :: cfloat where
  "FLT_EPSILON = 1 / 2 ^ 23"

definition are_equal_float :: "cfloat \<Rightarrow> cfloat \<Rightarrow> bool" where
  "are_equal_float a b = (\<bar>a - b\<bar> < FLT_EPSILON)"

definition InferObject_eq :: "InferObject \<Rightarrow> InferObject \<Rightarrow> bool" where
  "InferObject_eq lhs rhs =
     (infer_engine_id lhs = infer_engine_id rhs \<and> class_id lhs = class_id rhs
      \<and> track_id lhs = track_id rhs \<and> are_equal_float (score lhs) (score rhs)
      \<and> are_equal_float (bbox_x (bbox lhs)) (bbox_x (bbox rhs))
      \<and> are_equal_float (bbox_y (bbox lhs)) (bbox_y (bbox rhs))
      \<and> are_equal_float (bbox_w (bbox lhs)) (bbox_w (bbox rhs))
      \<and> are_equal_float (bbox_h (bbox lhs)) (bbox_h (bbox rhs))
      \<and> xy_ref_type lhs = xy_ref_type rhs \<and> coord_format lhs = coord_format rhs)"

text \<open>\<open>std::hash\<close> of the standard types is a parameter for each type.\<close>

definition hash_combine :: "u64 \<Rightarrow> u64 \<Rightarrow> u64" where
  "hash_combine seed v = seed XOR (v + 0x9e3779b9 + push_bit 6 seed + drop_bit 2 seed)"

definition InferObject_hash ::
  "(u32 \<Rightarrow> u64) \<Rightarrow> (int \<Rightarrow> u64) \<Rightarrow> (u64 \<Rightarrow> u64) \<Rightarrow> InferObject \<Rightarrow> u64" where
  "InferObject_hash h_engine h_class h_size obj =
     (let seed1 = hash_combine 0 (h_engine (infer_engine_id obj));
          seed2 = hash_combine seed1 (h_class (class_id obj));
          cut_int_pos = word_of_int \<lfloor>score obj * 1000\<rfloor>
      in hash_combine seed2 (h_size cut_int_pos))"

subsection \<open>Coordinate systems\<close>

record ImageExpressStyle =
  style_width :: int
  style_height :: int
  style_format :: BBoxCoordinateFormat
  style_ref_type :: BBoxReferenceType
  is_padded_or_scaled :: bool
  scale_factor_from_original :: cfloat
  pad_x_offset :: int
  pad_y_offset :: int
  original_width :: int
  original_height :: int

definition ImageExpressStyle_new ::
  "int \<Rightarrow> int \<Rightarrow> BBoxCoordinateFormat \<Rightarrow> BBoxReferenceType \<Rightarrow> bool \<Rightarrow> cfloat \<Rightarrow> int \<Rightarrow> int \<Rightarrow> int \<Rightarrow> int
   \<Rightarrow> ImageExpressStyle" where
  "ImageExpressStyle_new w h fmt ref padded scale px py ow oh =
     \<lparr>style_width = w, style_height = h, style_format = fmt, style_ref_type = ref,
      is_padded_or_scaled = padded, scale_factor_from_original = scale,
      pad_x_offset = px, pad_y_offset = py,
      original_width = (if padded \<and> ow = 0 \<and> w > 0 then w else ow),
      original_height = (if padded \<and> oh = 0 \<and> h > 0 then h else oh)\<rparr>"

definition ConvertToIntermediateRatioLtx ::
  "InferBBox \<Rightarrow> BBoxReferenceType \<Rightarrow> BBoxCoordinateFormat \<Rightarrow> int \<Rightarrow> int \<Rightarrow> InferBBox option" where
  "ConvertToIntermediateRatioLtx b ref_type format src_width src_height =
     (if src_width \<le> 0 \<or> src_height \<le> 0 then None
      else let t = (case format of
                 pixel_int \<Rightarrow> \<lparr>bbox_x = bbox_x b / src_width, bbox_y = bbox_y b / src_height,
                               bbox_w = bbox_w b / src_width, bbox_h = bbox_h b / src_height\<rparr>
               | ratio_float \<Rightarrow> b)
           in Some (case ref_type of
                 cx_type \<Rightarrow> t\<lparr>bbox_x := bbox_x t - bbox_w t / 2, bbox_y := bbox_y t - bbox_h t / 2\<rparr>
               | ltx_type \<Rightarrow> t))"

definition ConvertFromIntermediateRatioLtx :: "InferBBox \<Rightarrow> ImageExpressStyle \<Rightarrow> InferBBox option" where
  "ConvertFromIntermediateRatioLtx r dst =
     (if style_width dst \<le> 0 \<or> style_height dst \<le> 0 then None
      else let t = (case style_ref_type dst of
                 cx_type \<Rightarrow> r\<lparr>bbox_x := bbox_x r + bbox_w r / 2, bbox_y := bbox_y r + bbox_h r / 2\<rparr>
               | ltx_type \<Rightarrow> r)
           in Some (case style_format dst of
                 pixel_int \<Rightarrow> \<lparr>bbox_x = bbox_x t * style_width dst, bbox_y = bbox_y t * style_height dst,
                               bbox_w = bbox_w t * style_width dst, bbox_h = bbox_h t * style_height dst\<rparr>
               | ratio_float \<Rightarrow> t))"

definition styles_are_identical :: "InferObject \<Rightarrow> ImageExpressStyle \<Rightarrow> ImageExpressStyle \<Rightarrow> bool" where
  "styles_are_identical obj src dst =
     (let basic_properties_match =
            (coord_format obj = style_format dst \<and> xy_ref_type obj = style_ref_type dst
             \<and> style_width src = style_width dst \<and> style_height src = style_height dst
             \<and> is_padded_or_scaled src = is_padded_or_scaled dst);
          padding_details_match =
            (basic_properties_match \<and> is_padded_or_scaled src
             \<and> are_equal_float (scale_factor_from_original src) (scale_factor_from_original dst)
             \<and> pad_x_offset src = pad_x_offset dst \<and> pad_y_offset src = pad_y_offset dst
             \<and> original_width src = original_width dst \<and> original_height src = original_height dst)
      in basic_properties_match \<and> (\<not> is_padded_or_scaled src \<or> padding_details_match))"

text \<open>Step 2, case 1: from a padded frame back to the original one.\<close>

definition padded_to_original :: "ImageExpressStyle \<Rightarrow> ImageExpressStyle \<Rightarrow> InferBBox \<Rightarrow> InferBBox" where
  "padded_to_original src dst r =
     (if scale_factor_from_original src \<le> 1 / 10 ^ 6
         \<or> style_width dst \<le> 0 \<or> style_height dst \<le> 0 \<or> style_width src \<le> 0 \<or> style_height src \<le> 0
         \<or> original_width src \<le> 0 \<or> original_height src \<le> 0
         \<or> style_width dst \<noteq> original_width src \<or> style_height dst \<noteq> original_height src
      then r
      else let px1_scaled = bbox_x r * style_width src - pad_x_offset src;
               py1_scaled = bbox_y r * style_height src - pad_y_offset src;
               inv_scale = 1 / scale_factor_from_original src;
               inv_dst_w = 1 / style_width dst;
               inv_dst_h = 1 / style_height dst
           in \<lparr>bbox_x = px1_scaled * inv_scale * inv_dst_w, bbox_y = py1_scaled * inv_scale * inv_dst_h,
               bbox_w = bbox_w r * style_width src * inv_scale * inv_dst_w,
               bbox_h = bbox_h r * style_height src * inv_scale * inv_dst_h\<rparr>)"

text \<open>Step 2, case 2: from an original frame into a padded one.\<close>

definition original_to_padded :: "ImageExpressStyle \<Rightarrow> ImageExpressStyle \<Rightarrow> InferBBox \<Rightarrow> InferBBox" where
  "original_to_padded src dst r =
     (if scale_factor_from_original dst \<le> 1 / 10 ^ 6
         \<or> style_width src \<le> 0 \<or> style_height src \<le> 0 \<or> style_width dst \<le> 0 \<or> style_height dst \<le> 0
         \<or> original_width dst \<le> 0 \<or> original_height dst \<le> 0
         \<or> style_width src \<noteq> original_width dst \<or> style_height src \<noteq> original_height dst
      then r
      else let s = scale_factor_from_original dst;
               px1_padded = bbox_x r * style_width src * s + pad_x_offset dst;
               py1_padded = bbox_y r * style_height src * s + pad_y_offset dst;
               inv_dst_w = 1 / style_width dst;
               inv_dst_h = 1 / style_height dst
           in \<lparr>bbox_x = px1_padded * inv_dst_w, bbox_y = py1_padded * inv_dst_h,
               bbox_w = bbox_w r * style_width src * s * inv_dst_w,
               bbox_h = bbox_h r * style_height src * s * inv_dst_h\<rparr>)"

text \<open>Step 4a: the corners are clamped to the frame and the box is rebuilt from them.\<close>

definition clamp_bbox :: "cfloat \<Rightarrow> cfloat \<Rightarrow> BBoxReferenceType \<Rightarrow> InferBBox \<Rightarrow> InferBBox" where
  "clamp_bbox max_x max_y ref b =
     (let (x1, y1, x2, y2) = (case ref of
             ltx_type \<Rightarrow> (bbox_x b, bbox_y b, bbox_x b + bbox_w b, bbox_y b + bbox_h b)
           | cx_type \<Rightarrow> (bbox_x b - bbox_w b / 2, bbox_y b - bbox_h b / 2,
                         bbox_x b + bbox_w b / 2, bbox_y b + bbox_h b / 2));
          cx1 = max 0 (min x1 max_x);
          cy1 = max 0 (min y1 max_y);
          cx2 = max cx1 (min x2 max_x);
          cy2 = max cy1 (min y2 max_y);
          cw = cx2 - cx1;
          ch = cy2 - cy1
      in case ref of
           ltx_type \<Rightarrow> \<lparr>bbox_x = cx1, bbox_y = cy1, bbox_w = cw, bbox_h = ch\<rparr>
         | cx_type \<Rightarrow> \<lparr>bbox_x = cx1 + cw / 2, bbox_y = cy1 + ch / 2, bbox_w = cw, bbox_h = ch\<rparr>)"

definition adjust_padding :: "ImageExpressStyle \<Rightarrow> ImageExpressStyle \<Rightarrow> InferBBox \<Rightarrow> InferBBox" where
  "adjust_padding src dst r =
     (if is_padded_or_scaled src \<and> \<not> is_padded_or_scaled dst then padded_to_original src dst r
      else if \<not> is_padded_or_scaled src \<and> is_padded_or_scaled dst then original_to_padded src dst r
      else r)"

definition clamp_object :: "ImageExpressStyle \<Rightarrow> InferObject \<Rightarrow> InferObject" where
  "clamp_object dst obj =
     (if coord_format obj = pixel_int \<and> style_width dst > 0 \<and> style_height dst > 0
      then obj\<lparr>bbox := clamp_bbox (style_width dst) (style_height dst) (xy_ref_type obj) (bbox obj)\<rparr>
      else if coord_format obj = ratio_float
      then obj\<lparr>bbox := clamp_bbox 1 1 (xy_ref_type obj) (bbox obj)\<rparr>
      else obj)"

definition ConvertInferObjectCoordinate ::
  "InferObject \<Rightarrow> ImageExpressStyle \<Rightarrow> ImageExpressStyle \<Rightarrow> bool \<times> InferObject" where
  "ConvertInferObjectCoordinate obj src dst =
     (if styles_are_identical obj src dst then (True, obj)
      else case ConvertToIntermediateRatioLtx (bbox obj) (xy_ref_type obj) (coord_format obj)
                  (style_width src) (style_height src) of
             None \<Rightarrow> (False, obj)
           | Some r \<Rightarrow>
               (case ConvertFromIntermediateRatioLtx (adjust_padding src dst r) dst of
                  None \<Rightarrow> (False, obj)
                | Some final_bbox \<Rightarrow>
                    (True, clamp_object dst
                       (obj\<lparr>bbox := final_bbox, coord_format := style_format dst,
                            xy_ref_type := style_ref_type dst\<rparr>))))"

definition ConvertInferObjectsCoordinates ::
  "InferObject list \<Rightarrow> ImageExpressStyle \<Rightarrow> ImageExpressStyle \<Rightarrow> nat \<times> InferObject list" where
  "ConvertInferObjectsCoordinates objects src dst =
     (let rs = map (\<lambda>obj. ConvertInferObjectCoordinate obj src dst) objects
      in (length (filter (\<lambda>r. \<not> fst r) rs), map snd rs))"

subsection \<open>Boxes inside a frame\<close>

definition frame_limit :: "ImageExpressStyle \<Rightarrow> cfloat \<times> cfloat" where
  "frame_limit st = (case style_format st of
     pixel_int \<Rightarrow> (real_of_int (style_width st), real_of_int (style_height st))
   | ratio_float \<Rightarrow> (1, 1))"

definition corners :: "BBoxReferenceType \<Rightarrow> InferBBox \<Rightarrow> cfloat \<times> cfloat \<times> cfloat \<times> cfloat" where
  "corners ref b = (case ref of
     ltx_type \<Rightarrow> (bbox_x b, bbox_y b, bbox_x b + bbox_w b, bbox_y b + bbox_h b)
   | cx_type \<Rightarrow> (bbox_x b - bbox_w b / 2, bbox_y b - bbox_h b / 2,
                 bbox_x b + bbox_w b / 2, bbox_y b + bbox_h b / 2))"

definition box_within :: "cfloat \<times> cfloat \<Rightarrow> BBoxReferenceType \<Rightarrow> InferBBox \<Rightarrow> bool" where
  "box_within bound ref b = (case corners ref b of (x1, y1, x2, y2) \<Rightarrow>
     0 \<le> x1 \<and> x1 \<le> x2 \<and> x2 \<le> fst bound \<and> 0 \<le> y1 \<and> y1 \<le> y2 \<and> y2 \<le> snd bound)"

lemma corners_clamp_bbox:
  "corners ref (clamp_bbox mx my ref b) =
     (case corners ref b of (x1, y1, x2, y2) \<Rightarrow>
       (max 0 (min x1 mx), max 0 (min y1 my),
        max (max 0 (min x1 mx)) (min x2 mx), max (max 0 (min y1 my)) (min y2 my)))"
  by (cases ref) (simp_all add: corners_def clamp_bbox_def Let_def field_simps)

lemma clamp_bbox_within: "0 \<le> mx \<Longrightarrow> 0 \<le> my \<Longrightarrow> box_within (mx, my) ref (clamp_bbox mx my ref b)"
  by (auto simp: box_within_def corners_clamp_bbox split: prod.splits)

lemma clamp_bbox_id: "box_within (mx, my) ref b \<Longrightarrow> clamp_bbox mx my ref b = b"
  by (cases ref; cases b) (auto simp: box_within_def corners_def clamp_bbox_def Let_def min_def max_def)

lemma clamp_object_within:
  assumes "coord_format obj = style_format dst" "0 < style_width dst" "0 < style_height dst"
  shows "box_within (frame_limit dst) (xy_ref_type obj) (bbox (clamp_object dst obj))"
  using assms by (cases "style_format dst") (auto simp: clamp_object_def frame_limit_def clamp_bbox_within)

lemma clamp_object_frame [simp]:
  "infer_engine_id (clamp_object dst obj) = infer_engine_id obj" "class_id (clamp_object dst obj) = class_id obj"
  "track_id (clamp_object dst obj) = track_id obj" "score (clamp_object dst obj) = score obj"
  "xy_ref_type (clamp_object dst obj) = xy_ref_type obj" "coord_format (clamp_object dst obj) = coord_format obj"
  "extend_data (clamp_object dst obj) = extend_data obj"
  by (simp_all add: clamp_object_def)

lemma convert_success_iff:
  "fst (ConvertInferObjectCoordinate obj src dst) \<longleftrightarrow> styles_are_identical obj src dst \<or>
     (0 < style_width src \<and> 0 < style_height src \<and> 0 < style_width dst \<and> 0 < style_height dst)"
  by (auto simp: ConvertInferObjectCoordinate_def ConvertToIntermediateRatioLtx_def
      ConvertFromIntermediateRatioLtx_def Let_def)

text \<open>
  A conversion that is needed and succeeds puts the box inside the destination frame: both
  corners lie in \<open>[0, width] x [0, height]\<close> (or the unit square for ratios), right of and below each
  other; the object carries the destination's format and reference point and keeps its identity,
  score and extra data.
\<close>

theorem convert_stays_in_frame:
  assumes "ConvertInferObjectCoordinate obj src dst = (True, obj')"
    and "\<not> styles_are_identical obj src dst"
  shows "box_within (frame_limit dst) (style_ref_type dst) (bbox obj')
       \<and> coord_format obj' = style_format dst \<and> xy_ref_type obj' = style_ref_type dst
       \<and> infer_engine_id obj' = infer_engine_id obj \<and> class_id obj' = class_id obj
       \<and> track_id obj' = track_id obj \<and> score obj' = score obj \<and> extend_data obj' = extend_data obj"
proof -
  from assms obtain fb where obj': "obj' = clamp_object dst
      (obj\<lparr>bbox := fb, coord_format := style_format dst, xy_ref_type := style_ref_type dst\<rparr>)"
    by (auto simp: ConvertInferObjectCoordinate_def split: option.splits)
  have "0 < style_width dst" "0 < style_height dst"
    using assms convert_success_iff [of obj src dst] by auto
  then show ?thesis
    using clamp_object_within [of "obj\<lparr>bbox := fb, coord_format := style_format dst,
        xy_ref_type := style_ref_type dst\<rparr>" dst]
    by (simp add: obj')
qed

text \<open>A detection that sticks out of a 640 x 640 network frame, converted to a 1280 x 720 image.\<close>

definition sample_object :: InferObject where
  "sample_object = InferObject_default\<lparr>class_id := 1, score := 1 / 2,
     bbox := \<lparr>bbox_x = 600, bbox_y = 320, bbox_w = 100, bbox_h = 40\<rparr>, xy_ref_type := cx_type\<rparr>"

definition sample_padded :: ImageExpressStyle where
  "sample_padded = ImageExpressStyle_new 640 640 pixel_int ltx_type True (1 / 2) 0 140 1280 720"

definition sample_image :: ImageExpressStyle where
  "sample_image = ImageExpressStyle_new 1280 720 pixel_int ltx_type False 1 0 0 0 0"

lemma sample_conversion:
  "ConvertInferObjectCoordinate sample_object sample_padded sample_image =
     (True, sample_object\<lparr>bbox := \<lparr>bbox_x = 1100, bbox_y = 320, bbox_w = 180, bbox_h = 80\<rparr>,
        xy_ref_type := ltx_type\<rparr>)"
  by (simp add: ConvertInferObjectCoordinate_def styles_are_identical_def sample_object_def sample_padded_def
      sample_image_def InferObject_default_def ImageExpressStyle_new_def ConvertToIntermediateRatioLtx_def
      ConvertFromIntermediateRatioLtx_def adjust_padding_def padded_to_original_def clamp_object_def
      clamp_bbox_def Let_def)

theorem convert_stays_in_frame_witness:
  "box_within (1280, 720) ltx_type \<lparr>bbox_x = 1100, bbox_y = 320, bbox_w = 180, bbox_h = 80\<rparr>"
  using convert_stays_in_frame [OF sample_conversion]
  by (simp add: styles_are_identical_def sample_object_def sample_padded_def sample_image_def
      InferObject_default_def ImageExpressStyle_new_def frame_limit_def)

text \<open>
  The conversion fails exactly when it is needed and a frame has a non-positive side, and then
  the object is untouched; a conversion between identical styles is the identity.
\<close>

theorem convert_failure_leaves_object:
  "(fst (ConvertInferObjectCoordinate obj src dst) \<longleftrightarrow> styles_are_identical obj src dst \<or>
     (0 < style_width src \<and> 0 < style_height src \<and> 0 < style_width dst \<and> 0 < style_height dst))
   \<and> (\<not> fst (ConvertInferObjectCoordinate obj src dst) \<or> styles_are_identical obj src dst \<longrightarrow>
        snd (ConvertInferObjectCoordinate obj src dst) = obj)"
  by (intro conjI convert_success_iff)
    (auto simp: ConvertInferObjectCoordinate_def split: option.splits)

theorem convert_failure_leaves_object_witness:
  "ConvertInferObjectCoordinate sample_object (sample_image\<lparr>style_width := 0\<rparr>) sample_image = (False, sample_object)"
  using convert_failure_leaves_object [of sample_object "sample_image\<lparr>style_width := 0\<rparr>" sample_image]
  by (auto simp: prod_eq_iff sample_image_def sample_object_def ImageExpressStyle_new_def
      InferObject_default_def styles_are_identical_def)

subsection \<open>Round trip through the letterbox\<close>

lemma to_from_intermediate:
  assumes "0 < style_width st" "0 < style_height st"
  shows "ConvertFromIntermediateRatioLtx r st = Some b \<Longrightarrow>
     ConvertToIntermediateRatioLtx b (style_ref_type st) (style_format st) (style_width st) (style_height st) = Some r"
  using assms
  by (cases "style_ref_type st"; cases "style_format st"; cases r)
    (auto simp: ConvertFromIntermediateRatioLtx_def ConvertToIntermediateRatioLtx_def Let_def field_simps)

lemma from_to_intermediate:
  assumes "0 < style_width st" "0 < style_height st"
    and "ConvertToIntermediateRatioLtx b (style_ref_type st) (style_format st) (style_width st) (style_height st) = Some r"
  shows "ConvertFromIntermediateRatioLtx r st = Some b"
  using assms
  by (cases "style_ref_type st"; cases "style_format st"; cases b)
    (auto simp: ConvertFromIntermediateRatioLtx_def ConvertToIntermediateRatioLtx_def Let_def field_simps)

lemma from_intermediate_within:
  assumes "0 < style_width st" "0 < style_height st" and "ConvertFromIntermediateRatioLtx r st = Some b"
  shows "box_within (frame_limit st) (style_ref_type st) b \<longleftrightarrow> box_within (1, 1) ltx_type r"
proof -
  have le: "x * real_of_int n \<le> y * real_of_int n \<longleftrightarrow> x \<le> y" "0 \<le> x * real_of_int n \<longleftrightarrow> 0 \<le> x"
    "x * real_of_int n \<le> real_of_int n \<longleftrightarrow> x \<le> 1"
    if "0 < n" for n x y using that by (auto simp: mult_le_cancel_right zero_le_mult_iff)
  have scale: "box_within (real_of_int w, real_of_int h) ltx_type
      \<lparr>bbox_x = x * real_of_int w, bbox_y = y * real_of_int h, bbox_w = bw * real_of_int w, bbox_h = bh * real_of_int h\<rparr>
      \<longleftrightarrow> box_within (1, 1) ltx_type \<lparr>bbox_x = x, bbox_y = y, bbox_w = bw, bbox_h = bh\<rparr>"
    if "0 < w" "0 < h" for w h x y bw bh
    using that le(2) [of w bw] le(2) [of h bh] le(2) [of w x] le(2) [of h y]
      le(3) [of w "x + bw"] le(3) [of h "y + bh"]
    by (simp add: box_within_def corners_def distrib_right)
  have centre: "box_within bd cx_type \<lparr>bbox_x = x + bw / 2, bbox_y = y + bh / 2, bbox_w = bw, bbox_h = bh\<rparr>
      \<longleftrightarrow> box_within bd ltx_type \<lparr>bbox_x = x, bbox_y = y, bbox_w = bw, bbox_h = bh\<rparr>" for bd x y bw bh
    by (auto simp: box_within_def corners_def)
  have pixel_centre: "(x + bw / 2) * real_of_int w = x * real_of_int w + bw * real_of_int w / 2" for x bw w
    by (simp add: field_simps)
  show ?thesis using assms
    by (cases "style_ref_type st"; cases "style_format st"; cases r)
      (auto simp: ConvertFromIntermediateRatioLtx_def Let_def frame_limit_def scale centre pixel_centre)
qed

definition letterbox_of :: "ImageExpressStyle \<Rightarrow> ImageExpressStyle \<Rightarrow> bool" where
  "letterbox_of img pad =
     (\<not> is_padded_or_scaled img \<and> is_padded_or_scaled pad \<and> 0 < style_width img \<and> 0 < style_height img
      \<and> original_width pad = style_width img \<and> original_height pad = style_height img
      \<and> 1 / 10 ^ 6 < scale_factor_from_original pad \<and> 0 \<le> pad_x_offset pad \<and> 0 \<le> pad_y_offset pad
      \<and> pad_x_offset pad + scale_factor_from_original pad * style_width img \<le> style_width pad
      \<and> pad_y_offset pad + scale_factor_from_original pad * style_height img \<le> style_height pad)"

lemma letterbox_positive:
  assumes "letterbox_of img pad"
  shows "0 < style_width pad" "0 < style_height pad" "0 < scale_factor_from_original pad"
proof -
  have s: "0 < scale_factor_from_original pad" using assms by (simp add: letterbox_of_def)
  have "0 < scale_factor_from_original pad * style_width img"
    "0 < scale_factor_from_original pad * style_height img"
    using assms s by (auto simp: letterbox_of_def)
  moreover have "0 \<le> real_of_int (pad_x_offset pad)" "0 \<le> real_of_int (pad_y_offset pad)"
    "pad_x_offset pad + scale_factor_from_original pad * style_width img \<le> style_width pad"
    "pad_y_offset pad + scale_factor_from_original pad * style_height img \<le> style_height pad"
    using assms by (simp_all add: letterbox_of_def)
  ultimately have "0 < real_of_int (style_width pad)" "0 < real_of_int (style_height pad)"
    by linarith+
  then show "0 < style_width pad" "0 < style_height pad" by linarith+
  show "0 < scale_factor_from_original pad" by (rule s)
qed

lemma letterbox_inverse:
  assumes "letterbox_of img pad"
  shows "padded_to_original pad img (original_to_padded img pad r) = r"
  using assms letterbox_positive [OF assms]
  by (cases r) (auto simp: letterbox_of_def padded_to_original_def original_to_padded_def Let_def)

lemma letterbox_axis:
  fixes x bw w s p W :: real
  assumes "0 \<le> x" "0 \<le> bw" "x + bw \<le> 1" "0 \<le> p" "p + s * w \<le> W" "0 < s" "0 < w" "0 < W"
  shows "0 \<le> (x * w * s + p) / W" "0 \<le> bw * w * s / W" "(x * w * s + p) / W + bw * w * s / W \<le> 1"
proof -
  have "x * w * s + bw * w * s = (x + bw) * (w * s)" by (simp add: algebra_simps)
  also have "\<dots> \<le> 1 * (w * s)" using assms by (intro mult_right_mono) auto
  finally have "x * w * s + p + bw * w * s \<le> W" using assms by (simp add: mult.commute)
  then show "(x * w * s + p) / W + bw * w * s / W \<le> 1" using assms by (simp add: field_simps)
qed (use assms in auto)

lemma letterbox_within:
  assumes "letterbox_of img pad" and "box_within (1, 1) ltx_type r"
  shows "box_within (1, 1) ltx_type (original_to_padded img pad r)"
proof -
  note pos = letterbox_positive [OF assms(1)]
  have "0 \<le> bbox_x r" "0 \<le> bbox_w r" "bbox_x r + bbox_w r \<le> 1"
    "0 \<le> bbox_y r" "0 \<le> bbox_h r" "bbox_y r + bbox_h r \<le> 1"
    using assms(2) by (auto simp: box_within_def corners_def)
  moreover have "0 \<le> real_of_int (pad_x_offset pad)" "0 \<le> real_of_int (pad_y_offset pad)"
    "0 < real_of_int (style_width img)" "0 < real_of_int (style_height img)"
    "0 < real_of_int (style_width pad)" "0 < real_of_int (style_height pad)"
    using assms(1) pos by (auto simp: letterbox_of_def)
  moreover note assms(1)
  ultimately show ?thesis
    using letterbox_axis [of "bbox_x r" "bbox_w r" "pad_x_offset pad" "scale_factor_from_original pad"
        "style_width img" "style_width pad"]
      letterbox_axis [of "bbox_y r" "bbox_h r" "pad_y_offset pad" "scale_factor_from_original pad"
        "style_height img" "style_height pad"] pos
    by (auto simp: letterbox_of_def original_to_padded_def Let_def box_within_def corners_def)
qed

text \<open>One conversion of a box that fits: no clamping happens.\<close>

lemma convert_exact:
  assumes pos: "0 < style_width src" "0 < style_height src" "0 < style_width dst" "0 < style_height dst"
    and ne: "is_padded_or_scaled src \<noteq> is_padded_or_scaled dst"
    and fmt: "coord_format obj = style_format src" "xy_ref_type obj = style_ref_type src"
    and r: "ConvertToIntermediateRatioLtx (bbox obj) (style_ref_type src) (style_format src)
              (style_width src) (style_height src) = Some r"
    and fit: "box_within (1, 1) ltx_type (adjust_padding src dst r)"
  obtains b where "ConvertFromIntermediateRatioLtx (adjust_padding src dst r) dst = Some b"
    "ConvertInferObjectCoordinate obj src dst =
       (True, obj\<lparr>bbox := b, coord_format := style_format dst, xy_ref_type := style_ref_type dst\<rparr>)"
proof -
  obtain b where b: "ConvertFromIntermediateRatioLtx (adjust_padding src dst r) dst = Some b"
    using pos by (auto simp: ConvertFromIntermediateRatioLtx_def Let_def)
  have "box_within (frame_limit dst) (style_ref_type dst) b"
    using from_intermediate_within [OF pos(3,4) b] fit by simp
  then have "clamp_object dst (obj\<lparr>bbox := b, coord_format := style_format dst, xy_ref_type := style_ref_type dst\<rparr>)
      = obj\<lparr>bbox := b, coord_format := style_format dst, xy_ref_type := style_ref_type dst\<rparr>"
    by (cases "style_format dst") (auto simp: clamp_object_def frame_limit_def clamp_bbox_id)
  moreover have "\<not> styles_are_identical obj src dst" using ne by (simp add: styles_are_identical_def Let_def)
  ultimately show ?thesis using that b fmt r by (simp add: ConvertInferObjectCoordinate_def)
qed

text \<open>
  Letterboxing is lossless.  For an image style and a padded style made from it (aspect kept by
  one scale, non-negative offsets, the scaled image fits the padded frame), a box inside the image
  converted into the padded frame and back is the same object, whatever the coordinate formats and
  reference points of the two styles.
\<close>

theorem letterbox_round_trip:
  assumes lb: "letterbox_of img pad"
    and fmt: "coord_format obj = style_format img" "xy_ref_type obj = style_ref_type img"
    and inside: "box_within (frame_limit img) (style_ref_type img) (bbox obj)"
  shows "fst (ConvertInferObjectCoordinate obj img pad)
       \<and> ConvertInferObjectCoordinate (snd (ConvertInferObjectCoordinate obj img pad)) pad img = (True, obj)"
proof -
  note pos = letterbox_positive [OF lb]
  have img: "0 < style_width img" "0 < style_height img"
    and flags: "\<not> is_padded_or_scaled img" "is_padded_or_scaled pad"
    using lb by (auto simp: letterbox_of_def)
  obtain r where r: "ConvertToIntermediateRatioLtx (bbox obj) (style_ref_type img) (style_format img)
      (style_width img) (style_height img) = Some r"
    using img by (auto simp: ConvertToIntermediateRatioLtx_def Let_def)
  have from_r: "ConvertFromIntermediateRatioLtx r img = Some (bbox obj)"
    by (rule from_to_intermediate [OF img r])
  then have unit: "box_within (1, 1) ltx_type r" using from_intermediate_within [OF img] inside by blast
  let ?r' = "original_to_padded img pad r"
  have fwd: "adjust_padding img pad r = ?r'" and bwd: "adjust_padding pad img ?r' = r"
    using flags letterbox_inverse [OF lb] by (simp_all add: adjust_padding_def)
  obtain b where b: "ConvertFromIntermediateRatioLtx ?r' pad = Some b"
    and c1: "ConvertInferObjectCoordinate obj img pad =
      (True, obj\<lparr>bbox := b, coord_format := style_format pad, xy_ref_type := style_ref_type pad\<rparr>)"
    using convert_exact [OF img pos(1,2) _ fmt r] flags letterbox_within [OF lb unit] fwd by metis
  let ?obj = "obj\<lparr>bbox := b, coord_format := style_format pad, xy_ref_type := style_ref_type pad\<rparr>"
  have r': "ConvertToIntermediateRatioLtx (bbox ?obj) (style_ref_type pad) (style_format pad)
      (style_width pad) (style_height pad) = Some ?r'"
    using to_from_intermediate [OF pos(1,2) b] by simp
  have fit: "box_within (1, 1) ltx_type (adjust_padding pad img ?r')" using bwd unit by simp
  obtain b2 where b2: "ConvertFromIntermediateRatioLtx r img = Some b2"
    and c2: "ConvertInferObjectCoordinate ?obj pad img =
      (True, ?obj\<lparr>bbox := b2, coord_format := style_format img, xy_ref_type := style_ref_type img\<rparr>)"
    using convert_exact [OF pos(1,2) img _ _ _ r' fit] flags bwd by auto
  have "b2 = bbox obj" using b2 from_r by simp
  then show ?thesis using c1 c2 fmt by (cases obj) simp
qed

theorem letterbox_round_trip_witness:
  "ConvertInferObjectCoordinate
     (snd (ConvertInferObjectCoordinate (sample_object\<lparr>xy_ref_type := ltx_type\<rparr>) sample_image sample_padded))
     sample_padded sample_image = (True, sample_object\<lparr>xy_ref_type := ltx_type\<rparr>)"
  by (rule letterbox_round_trip [THEN conjunct2])
    (simp_all add: letterbox_of_def sample_image_def sample_padded_def sample_object_def
      ImageExpressStyle_new_def InferObject_default_def box_within_def corners_def frame_limit_def)

subsection \<open>Equality, hashing and moving\<close>

lemma hash_combine_inj: "hash_combine seed v = hash_combine seed w \<longleftrightarrow> v = w"
proof -
  have cancel: "seed XOR (seed XOR a) = a" for a :: u64 by (simp flip: xor.assoc)
  show ?thesis
  proof
    assume "hash_combine seed v = hash_combine seed w"
    then have "seed XOR hash_combine seed v = seed XOR hash_combine seed w" by simp
    then show "v = w" by (simp add: hash_combine_def cancel)
  qed simp
qed

text \<open>
  The hash of \<open>InferObject\<close> breaks the contract with its equality: whenever \<open>std::hash<size_t>\<close>
  separates 0 and 1 (the identity of libstdc++ does), there are objects that compare equal (their
  scores differ by less than the tolerance) with different hash values.
\<close>

theorem hash_inconsistent_with_equality:
  assumes "h_size 0 \<noteq> h_size 1"
  shows "\<exists>a b. InferObject_eq a b \<and> InferObject_hash h_engine h_class h_size a \<noteq> InferObject_hash h_engine h_class h_size b"
proof (intro exI conjI)
  let ?a = "InferObject_default\<lparr>score := 1 / 1000\<rparr>"
  let ?b = "InferObject_default\<lparr>score := 1 / 1000 - 1 / 10 ^ 8\<rparr>"
  show "InferObject_eq ?a ?b"
    by (simp add: InferObject_eq_def InferObject_default_def are_equal_float_def FLT_EPSILON_def)
  have "\<lfloor>score ?a * 1000\<rfloor> = 1" "\<lfloor>score ?b * 1000\<rfloor> = 0"
    by (simp_all add: floor_eq_iff)
  then show "InferObject_hash h_engine h_class h_size ?a \<noteq> InferObject_hash h_engine h_class h_size ?b"
    using assms by (simp add: InferObject_hash_def Let_def hash_combine_inj InferObject_default_def)
qed

theorem hash_inconsistent_with_equality_witness:
  "\<exists>a b. InferObject_eq a b \<and> InferObject_hash ucast word_of_int id a \<noteq> InferObject_hash ucast word_of_int id b"
  by (rule hash_inconsistent_with_equality) simp

text \<open>
  Moving transfers every field to the target and resets the source except its bounding box: the
  moved-from object is the default object exactly when its box already was the default box.
\<close>

theorem moved_from_object_keeps_box:
  "fst (InferObject_move obj) = obj
   \<and> bbox (snd (InferObject_move obj)) = bbox obj
   \<and> (snd (InferObject_move obj) = InferObject_default \<longleftrightarrow> bbox obj = InferBBox_default)"
  by (cases obj) (simp add: InferObject_move_def InferObject_default_def)

end
