(* ===== verification/Geometry.thy ===== *)
theory Geometry
  imports Infer_Object
begin

text \<open>
  The predicates of \<open>AbnormalActions/src/GeometricLogic.cpp\<close> that decide intrusion: the mid point of
  a detection, point in polygon by the parity of crossings, the orientation of three points and the
  intersection of two segments.  Points have integer coordinates; \<open>int\<close> products do not overflow
  for coordinates of a frame (\<open>orientation_fits_int32\<close>), and the one division is done in \<open>double\<close>,
  here in the reals.
\<close>

record cv_point =
  pt_x :: int
  pt_y :: int

text \<open>\<open>static_cast<int>\<close> of a floating-point value truncates towards zero.\<close>

definition int_cast :: "cfloat \<Rightarrow> int" where
  "int_cast r = (if 0 \<le> r then \<lfloor>r\<rfloor> else \<lceil>r\<rceil>)"

definition getMidPointFromInferObject :: "InferObject \<Rightarrow> cv_point" where
  "getMidPointFromInferObject obj =
     \<lparr>pt_x = int_cast (bbox_x (bbox obj) + bbox_w (bbox obj) / 2),
      pt_y = int_cast (bbox_y (bbox obj) + bbox_h (bbox obj) / 2)\<rparr>"

text \<open>The pairs \<open>(p[i], p[(i + 1) % n])\<close> in the order of the loop.\<close>

definition polygon_edges :: "cv_point list \<Rightarrow> (cv_point \<times> cv_point) list" where
  "polygon_edges p = zip p (tl p @ [hd p])"

definition straddles :: "cv_point \<Rightarrow> cv_point \<times> cv_point \<Rightarrow> bool" where
  "straddles c e = ((pt_y (fst e) > pt_y c) \<noteq> (pt_y (snd e) > pt_y c))"

definition at_x :: "cv_point \<Rightarrow> cv_point \<times> cv_point \<Rightarrow> real" where
  "at_x c e = real_of_int ((pt_x (snd e) - pt_x (fst e)) * (pt_y c - pt_y (fst e)))
                / real_of_int (pt_y (snd e) - pt_y (fst e)) + real_of_int (pt_x (fst e))"

fun include_loop :: "cv_point \<Rightarrow> (cv_point \<times> cv_point) list \<Rightarrow> nat \<Rightarrow> bool" where
  "include_loop c [] crosses = (crosses mod 2 > 0)"
| "include_loop c (e # es) crosses =
     (if fst e = c then True
      else include_loop c es
             (if straddles c e \<and> real_of_int (pt_x c) < at_x c e then Suc crosses else crosses))"

definition isIncludePoint :: "cv_point \<Rightarrow> cv_point list \<Rightarrow> bool" where
  "isIncludePoint checkPoint p = include_loop checkPoint (polygon_edges p) 0"

definition getDistance :: "InferObject \<Rightarrow> InferObject \<Rightarrow> real" where
  "getDistance first_box last_box =
     (let pre_x = int_cast (bbox_x (bbox first_box)) + int_cast (bbox_w (bbox first_box) / 2);
          pre_y = int_cast (bbox_y (bbox first_box)) + int_cast (bbox_h (bbox first_box) / 2);
          cur_x = int_cast (bbox_x (bbox last_box)) + int_cast (bbox_w (bbox last_box) / 2);
          cur_y = int_cast (bbox_y (bbox last_box)) + int_cast (bbox_h (bbox last_box) / 2);
          x = real_of_int \<bar>pre_x - cur_x\<bar>;
          y = real_of_int \<bar>pre_y - cur_y\<bar>
      in sqrt (x\<^sup>2 + y\<^sup>2))"

definition onLineSegment :: "cv_point \<Rightarrow> cv_point \<Rightarrow> cv_point \<Rightarrow> bool" where
  "onLineSegment p q r =
     (pt_x q \<le> max (pt_x p) (pt_x r) \<and> pt_x q \<ge> min (pt_x p) (pt_x r)
      \<and> pt_y q \<le> max (pt_y p) (pt_y r) \<and> pt_y q \<ge> min (pt_y p) (pt_y r))"

datatype LineOrientation = NotCrossed | OnLine | Clockwise | CounterClockwise

fun orientation_code :: "LineOrientation \<Rightarrow> int" where
  "orientation_code NotCrossed = -1"
| "orientation_code OnLine = 0"
| "orientation_code Clockwise = 1"
| "orientation_code CounterClockwise = 2"

definition orientation_val :: "cv_point \<Rightarrow> cv_point \<Rightarrow> cv_point \<Rightarrow> int" where
  "orientation_val p q r =
     (pt_y q - pt_y p) * (pt_x r - pt_x q) - (pt_x q - pt_x p) * (pt_y r - pt_y q)"

definition lineOrientation :: "cv_point \<Rightarrow> cv_point \<Rightarrow> cv_point \<Rightarrow> LineOrientation" where
  "lineOrientation p q r =
     (let val = orientation_val p q r
      in if val = 0 then OnLine else if val > 0 then Clockwise else CounterClockwise)"

definition checkLineIntersect :: "cv_point \<Rightarrow> cv_point \<Rightarrow> cv_point \<Rightarrow> cv_point \<Rightarrow> LineOrientation" where
  "checkLineIntersect p1 q1 p2 q2 =
     (let o1 = lineOrientation p1 q1 p2;
          o2 = lineOrientation p1 q1 q2;
          o3 = lineOrientation p2 q2 p1;
          o4 = lineOrientation p2 q2 q1
      in if o1 \<noteq> o2 \<and> o3 \<noteq> o4 then o4
         else if o1 = OnLine \<and> onLineSegment p1 p2 q1 then OnLine
         else if o2 = OnLine \<and> onLineSegment p1 q2 q1 then OnLine
         else if o3 = OnLine \<and> onLineSegment p2 p1 q2 then OnLine
         else if o4 = OnLine \<and> onLineSegment p2 q1 q2 then OnLine
         else NotCrossed)"

definition clamp :: "int \<Rightarrow> int \<Rightarrow> int \<Rightarrow> int" where
  "clamp min_value origin_value max_value = clamp_range min_value origin_value max_value"

subsection \<open>Segments over the reals\<close>

text \<open>The specification: the closed segments have a common point.\<close>

definition on_segment :: "real \<times> real \<Rightarrow> cv_point \<Rightarrow> cv_point \<Rightarrow> bool" where
  "on_segment X p q = (\<exists>t::real. 0 \<le> t \<and> t \<le> 1 \<and>
     fst X = pt_x p + t * (pt_x q - pt_x p) \<and> snd X = pt_y p + t * (pt_y q - pt_y p))"

definition segments_meet :: "cv_point \<Rightarrow> cv_point \<Rightarrow> cv_point \<Rightarrow> cv_point \<Rightarrow> bool" where
  "segments_meet p1 q1 p2 q2 = (\<exists>X. on_segment X p1 q1 \<and> on_segment X p2 q2)"

lemma on_segment_endpoint [simp]:
  "on_segment (real_of_int (pt_x p), real_of_int (pt_y p)) p q"
  "on_segment (real_of_int (pt_x q), real_of_int (pt_y q)) p q"
  by (auto simp: on_segment_def intro: exI [of _ 0] exI [of _ 1])

lemma ratio_unit:
  fixes a b :: real
  assumes "a \<noteq> b" and "\<not> (0 < a \<and> 0 < b)" and "\<not> (a < 0 \<and> b < 0)"
  shows "0 \<le> a / (a - b)" and "a / (a - b) \<le> 1"
  using assms by (auto simp: divide_simps)

lemma convex_zero:
  fixes a b t :: real
  assumes "0 \<le> t" "t \<le> 1" "(1 - t) * a + t * b = 0"
  shows "\<not> (0 < a \<and> 0 < b)" and "\<not> (a < 0 \<and> b < 0)"
proof -
  have "t * b = - ((1 - t) * a)" using assms(3) by linarith
  then show "\<not> (0 < a \<and> 0 < b)"
    using assms(1,2) by (cases "t = 0") (auto, smt (verit) mult_nonneg_nonneg mult_pos_pos)
  from \<open>t * b = - ((1 - t) * a)\<close> show "\<not> (a < 0 \<and> b < 0)"
    using assms(1,2) by (cases "t = 0") (auto, smt (verit) mult_nonneg_nonpos mult_pos_neg)
qed

text \<open>A collinear point in the bounding box lies on the segment.\<close>

lemma collinear_in_box_on_segment:
  assumes "orientation_val p q r = 0" and "onLineSegment p r q"
  shows "on_segment (real_of_int (pt_x r), real_of_int (pt_y r)) p q"
proof (cases "pt_x p = pt_x q")
  case True
  then have x: "pt_x r = pt_x p" using assms(2) by (auto simp: onLineSegment_def)
  show ?thesis
  proof (cases "pt_y p = pt_y q")
    case True
    then show ?thesis using x assms(2) \<open>pt_x p = pt_x q\<close>
      by (auto simp: onLineSegment_def on_segment_def intro: exI [of _ 0])
  next
    case False
    let ?t = "real_of_int (pt_y r - pt_y p) / real_of_int (pt_y q - pt_y p)"
    have "0 \<le> ?t" "?t \<le> 1" using assms(2) False
      by (auto simp: onLineSegment_def divide_simps max_def min_def split: if_splits)
    then show ?thesis using x True False by (auto simp: on_segment_def intro!: exI [of _ ?t])
  qed
next
  case False
  let ?t = "real_of_int (pt_x r - pt_x p) / real_of_int (pt_x q - pt_x p)"
  have "0 \<le> ?t" "?t \<le> 1" using assms(2) False
    by (auto simp: onLineSegment_def divide_simps max_def min_def split: if_splits)
  moreover have "real_of_int (pt_y r) = pt_y p + ?t * (pt_y q - pt_y p)"
  proof -
    have "(pt_y q - pt_y p) * (pt_x r - pt_x p) = (pt_x q - pt_x p) * (pt_y r - pt_y p)"
      using assms(1) by (simp add: orientation_val_def algebra_simps)
    then have "real_of_int (pt_y q - pt_y p) * real_of_int (pt_x r - pt_x p)
        = real_of_int (pt_x q - pt_x p) * real_of_int (pt_y r - pt_y p)"
      by (metis of_int_mult)
    then show ?thesis using False by (simp add: field_simps)
  qed
  ultimately show ?thesis using False by (auto simp: on_segment_def intro!: exI [of _ ?t])
qed

lemma lineOrientation_iff:
  "lineOrientation p q r = OnLine \<longleftrightarrow> orientation_val p q r = 0"
  "lineOrientation p q r = Clockwise \<longleftrightarrow> orientation_val p q r > 0"
  "lineOrientation p q r = CounterClockwise \<longleftrightarrow> orientation_val p q r < 0"
  "lineOrientation p q r \<noteq> NotCrossed"
  by (auto simp: lineOrientation_def Let_def)

lemma lineOrientation_neq:
  assumes "lineOrientation p q r \<noteq> lineOrientation p q s"
  shows "orientation_val p q r \<noteq> orientation_val p q s"
    and "\<not> (0 < orientation_val p q r \<and> 0 < orientation_val p q s)"
    and "\<not> (orientation_val p q r < 0 \<and> orientation_val p q s < 0)"
proof -
  show "orientation_val p q r \<noteq> orientation_val p q s" using assms by (metis lineOrientation_def)
qed (use assms in \<open>auto simp: lineOrientation_def Let_def\<close>)

text \<open>
  The cross products of a segment with the end points of another, as real polynomials: their
  difference is the cross product of the two directions.
\<close>

lemma cross_identities:
  defines "D \<equiv> \<lambda>p q r. real_of_int (orientation_val p q r)"
  shows "D p1 q1 p2 - D p1 q1 q2 =
      (real_of_int (pt_x q1) - pt_x p1) * (pt_y q2 - pt_y p2) - (real_of_int (pt_y q1) - pt_y p1) * (pt_x q2 - pt_x p2)"
    and "D p2 q2 p1 - D p2 q2 q1 =
      (real_of_int (pt_y q1) - pt_y p1) * (pt_x q2 - pt_x p2) - (real_of_int (pt_x q1) - pt_x p1) * (pt_y q2 - pt_y p2)"
  by (simp_all add: D_def orientation_val_def algebra_simps)

lemma proper_crossing_meets:
  assumes "lineOrientation p1 q1 p2 \<noteq> lineOrientation p1 q1 q2"
    and "lineOrientation p2 q2 p1 \<noteq> lineOrientation p2 q2 q1"
  shows "segments_meet p1 q1 p2 q2"
proof -
  define d1 d2 d3 d4 where "d1 = real_of_int (orientation_val p1 q1 p2)" and "d2 = real_of_int (orientation_val p1 q1 q2)"
    and "d3 = real_of_int (orientation_val p2 q2 p1)" and "d4 = real_of_int (orientation_val p2 q2 q1)"
  define ux uy vx vy where "ux = real_of_int (pt_x q1) - pt_x p1" and "uy = real_of_int (pt_y q1) - pt_y p1"
    and "vx = real_of_int (pt_x q2) - pt_x p2" and "vy = real_of_int (pt_y q2) - pt_y p2"
  have ne12: "d1 \<noteq> d2" and ne34: "d3 \<noteq> d4"
    using lineOrientation_neq(1) [OF assms(1)] lineOrientation_neq(1) [OF assms(2)]
    by (simp_all add: d1_def d2_def d3_def d4_def)
  have den: "d1 - d2 = ux * vy - uy * vx" "d3 - d4 = uy * vx - ux * vy"
    using cross_identities(1) [of p1 q1 p2 q2] cross_identities(2) [of p2 q2 p1 q1]
    by (simp_all add: d1_def d2_def d3_def d4_def ux_def uy_def vx_def vy_def)
  let ?s = "d3 / (d3 - d4)" and ?t = "d1 / (d1 - d2)"
  have s: "0 \<le> ?s" "?s \<le> 1" and t: "0 \<le> ?t" "?t \<le> 1"
    using ratio_unit [OF ne34] ratio_unit [OF ne12] lineOrientation_neq(2,3) [OF assms(1)]
      lineOrientation_neq(2,3) [OF assms(2)]
    by (auto simp: d1_def d2_def d3_def d4_def)
  have dne: "ux * vy - uy * vx \<noteq> 0" using ne12 den by simp
  have sv: "?s = - d3 / (ux * vy - uy * vx)" and tv: "?t = d1 / (ux * vy - uy * vx)"
    using den by (simp_all add: divide_minus_right [symmetric] del: divide_minus_right)
  have d: "d1 = uy * (pt_x p2 - pt_x p1) - ux * (pt_y p2 - pt_y p1)"
    "d3 = vy * (pt_x p1 - pt_x p2) - vx * (pt_y p1 - pt_y p2)"
    by (simp_all add: d1_def d3_def orientation_val_def ux_def uy_def vx_def vy_def algebra_simps)
  have "pt_x p1 + ?s * ux = pt_x p2 + ?t * vx" "pt_y p1 + ?s * uy = pt_y p2 + ?t * vy"
    unfolding sv tv using dne by (simp_all add: d field_simps)
  then have "on_segment (pt_x p1 + ?s * ux, pt_y p1 + ?s * uy) p2 q2"
    unfolding on_segment_def using t by (intro exI [of _ ?t]) (simp add: vx_def vy_def)
  moreover have "on_segment (pt_x p1 + ?s * ux, pt_y p1 + ?s * uy) p1 q1"
    unfolding on_segment_def using s by (intro exI [of _ ?s]) (simp add: ux_def uy_def)
  ultimately show ?thesis by (auto simp: segments_meet_def)
qed

lemma segments_meet_sym: "segments_meet p1 q1 p2 q2 = segments_meet p2 q2 p1 q1"
  by (auto simp: segments_meet_def)

lemma crossed_meets:
  assumes "checkLineIntersect p1 q1 p2 q2 \<noteq> NotCrossed"
  shows "segments_meet p1 q1 p2 q2"
proof (cases "lineOrientation p1 q1 p2 \<noteq> lineOrientation p1 q1 q2 \<and> lineOrientation p2 q2 p1 \<noteq> lineOrientation p2 q2 q1")
  case True
  then show ?thesis by (auto intro: proper_crossing_meets)
next
  case False
  then consider "orientation_val p1 q1 p2 = 0" "onLineSegment p1 p2 q1"
    | "orientation_val p1 q1 q2 = 0" "onLineSegment p1 q2 q1"
    | "orientation_val p2 q2 p1 = 0" "onLineSegment p2 p1 q2"
    | "orientation_val p2 q2 q1 = 0" "onLineSegment p2 q1 q2"
    using assms by (auto simp: checkLineIntersect_def Let_def lineOrientation_iff split: if_splits)
  then show ?thesis
    by cases (unfold segments_meet_def, (blast intro: on_segment_endpoint dest: collinear_in_box_on_segment)+)
qed

lemma on_segment_orientation:
  fixes X :: "real \<times> real"
  assumes "on_segment X p2 q2"
  obtains t :: real where "0 \<le> t" "t \<le> 1"
    "(1 - t) * orientation_val p1 q1 p2 + t * orientation_val p1 q1 q2 =
       (real_of_int (pt_y q1) - pt_y p1) * (fst X - pt_x q1) - (real_of_int (pt_x q1) - pt_x p1) * (snd X - pt_y q1)"
proof -
  from assms obtain t :: real where t: "0 \<le> t" "t \<le> 1" "fst X = pt_x p2 + t * (pt_x q2 - pt_x p2)"
    "snd X = pt_y p2 + t * (pt_y q2 - pt_y p2)" by (auto simp: on_segment_def)
  have "(1 - t) * orientation_val p1 q1 p2 + t * orientation_val p1 q1 q2 =
       (real_of_int (pt_y q1) - pt_y p1) * (fst X - pt_x q1) - (real_of_int (pt_x q1) - pt_x p1) * (snd X - pt_y q1)"
    unfolding t(3,4) by (simp add: orientation_val_def algebra_simps)
  from that [OF t(1,2) this] show ?thesis .
qed

lemma meet_same_side:
  assumes "segments_meet p1 q1 p2 q2" and "lineOrientation p1 q1 p2 = lineOrientation p1 q1 q2"
  shows "orientation_val p1 q1 p2 = 0 \<and> orientation_val p1 q1 q2 = 0"
proof -
  obtain X where X: "on_segment X p1 q1" "on_segment X p2 q2" using assms(1) by (auto simp: segments_meet_def)
  obtain s :: real where s: "fst X = pt_x p1 + s * (pt_x q1 - pt_x p1)" "snd X = pt_y p1 + s * (pt_y q1 - pt_y p1)"
    using X(1) by (auto simp: on_segment_def)
  obtain t :: real where t: "0 \<le> t" "t \<le> 1"
    "(1 - t) * orientation_val p1 q1 p2 + t * orientation_val p1 q1 q2 =
       (real_of_int (pt_y q1) - pt_y p1) * (fst X - pt_x q1) - (real_of_int (pt_x q1) - pt_x p1) * (snd X - pt_y q1)"
    using on_segment_orientation [OF X(2)] by blast
  have "(1 - t) * real_of_int (orientation_val p1 q1 p2) + t * real_of_int (orientation_val p1 q1 q2) = 0"
    using t(3) by (simp add: s algebra_simps)
  from convex_zero [OF t(1,2) this] assms(2) show ?thesis
    by (auto simp: lineOrientation_def Let_def split: if_splits)
qed


text \<open>
  Four points on one line, the first two different: as positions \<open>a\<close> and \<open>b\<close> of the last two
  along the first two.
\<close>

lemma collinear_position:
  assumes "orientation_val p q r = 0" and "p \<noteq> q"
  obtains a :: real where "pt_x r = pt_x p + a * (pt_x q - pt_x p)" "pt_y r = pt_y p + a * (pt_y q - pt_y p)"
proof -
  have eq: "real_of_int (pt_y q - pt_y p) * real_of_int (pt_x r - pt_x p)
      = real_of_int (pt_x q - pt_x p) * real_of_int (pt_y r - pt_y p)"
  proof -
    have "(pt_y q - pt_y p) * (pt_x r - pt_x p) = (pt_x q - pt_x p) * (pt_y r - pt_y p)"
      using assms(1) by (simp add: orientation_val_def algebra_simps)
    then show ?thesis by (metis of_int_mult)
  qed
  have "pt_x p \<noteq> pt_x q \<or> pt_y p \<noteq> pt_y q" using assms(2) by (cases p; cases q) auto
  then show ?thesis
  proof
    assume ne: "pt_x p \<noteq> pt_x q"
    show ?thesis
      by (rule that [of "real_of_int (pt_x r - pt_x p) / real_of_int (pt_x q - pt_x p)"])
        (use ne eq in \<open>simp_all add: field_simps\<close>)
  next
    assume ne: "pt_y p \<noteq> pt_y q"
    show ?thesis
      by (rule that [of "real_of_int (pt_y r - pt_y p) / real_of_int (pt_y q - pt_y p)"])
        (use ne eq in \<open>simp_all add: field_simps\<close>)
  qed
qed

lemma convex_between:
  fixes a b t :: real
  assumes "0 \<le> t" "t \<le> 1"
  shows "min a b \<le> a + t * (b - a)" and "a + t * (b - a) \<le> max a b"
proof -
  have "min a b \<le> a + t * (b - a) \<and> a + t * (b - a) \<le> max a b"
  proof (cases "a \<le> b")
    case True
    then have "0 \<le> t * (b - a)" "t * (b - a) \<le> b - a"
      using assms by (auto intro: mult_left_le_one_le)
    then show ?thesis using True by simp
  next
    case False
    then have "0 \<le> t * (a - b)" "t * (a - b) \<le> a - b"
      using assms by (auto intro: mult_left_le_one_le)
    moreover have "t * (b - a) = - (t * (a - b))" by (simp add: algebra_simps)
    ultimately have "b \<le> a + t * (b - a)" "a + t * (b - a) \<le> a" by linarith+
    then show ?thesis using False by linarith
  qed
  then show "min a b \<le> a + t * (b - a)" "a + t * (b - a) \<le> max a b" by auto
qed

lemma between_int:
  fixes t :: real and l m h :: int
  assumes "real_of_int m = l + t * (h - l)" "0 \<le> t" "t \<le> 1"
  shows "m \<le> max l h \<and> m \<ge> min l h"
  using convex_between [OF assms(2,3), of l h] assms(1)
  by (auto simp: min_def max_def split: if_splits)

lemma position_in_box:
  fixes t :: real
  assumes "pt_x r = pt_x p + t * (pt_x q - pt_x p)" "pt_y r = pt_y p + t * (pt_y q - pt_y p)" "0 \<le> t" "t \<le> 1"
  shows "onLineSegment p r q"
  using between_int [OF assms(1,3,4)] between_int [OF assms(2,3,4)] by (simp add: onLineSegment_def)

lemma affine_shift: "P + a * (Q - P) + t * (P + b * (Q - P) - (P + a * (Q - P))) = P + (a + t * (b - a)) * (Q - P)"
  for P Q a b t :: real
  by (simp add: algebra_simps)

text \<open>
  Two collinear segments that meet: an end point of one lies in the box of the other.
\<close>

lemma collinear_meet_endpoint:
  assumes meet: "segments_meet p1 q1 p2 q2" and ne: "p1 \<noteq> q1"
    and col: "orientation_val p1 q1 p2 = 0" "orientation_val p1 q1 q2 = 0"
  shows "onLineSegment p1 p2 q1 \<or> onLineSegment p1 q2 q1 \<or>
     (orientation_val p2 q2 p1 = 0 \<and> onLineSegment p2 p1 q2)"
proof -
  obtain a :: real where a: "pt_x p2 = pt_x p1 + a * (pt_x q1 - pt_x p1)" "pt_y p2 = pt_y p1 + a * (pt_y q1 - pt_y p1)"
    using collinear_position [OF col(1) ne] by blast
  obtain b :: real where b: "pt_x q2 = pt_x p1 + b * (pt_x q1 - pt_x p1)" "pt_y q2 = pt_y p1 + b * (pt_y q1 - pt_y p1)"
    using collinear_position [OF col(2) ne] by blast
  consider "0 \<le> a \<and> a \<le> 1" | "0 \<le> b \<and> b \<le> 1" | "a < 0 \<and> 1 < b \<or> b < 0 \<and> 1 < a"
    | "a < 0 \<and> b < 0 \<or> 1 < a \<and> 1 < b" by linarith
  then show ?thesis
  proof cases
    case 3
    let ?t = "a / (a - b)"
    have "0 \<le> ?t" "?t \<le> 1" using 3 by (auto simp: divide_simps)
    moreover have zero: "a + ?t * (b - a) = 0" using 3 by (auto simp: field_simps)
    have "pt_x p2 + ?t * (pt_x q2 - pt_x p2) = pt_x p1 + (a + ?t * (b - a)) * (pt_x q1 - pt_x p1)"
      "pt_y p2 + ?t * (pt_y q2 - pt_y p2) = pt_y p1 + (a + ?t * (b - a)) * (pt_y q1 - pt_y p1)"
      unfolding of_int_diff a b by (rule affine_shift)+
    then have "real_of_int (pt_x p1) = pt_x p2 + ?t * (pt_x q2 - pt_x p2)"
      "real_of_int (pt_y p1) = pt_y p2 + ?t * (pt_y q2 - pt_y p2)"
      unfolding zero by simp_all
    ultimately have "onLineSegment p2 p1 q2" by (rule position_in_box [rotated 2])
    moreover have "real_of_int (orientation_val p2 q2 p1) = 0"
      unfolding orientation_val_def of_int_diff of_int_mult a b by (simp add: algebra_simps)
    ultimately show ?thesis by simp
  next
    case 4
    obtain X where X: "on_segment X p1 q1" "on_segment X p2 q2" using meet by (auto simp: segments_meet_def)
    obtain s :: real where s: "0 \<le> s" "s \<le> 1" "fst X = pt_x p1 + s * (pt_x q1 - pt_x p1)"
      "snd X = pt_y p1 + s * (pt_y q1 - pt_y p1)" using X(1) by (auto simp: on_segment_def)
    obtain t :: real where t: "0 \<le> t" "t \<le> 1" "fst X = pt_x p2 + t * (pt_x q2 - pt_x p2)"
      "snd X = pt_y p2 + t * (pt_y q2 - pt_y p2)" using X(2) by (auto simp: on_segment_def)
    have "fst X = pt_x p1 + (a + t * (b - a)) * (pt_x q1 - pt_x p1)"
      "snd X = pt_y p1 + (a + t * (b - a)) * (pt_y q1 - pt_y p1)"
      using t(3,4) unfolding of_int_diff a b by (simp_all only: affine_shift)
    then have "(s - (a + t * (b - a))) * (pt_x q1 - pt_x p1) = 0" "(s - (a + t * (b - a))) * (pt_y q1 - pt_y p1) = 0"
      using s(3,4) by (simp_all add: left_diff_distrib)
    moreover have "pt_x q1 - pt_x p1 \<noteq> 0 \<or> pt_y q1 - pt_y p1 \<noteq> 0" using ne by (cases p1; cases q1) auto
    ultimately have "s = a + t * (b - a)" by auto
    then have "s = (1 - t) * a + t * b" by (simp add: algebra_simps)
    moreover have "(1 - t) * a + t * b < 0 \<or> (1 - t) * a + t * b > 1"
      using 4
    proof
      assume "a < 0 \<and> b < 0"
      then show ?thesis using t(1,2) by (cases "t = 0") (auto, smt (verit) mult_nonneg_nonpos mult_pos_neg)
    next
      assume ab: "1 < a \<and> 1 < b"
      have "(1 - t) * a + t * b - 1 = (1 - t) * (a - 1) + t * (b - 1)" by (simp add: algebra_simps)
      moreover have "(1 - t) * (a - 1) + t * (b - 1) > 0"
        using ab t(1,2) by (cases "t = 0") (auto, smt (verit) mult_nonneg_nonneg mult_pos_pos)
      ultimately show ?thesis by simp
    qed
    ultimately show ?thesis using s(1,2) by simp
  qed (use position_in_box [OF a] position_in_box [OF b] in auto)
qed


lemma point_on_segment:
  assumes "on_segment (real_of_int (pt_x r), real_of_int (pt_y r)) p q"
  shows "orientation_val p q r = 0 \<and> onLineSegment p r q"
proof -
  obtain t :: real where t: "0 \<le> t" "t \<le> 1" "real_of_int (pt_x r) = pt_x p + t * (pt_x q - pt_x p)"
    "real_of_int (pt_y r) = pt_y p + t * (pt_y q - pt_y p)" using assms by (auto simp: on_segment_def)
  have "real_of_int (orientation_val p q r) = 0"
    unfolding orientation_val_def of_int_diff of_int_mult t(3,4) by (simp add: algebra_simps)
  then show ?thesis using position_in_box [OF t(3,4,1,2)] by simp
qed

lemma degenerate_meet:
  assumes "segments_meet p1 p1 p2 q2"
  shows "orientation_val p2 q2 p1 = 0 \<and> onLineSegment p2 p1 q2"
proof -
  from assms have "on_segment (real_of_int (pt_x p1), real_of_int (pt_y p1)) p2 q2"
    by (auto simp: segments_meet_def on_segment_def prod_eq_iff)
  then show ?thesis by (rule point_on_segment)
qed

lemma meet_crossed:
  assumes "segments_meet p1 q1 p2 q2"
  shows "checkLineIntersect p1 q1 p2 q2 \<noteq> NotCrossed"
proof (rule ccontr)
  assume nc: "\<not> checkLineIntersect p1 q1 p2 q2 \<noteq> NotCrossed"
  then have no: "\<not> (orientation_val p1 q1 p2 = 0 \<and> onLineSegment p1 p2 q1)"
    "\<not> (orientation_val p1 q1 q2 = 0 \<and> onLineSegment p1 q2 q1)"
    "\<not> (orientation_val p2 q2 p1 = 0 \<and> onLineSegment p2 p1 q2)"
    "\<not> (orientation_val p2 q2 q1 = 0 \<and> onLineSegment p2 q1 q2)"
    and same: "lineOrientation p1 q1 p2 = lineOrientation p1 q1 q2 \<or> lineOrientation p2 q2 p1 = lineOrientation p2 q2 q1"
    by (auto simp: checkLineIntersect_def Let_def lineOrientation_iff split: if_splits)
  have meet': "segments_meet p2 q2 p1 q1" using assms by (simp add: segments_meet_sym)
  from same show False
  proof
    assume "lineOrientation p1 q1 p2 = lineOrientation p1 q1 q2"
    then have col: "orientation_val p1 q1 p2 = 0" "orientation_val p1 q1 q2 = 0"
      using meet_same_side [OF assms] by auto
    show False
    proof (cases "p1 = q1")
      case True
      then show ?thesis using degenerate_meet assms no(3) by blast
    next
      case False
      then show ?thesis using collinear_meet_endpoint [OF assms False col] col no by blast
    qed
  next
    assume "lineOrientation p2 q2 p1 = lineOrientation p2 q2 q1"
    then have col: "orientation_val p2 q2 p1 = 0" "orientation_val p2 q2 q1 = 0"
      using meet_same_side [OF meet'] by auto
    show False
    proof (cases "p2 = q2")
      case True
      then show ?thesis using degenerate_meet meet' no(1) by blast
    next
      case False
      then show ?thesis using collinear_meet_endpoint [OF meet' False col] col no by blast
    qed
  qed
qed


text \<open>
  The direction reported for a proper crossing is the side of the line on which the track
  ends: when the end points of both segments lie strictly on different sides of each other, the
  result is the orientation of the track's end point with respect to the line, and reversing the
  track reverses it.
\<close>

theorem crossing_direction:
  assumes "lineOrientation p1 q1 p2 \<noteq> lineOrientation p1 q1 q2"
    and "orientation_val p2 q2 p1 * orientation_val p2 q2 q1 < 0"
  shows "checkLineIntersect p1 q1 p2 q2 = lineOrientation p2 q2 q1
       \<and> checkLineIntersect q1 p1 p2 q2 = lineOrientation p2 q2 p1
       \<and> {lineOrientation p2 q2 p1, lineOrientation p2 q2 q1} = {Clockwise, CounterClockwise}"
proof -
  have neg: "orientation_val q1 p1 r = - orientation_val p1 q1 r" for r
    by (simp add: orientation_val_def algebra_simps)
  have "lineOrientation q1 p1 p2 \<noteq> lineOrientation q1 p1 q2"
    using assms(1) by (auto simp: lineOrientation_def Let_def neg split: if_splits)
  moreover have "0 < orientation_val p2 q2 p1 \<and> orientation_val p2 q2 q1 < 0
      \<or> orientation_val p2 q2 p1 < 0 \<and> 0 < orientation_val p2 q2 q1"
    using assms(2) by (auto simp: mult_less_0_iff)
  ultimately show ?thesis using assms(1)
    by (elim disjE) (auto simp: checkLineIntersect_def Let_def lineOrientation_def)
qed

theorem crossing_direction_witness:
  "checkLineIntersect \<lparr>pt_x = 0, pt_y = 0\<rparr> \<lparr>pt_x = 4, pt_y = 4\<rparr> \<lparr>pt_x = 0, pt_y = 4\<rparr> \<lparr>pt_x = 4, pt_y = 0\<rparr>
     \<noteq> checkLineIntersect \<lparr>pt_x = 4, pt_y = 4\<rparr> \<lparr>pt_x = 0, pt_y = 0\<rparr> \<lparr>pt_x = 0, pt_y = 4\<rparr> \<lparr>pt_x = 4, pt_y = 0\<rparr>"
  using crossing_direction [of "\<lparr>pt_x = 0, pt_y = 0\<rparr>" "\<lparr>pt_x = 4, pt_y = 4\<rparr>" "\<lparr>pt_x = 0, pt_y = 4\<rparr>" "\<lparr>pt_x = 4, pt_y = 0\<rparr>"]
  by (auto simp: lineOrientation_def orientation_val_def Let_def)

lemma abs_prod_less:
  fixes a b :: int
  assumes "\<bar>a\<bar> \<le> m" "\<bar>b\<bar> \<le> m"
  shows "\<bar>a * b\<bar> \<le> m * m"
  using assms mult_mono [of "\<bar>a\<bar>" m "\<bar>b\<bar>" m] by (simp add: abs_mult)

text \<open>
  No overflow on frame coordinates.  For points whose coordinates lie in \<open>[0, 32767]\<close> (every
  frame up to 32767 pixels a side) the differences, the products and the value that decides the
  orientation fit a 32-bit signed integer.
\<close>

theorem orientation_fits_int32:
  assumes "\<forall>u \<in> {p, q, r}. 0 \<le> pt_x u \<and> pt_x u \<le> 32767 \<and> 0 \<le> pt_y u \<and> pt_y u \<le> 32767"
  shows "\<bar>orientation_val p q r\<bar> \<le> 2 ^ 31 - 1
       \<and> \<bar>(pt_y q - pt_y p) * (pt_x r - pt_x q)\<bar> \<le> 2 ^ 31 - 1
       \<and> \<bar>(pt_x q - pt_x p) * (pt_y r - pt_y q)\<bar> \<le> 2 ^ 31 - 1"
proof -
  have "\<bar>pt_y q - pt_y p\<bar> \<le> 32767" "\<bar>pt_x r - pt_x q\<bar> \<le> 32767"
    "\<bar>pt_x q - pt_x p\<bar> \<le> 32767" "\<bar>pt_y r - pt_y q\<bar> \<le> 32767" using assms by auto
  then have "\<bar>(pt_y q - pt_y p) * (pt_x r - pt_x q)\<bar> \<le> 32767 * 32767"
    "\<bar>(pt_x q - pt_x p) * (pt_y r - pt_y q)\<bar> \<le> 32767 * 32767"
    using abs_prod_less [of _ 32767] by simp_all
  then show ?thesis unfolding orientation_val_def by simp
qed

theorem orientation_fits_int32_witness:
  "\<bar>orientation_val \<lparr>pt_x = 0, pt_y = 0\<rparr> \<lparr>pt_x = 32767, pt_y = 0\<rparr> \<lparr>pt_x = 0, pt_y = 32767\<rparr>\<bar> \<le> 2 ^ 31 - 1"
  by (rule orientation_fits_int32 [THEN conjunct1]) simp

subsection \<open>Point in polygon\<close>

lemma include_loop_count:
  "include_loop c es n = (c \<in> fst ` set es \<or>
     odd (n + length (filter (\<lambda>e. straddles c e \<and> real_of_int (pt_x c) < at_x c e) es)))"
proof (induction c es n rule: include_loop.induct)
  case (1 c crosses)
  show ?case by simp presburger
qed auto

lemma fst_polygon_edges: "fst ` set (polygon_edges p) = set p"
proof -
  have "map fst (polygon_edges p) = p" by (cases p) (simp_all add: polygon_edges_def)
  then show ?thesis by (metis set_map)
qed

lemma isIncludePoint_count:
  "isIncludePoint c p = (c \<in> set p \<or>
     odd (length (filter (\<lambda>e. straddles c e \<and> real_of_int (pt_x c) < at_x c e) (polygon_edges p))))"
  by (simp add: isIncludePoint_def include_loop_count fst_polygon_edges)

text \<open>A closed polygon changes sides of a horizontal line an even number of times.\<close>

lemma side_changes:
  "odd (length (filter (\<lambda>(a, b). f a \<noteq> f b) (zip (x # xs) (xs @ [y])))) = (f x \<noteq> (f y :: bool))"
  by (induction xs arbitrary: x) auto

lemma even_straddles: "even (length (filter (straddles c) (polygon_edges p)))"
proof (cases p)
  case (Cons x xs)
  have "straddles c = (\<lambda>(a, b). (pt_y a > pt_y c) \<noteq> (pt_y b > pt_y c))"
    by (auto simp: straddles_def)
  then show ?thesis
    using side_changes [of "\<lambda>a. pt_y a > pt_y c" x xs x] by (simp add: polygon_edges_def Cons)
qed (simp add: polygon_edges_def)

lemma at_x_between:
  assumes "straddles c e"
  shows "real_of_int (min (pt_x (fst e)) (pt_x (snd e))) \<le> at_x c e"
    and "at_x c e \<le> real_of_int (max (pt_x (fst e)) (pt_x (snd e)))"
proof -
  obtain a b where e: "e = (a, b)" by force
  let ?t = "real_of_int (pt_y c - pt_y a) / real_of_int (pt_y b - pt_y a)"
  have "0 \<le> ?t" "?t \<le> 1" using assms by (auto simp: straddles_def e divide_simps)
  moreover have at: "at_x c e = pt_x a + ?t * (real_of_int (pt_x b) - pt_x a)" by (simp add: at_x_def e)
  ultimately show "real_of_int (min (pt_x (fst e)) (pt_x (snd e))) \<le> at_x c e"
    "at_x c e \<le> real_of_int (max (pt_x (fst e)) (pt_x (snd e)))"
    using convex_between [of ?t "pt_x a" "pt_x b"] unfolding at by (simp_all add: e)
qed

lemma set_polygon_edges: "(a, b) \<in> set (polygon_edges p) \<Longrightarrow> a \<in> set p \<and> b \<in> set p"
  by (cases p) (auto simp: polygon_edges_def dest: set_zip_leftD set_zip_rightD)


definition in_bounding_box :: "cv_point \<Rightarrow> cv_point list \<Rightarrow> bool" where
  "in_bounding_box c p = ((\<exists>u \<in> set p. pt_x u \<le> pt_x c) \<and> (\<exists>u \<in> set p. pt_x c \<le> pt_x u)
     \<and> (\<exists>u \<in> set p. pt_y u \<le> pt_y c) \<and> (\<exists>u \<in> set p. pt_y c \<le> pt_y u))"

text \<open>
  A point that \<open>isIncludePoint\<close> accepts lies in the bounding box of the polygon, whatever its
  shape; every vertex is accepted.
\<close>

theorem included_point_in_bounding_box:
  "(isIncludePoint c p \<longrightarrow> in_bounding_box c p) \<and> (c \<in> set p \<longrightarrow> isIncludePoint c p)"
proof (intro conjI impI)
  assume inc: "isIncludePoint c p"
  show "in_bounding_box c p"
  proof (rule ccontr)
    assume out: "\<not> in_bounding_box c p"
    then have "c \<notin> set p" by (auto simp: in_bounding_box_def)
    with inc have odd: "odd (length (filter (\<lambda>e. straddles c e \<and> real_of_int (pt_x c) < at_x c e) (polygon_edges p)))"
      by (simp add: isIncludePoint_count)
    then obtain e where e: "e \<in> set (polygon_edges p)" "straddles c e" "real_of_int (pt_x c) < at_x c e"
      by (metis (mono_tags, lifting) even_zero filter_False list.size(3))
    then have ends: "fst e \<in> set p" "snd e \<in> set p" using set_polygon_edges by (metis prod.collapse)+
    have "pt_x c < max (pt_x (fst e)) (pt_x (snd e))" using at_x_between(2) [OF e(2)] e(3) by linarith
    then have "\<exists>u \<in> set p. pt_x c \<le> pt_x u" using ends by (auto simp: less_max_iff_disj intro: less_imp_le)
    moreover have "\<exists>u \<in> set p. pt_y u \<le> pt_y c" "\<exists>u \<in> set p. pt_y c \<le> pt_y u"
      using e(2) ends unfolding straddles_def by (metis less_imp_le not_less)+
    ultimately have left: "\<forall>u \<in> set p. pt_x c < pt_x u"
      using out by (auto simp: in_bounding_box_def not_le)
    have "filter (\<lambda>e. straddles c e \<and> real_of_int (pt_x c) < at_x c e) (polygon_edges p) = filter (straddles c) (polygon_edges p)"
    proof (rule filter_cong [OF refl])
      fix e assume "e \<in> set (polygon_edges p)"
      then have "fst e \<in> set p" "snd e \<in> set p" using set_polygon_edges by (metis prod.collapse)+
      then have "pt_x c < min (pt_x (fst e)) (pt_x (snd e))" using left by simp
      then show "(straddles c e \<and> real_of_int (pt_x c) < at_x c e) = straddles c e"
        using at_x_between(1) [of c e] by fastforce
    qed
    with odd even_straddles show False by metis
  qed
qed (simp add: isIncludePoint_count)

theorem included_point_in_bounding_box_witness:
  "in_bounding_box \<lparr>pt_x = 2, pt_y = 1\<rparr> [\<lparr>pt_x = 0, pt_y = 0\<rparr>, \<lparr>pt_x = 4, pt_y = 0\<rparr>, \<lparr>pt_x = 2, pt_y = 4\<rparr>]"
  using included_point_in_bounding_box [of "\<lparr>pt_x = 2, pt_y = 1\<rparr>" "[\<lparr>pt_x = 0, pt_y = 0\<rparr>, \<lparr>pt_x = 4, pt_y = 0\<rparr>, \<lparr>pt_x = 2, pt_y = 4\<rparr>]"]
  by (simp add: isIncludePoint_def polygon_edges_def straddles_def at_x_def)

text \<open>
  On an axis-parallel rectangle (the area the operator draws most often) the test is the
  half-open box test, plus the four corners.
\<close>

theorem rectangle_membership:
  assumes "x1 < x2" and "y1 < y2"
  shows "isIncludePoint \<lparr>pt_x = x, pt_y = y\<rparr>
           [\<lparr>pt_x = x1, pt_y = y1\<rparr>, \<lparr>pt_x = x2, pt_y = y1\<rparr>, \<lparr>pt_x = x2, pt_y = y2\<rparr>, \<lparr>pt_x = x1, pt_y = y2\<rparr>]
         \<longleftrightarrow> x1 \<le> x \<and> x < x2 \<and> y1 \<le> y \<and> y < y2 \<or> x \<in> {x1, x2} \<and> y \<in> {y1, y2}"
  using assms by (auto simp: isIncludePoint_def polygon_edges_def straddles_def at_x_def)

theorem rectangle_membership_witness:
  "isIncludePoint \<lparr>pt_x = 3, pt_y = 5\<rparr>
     [\<lparr>pt_x = 0, pt_y = 0\<rparr>, \<lparr>pt_x = 10, pt_y = 0\<rparr>, \<lparr>pt_x = 10, pt_y = 10\<rparr>, \<lparr>pt_x = 0, pt_y = 10\<rparr>]"
  by (subst rectangle_membership) simp_all

end
