(* ===== verification/History_Checker.thy ===== *)
theory History_Checker
  imports Infer_Object "HOL-Library.AList"
begin

text \<open>
  \<open>HistoryChecker<T>\<close> of \<open>AbnormalActions/include/HistoryChecker.h\<close>: per track id, a value of type
  \<open>T\<close> and the monotonic time (milliseconds) of its last refresh.  \<open>GetHistory\<close> returns a reference,
  so its model returns the value together with the checker, and \<open>write_history\<close> is the caller's
  write through the reference.  \<open>T {}\<close> is the argument \<open>fresh\<close>.  All reads of the clock within one
  call return the same instant.
\<close>

record 'h history_checker =
  history_map :: "(int \<times> 'h \<times> int) list"
  release_threshold_millisecs :: int

definition HistoryChecker_new :: "int \<Rightarrow> 'h history_checker" where
  "HistoryChecker_new release_limit_secs =
     \<lparr>history_map = [], release_threshold_millisecs = release_limit_secs * 1000\<rparr>"

definition CreateNewHistory :: "int \<Rightarrow> 'h \<Rightarrow> int \<Rightarrow> 'h history_checker \<Rightarrow> 'h history_checker" where
  "CreateNewHistory now fresh tid hc =
     (if map_of (history_map hc) tid = None
      then hc\<lparr>history_map := AList.update tid (fresh, now) (history_map hc)\<rparr> else hc)"

definition OverrideHistory :: "int \<Rightarrow> 'h \<Rightarrow> int \<Rightarrow> 'h history_checker \<Rightarrow> 'h history_checker" where
  "OverrideHistory now fresh tid hc =
     (if map_of (history_map hc) tid \<noteq> None
      then hc\<lparr>history_map := AList.update tid (fresh, now) (history_map hc)\<rparr> else hc)"

definition GetHistory :: "int \<Rightarrow> 'h \<Rightarrow> int \<Rightarrow> 'h history_checker \<Rightarrow> 'h \<times> 'h history_checker" where
  "GetHistory now fresh tid hc =
     (case map_of (history_map hc) tid of
        None \<Rightarrow> (fresh, CreateNewHistory now fresh tid hc)
      | Some (v, t) \<Rightarrow>
          if now - t > release_threshold_millisecs hc then (fresh, OverrideHistory now fresh tid hc)
          else (v, hc))"

definition write_history :: "int \<Rightarrow> 'h \<Rightarrow> 'h history_checker \<Rightarrow> 'h history_checker" where
  "write_history tid v hc =
     hc\<lparr>history_map := map (\<lambda>(k, w, t). if k = tid then (k, v, t) else (k, w, t)) (history_map hc)\<rparr>"

definition ReleaseInactiveHistory :: "int \<Rightarrow> InferObject list \<Rightarrow> 'h history_checker \<Rightarrow> 'h history_checker" where
  "ReleaseInactiveHistory now objects hc =
     hc\<lparr>history_map :=
        map (\<lambda>(tid, v, t). (tid, v, if \<exists>obj \<in> set objects. track_id obj = tid then now else t))
          (filter (\<lambda>(tid, v, t). \<not> (now - t \<ge> release_threshold_millisecs hc)) (history_map hc))\<rparr>"

subsection \<open>The interface the event checkers use\<close>

locale history_store =
  fixes lookup :: "'s \<Rightarrow> int \<rightharpoonup> 'h \<times> int"
    and limit :: "'s \<Rightarrow> int"
    and fetch :: "int \<Rightarrow> 'h \<Rightarrow> int \<Rightarrow> 's \<Rightarrow> 'h \<times> 's"
    and store :: "int \<Rightarrow> 'h \<Rightarrow> 's \<Rightarrow> 's"
    and release :: "int \<Rightarrow> InferObject list \<Rightarrow> 's \<Rightarrow> 's"
    and inv :: "'s \<Rightarrow> bool"
  assumes fetch_live: "inv s \<Longrightarrow> lookup s tid = Some (v, t) \<Longrightarrow> now - t \<le> limit s \<Longrightarrow> fetch now f tid s = (v, s)"
    and fetch_dead: "inv s \<Longrightarrow> (\<And>v t. lookup s tid = Some (v, t) \<Longrightarrow> limit s < now - t) \<Longrightarrow>
        fst (fetch now f tid s) = f \<and> lookup (snd (fetch now f tid s)) = (lookup s)(tid \<mapsto> (f, now))"
    and store_lookup: "inv s \<Longrightarrow> lookup (store tid v s) = (lookup s)(tid := map_option (\<lambda>(w, t). (v, t)) (lookup s tid))"
    and release_lookup: "inv s \<Longrightarrow> lookup (release now objs s) tid = (case lookup s tid of None \<Rightarrow> None
        | Some (v, t) \<Rightarrow> if now - t \<ge> limit s then None
                        else Some (v, if \<exists>obj \<in> set objs. track_id obj = tid then now else t))"
    and inv_ops: "inv s \<Longrightarrow> inv (snd (fetch now f tid s)) \<and> inv (store tid v s) \<and> inv (release now objs s)"
    and limit_ops: "limit (snd (fetch now f tid s)) = limit s \<and> limit (store tid v s) = limit s
        \<and> limit (release now objs s) = limit s"
begin

definition all_histories :: "(int \<Rightarrow> 'h \<Rightarrow> int \<Rightarrow> bool) \<Rightarrow> 's \<Rightarrow> bool" where
  "all_histories P s = (\<forall>tid v t. lookup s tid = Some (v, t) \<longrightarrow> P tid v t)"

lemma fetch_cases:
  assumes "inv s"
  obtains (live) v t where "lookup s tid = Some (v, t)" "now - t \<le> limit s" "fetch now f tid s = (v, s)"
  | (dead) "fst (fetch now f tid s) = f" "lookup (snd (fetch now f tid s)) = (lookup s)(tid \<mapsto> (f, now))"
proof (cases "\<exists>v t. lookup s tid = Some (v, t) \<and> now - t \<le> limit s")
  case True
  then show ?thesis using live fetch_live [OF assms] by blast
next
  case False
  then have "fst (fetch now f tid s) = f \<and> lookup (snd (fetch now f tid s)) = (lookup s)(tid \<mapsto> (f, now))"
    by (intro fetch_dead [OF assms]) force
  then show ?thesis using dead by blast
qed

lemma all_fetch:
  assumes "inv s" and "all_histories P s" and "P tid f now"
  obtains t where "lookup (snd (fetch now f tid s)) tid = Some (fst (fetch now f tid s), t)"
    and "P tid (fst (fetch now f tid s)) t" and "now - t \<le> limit s \<or> t = now"
    and "all_histories P (snd (fetch now f tid s))"
proof -
  from fetch_cases [OF assms(1), of tid now f]
  consider (live) v t where "lookup s tid = Some (v, t)" "now - t \<le> limit s" "fetch now f tid s = (v, s)"
    | (dead) "fst (fetch now f tid s) = f" "lookup (snd (fetch now f tid s)) = (lookup s)(tid \<mapsto> (f, now))"
    by blast
  then show ?thesis
  proof cases
  case (live v t)
  show ?thesis by (rule that [of t]) (use live assms(2) in \<open>auto simp: all_histories_def\<close>)
next
  case dead
  show ?thesis by (rule that [of now]) (use dead assms(2,3) in \<open>auto simp: all_histories_def\<close>)
  qed
qed

lemma all_store:
  assumes "inv s" "all_histories P s" "\<And>w t. lookup s tid = Some (w, t) \<Longrightarrow> P tid v t"
  shows "all_histories P (store tid v s)"
  using assms by (auto simp: all_histories_def store_lookup)

lemma all_release:
  assumes "inv s" "all_histories P s" "\<And>tid v t. P tid v t \<Longrightarrow> P tid v now"
  shows "all_histories P (release now objs s)"
  using assms by (fastforce simp: all_histories_def release_lookup split: option.splits if_splits)

end

definition hc_lookup :: "'h history_checker \<Rightarrow> int \<rightharpoonup> 'h \<times> int" where
  "hc_lookup hc = map_of (history_map hc)"

definition hc_inv :: "'h history_checker \<Rightarrow> bool" where
  "hc_inv hc = distinct (map fst (history_map hc))"

lemma map_of_map_value:
  "map_of (map (\<lambda>(k, w, t). if k = tid then (k, v, t) else (k, w, t)) al) =
     (map_of al)(tid := map_option (\<lambda>(w, t). (v, t)) (map_of al tid))"
  by (induction al) (auto simp: fun_eq_iff)

lemma map_of_map_time:
  "map_of (map (\<lambda>(tid, v, t). (tid, v, g tid t)) al) tid = map_option (\<lambda>(v, t). (v, g tid t)) (map_of al tid)"
  by (induction al) auto

lemma map_of_filter_value:
  "distinct (map fst al) \<Longrightarrow> map_of (filter (\<lambda>(k, v, t). P t) al) k =
     (case map_of al k of None \<Rightarrow> None | Some (v, t) \<Rightarrow> if P t then Some (v, t) else None)"
  by (induction al) (auto split: option.splits simp: map_of_eq_None_iff image_iff)

lemma fst_map_value: "map fst (map (\<lambda>(k, w, t). if k = tid then (k, v, t) else (k, w, t)) al) = map fst al"
  by (induction al) auto

lemma fst_map_time: "map fst (map (\<lambda>(tid, v, t). (tid, v, g tid t)) al) = map fst al"
  by (induction al) auto

lemma hc_fetch_dead:
  assumes "\<And>v t. hc_lookup hc tid = Some (v, t) \<Longrightarrow> release_threshold_millisecs hc < now - t"
  shows "fst (GetHistory now f tid hc) = f"
    "hc_lookup (snd (GetHistory now f tid hc)) = (hc_lookup hc)(tid \<mapsto> (f, now))"
  using assms by (auto simp: GetHistory_def hc_lookup_def CreateNewHistory_def OverrideHistory_def
      update_conv' split: option.splits)

lemma hc_inv_ops:
  "hc_inv hc \<Longrightarrow> hc_inv (snd (GetHistory now f tid hc))"
  "hc_inv hc \<Longrightarrow> hc_inv (write_history tid v hc)"
  "hc_inv hc \<Longrightarrow> hc_inv (ReleaseInactiveHistory now objs hc)"
  by (auto simp: hc_inv_def GetHistory_def CreateNewHistory_def OverrideHistory_def write_history_def
      ReleaseInactiveHistory_def fst_map_value fst_map_time distinct_update filter_distinct_map
      split: option.splits simp del: map_map)

interpretation hist: history_store hc_lookup release_threshold_millisecs GetHistory write_history
  ReleaseInactiveHistory hc_inv
proof unfold_locales
  fix s :: "'a history_checker" and tid v t now f objs
  show "hc_lookup s tid = Some (v, t) \<Longrightarrow> now - t \<le> release_threshold_millisecs s \<Longrightarrow>
      GetHistory now f tid s = (v, s)"
    by (simp add: GetHistory_def hc_lookup_def)
  show "hc_lookup (write_history tid v s) = (hc_lookup s)(tid := map_option (\<lambda>(w, t). (v, t)) (hc_lookup s tid))"
    by (simp add: hc_lookup_def write_history_def map_of_map_value)
  show "hc_inv s \<Longrightarrow> hc_lookup (ReleaseInactiveHistory now objs s) tid = (case hc_lookup s tid of None \<Rightarrow> None
        | Some (v, t) \<Rightarrow> if now - t \<ge> release_threshold_millisecs s then None
                        else Some (v, if \<exists>obj \<in> set objs. track_id obj = tid then now else t))"
    using map_of_filter_value [of "history_map s" "\<lambda>t. \<not> now - t \<ge> release_threshold_millisecs s" tid]
    by (auto simp: hc_lookup_def ReleaseInactiveHistory_def map_of_map_time hc_inv_def split: option.splits)
  show "fst (GetHistory now f tid s) = f \<and> hc_lookup (snd (GetHistory now f tid s)) = (hc_lookup s)(tid \<mapsto> (f, now))"
    if "\<And>v t. hc_lookup s tid = Some (v, t) \<Longrightarrow> release_threshold_millisecs s < now - t"
    using hc_fetch_dead [OF that] by simp
  show "release_threshold_millisecs (snd (GetHistory now f tid s)) = release_threshold_millisecs s \<and>
      release_threshold_millisecs (write_history tid v s) = release_threshold_millisecs s \<and>
      release_threshold_millisecs (ReleaseInactiveHistory now objs s) = release_threshold_millisecs s"
    by (simp add: GetHistory_def CreateNewHistory_def OverrideHistory_def write_history_def
        ReleaseInactiveHistory_def split: option.splits)
qed (simp add: hc_inv_ops)

text \<open>
  What a caller of \<open>GetHistory\<close> sees: after a release at the same instant, a track that was
  refreshed less than the release limit ago keeps its value; any other track starts from a fresh
  value stamped with the current time.  No other track is affected.
\<close>

theorem history_survives_iff_recent:
  assumes "hc_inv hc" and "0 < release_threshold_millisecs hc"
  shows "fst (GetHistory now fresh tid (ReleaseInactiveHistory now objs hc)) =
           (case hc_lookup hc tid of
              Some (v, t) \<Rightarrow> if now - t < release_threshold_millisecs hc then v else fresh
            | None \<Rightarrow> fresh)"
proof -
  let ?s = "ReleaseInactiveHistory now objs hc"
  have inv: "hc_inv ?s" using assms(1) by (rule hc_inv_ops)
  have lim: "release_threshold_millisecs ?s = release_threshold_millisecs hc"
    by (simp add: ReleaseInactiveHistory_def)
  from hist.fetch_cases [OF inv, of tid now fresh]
  consider (live) v t where "hc_lookup ?s tid = Some (v, t)" "now - t \<le> release_threshold_millisecs ?s"
      "GetHistory now fresh tid ?s = (v, ?s)"
    | (dead) "fst (GetHistory now fresh tid ?s) = fresh"
      "hc_lookup (snd (GetHistory now fresh tid ?s)) = (hc_lookup ?s)(tid \<mapsto> (fresh, now))"
    by blast
  then show ?thesis
  proof cases
    case (live v t)
    then show ?thesis using hist.release_lookup [OF assms(1), of now objs tid] lim
      by (auto split: option.splits if_splits)
  next
    case dead
    have "\<not> (hc_lookup hc tid = Some (v, t) \<and> now - t < release_threshold_millisecs hc \<and> v \<noteq> fresh)" for v t
      using dead hist.release_lookup [OF assms(1), of now objs tid] assms(2) lim
        hist.fetch_live [OF inv, of tid v "if \<exists>obj \<in> set objs. track_id obj = tid then now else t" now fresh]
      by auto
    then show ?thesis using dead by (auto split: option.splits)
  qed
qed

theorem history_survives_iff_recent_witness:
  "fst (GetHistory 5000 ''new'' 3 (ReleaseInactiveHistory 5000 []
      \<lparr>history_map = [(3, ''old'', 100)], release_threshold_millisecs = 10000\<rparr>)) = ''old''"
  by (subst history_survives_iff_recent) (simp_all add: hc_inv_def hc_lookup_def)

end
