(* ===== verification/Schedule.thy ===== *)
theory Schedule
  imports Schedule_Types Json Geometry History_Checker "HOL-Library.Signed_Division"
begin

text \<open>
  \<open>Schedule\<close> of \<open>AbnormalActions/src/MgenSchedule.cpp\<close>: the state of one abnormal-event schedule of
  a camera and the conditions under which it may report.  The clock readings of one call are a
  record: the monotonic and the system time in milliseconds and the fields of \<open>localtime_r\<close>; all
  readings within one call are of the same instant.  The checkers themselves are in
  \<open>Abnormal_Checker\<close>.
\<close>

record clock =
  steady_now :: int
  system_now :: int
  tm_date :: string
  tm_wday :: nat
  tm_hour :: int
  tm_min :: int

record RoiEventInfo =
  continuous :: bool
  event_time :: int

definition RoiEventInfo_default :: "clock \<Rightarrow> RoiEventInfo" where
  "RoiEventInfo_default clk = \<lparr>continuous = False, event_time = system_now clk\<rparr>"

record LoiteringEventInfo =
  is_history_compressed :: bool
  last_compressed_end_time :: int
  infer_objects :: "(InferObject \<times> int) list"

definition LoiteringEventInfo_default :: "clock \<Rightarrow> LoiteringEventInfo" where
  "LoiteringEventInfo_default clk =
     \<lparr>is_history_compressed = False, last_compressed_end_time = system_now clk, infer_objects = []\<rparr>"

type_synonym DataLayer = "InferObject list"
type_synonym ClassEqualChecker = "int \<Rightarrow> string \<Rightarrow> bool"

datatype EventChecker = IntrusionLine_checker | IntrusionZone_checker
  | VehicleIntrusion_checker | VehicleParking_checker

record schedule =
  sch_info :: AbnormalEventScheduleInfo
  abnormal_require_seconds :: int
  abnormal_release_seconds :: int
  cv_rois :: "cv_point list list"
  cv_exclude_rois :: "cv_point list list"
  cv_two_way_rois :: "cv_point list list"
  cv_one_way_rois :: "cv_point list list"
  object_history :: "InferObject list history_checker"
  roi_state_history :: "RoiEventInfo history_checker"
  moving_state_history :: "LoiteringEventInfo history_checker"
  class_equal_checker :: "ClassEqualChecker option"
  last_active_time :: int
  checker :: "EventChecker option"

subsection \<open>Construction\<close>

fun SelectChecker :: "EventClass \<Rightarrow> EventChecker option" where
  "SelectChecker LineIntrusion = Some IntrusionLine_checker"
| "SelectChecker AreaIntrusion = Some IntrusionZone_checker"
| "SelectChecker VehicleIntrusion = Some VehicleIntrusion_checker"
| "SelectChecker VehicleParking = Some VehicleParking_checker"
| "SelectChecker _ = None"

definition SetClassEqualChecker :: "ClassEqualChecker option \<Rightarrow> schedule \<Rightarrow> bool \<times> schedule" where
  "SetClassEqualChecker cec sch =
     (case cec of None \<Rightarrow> (False, sch) | Some f \<Rightarrow> (True, sch\<lparr>class_equal_checker := Some f\<rparr>))"

fun GetAbnormalRequireFrame :: "AbnormalEventScheduleInfo \<Rightarrow> EventClass \<Rightarrow> int" where
  "GetAbnormalRequireFrame info VehicleParking = loitering_require_dur_sec info"
| "GetAbnormalRequireFrame info LineIntrusion = DEFAULT_EVENT_REQUIR_DURATION_SEC"
| "GetAbnormalRequireFrame info AreaIntrusion = DEFAULT_EVENT_REQUIR_DURATION_SEC"
| "GetAbnormalRequireFrame info _ = DEFAULT_EVENT_REQUIR_DURATION_SEC"

fun GetAbnormalReleaseFrame :: "EventClass \<Rightarrow> int" where
  "GetAbnormalReleaseFrame VehicleParking = DEFAULT_EVENT_FRAME_RELEASE_L_SEC"
| "GetAbnormalReleaseFrame LineIntrusion = DEFAULT_EVENT_FRAME_RELEASE_S_SEC"
| "GetAbnormalReleaseFrame AreaIntrusion = DEFAULT_EVENT_FRAME_RELEASE_S_SEC"
| "GetAbnormalReleaseFrame _ = DEFAULT_EVENT_FRAME_RELEASE_S_SEC"

text \<open>\<open>std::round\<close> rounds half away from zero.\<close>

definition round_away :: "cfloat \<Rightarrow> cfloat" where
  "round_away r = (if 0 \<le> r then of_int \<lfloor>r + 1/2\<rfloor> else of_int \<lceil>r - 1/2\<rceil>)"

definition MakeCvScaledRoiFromScheduleRoi :: "ROI \<Rightarrow> int \<Rightarrow> int \<Rightarrow> cv_point list list" where
  "MakeCvScaledRoiFromScheduleRoi rois frame_w frame_h =
     map (map (\<lambda>(xpos_ratio, ypos_ratio).
       \<lparr>pt_x = clamp 0 (int_cast (round_away (of_int frame_w * xpos_ratio))) frame_w,
        pt_y = clamp 0 (int_cast (round_away (of_int frame_h * ypos_ratio))) frame_h\<rparr>)) rois"

definition Schedule_new ::
  "clock \<Rightarrow> AbnormalEventScheduleInfo \<Rightarrow> int \<Rightarrow> int \<Rightarrow> ClassEqualChecker option \<Rightarrow> schedule" where
  "Schedule_new clk info frame_w frame_h cec =
     (let release = GetAbnormalReleaseFrame (event_code info) in
      snd (SetClassEqualChecker cec
        \<lparr>sch_info = info,
         abnormal_require_seconds = GetAbnormalRequireFrame info (event_code info),
         abnormal_release_seconds = release,
         cv_rois = MakeCvScaledRoiFromScheduleRoi (roi info) frame_w frame_h,
         cv_exclude_rois = MakeCvScaledRoiFromScheduleRoi (exclude_roi info) frame_w frame_h,
         cv_two_way_rois = MakeCvScaledRoiFromScheduleRoi (two_way_roi info) frame_w frame_h,
         cv_one_way_rois = MakeCvScaledRoiFromScheduleRoi (one_way_roi info) frame_w frame_h,
         object_history = HistoryChecker_new release,
         roi_state_history = HistoryChecker_new release,
         moving_state_history = HistoryChecker_new release,
         class_equal_checker = None,
         last_active_time = system_now clk,
         checker = SelectChecker (event_code info)\<rparr>))"

subsection \<open>Queries\<close>

text \<open>A \<open>noexcept\<close> member that throws ends the process: \<open>None\<close>.\<close>

definition IsWithinExcludeROI :: "schedule \<Rightarrow> InferObject \<Rightarrow> bool" where
  "IsWithinExcludeROI sch obj =
     (if length (cv_exclude_rois sch) = 0 then False
      else \<exists>r \<in> set (cv_exclude_rois sch). isIncludePoint (getMidPointFromInferObject obj) r)"

fun GetEventName :: "EventClass \<Rightarrow> string" where
  "GetEventName LineIntrusion = ''LineIntrusion''"
| "GetEventName AreaIntrusion = ''AreaIntrusion''"
| "GetEventName VehicleIntrusion = ''VehicleIntrusion''"
| "GetEventName VehicleParking = ''VehicleParking''"
| "GetEventName _ = ''NotDefined''"

fun GetTrackType :: "EventClass \<Rightarrow> TrackFlag" where
  "GetTrackType LineIntrusion = TRACK_ON_PERSON"
| "GetTrackType AreaIntrusion = TRACK_ON_PERSON"
| "GetTrackType VehicleIntrusion = TRACK_ON_CAR"
| "GetTrackType VehicleParking = TRACK_ON_CAR"
| "GetTrackType _ = TRACK_ALL_OFF"

definition SetExtendedDataToJson :: "json \<Rightarrow> InferObject \<Rightarrow> EventClass \<Rightarrow> json option" where
  "SetExtendedDataToJson json_object obj event_type =
     (case extend_data obj of
        [] \<Rightarrow> Some json_object
      | val # _ \<Rightarrow>
          (case event_type of
             LineIntrusion \<Rightarrow> set_key json_object ''Direction'' (JInt (int_cast val))
           | AreaIntrusion \<Rightarrow> set_key json_object ''Duration'' (JInt (int_cast val))
           | VehicleParking \<Rightarrow> set_key json_object ''Duration'' (JInt (int_cast val))
           | _ \<Rightarrow> Some json_object))"

definition GetUidSuffixNumber :: "schedule \<Rightarrow> int \<Rightarrow> int \<Rightarrow> int" where
  "GetUidSuffixNumber sch tid non_track_suffix_identifier =
     (case event_code (sch_info sch) of
        AreaIntrusion \<Rightarrow> if tid = NON_TRACKING_IDX then 0 else tid
      | _ \<Rightarrow> non_track_suffix_identifier)"

definition UpdateEventActivateTime :: "clock \<Rightarrow> schedule \<Rightarrow> schedule" where
  "UpdateEventActivateTime clk sch = sch\<lparr>last_active_time := system_now clk\<rparr>"

definition GetEnoughEventInterval :: "clock \<Rightarrow> schedule \<Rightarrow> bool" where
  "GetEnoughEventInterval clk sch =
     (system_now clk - last_active_time sch > notification_min_interval_sec (sch_info sch) * 1000)"

definition GetDurationIfSatisfyEventRequireSeconds :: "clock \<Rightarrow> schedule \<Rightarrow> int \<Rightarrow> int" where
  "GetDurationIfSatisfyEventRequireSeconds clk sch event_start_time =
     (let duration = system_now clk - event_start_time;
          interval = abnormal_require_seconds sch * 1000
      in if duration > interval then duration sdiv 1000 else 0)"

definition IsWithinBlackList :: "clock \<Rightarrow> string list \<Rightarrow> bool" where
  "IsWithinBlackList clk black_list =
     (if black_list = [] then False else \<exists>dateString \<in> set black_list. dateString = tm_date clk)"

definition IsWithinWeeklyDay :: "clock \<Rightarrow> int list \<Rightarrow> bool" where
  "IsWithinWeeklyDay clk weekly_list =
     (if length weekly_list \<noteq> DAY_ABOUT_1_WEEK then False
      else weekly_list ! tm_wday clk = WEEKLY_DAY_ON)"

subsection \<open>The time range\<close>

text \<open>
  \<open>sscanf\<close> with \<open>"%2d:%2d"\<close>: each directive skips white space and reads the longest optionally signed
  decimal number of at most two characters, sign included; a colon must follow the first.
\<close>

definition is_space :: "char \<Rightarrow> bool" where
  "is_space c = (c \<in> {CHR '' '', CHR 0x09, CHR 0x0A, CHR 0x0B, CHR 0x0C, CHR 0x0D})"

definition is_digit :: "char \<Rightarrow> bool" where
  "is_digit c = (48 \<le> (of_char c :: nat) \<and> (of_char c :: nat) \<le> 57)"

fun scan_digits :: "nat \<Rightarrow> string \<Rightarrow> string \<times> string" where
  "scan_digits (Suc n) (c # cs) =
     (if is_digit c then let (ds, rest) = scan_digits n cs in (c # ds, rest) else ([], c # cs))"
| "scan_digits _ cs = ([], cs)"

definition digits_value :: "string \<Rightarrow> int" where
  "digits_value ds = foldl (\<lambda>a d. 10 * a + (of_char d - 48)) 0 ds"

definition scan_2d :: "string \<Rightarrow> (int \<times> string) option" where
  "scan_2d s =
     (let s = dropWhile is_space s;
          (sgn, width, body) = (case s of
             c # cs \<Rightarrow> if c = CHR ''-'' then (-1, 1, cs) else if c = CHR ''+'' then (1, 1, cs) else (1, 2, s)
           | [] \<Rightarrow> (1, 2, []));
          (ds, rest) = scan_digits width body
      in if ds = [] then None else Some (sgn * digits_value ds, rest))"

definition sscanf_time :: "string \<Rightarrow> (int \<times> int) option" where
  "sscanf_time s =
     (case scan_2d s of
        None \<Rightarrow> None
      | Some (h, rest) \<Rightarrow>
          (case rest of
             c # rest' \<Rightarrow> if c = CHR '':'' then map_option (\<lambda>(m, _). (h, m)) (scan_2d rest') else None
           | [] \<Rightarrow> None))"

text \<open>
  The two \<open>struct tm\<close> values differ in hour and minute only, so the difference of the two \<open>mktime\<close>
  results, in minutes, is the difference of their minutes of the day (the local time zone has one
  offset on that day).
\<close>

definition IsWithinTimeRange :: "clock \<Rightarrow> string \<Rightarrow> int \<Rightarrow> bool" where
  "IsWithinTimeRange clk startTime rangeInMinute =
     (let total_day_minutes = MIN_ABOUT_1_DAY in
      if rangeInMinute \<ge> total_day_minutes then True
      else (case sscanf_time startTime of
              None \<Rightarrow> False
            | Some (targetHour, targetMin) \<Rightarrow>
                let dur_count = (tm_hour clk * 60 + tm_min clk) - (targetHour * 60 + targetMin);
                    minutes_diff = (if dur_count > 0 then dur_count else dur_count + total_day_minutes)
                in minutes_diff \<le> rangeInMinute))"

subsection \<open>Scaled regions\<close>

lemma round_away_close: "\<bar>round_away r - r\<bar> \<le> 1 / 2"
  unfolding round_away_def by (cases "0 \<le> r") (simp_all only: if_True if_False simp_thms, linarith+)

lemma int_cast_of_int [simp]: "int_cast (of_int i) = i"
  by (simp add: int_cast_def)

lemma int_cast_round: "int_cast (round_away r) = (if 0 \<le> r then \<lfloor>r + 1/2\<rfloor> else \<lceil>r - 1/2\<rceil>)"
  by (simp add: round_away_def)

lemma of_int_cast_round: "of_int (int_cast (round_away r)) = round_away r"
  by (simp add: int_cast_round) (simp add: round_away_def)

lemma clamp_bounds: "0 \<le> hi \<Longrightarrow> 0 \<le> clamp 0 x hi \<and> clamp 0 x hi \<le> hi"
  by (simp add: clamp_def clamp_range_bounds)

lemma scaled_coordinate:
  assumes "0 \<le> t" "t \<le> 1" "0 \<le> n"
  shows "\<bar>of_int (clamp 0 (int_cast (round_away (of_int n * t))) n) - of_int n * t\<bar> \<le> 1 / 2"
proof -
  let ?i = "int_cast (round_away (of_int n * t))"
  have close: "\<bar>of_int ?i - of_int n * t\<bar> \<le> 1 / 2" using round_away_close of_int_cast_round by metis
  have "of_int n * t \<le> of_int n" "0 \<le> of_int n * t" using assms by (auto intro: mult_left_le)
  then have "0 \<le> ?i" "?i \<le> n" using close by linarith+
  then show ?thesis using close by (simp add: clamp_def clamp_range_def)
qed

text \<open>
  Every region of the setting becomes a region of the frame: the same number of regions and
  points, every point inside the frame, and the points of ratios between 0 and 1 within half a
  pixel of their exact position.
\<close>

theorem scaled_rois_in_frame:
  assumes "0 \<le> w" and "0 \<le> h"
  shows "list_all2 (list_all2 (\<lambda>(rx, ry) p.
           0 \<le> pt_x p \<and> pt_x p \<le> w \<and> 0 \<le> pt_y p \<and> pt_y p \<le> h
           \<and> (0 \<le> rx \<and> rx \<le> 1 \<longrightarrow> \<bar>of_int (pt_x p) - of_int w * rx\<bar> \<le> 1 / 2)
           \<and> (0 \<le> ry \<and> ry \<le> 1 \<longrightarrow> \<bar>of_int (pt_y p) - of_int h * ry\<bar> \<le> 1 / 2)))
         rois (MakeCvScaledRoiFromScheduleRoi rois w h)"
  unfolding MakeCvScaledRoiFromScheduleRoi_def list_all2_conv_all_nth
  using assms by (auto simp: clamp_bounds intro: scaled_coordinate split: prod.splits simp del: le_divide_eq_numeral1)

theorem scaled_rois_in_frame_witness:
  "\<bar>of_int (pt_x (MakeCvScaledRoiFromScheduleRoi [[(1/3, 1/2)]] 640 480 ! 0 ! 0)) - 640 * (1/3 :: real)\<bar> \<le> 1 / 2"
  using scaled_rois_in_frame [of 640 480 "[[(1/3, 1/2)]]"]
  by (auto simp: MakeCvScaledRoiFromScheduleRoi_def)

subsection \<open>Active hours\<close>

definition two_digits :: "nat \<Rightarrow> string" where
  "two_digits n = [char_of (48 + n div 10), char_of (48 + n mod 10)]"

definition clock_text :: "nat \<Rightarrow> nat \<Rightarrow> string" where
  "clock_text h m = two_digits h @ '':'' @ two_digits m"

lemma of_char_digit [simp]:
  assumes "d < 10"
  shows "of_char (char_of (48 + d :: nat)) = (48 + d :: nat)"
    and "of_char (char_of (48 + d :: nat)) = (48 + int d)"
proof -
  show nat: "of_char (char_of (48 + d :: nat)) = (48 + d :: nat)" using assms by simp
  show "of_char (char_of (48 + d :: nat)) = (48 + int d)"
    by (metis nat of_nat_add of_nat_numeral of_nat_of_char)
qed

lemma digit_char:
  assumes "d < 10"
  shows "is_digit (char_of (48 + d :: nat))" "\<not> is_space (char_of (48 + d :: nat))"
    "char_of (48 + d :: nat) \<noteq> CHR ''-''" "char_of (48 + d :: nat) \<noteq> CHR ''+''"
proof -
  show "is_digit (char_of (48 + d :: nat))" using assms by (simp add: is_digit_def)
  have "char_of (48 + d :: nat) \<noteq> c" if "(of_char c :: nat) < 48" for c
    using of_char_digit(1) [OF assms] that by auto
  then show "\<not> is_space (char_of (48 + d :: nat))"
    "char_of (48 + d :: nat) \<noteq> CHR ''-''" "char_of (48 + d :: nat) \<noteq> CHR ''+''"
    by (auto simp: is_space_def)
qed

lemma scan_two_digits:
  assumes "n < 100"
  shows "scan_2d (two_digits n @ rest) = Some (int n, rest)"
proof -
  have "n div 10 < 10" "n mod 10 < 10" using assms by auto
  note d = digit_char [OF this(1)] digit_char [OF this(2)] of_char_digit [OF this(1)] of_char_digit [OF this(2)]
  have "10 * int (n div 10) + int (n mod 10) = int n" by presburger
  then show ?thesis using d
    by (simp add: scan_2d_def two_digits_def numeral_2_eq_2 digits_value_def)
qed

lemma sscanf_clock_text: "h < 100 \<Longrightarrow> m < 100 \<Longrightarrow> sscanf_time (clock_text h m) = Some (int h, int m)"
  using scan_two_digits [of m "[]"] by (simp add: sscanf_time_def clock_text_def scan_two_digits)

text \<open>
  The active window.  For a start time written \<open>HH:MM\<close> and a range below a day, a schedule is
  active at a minute exactly when that minute is one of the first \<open>range\<close> minutes \<^emph>\<open>after\<close> the start
  minute, wrapping at midnight: the start minute itself is outside the window.
\<close>

theorem time_range_window:
  assumes "h < 24" "m < 60" "0 \<le> tm_hour clk" "tm_hour clk < 24" "0 \<le> tm_min clk" "tm_min clk < 60"
    and "minutes < 1440"
  shows "IsWithinTimeRange clk (clock_text h m) minutes \<longleftrightarrow>
           (\<exists>k. 1 \<le> k \<and> k \<le> minutes \<and>
              (int h * 60 + int m + k) mod 1440 = tm_hour clk * 60 + tm_min clk)"
proof -
  define start where "start = int h * 60 + int m"
  define now where "now = tm_hour clk * 60 + tm_min clk"
  have b: "0 \<le> start" "start < 1440" "0 \<le> now" "now < 1440"
    using assms unfolding start_def now_def by auto
  have "IsWithinTimeRange clk (clock_text h m) minutes \<longleftrightarrow>
      (if now - start > 0 then now - start else now - start + 1440) \<le> minutes"
    using assms by (simp add: IsWithinTimeRange_def sscanf_clock_text DefineDefault_defs start_def now_def)
  also have "\<dots> \<longleftrightarrow> (\<exists>k. 1 \<le> k \<and> k \<le> minutes \<and> (start + k) mod 1440 = now)"
  proof -
    have "now = (start + k) mod 1440 \<longleftrightarrow> k = (if now - start > 0 then now - start else now - start + 1440)"
      if "1 \<le> k" "k < 1440" for k
    proof (cases "start + k < 1440")
      case False
      then have "(start + k) mod 1440 = start + k - 1440"
        using b that by (intro int_mod_pos_eq [where q = 1]) auto
      then show ?thesis using b that by auto
    qed (use b that in auto)
    note window = this
    let ?d = "if now - start > 0 then now - start else now - start + 1440"
    have range: "1 \<le> ?d" using b by auto
    show ?thesis
    proof
      assume "?d \<le> minutes"
      then show "\<exists>k. 1 \<le> k \<and> k \<le> minutes \<and> (start + k) mod 1440 = now"
        using window [of ?d] range assms(7) by (intro exI [of _ ?d]) auto
    next
      assume "\<exists>k. 1 \<le> k \<and> k \<le> minutes \<and> (start + k) mod 1440 = now"
      then obtain k where k: "1 \<le> k" "k \<le> minutes" "(start + k) mod 1440 = now" by blast
      then have "k = ?d" using window [of k] assms(7) by simp
      then show "?d \<le> minutes" using k(2) by simp
    qed
  qed
  finally show ?thesis by (simp add: start_def now_def)
qed

theorem time_range_window_witness:
  "IsWithinTimeRange \<lparr>steady_now = 0, system_now = 0, tm_date = [], tm_wday = 0, tm_hour = 1, tm_min = 30\<rparr>
     (clock_text 23 0) 300"
  by (subst time_range_window) (auto intro: exI [of _ 150])

end
