(* ===== verification/Abnormal_Checker.thy ===== *)
theory Abnormal_Checker
  imports Schedule "HOL-Library.Monad_Syntax"
begin

text \<open>
  The event checkers of \<open>AbnormalActions/src/AbnormalActionChecker.cpp\<close> and \<open>Schedule::Check\<close>.  A
  checker receives the detections of a frame and the schedule and returns the detections that raise
  the event and the schedule it leaves.  \<open>None\<close> is the end of the process: an exception that leaves a
  \<open>noexcept\<close> function.
\<close>

definition DATA_LAYER_HIST_MAX :: nat where "DATA_LAYER_HIST_MAX = 600"
definition REQUIRE_MIN_TRACKING_COUNT :: nat where "REQUIRE_MIN_TRACKING_COUNT = 10"

lemmas checker_limits = DATA_LAYER_HIST_MAX_def REQUIRE_MIN_TRACKING_COUNT_def

text \<open>The loop over the detections of a frame; an iteration may end the process.\<close>

fun for_objects :: "(InferObject \<Rightarrow> 's \<Rightarrow> 's option) \<Rightarrow> InferObject list \<Rightarrow> 's \<Rightarrow> 's option" where
  "for_objects body [] s = Some s"
| "for_objects body (obj # objs) s = do { s' \<leftarrow> body obj s; for_objects body objs s' }"

subsection \<open>Line crossing\<close>

text \<open>\<open>size() - 1\<close> on \<open>size_t\<close>.\<close>

definition size_minus_1 :: "'a list \<Rightarrow> nat" where
  "size_minus_1 xs = (if xs = [] then 2 ^ 64 - 1 else length xs - 1)"

text \<open>The inner loop; \<open>at\<close> throws outside the range.\<close>

function hist_loop :: "DataLayer \<Rightarrow> cv_point list \<Rightarrow> nat \<Rightarrow> nat \<Rightarrow> LineOrientation option" where
  "hist_loop hist roi_points curr_line_idx curr_hist_idx =
     (if curr_hist_idx < size_minus_1 hist then
        if curr_hist_idx + 1 < length hist \<and> curr_line_idx + 1 < length roi_points then
          let line_cross = checkLineIntersect
                (getMidPointFromInferObject (hist ! curr_hist_idx))
                (getMidPointFromInferObject (hist ! (curr_hist_idx + 1)))
                (roi_points ! curr_line_idx) (roi_points ! (curr_line_idx + 1))
          in if line_cross \<noteq> NotCrossed then Some line_cross
             else hist_loop hist roi_points curr_line_idx (curr_hist_idx + 1)
        else None
      else Some NotCrossed)"
  by pat_completeness auto
termination by (relation "measure (\<lambda>(hist, _, _, i). size_minus_1 hist - i)") auto

function line_loop :: "DataLayer \<Rightarrow> cv_point list \<Rightarrow> nat \<Rightarrow> LineOrientation option" where
  "line_loop hist roi_points curr_line_idx =
     (if curr_line_idx < size_minus_1 roi_points then
        case hist_loop hist roi_points curr_line_idx 0 of
          None \<Rightarrow> None
        | Some line_cross \<Rightarrow> if line_cross \<noteq> NotCrossed then Some line_cross
                             else line_loop hist roi_points (curr_line_idx + 1)
      else Some NotCrossed)"
  by pat_completeness auto
termination by (relation "measure (\<lambda>(_, roi_points, i). size_minus_1 roi_points - i)") auto

declare hist_loop.simps [simp del] line_loop.simps [simp del]

fun calcLineCross :: "DataLayer \<Rightarrow> cv_point list list \<Rightarrow> LineOrientation option" where
  "calcLineCross hist [] = Some NotCrossed"
| "calcLineCross hist (roi_points # rois) =
     (case line_loop hist roi_points 0 of
        None \<Rightarrow> None
      | Some line_cross \<Rightarrow> if line_cross \<noteq> NotCrossed then Some line_cross else calcLineCross hist rois)"

definition line_direction :: "schedule \<Rightarrow> DataLayer \<Rightarrow> LineOrientation option" where
  "line_direction sch boxes = do {
     two_way \<leftarrow> calcLineCross boxes (cv_two_way_rois sch);
     let direction = (if two_way \<noteq> NotCrossed then two_way else NotCrossed);
     one_way \<leftarrow> calcLineCross boxes (cv_one_way_rois sch);
     Some (if one_way = Clockwise then one_way else direction) }"

definition with_extend :: "cfloat \<Rightarrow> InferObject \<Rightarrow> InferObject" where
  "with_extend v obj = obj\<lparr>extend_data := extend_data obj @ [v]\<rparr>"

definition push_box :: "DataLayer \<Rightarrow> InferObject \<Rightarrow> DataLayer" where
  "push_box boxes obj =
     (let boxes = boxes @ [obj] in if length boxes > DATA_LAYER_HIST_MAX then [] else boxes)"

definition line_body ::
  "clock \<Rightarrow> schedule \<Rightarrow> ClassEqualChecker \<Rightarrow> string \<Rightarrow> InferObject \<Rightarrow>
   DataLayer history_checker \<times> DataLayer \<Rightarrow> (DataLayer history_checker \<times> DataLayer) option" where
  "line_body clk sch eq class_name obj = (\<lambda>(hc, results).
     if \<not> eq (class_id obj) class_name then Some (hc, results)
     else if IsWithinExcludeROI sch obj then Some (hc, results)
     else let (boxes, hc) = GetHistory (steady_now clk) [] (track_id obj) hc;
              boxes = push_box boxes obj;
              hc = write_history (track_id obj) boxes hc
          in if length boxes < REQUIRE_MIN_TRACKING_COUNT then Some (hc, results)
             else if \<not> GetEnoughEventInterval clk sch then Some (hc, results)
             else do {
               direction \<leftarrow> line_direction sch boxes;
               Some (hc, if direction \<noteq> NotCrossed
                         then results @ [with_extend (of_int (orientation_code direction)) obj]
                         else results) })"

definition finish_check :: "clock \<Rightarrow> DataLayer \<Rightarrow> schedule \<Rightarrow> DataLayer \<times> schedule" where
  "finish_check clk results sch =
     (results, if length results > 0 then UpdateEventActivateTime clk sch else sch)"

definition LineIntrusionBase ::
  "clock \<Rightarrow> DataLayer \<Rightarrow> schedule \<Rightarrow> string \<Rightarrow> (DataLayer \<times> schedule) option" where
  "LineIntrusionBase clk in_layer sch class_name =
     (case class_equal_checker sch of
        None \<Rightarrow> Some ([], sch)
      | Some eq \<Rightarrow> do {
          (hc, results) \<leftarrow> for_objects (line_body clk sch eq class_name) in_layer
            (ReleaseInactiveHistory (steady_now clk) in_layer (object_history sch), []);
          Some (finish_check clk results (sch\<lparr>object_history := hc\<rparr>)) })"

definition IntrusionLine :: "clock \<Rightarrow> DataLayer \<Rightarrow> schedule \<Rightarrow> (DataLayer \<times> schedule) option" where
  "IntrusionLine clk in_layer sch = LineIntrusionBase clk in_layer sch ''Person''"

definition VehicleIntrusion_check :: "clock \<Rightarrow> DataLayer \<Rightarrow> schedule \<Rightarrow> (DataLayer \<times> schedule) option" where
  "VehicleIntrusion_check clk in_layer sch = LineIntrusionBase clk in_layer sch ''Car''"

subsection \<open>Zone intrusion\<close>

definition in_some_roi :: "schedule \<Rightarrow> InferObject \<Rightarrow> bool" where
  "in_some_roi sch obj = (\<exists>r \<in> set (cv_rois sch). isIncludePoint (getMidPointFromInferObject obj) r)"

text \<open>The second loop over the regions: at most one result per track.\<close>

fun zone_rois :: "clock \<Rightarrow> RoiEventInfo \<Rightarrow> InferObject \<Rightarrow> cv_point list list \<Rightarrow> DataLayer \<Rightarrow> DataLayer" where
  "zone_rois clk roi_check obj [] results = results"
| "zone_rois clk roi_check obj (r # rs) results = zone_rois clk roi_check obj rs
     (if continuous roi_check \<and> isIncludePoint (getMidPointFromInferObject obj) r then
        if \<exists>elem \<in> set results. track_id elem = track_id obj then results
        else results @ [with_extend (of_int ((system_now clk - event_time roi_check) sdiv 1000)) obj]
      else results)"

definition zone_body ::
  "clock \<Rightarrow> schedule \<Rightarrow> ClassEqualChecker \<Rightarrow> InferObject \<Rightarrow>
   RoiEventInfo history_checker \<times> DataLayer \<Rightarrow> (RoiEventInfo history_checker \<times> DataLayer) option" where
  "zone_body clk sch eq obj = (\<lambda>(hc, results).
     if \<not> eq (class_id obj) ''Person'' then Some (hc, results)
     else if IsWithinExcludeROI sch obj then Some (hc, results)
     else let (roi_check, hc) = GetHistory (steady_now clk) (RoiEventInfo_default clk) (track_id obj) hc;
              roi_check = (if \<not> in_some_roi sch obj
                           then \<lparr>continuous = True, event_time = system_now clk\<rparr> else roi_check);
              hc = write_history (track_id obj) roi_check hc
          in if \<not> GetEnoughEventInterval clk sch then Some (hc, results)
             else Some (hc, zone_rois clk roi_check obj (cv_rois sch) results))"

definition IntrusionZone :: "clock \<Rightarrow> DataLayer \<Rightarrow> schedule \<Rightarrow> (DataLayer \<times> schedule) option" where
  "IntrusionZone clk in_layer sch =
     (case class_equal_checker sch of
        None \<Rightarrow> Some ([], sch)
      | Some eq \<Rightarrow> do {
          (hc, results) \<leftarrow> for_objects (zone_body clk sch eq) in_layer
            (ReleaseInactiveHistory (steady_now clk) in_layer (roi_state_history sch), []);
          Some (finish_check clk results (sch\<lparr>roi_state_history := hc\<rparr>)) })"

subsection \<open>Parking\<close>

definition push_tracked :: "(InferObject \<times> int) list \<Rightarrow> InferObject \<times> int \<Rightarrow> (InferObject \<times> int) list" where
  "push_tracked hist entry =
     (let hist = hist @ [entry] in if length hist > DATA_LAYER_HIST_MAX then [hd hist] else hist)"

definition parking_body ::
  "clock \<Rightarrow> schedule \<Rightarrow> ClassEqualChecker \<Rightarrow> InferObject \<Rightarrow>
   LoiteringEventInfo history_checker \<times> DataLayer \<Rightarrow> (LoiteringEventInfo history_checker \<times> DataLayer) option" where
  "parking_body clk sch eq obj = (\<lambda>(hc, results).
     if \<not> eq (class_id obj) ''Car'' then Some (hc, results)
     else if IsWithinExcludeROI sch obj then Some (hc, results)
     else let (info, hc) = GetHistory (steady_now clk) (LoiteringEventInfo_default clk) (track_id obj) hc
          in if in_some_roi sch obj then
               let hist = push_tracked (infer_objects info) (obj, system_now clk);
                   hc = write_history (track_id obj) (info\<lparr>infer_objects := hist\<rparr>) hc
               in if length hist < REQUIRE_MIN_TRACKING_COUNT then Some (hc, results)
                  else let duration = GetDurationIfSatisfyEventRequireSeconds clk sch (snd (hd hist))
                       in if duration > 0 \<and> GetEnoughEventInterval clk sch
                          then Some (hc, results @ [with_extend (of_int duration) obj])
                          else Some (hc, results)
             else Some (hc, results))"

definition VehicleParking_check :: "clock \<Rightarrow> DataLayer \<Rightarrow> schedule \<Rightarrow> (DataLayer \<times> schedule) option" where
  "VehicleParking_check clk in_layer sch =
     (case class_equal_checker sch of
        None \<Rightarrow> Some ([], sch)
      | Some eq \<Rightarrow> do {
          (hc, results) \<leftarrow> for_objects (parking_body clk sch eq) in_layer (moving_state_history sch, []);
          Some (finish_check clk results (sch\<lparr>moving_state_history := hc\<rparr>)) })"

subsection \<open>The check of a frame\<close>

fun run_checker :: "EventChecker \<Rightarrow> clock \<Rightarrow> DataLayer \<Rightarrow> schedule \<Rightarrow> (DataLayer \<times> schedule) option" where
  "run_checker IntrusionLine_checker = IntrusionLine"
| "run_checker IntrusionZone_checker = IntrusionZone"
| "run_checker VehicleIntrusion_checker = VehicleIntrusion_check"
| "run_checker VehicleParking_checker = VehicleParking_check"

definition Check :: "clock \<Rightarrow> DataLayer \<Rightarrow> schedule \<Rightarrow> (DataLayer \<times> schedule) option" where
  "Check clk in_layer sch =
     (if IsWithinBlackList clk (black_list_days (sch_info sch)) then Some ([], sch)
      else if \<not> IsWithinWeeklyDay clk (weekly (sch_info sch)) then Some ([], sch)
      else if \<not> IsWithinTimeRange clk (start_time (sch_info sch)) (range_minutes (sch_info sch)) then Some ([], sch)
      else case checker sch of
             Some c \<Rightarrow> run_checker c clk in_layer sch
           | None \<Rightarrow> Some ([], sch))"


subsection \<open>What the crossing scan computes\<close>

definition step_crossing :: "DataLayer \<Rightarrow> cv_point list \<Rightarrow> nat \<Rightarrow> nat \<Rightarrow> LineOrientation" where
  "step_crossing hist roi_points j i =
     checkLineIntersect (getMidPointFromInferObject (hist ! i)) (getMidPointFromInferObject (hist ! (i + 1)))
       (roi_points ! j) (roi_points ! (j + 1))"

text \<open>The path through the mid points of the history meets the polyline.\<close>

definition path_meets :: "DataLayer \<Rightarrow> cv_point list \<Rightarrow> bool" where
  "path_meets hist roi_points = (\<exists>i j. i + 1 < length hist \<and> j + 1 < length roi_points \<and>
     segments_meet (getMidPointFromInferObject (hist ! i)) (getMidPointFromInferObject (hist ! (i + 1)))
       (roi_points ! j) (roi_points ! (j + 1)))"

lemma step_crossing_iff:
  "step_crossing hist roi_points j i \<noteq> NotCrossed \<longleftrightarrow>
     segments_meet (getMidPointFromInferObject (hist ! i)) (getMidPointFromInferObject (hist ! (i + 1)))
       (roi_points ! j) (roi_points ! (j + 1))"
  unfolding step_crossing_def using crossed_meets meet_crossed by blast

text \<open>A scan that ends with \<open>c\<close> over the indices \<open>I\<close>: the first crossing, or none.\<close>

definition scan_result :: "('i \<Rightarrow> LineOrientation) \<Rightarrow> 'i set \<Rightarrow> LineOrientation \<Rightarrow> bool" where
  "scan_result f I c = (if c = NotCrossed then \<forall>i \<in> I. f i = NotCrossed else \<exists>i \<in> I. f i = c)"

lemma scan_result_skip:
  "(\<And>i. i \<in> A \<Longrightarrow> f i = NotCrossed) \<Longrightarrow> scan_result f (A \<union> B) c = scan_result f B c"
  by (auto simp: scan_result_def)

lemma scan_result_found: "i \<in> I \<Longrightarrow> f i = c \<Longrightarrow> c \<noteq> NotCrossed \<Longrightarrow> scan_result f I c"
  by (auto simp: scan_result_def)

lemma scan_result_empty [simp]: "scan_result f {} NotCrossed"
  by (simp add: scan_result_def)

lemma hist_loop_unfold:
  assumes "hist \<noteq> []" and "j + 1 < length roi_points"
  shows "hist_loop hist roi_points j i =
           (if i + 1 < length hist then
              if step_crossing hist roi_points j i \<noteq> NotCrossed then Some (step_crossing hist roi_points j i)
              else hist_loop hist roi_points j (i + 1)
            else Some NotCrossed)"
proof -
  have "i < size_minus_1 hist \<longleftrightarrow> i + 1 < length hist" using assms(1) by (auto simp: size_minus_1_def)
  then show ?thesis using assms by (subst hist_loop.simps) (simp add: step_crossing_def Let_def)
qed

lemma line_loop_unfold:
  assumes "roi_points \<noteq> []"
  shows "line_loop hist roi_points j =
           (if j + 1 < length roi_points then
              case hist_loop hist roi_points j 0 of None \<Rightarrow> None
              | Some c \<Rightarrow> if c \<noteq> NotCrossed then Some c else line_loop hist roi_points (j + 1)
            else Some NotCrossed)"
proof -
  have "j < size_minus_1 roi_points \<longleftrightarrow> j + 1 < length roi_points" using assms by (auto simp: size_minus_1_def)
  then show ?thesis by (subst line_loop.simps) simp
qed

lemma hist_loop_result:
  assumes "hist \<noteq> []" and "j + 1 < length roi_points"
  shows "\<exists>c. hist_loop hist roi_points j i = Some c \<and>
           scan_result (step_crossing hist roi_points j) {k. i \<le> k \<and> k + 1 < length hist} c"
proof (induction "length hist - i" arbitrary: i rule: less_induct)
  case less
  note unfold = hist_loop_unfold [OF assms, of i]
  show ?case
  proof (cases "i + 1 < length hist")
    case True
    have split: "{k. i \<le> k \<and> k + 1 < length hist} = {i} \<union> {k. i + 1 \<le> k \<and> k + 1 < length hist}"
      using True by auto
    show ?thesis
    proof (cases "step_crossing hist roi_points j i = NotCrossed")
      case nc: True
      obtain c where "hist_loop hist roi_points j (i + 1) = Some c"
        "scan_result (step_crossing hist roi_points j) {k. i + 1 \<le> k \<and> k + 1 < length hist} c"
        using less [OF diff_less_mono2 [of i "i + 1" "length hist"]] True by auto
      then show ?thesis using nc True unfolding unfold split by (subst scan_result_skip) auto
    next
      case False
      then show ?thesis using True unfolding unfold by (auto intro!: scan_result_found [of i])
    qed
  next
    case False
    then have none: "{k. i \<le> k \<and> k + 1 < length hist} = {}" by auto
    show ?thesis using False unfolding unfold none by simp
  qed
qed

lemma line_loop_result:
  assumes "hist \<noteq> []" and "roi_points \<noteq> []"
  shows "\<exists>c. line_loop hist roi_points j = Some c \<and>
           scan_result (\<lambda>(j, i). step_crossing hist roi_points j i)
             ({k. j \<le> k \<and> k + 1 < length roi_points} \<times> {i. i + 1 < length hist}) c"
    (is "\<exists>c. _ \<and> scan_result ?f _ c")
proof (induction "length roi_points - j" arbitrary: j rule: less_induct)
  case less
  note unfold = line_loop_unfold [OF assms(2), of hist j]
  let ?H = "{i. i + 1 < length hist}"
  show ?case
  proof (cases "j + 1 < length roi_points")
    case True
    obtain c where c: "hist_loop hist roi_points j 0 = Some c" "scan_result (step_crossing hist roi_points j) ?H c"
      using hist_loop_result [OF assms(1) True, of 0] by auto
    have split: "{k. j \<le> k \<and> k + 1 < length roi_points} \<times> ?H =
        {j} \<times> ?H \<union> {k. j + 1 \<le> k \<and> k + 1 < length roi_points} \<times> ?H"
      using True by auto
    show ?thesis
    proof (cases "c = NotCrossed")
      case nc: True
      obtain c' where c': "line_loop hist roi_points (j + 1) = Some c'"
        "scan_result ?f ({k. j + 1 \<le> k \<and> k + 1 < length roi_points} \<times> ?H) c'"
        using less [OF diff_less_mono2 [of j "j + 1" "length roi_points"]] True by auto
      have "?f x = NotCrossed" if "x \<in> {j} \<times> ?H" for x using that c(2) nc by (auto simp: scan_result_def)
      then show ?thesis using c' c(1) nc True unfolding unfold split by (subst scan_result_skip) auto
    next
      case False
      then obtain i where "i \<in> ?H" "step_crossing hist roi_points j i = c"
        using c(2) by (auto simp: scan_result_def)
      then show ?thesis using False c(1) True unfolding unfold by (auto intro!: scan_result_found [of "(j, i)"])
    qed
  next
    case False
    then have none: "{k. j \<le> k \<and> k + 1 < length roi_points} = {}" by auto
    show ?thesis using False unfolding unfold none by simp
  qed
qed

lemma calcLineCross_result:
  assumes "hist \<noteq> []" and "[] \<notin> set rois"
  obtains c where "calcLineCross hist rois = Some c"
    and "c \<noteq> NotCrossed \<longleftrightarrow> (\<exists>r \<in> set rois. path_meets hist r)"
proof -
  have "\<exists>c. calcLineCross hist rois = Some c \<and> (c \<noteq> NotCrossed \<longleftrightarrow> (\<exists>r \<in> set rois. path_meets hist r))"
    using assms(2)
  proof (induction rois)
    case (Cons r rois)
    then obtain c where "line_loop hist r 0 = Some c"
      "scan_result (\<lambda>(j, i). step_crossing hist r j i) ({k. k + 1 < length r} \<times> {i. i + 1 < length hist}) c"
      using line_loop_result [OF assms(1), of r 0] by auto
    moreover from this(2) have "c \<noteq> NotCrossed \<longleftrightarrow> path_meets hist r"
      unfolding path_meets_def step_crossing_iff [symmetric]
      by (cases "c = NotCrossed") (auto simp: scan_result_def)
    ultimately show ?case using Cons by (cases "c = NotCrossed") auto
  qed simp
  then show ?thesis using that by blast
qed

lemma calcLineCross_empty_roi:
  assumes "2 \<le> length hist" and "calcLineCross hist rois = Some NotCrossed"
  shows "calcLineCross hist (rois @ [] # rest) = None"
proof -
  have "line_loop hist [] 0 = None"
    using assms(1) by (subst line_loop.simps, subst hist_loop.simps) (auto simp: size_minus_1_def)
  then show ?thesis using assms(2) by (induction rois) (auto split: option.splits if_splits)
qed

subsection \<open>The invariant of a schedule\<close>

lemma for_objects_inv:
  assumes "I s" and "\<And>obj s. obj \<in> set objs \<Longrightarrow> I s \<Longrightarrow> \<exists>s'. body obj s = Some s' \<and> I s'"
  shows "\<exists>s'. for_objects body objs s = Some s' \<and> I s'"
  using assms
proof (induction objs arbitrary: s)
  case (Cons obj objs)
  then obtain s' where "body obj s = Some s'" "I s'" by (meson list.set_intros(1))
  moreover have "\<exists>s''. for_objects body objs s' = Some s'' \<and> I s''"
    using Cons.IH [OF \<open>I s'\<close>] Cons.prems(2) by auto
  ultimately show ?case by simp
qed simp

definition boxes_ok :: "int \<Rightarrow> DataLayer \<Rightarrow> int \<Rightarrow> bool" where
  "boxes_ok tid boxes t = (length boxes \<le> DATA_LAYER_HIST_MAX \<and> (\<forall>b \<in> set boxes. track_id b = tid))"

definition loiter_ok :: "int \<Rightarrow> LoiteringEventInfo \<Rightarrow> int \<Rightarrow> bool" where
  "loiter_ok tid info t = (length (infer_objects info) \<le> DATA_LAYER_HIST_MAX
     \<and> (\<forall>(b, u) \<in> set (infer_objects info). track_id b = tid))"

definition schedule_ok :: "schedule \<Rightarrow> bool" where
  "schedule_ok sch = ([] \<notin> set (cv_two_way_rois sch) \<and> [] \<notin> set (cv_one_way_rois sch)
     \<and> hc_inv (object_history sch) \<and> hist.all_histories boxes_ok (object_history sch)
     \<and> hc_inv (roi_state_history sch)
     \<and> hc_inv (moving_state_history sch) \<and> hist.all_histories loiter_ok (moving_state_history sch))"

lemma boxes_ok_push: "boxes_ok tid boxes t \<Longrightarrow> track_id obj = tid \<Longrightarrow> boxes_ok tid (push_box boxes obj) u"
  by (auto simp: boxes_ok_def push_box_def Let_def)

lemma loiter_ok_push:
  "loiter_ok tid info t \<Longrightarrow> track_id obj = tid \<Longrightarrow>
     loiter_ok tid (info\<lparr>infer_objects := push_tracked (infer_objects info) (obj, now)\<rparr>) u"
  by (cases "infer_objects info") (auto simp: loiter_ok_def push_tracked_def Let_def checker_limits)

text \<open>A fetch followed by a write through the reference keeps an invariant of the histories.\<close>

lemma fetch_write_ok:
  assumes "hc_inv hc" and "hist.all_histories P hc" and "P tid fresh now"
    and upd: "\<And>v t. P tid v t \<Longrightarrow> P tid (upd v) t"
    and g: "GetHistory now fresh tid hc = (v, hc')"
  shows "hc_inv (write_history tid (upd v) hc')" and "hist.all_histories P (write_history tid (upd v) hc')"
    and "\<exists>t. P tid v t" and "hc_inv hc'" and "hist.all_histories P hc'"
proof -
  obtain t where t: "hc_lookup hc' tid = Some (v, t)" "P tid v t" "hist.all_histories P hc'"
    by (rule hist.all_fetch [OF assms(1-3)]) (simp add: g)
  show inv: "hc_inv hc'" using hc_inv_ops(1) [OF assms(1), of now fresh tid] g by simp
  then show "hc_inv (write_history tid (upd v) hc')" by (rule hc_inv_ops)
  show "hist.all_histories P (write_history tid (upd v) hc')"
    by (rule hist.all_store [OF inv t(3)]) (use t upd in auto)
  show "\<exists>t. P tid v t" "hist.all_histories P hc'" using t by auto
qed

lemma line_direction_result:
  assumes "boxes \<noteq> []" "[] \<notin> set (cv_two_way_rois sch)" "[] \<notin> set (cv_one_way_rois sch)"
  obtains d where "line_direction sch boxes = Some d"
    and "(\<exists>r \<in> set (cv_two_way_rois sch). path_meets boxes r) \<Longrightarrow> d \<noteq> NotCrossed"
    and "d \<noteq> NotCrossed \<Longrightarrow> (\<exists>r \<in> set (cv_two_way_rois sch). path_meets boxes r) \<or>
           d = Clockwise \<and> (\<exists>r \<in> set (cv_one_way_rois sch). path_meets boxes r)"
proof -
  obtain two where two: "calcLineCross boxes (cv_two_way_rois sch) = Some two"
    "two \<noteq> NotCrossed \<longleftrightarrow> (\<exists>r \<in> set (cv_two_way_rois sch). path_meets boxes r)"
    using calcLineCross_result [OF assms(1,2)] by blast
  obtain one where one: "calcLineCross boxes (cv_one_way_rois sch) = Some one"
    "one \<noteq> NotCrossed \<longleftrightarrow> (\<exists>r \<in> set (cv_one_way_rois sch). path_meets boxes r)"
    using calcLineCross_result [OF assms(1,3)] by blast
  have "line_direction sch boxes = Some (if one = Clockwise then one else two)"
    by (simp add: line_direction_def two(1) one(1) Let_def)
  then show ?thesis
    by (rule that) (use two(2) one(2) in \<open>auto split: if_splits\<close>)
qed

text \<open>Why a detection may raise a line-crossing event.\<close>

definition line_alarm :: "clock \<Rightarrow> schedule \<Rightarrow> ClassEqualChecker \<Rightarrow> string \<Rightarrow> DataLayer \<Rightarrow> InferObject \<Rightarrow> bool" where
  "line_alarm clk sch eq class_name in_layer r =
     (\<exists>obj \<in> set in_layer. \<exists>boxes d.
        r = with_extend (of_int (orientation_code d)) obj \<and> d \<noteq> NotCrossed
        \<and> eq (class_id obj) class_name \<and> \<not> IsWithinExcludeROI sch obj \<and> GetEnoughEventInterval clk sch
        \<and> REQUIRE_MIN_TRACKING_COUNT \<le> length boxes \<and> last boxes = obj \<and> boxes_ok (track_id obj) boxes 0
        \<and> ((\<exists>l \<in> set (cv_two_way_rois sch). path_meets boxes l) \<or>
           d = Clockwise \<and> (\<exists>l \<in> set (cv_one_way_rois sch). path_meets boxes l)))"

lemma line_body_ok:
  assumes sch: "[] \<notin> set (cv_two_way_rois sch)" "[] \<notin> set (cv_one_way_rois sch)"
    and obj: "obj \<in> set in_layer"
    and inv: "hc_inv hc" "hist.all_histories boxes_ok hc" "\<forall>r \<in> set results. line_alarm clk sch eq cn in_layer r"
  shows "\<exists>hc' results'. line_body clk sch eq cn obj (hc, results) = Some (hc', results')
           \<and> hc_inv hc' \<and> hist.all_histories boxes_ok hc' \<and> (\<forall>r \<in> set results'. line_alarm clk sch eq cn in_layer r)"
proof (cases "eq (class_id obj) cn \<and> \<not> IsWithinExcludeROI sch obj")
  case act: True
  obtain v hc1 where g: "GetHistory (steady_now clk) [] (track_id obj) hc = (v, hc1)" by fastforce
  let ?boxes = "push_box v obj" and ?hc = "write_history (track_id obj) (push_box v obj) hc1"
  have fresh: "boxes_ok (track_id obj) [] (steady_now clk)" by (simp add: boxes_ok_def)
  have "\<And>v t. boxes_ok (track_id obj) v t \<Longrightarrow> boxes_ok (track_id obj) (push_box v obj) t"
    by (rule boxes_ok_push) auto
  note w = fetch_write_ok [where upd = "\<lambda>v. push_box v obj", OF inv(1,2) fresh this g]
  show ?thesis
  proof (cases "length ?boxes < REQUIRE_MIN_TRACKING_COUNT \<or> \<not> GetEnoughEventInterval clk sch")
    case True
    then show ?thesis using act g w inv(3) by (auto simp: line_body_def Let_def)
  next
    case False
    then have ne: "?boxes \<noteq> []" by (auto simp: checker_limits)
    obtain d where d: "line_direction sch ?boxes = Some d"
      "d \<noteq> NotCrossed \<Longrightarrow> (\<exists>r \<in> set (cv_two_way_rois sch). path_meets ?boxes r) \<or>
         d = Clockwise \<and> (\<exists>r \<in> set (cv_one_way_rois sch). path_meets ?boxes r)"
      using line_direction_result [OF ne sch] by metis
    have "last ?boxes = obj" using ne by (auto simp: push_box_def Let_def split: if_splits)
    moreover have "boxes_ok (track_id obj) ?boxes 0" using w(3) boxes_ok_push by blast
    ultimately have "line_alarm clk sch eq cn in_layer (with_extend (of_int (orientation_code d)) obj)"
      if "d \<noteq> NotCrossed" using that obj act d(2) False
      unfolding line_alarm_def by (intro bexI [of _ obj] exI [of _ ?boxes] exI [of _ d]) auto
    then show ?thesis using act g w(1,2) inv(3) d(1) False by (auto simp: line_body_def Let_def)
  qed
qed (use inv in \<open>auto simp: line_body_def\<close>)

definition zone_alarm :: "clock \<Rightarrow> schedule \<Rightarrow> ClassEqualChecker \<Rightarrow> DataLayer \<Rightarrow> InferObject \<Rightarrow> bool" where
  "zone_alarm clk sch eq in_layer r =
     (\<exists>obj \<in> set in_layer. \<exists>v. r = with_extend v obj \<and> eq (class_id obj) ''Person''
        \<and> \<not> IsWithinExcludeROI sch obj \<and> GetEnoughEventInterval clk sch \<and> in_some_roi sch obj)"

lemma with_extend_track_id [simp]: "track_id (with_extend v obj) = track_id obj"
  by (simp add: with_extend_def)

lemma zone_rois_result:
  "zone_rois clk rc obj rois results =
     (if continuous rc \<and> (\<exists>r \<in> set rois. isIncludePoint (getMidPointFromInferObject obj) r)
         \<and> track_id obj \<notin> track_id ` set results
      then results @ [with_extend (of_int ((system_now clk - event_time rc) sdiv 1000)) obj]
      else results)"
proof (induction rois arbitrary: results)
  case (Cons r rois)
  show ?case by (simp add: Cons image_iff) (auto, metis+)
qed simp

lemma zone_body_ok:
  assumes obj: "obj \<in> set in_layer"
    and inv: "hc_inv hc" "\<forall>r \<in> set results. zone_alarm clk sch eq in_layer r" "distinct (map track_id results)"
  shows "\<exists>hc' results'. zone_body clk sch eq obj (hc, results) = Some (hc', results')
           \<and> hc_inv hc' \<and> (\<forall>r \<in> set results'. zone_alarm clk sch eq in_layer r)
           \<and> distinct (map track_id results')"
proof (cases "eq (class_id obj) ''Person'' \<and> \<not> IsWithinExcludeROI sch obj")
  case act: True
  obtain v hc1 where g: "GetHistory (steady_now clk) (RoiEventInfo_default clk) (track_id obj) hc = (v, hc1)"
    by fastforce
  let ?v = "if \<not> in_some_roi sch obj then \<lparr>continuous = True, event_time = system_now clk\<rparr> else v"
  have "hc_inv hc1" using hc_inv_ops(1) [OF inv(1)] g by (metis snd_conv)
  then have inv': "hc_inv (write_history (track_id obj) ?v hc1)" by (rule hc_inv_ops)
  have alarm: "zone_alarm clk sch eq in_layer (with_extend u obj)"
    if "GetEnoughEventInterval clk sch" "in_some_roi sch obj" for u
    using that obj act unfolding zone_alarm_def by blast
  show ?thesis
    using act g inv' alarm inv(2,3)
    by (auto simp: zone_body_def Let_def zone_rois_result in_some_roi_def [symmetric])
qed (use inv in \<open>auto simp: zone_body_def\<close>)

definition parking_alarm :: "clock \<Rightarrow> schedule \<Rightarrow> ClassEqualChecker \<Rightarrow> DataLayer \<Rightarrow> InferObject \<Rightarrow> bool" where
  "parking_alarm clk sch eq in_layer r =
     (\<exists>obj \<in> set in_layer. \<exists>v. r = with_extend v obj \<and> eq (class_id obj) ''Car''
        \<and> \<not> IsWithinExcludeROI sch obj \<and> GetEnoughEventInterval clk sch \<and> in_some_roi sch obj)"

lemma parking_body_ok:
  assumes obj: "obj \<in> set in_layer"
    and inv: "hc_inv hc" "hist.all_histories loiter_ok hc" "\<forall>r \<in> set results. parking_alarm clk sch eq in_layer r"
  shows "\<exists>hc' results'. parking_body clk sch eq obj (hc, results) = Some (hc', results')
           \<and> hc_inv hc' \<and> hist.all_histories loiter_ok hc' \<and> (\<forall>r \<in> set results'. parking_alarm clk sch eq in_layer r)"
proof (cases "eq (class_id obj) ''Car'' \<and> \<not> IsWithinExcludeROI sch obj")
  case act: True
  obtain v hc1 where g: "GetHistory (steady_now clk) (LoiteringEventInfo_default clk) (track_id obj) hc = (v, hc1)"
    by fastforce
  have fresh: "loiter_ok (track_id obj) (LoiteringEventInfo_default clk) (steady_now clk)"
    by (simp add: loiter_ok_def LoiteringEventInfo_default_def)
  let ?upd = "\<lambda>v. v\<lparr>infer_objects := push_tracked (infer_objects v) (obj, system_now clk)\<rparr>"
  have "\<And>v t. loiter_ok (track_id obj) v t \<Longrightarrow> loiter_ok (track_id obj) (?upd v) t"
    by (rule loiter_ok_push) auto
  note w = fetch_write_ok [where upd = ?upd, OF inv(1,2) fresh this g]
  have alarm: "parking_alarm clk sch eq in_layer (with_extend u obj)"
    if "GetEnoughEventInterval clk sch" "in_some_roi sch obj" for u
    using that obj act unfolding parking_alarm_def by blast
  show ?thesis
    using act g w(1,2,4,5) alarm inv(3) by (auto simp: parking_body_def Let_def)
qed (use inv in \<open>auto simp: parking_body_def\<close>)

subsection \<open>One frame\<close>

lemma all_release_histories:
  "hc_inv hc \<Longrightarrow> hist.all_histories boxes_ok hc \<Longrightarrow> hist.all_histories boxes_ok (ReleaseInactiveHistory now objs hc)"
  by (rule hist.all_release) (auto simp: boxes_ok_def)

lemma LineIntrusionBase_ok:
  assumes "schedule_ok sch"
  shows "\<exists>results hc. LineIntrusionBase clk in_layer sch cn = Some (finish_check clk results (sch\<lparr>object_history := hc\<rparr>))
           \<and> hc_inv hc \<and> hist.all_histories boxes_ok hc
           \<and> (\<forall>r \<in> set results. \<exists>eq. class_equal_checker sch = Some eq \<and> line_alarm clk sch eq cn in_layer r)"
proof (cases "class_equal_checker sch")
  case None
  then show ?thesis using assms
    by (auto simp: LineIntrusionBase_def finish_check_def schedule_ok_def
        intro!: exI [of _ "[]"] exI [of _ "object_history sch"])
next
  case (Some eq)
  let ?I = "\<lambda>(hc, results). hc_inv hc \<and> hist.all_histories boxes_ok hc \<and>
      (\<forall>r \<in> set results. line_alarm clk sch eq cn in_layer r)"
  have "?I (ReleaseInactiveHistory (steady_now clk) in_layer (object_history sch), [])"
    using assms by (auto simp: schedule_ok_def intro: hc_inv_ops all_release_histories)
  moreover have "\<exists>s'. line_body clk sch eq cn obj s = Some s' \<and> ?I s'" if "obj \<in> set in_layer" "?I s" for obj s
    using that line_body_ok [of sch obj in_layer "fst s" "snd s" clk eq cn] assms
    by (cases s) (auto simp: schedule_ok_def)
  ultimately obtain s' where "for_objects (line_body clk sch eq cn) in_layer
      (ReleaseInactiveHistory (steady_now clk) in_layer (object_history sch), []) = Some s'" "?I s'"
    using for_objects_inv [where I = ?I and body = "line_body clk sch eq cn"] by blast
  then show ?thesis using Some by (cases s') (auto simp: LineIntrusionBase_def)
qed

lemma IntrusionZone_ok:
  assumes "schedule_ok sch"
  shows "\<exists>results hc. IntrusionZone clk in_layer sch = Some (finish_check clk results (sch\<lparr>roi_state_history := hc\<rparr>))
           \<and> hc_inv hc \<and> distinct (map track_id results)
           \<and> (\<forall>r \<in> set results. \<exists>eq. class_equal_checker sch = Some eq \<and> zone_alarm clk sch eq in_layer r)"
proof (cases "class_equal_checker sch")
  case None
  then show ?thesis using assms
    by (auto simp: IntrusionZone_def finish_check_def schedule_ok_def
        intro!: exI [of _ "[]"] exI [of _ "roi_state_history sch"])
next
  case (Some eq)
  let ?I = "\<lambda>(hc, results). hc_inv hc \<and> (\<forall>r \<in> set results. zone_alarm clk sch eq in_layer r)
      \<and> distinct (map track_id results)"
  have "?I (ReleaseInactiveHistory (steady_now clk) in_layer (roi_state_history sch), [])"
    using assms by (auto simp: schedule_ok_def intro: hc_inv_ops)
  moreover have "\<exists>s'. zone_body clk sch eq obj s = Some s' \<and> ?I s'" if "obj \<in> set in_layer" "?I s" for obj s
    using that zone_body_ok [of obj in_layer "fst s" "snd s" clk sch eq] by (cases s) auto
  ultimately obtain s' where "for_objects (zone_body clk sch eq) in_layer
      (ReleaseInactiveHistory (steady_now clk) in_layer (roi_state_history sch), []) = Some s'" "?I s'"
    using for_objects_inv [where I = ?I and body = "zone_body clk sch eq"] by blast
  then show ?thesis using Some by (cases s') (auto simp: IntrusionZone_def)
qed

lemma VehicleParking_check_ok:
  assumes "schedule_ok sch"
  shows "\<exists>results hc. VehicleParking_check clk in_layer sch = Some (finish_check clk results (sch\<lparr>moving_state_history := hc\<rparr>))
           \<and> hc_inv hc \<and> hist.all_histories loiter_ok hc
           \<and> (\<forall>r \<in> set results. \<exists>eq. class_equal_checker sch = Some eq \<and> parking_alarm clk sch eq in_layer r)"
proof (cases "class_equal_checker sch")
  case None
  then show ?thesis using assms
    by (auto simp: VehicleParking_check_def finish_check_def schedule_ok_def
        intro!: exI [of _ "[]"] exI [of _ "moving_state_history sch"])
next
  case (Some eq)
  let ?I = "\<lambda>(hc, results). hc_inv hc \<and> hist.all_histories loiter_ok hc
      \<and> (\<forall>r \<in> set results. parking_alarm clk sch eq in_layer r)"
  have "?I (moving_state_history sch, [])" using assms by (auto simp: schedule_ok_def)
  moreover have "\<exists>s'. parking_body clk sch eq obj s = Some s' \<and> ?I s'" if "obj \<in> set in_layer" "?I s" for obj s
    using that parking_body_ok [of obj in_layer "fst s" "snd s" clk sch eq] by (cases s) auto
  ultimately obtain s' where "for_objects (parking_body clk sch eq) in_layer
      (moving_state_history sch, []) = Some s'" "?I s'"
    using for_objects_inv [where I = ?I and body = "parking_body clk sch eq"] by blast
  then show ?thesis using Some by (cases s') (auto simp: VehicleParking_check_def)
qed

text \<open>The fields no check changes, and when the activation time changes.\<close>

definition same_settings :: "schedule \<Rightarrow> schedule \<Rightarrow> bool" where
  "same_settings s t = (sch_info s = sch_info t \<and> abnormal_require_seconds s = abnormal_require_seconds t
     \<and> cv_rois s = cv_rois t \<and> cv_exclude_rois s = cv_exclude_rois t
     \<and> cv_two_way_rois s = cv_two_way_rois t \<and> cv_one_way_rois s = cv_one_way_rois t
     \<and> class_equal_checker s = class_equal_checker t \<and> checker s = checker t)"

definition frame_active :: "clock \<Rightarrow> schedule \<Rightarrow> bool" where
  "frame_active clk sch = (tm_date clk \<notin> set (black_list_days (sch_info sch))
     \<and> length (weekly (sch_info sch)) = 7 \<and> weekly (sch_info sch) ! tm_wday clk = 1
     \<and> IsWithinTimeRange clk (start_time (sch_info sch)) (range_minutes (sch_info sch)))"

lemma finish_check_effect:
  "finish_check clk results sch = (rs, sch') \<Longrightarrow> rs = results \<and> same_settings sch sch'
     \<and> last_active_time sch' = (if results = [] then last_active_time sch else system_now clk)
     \<and> (schedule_ok sch \<longrightarrow> schedule_ok sch')"
  by (auto simp: finish_check_def UpdateEventActivateTime_def same_settings_def schedule_ok_def split: if_splits)

lemma run_checker_ok:
  assumes "schedule_ok sch"
  shows "\<exists>results sch'. run_checker c clk in_layer sch = Some (results, sch') \<and> schedule_ok sch'
           \<and> same_settings sch sch'
           \<and> last_active_time sch' = (if results = [] then last_active_time sch else system_now clk)
           \<and> (results \<noteq> [] \<longrightarrow> GetEnoughEventInterval clk sch)"
proof -
  have line: ?thesis if "run_checker c clk in_layer sch = LineIntrusionBase clk in_layer sch cn" for cn
    using LineIntrusionBase_ok [OF assms, of clk in_layer cn] assms that
    by (fastforce simp: finish_check_def UpdateEventActivateTime_def same_settings_def schedule_ok_def
        line_alarm_def neq_Nil_conv split: if_splits)
  show ?thesis
  proof (cases c)
    case IntrusionLine_checker
    then show ?thesis by (intro line [of "''Person''"]) (simp add: IntrusionLine_def)
  next
    case VehicleIntrusion_checker
    then show ?thesis by (intro line [of "''Car''"]) (simp add: VehicleIntrusion_check_def)
  next
    case IntrusionZone_checker
    then show ?thesis using IntrusionZone_ok [OF assms, of clk in_layer] assms
      by (fastforce simp: finish_check_def UpdateEventActivateTime_def same_settings_def schedule_ok_def
        zone_alarm_def neq_Nil_conv split: if_splits)
  next
    case VehicleParking_checker
    then show ?thesis using VehicleParking_check_ok [OF assms, of clk in_layer] assms
      by (fastforce simp: finish_check_def UpdateEventActivateTime_def same_settings_def schedule_ok_def
        parking_alarm_def neq_Nil_conv split: if_splits)
  qed
qed

lemma Check_ok:
  assumes "schedule_ok sch"
  obtains results sch' where "Check clk in_layer sch = Some (results, sch')" and "schedule_ok sch'"
    and "same_settings sch sch'"
    and "last_active_time sch' = (if results = [] then last_active_time sch else system_now clk)"
    and "results \<noteq> [] \<Longrightarrow> GetEnoughEventInterval clk sch \<and> frame_active clk sch"
proof -
  have same: "same_settings sch sch" by (simp add: same_settings_def)
  show ?thesis
  proof (cases "frame_active clk sch \<and> checker sch \<noteq> None")
    case True
    then obtain c where c: "checker sch = Some c" by blast
    have "Check clk in_layer sch = run_checker c clk in_layer sch"
      using True c by (auto simp: Check_def frame_active_def IsWithinBlackList_def IsWithinWeeklyDay_def
          DefineDefault_defs)
    then show ?thesis using run_checker_ok [OF assms, of c clk in_layer] that True by auto
  next
    case False
    then have "Check clk in_layer sch = Some ([], sch)"
      by (auto simp: Check_def frame_active_def IsWithinBlackList_def IsWithinWeeklyDay_def DefineDefault_defs
          split: option.split if_splits)
    then show ?thesis using that assms same by auto
  qed
qed

subsection \<open>A schedule over its life\<close>

definition check_step :: "schedule option \<Rightarrow> clock \<times> DataLayer \<Rightarrow> schedule option" where
  "check_step s frame = do { sch \<leftarrow> s; (results, sch') \<leftarrow> Check (fst frame) (snd frame) sch; Some sch' }"

interpretation sched: op_system check_step "\<lambda>_. True" "\<lambda>s. case s of None \<Rightarrow> False | Some sch \<Rightarrow> schedule_ok sch"
proof
  fix s and frame :: "clock \<times> DataLayer"
  assume "case s of None \<Rightarrow> False | Some sch \<Rightarrow> schedule_ok sch"
  then obtain sch where "s = Some sch" "schedule_ok sch" by (auto split: option.splits)
  then show "case check_step s frame of None \<Rightarrow> False | Some sch \<Rightarrow> schedule_ok sch"
    using Check_ok [of sch "fst frame" "snd frame"] by (metis (no_types, lifting) check_step_def bind.bind_lunit case_prod_conv option.simps(5))
qed

lemma Schedule_new_ok:
  assumes "[] \<notin> set (two_way_roi info)" and "[] \<notin> set (one_way_roi info)"
  shows "schedule_ok (Schedule_new clk info w h cec)"
  using assms by (auto simp: schedule_ok_def Schedule_new_def SetClassEqualChecker_def Let_def
      MakeCvScaledRoiFromScheduleRoi_def HistoryChecker_new_def hc_inv_def hist.all_histories_def hc_lookup_def
      split: option.split)

text \<open>
  A schedule whose line regions are not empty survives every sequence of frames, at any clock
  readings: no check ends the process, and every history it keeps stays within 600 entries, all of
  the track the history belongs to.
\<close>

theorem schedule_never_aborts:
  assumes "[] \<notin> set (two_way_roi info)" and "[] \<notin> set (one_way_roi info)"
  shows "\<exists>sch. foldl check_step (Some (Schedule_new clk info w h cec)) frames = Some sch
           \<and> (\<forall>tid boxes t. hc_lookup (object_history sch) tid = Some (boxes, t) \<longrightarrow>
                length boxes \<le> 600 \<and> (\<forall>b \<in> set boxes. track_id b = tid))
           \<and> (\<forall>tid info t. hc_lookup (moving_state_history sch) tid = Some (info, t) \<longrightarrow>
                length (infer_objects info) \<le> 600)"
proof -
  let ?s = "foldl check_step (Some (Schedule_new clk info w h cec)) frames"
  have "case ?s of None \<Rightarrow> False | Some sch \<Rightarrow> schedule_ok sch"
    by (rule sched.inv_run) (use Schedule_new_ok [OF assms] in \<open>auto simp: list_all_iff\<close>)
  then show ?thesis
    by (fastforce simp: schedule_ok_def hist.all_histories_def boxes_ok_def loiter_ok_def checker_limits
        split: option.splits)
qed

text \<open>The alarms of a sequence of frames, each with its system time.\<close>

fun run_checks :: "(clock \<times> DataLayer) list \<Rightarrow> schedule \<Rightarrow> ((int \<times> DataLayer) list \<times> schedule) option" where
  "run_checks [] sch = Some ([], sch)"
| "run_checks ((clk, in_layer) # frames) sch = do {
     (results, sch') \<leftarrow> Check clk in_layer sch;
     (log, sch'') \<leftarrow> run_checks frames sch';
     Some (if results = [] then log else (system_now clk, results) # log, sch'') }"

lemma successively_Cons_iff: "successively P (x # xs) \<longleftrightarrow> xs = [] \<or> P x (hd xs) \<and> successively P xs"
  by (cases xs) auto

text \<open>
  Notifications are rate limited: in any sequence of frames, the first alarm of a schedule and
  every later one come more than the notification interval after the previous one (after the
  construction, for the first).
\<close>

lemma run_checks_spaced:
  assumes "schedule_ok sch"
  shows "\<exists>log sch'. run_checks frames sch = Some (log, sch') \<and>
           successively (\<lambda>t u. u - t > notification_min_interval_sec (sch_info sch) * 1000)
             (last_active_time sch # map fst log)"
  using assms
proof (induction frames arbitrary: sch)
  case (Cons frame frames)
  obtain clk in_layer where f: "frame = (clk, in_layer)" by fastforce
  obtain results s1 where c: "Check clk in_layer sch = Some (results, s1)" "schedule_ok s1" "same_settings sch s1"
    "last_active_time s1 = (if results = [] then last_active_time sch else system_now clk)"
    "results \<noteq> [] \<Longrightarrow> GetEnoughEventInterval clk sch \<and> frame_active clk sch"
    using Check_ok [OF Cons.prems] by metis
  obtain log s2 where r: "run_checks frames s1 = Some (log, s2)"
    "successively (\<lambda>t u. u - t > notification_min_interval_sec (sch_info sch) * 1000) (last_active_time s1 # map fst log)"
    using Cons.IH [OF c(2)] c(3) by (auto simp: same_settings_def)
  show ?case using c r by (auto simp: f GetEnoughEventInterval_def)
qed simp

subsection \<open>Line-crossing alarms\<close>


lemma line_check_single:
  assumes "checker sch = Some IntrusionLine_checker" and "class_equal_checker sch = Some eq"
    and "frame_active clk sch" and "GetEnoughEventInterval clk sch"
    and "eq (class_id obj) ''Person''" and "\<not> IsWithinExcludeROI sch obj"
    and boxes: "boxes = fst (GetHistory (steady_now clk) [] (track_id obj)
                   (ReleaseInactiveHistory (steady_now clk) [obj] (object_history sch))) @ [obj]"
    and len: "10 \<le> length boxes" "length boxes \<le> 600" and d: "line_direction sch boxes = Some d"
  shows "\<exists>results sch'. Check clk [obj] sch = Some (results, sch') \<and> length results = (if d = NotCrossed then 0 else 1)"
proof -
  obtain v hc where g: "GetHistory (steady_now clk) [] (track_id obj)
      (ReleaseInactiveHistory (steady_now clk) [obj] (object_history sch)) = (v, hc)" by fastforce
  then have pb: "push_box v obj = boxes" using boxes len by (simp add: push_box_def checker_limits)
  have "Check clk [obj] sch = LineIntrusionBase clk [obj] sch ''Person''"
    using assms(1,3) by (auto simp: Check_def frame_active_def IsWithinBlackList_def IsWithinWeeklyDay_def
        DefineDefault_defs IntrusionLine_def)
  then show ?thesis using assms(2,4-6) g pb len d
    by (auto simp: LineIntrusionBase_def line_body_def Let_def checker_limits finish_check_def)
qed


subsection \<open>A concrete schedule\<close>

definition example_info :: "EventClass \<Rightarrow> int \<Rightarrow> AbnormalEventScheduleInfo" where
  "example_info ec require =
     \<lparr>schedule_id = 1, event_code = ec, level_code = 1, start_time = ''00:00'', range_minutes = 1440,
      weekly = replicate 7 1, roi = [[(1/2, 0), (1, 0), (1, 1), (1/2, 1)]], exclude_roi = [],
      two_way_roi = [[(1/2, 0), (1/2, 1)]], one_way_roi = [], black_list_days = [],
      notification_min_interval_sec = 60, loitering_require_dur_sec = require\<rparr>"

definition example_clock :: "int \<Rightarrow> clock" where
  "example_clock t = \<lparr>steady_now = t, system_now = t, tm_date = ''2026-01-01'', tm_wday = 4, tm_hour = 0, tm_min = 0\<rparr>"

definition example_classes :: ClassEqualChecker where
  "example_classes c name = (c = 0 \<and> name = ''Person'' \<or> c = 1 \<and> name = ''Car'')"

definition example_box :: "int \<Rightarrow> cfloat \<Rightarrow> InferObject" where
  "example_box cls x = InferObject_default\<lparr>class_id := cls, track_id := 7,
     bbox := \<lparr>bbox_x = x, bbox_y = 40, bbox_w = 10, bbox_h = 10\<rparr>\<rparr>"

definition example_schedule :: "EventClass \<Rightarrow> schedule" where
  "example_schedule ec = (Schedule_new (example_clock 0) (example_info ec 60) 100 100 (Some example_classes))
     \<lparr>object_history := \<lparr>history_map = [(7, replicate 9 (example_box 0 30), 99000)], release_threshold_millisecs = 10000\<rparr>\<rparr>"

lemma example_scaling [simp]:
  "int_cast (round_away (100 * (1/2))) = 50" "int_cast (round_away 50) = 50" "int_cast (round_away 0) = 0" "int_cast (round_away 100) = 100"
  by (simp_all add: int_cast_round)

lemma example_schedule_ok: "schedule_ok (example_schedule ec)"
  using Schedule_new_ok [of "example_info ec 60" "example_clock 0" 100 100 "Some example_classes"]
  by (auto simp: example_schedule_def schedule_ok_def example_info_def hc_inv_def hist.all_histories_def
      hc_lookup_def boxes_ok_def checker_limits example_box_def)

lemma example_schedule_fields [simp]:
  "sch_info (example_schedule ec) = example_info ec 60"
  "checker (example_schedule ec) = SelectChecker ec"
  "class_equal_checker (example_schedule ec) = Some example_classes"
  "last_active_time (example_schedule ec) = 0"
  "cv_exclude_rois (example_schedule ec) = []"
  "cv_two_way_rois (example_schedule ec) = [[\<lparr>pt_x = 50, pt_y = 0\<rparr>, \<lparr>pt_x = 50, pt_y = 100\<rparr>]]"
  "object_history (example_schedule ec) =
     \<lparr>history_map = [(7, replicate 9 (example_box 0 30), 99000)], release_threshold_millisecs = 10000\<rparr>"
  by (simp_all add: example_schedule_def Schedule_new_def SetClassEqualChecker_def Let_def example_info_def
      example_clock_def MakeCvScaledRoiFromScheduleRoi_def clamp_def clamp_range_def)

lemma example_active: "frame_active (example_clock t) (example_schedule ec)"
  by (simp add: frame_active_def example_clock_def example_info_def IsWithinTimeRange_def DefineDefault_defs)

lemma example_crossing: "path_meets (replicate 9 (example_box 0 30) @ [example_box 0 60])
    [\<lparr>pt_x = 50, pt_y = 0\<rparr>, \<lparr>pt_x = 50, pt_y = 100\<rparr>]"
  unfolding path_meets_def step_crossing_iff [symmetric]
  by (intro exI [of _ 8] exI [of _ 0])
    (simp add: step_crossing_def example_box_def getMidPointFromInferObject_def int_cast_def
      checkLineIntersect_def lineOrientation_def orientation_val_def nth_append Let_def)

theorem schedule_never_aborts_witness:
  "\<exists>sch. foldl check_step (Some (Schedule_new (example_clock 0) (example_info LineIntrusion 60) 100 100 None))
     [(example_clock 1, [example_box 0 30])] = Some sch"
  using schedule_never_aborts [of "example_info LineIntrusion 60" "example_clock 0" 100 100 None "[(example_clock 1, [example_box 0 30])]"]
  by (auto simp: example_info_def)



subsection \<open>Parking alarms and the release limit\<close>

text \<open>
  The histories of a parking schedule: every remembered position was taken after the history was
  created, and no history was created in the future.
\<close>

definition parked_ok :: "int \<Rightarrow> int \<Rightarrow> int \<Rightarrow> LoiteringEventInfo \<Rightarrow> int \<Rightarrow> bool" where
  "parked_ok off now tid info t = (t \<le> now \<and> (\<forall>(b, u) \<in> set (infer_objects info). t + off \<le> u))"

lemma set_push_tracked: "set (push_tracked hist e) \<subseteq> set (hist @ [e])"
  by (cases hist) (auto simp: push_tracked_def Let_def)

lemma push_tracked_nonempty: "push_tracked hist e \<noteq> []"
  by (auto simp: push_tracked_def Let_def)

lemma parking_body_silent:
  assumes inv: "hc_inv hc" "hist.all_histories (parked_ok off now) hc" "release_threshold_millisecs hc = 120000"
    and clk: "steady_now clk = now" "system_now clk = now + off"
    and req: "120 \<le> abnormal_require_seconds sch"
  shows "\<exists>hc'. parking_body clk sch eq obj (hc, results) = Some (hc', results) \<and> hc_inv hc'
           \<and> hist.all_histories (parked_ok off now) hc' \<and> release_threshold_millisecs hc' = 120000"
proof (cases "eq (class_id obj) ''Car'' \<and> \<not> IsWithinExcludeROI sch obj")
  case act: True
  let ?fresh = "LoiteringEventInfo_default clk" and ?tid = "track_id obj"
  let ?upd = "\<lambda>v. v\<lparr>infer_objects := push_tracked (infer_objects v) (obj, now + off)\<rparr>"
  obtain v hc1 where g: "GetHistory now ?fresh ?tid hc = (v, hc1)" by fastforce
  have fresh: "parked_ok off now ?tid ?fresh now" by (simp add: parked_ok_def LoiteringEventInfo_default_def)
  have upd: "parked_ok off now ?tid v t \<Longrightarrow> parked_ok off now ?tid (?upd v) t" for v t
    using set_push_tracked by (fastforce simp: parked_ok_def)
  note w = fetch_write_ok [where upd = ?upd, OF inv(1,2) fresh upd g]
  have lim1: "release_threshold_millisecs hc1 = 120000"
    using hist.limit_ops [of now ?fresh ?tid hc] g inv(3) by simp
  have lim2: "release_threshold_millisecs (write_history ?tid u hc1) = 120000" for u
    by (simp add: write_history_def lim1)
  obtain t where t: "parked_ok off now ?tid v t" "now - t \<le> 120000 \<or> t = now"
    by (rule hist.all_fetch [OF inv(1,2) fresh]) (use g inv(3) in auto)
  have "now + off - snd (hd (infer_objects (?upd v))) \<le> 120000"
  proof -
    have "hd (infer_objects (?upd v)) \<in> set (infer_objects (?upd v))" by (simp add: push_tracked_nonempty)
    then have "t + off \<le> snd (hd (infer_objects (?upd v)))" using upd [OF t(1)] by (auto simp: parked_ok_def)
    then show ?thesis using t(2) by auto
  qed
  then have "GetDurationIfSatisfyEventRequireSeconds clk sch (snd (hd (infer_objects (?upd v)))) = 0"
    using req clk by (simp add: GetDurationIfSatisfyEventRequireSeconds_def Let_def)
  then show ?thesis using act g w(1,2,4,5) lim1 lim2 clk by (auto simp: parking_body_def Let_def)
qed (use inv in \<open>auto simp: parking_body_def\<close>)

definition parking_ok :: "int \<Rightarrow> int \<Rightarrow> schedule \<Rightarrow> bool" where
  "parking_ok off now sch = (checker sch = Some VehicleParking_checker \<and> 120 \<le> abnormal_require_seconds sch
     \<and> hc_inv (moving_state_history sch) \<and> hist.all_histories (parked_ok off now) (moving_state_history sch)
     \<and> release_threshold_millisecs (moving_state_history sch) = 120000)"

lemma parking_ok_later: "parking_ok off now sch \<Longrightarrow> now \<le> now' \<Longrightarrow> parking_ok off now' sch"
  by (fastforce simp: parking_ok_def hist.all_histories_def parked_ok_def)

lemma parking_check_silent:
  assumes "parking_ok off now sch" and "steady_now clk = now" "system_now clk = now + off"
  shows "\<exists>sch'. Check clk in_layer sch = Some ([], sch') \<and> parking_ok off now sch'"
proof -
  let ?I = "\<lambda>(hc, results). results = [] \<and> hc_inv hc \<and> hist.all_histories (parked_ok off now) hc
      \<and> release_threshold_millisecs hc = 120000"
  have "\<exists>s'. for_objects (parking_body clk sch eq) in_layer (moving_state_history sch, []) = Some s' \<and> ?I s'" for eq
  proof (rule for_objects_inv)
    show "\<exists>s'. parking_body clk sch eq obj s = Some s' \<and> ?I s'" if "?I s" for obj s
      using that parking_body_silent [of "fst s" off now clk sch eq obj "snd s"] assms
      by (cases s) (auto simp: parking_ok_def)
  qed (use assms in \<open>auto simp: parking_ok_def\<close>)
  note loop = this
  have "\<exists>sch'. VehicleParking_check clk in_layer sch = Some ([], sch') \<and> parking_ok off now sch'"
  proof (cases "class_equal_checker sch")
    case (Some eq)
    then show ?thesis using loop [of eq] assms(1)
      by (auto simp: VehicleParking_check_def finish_check_def parking_ok_def)
  qed (use assms(1) in \<open>simp add: VehicleParking_check_def\<close>)
  then show ?thesis using assms(1) by (auto simp: Check_def parking_ok_def)
qed

text \<open>
  A parking schedule whose required duration is two minutes or more never raises an alarm.  Its
  histories are not refreshed by the frames (the checker does not call \<open>ReleaseInactiveHistory\<close>), so
  \<open>GetHistory\<close> restarts every track 120 seconds after it first appeared, before the required
  duration can be exceeded.  The clocks are assumed to be monotonic and to differ by a constant.
\<close>

theorem long_parking_never_reported:
  assumes "event_code info = VehicleParking" and "120 \<le> loitering_require_dur_sec info"
    and "sorted (steady_now clk # map (\<lambda>f. steady_now (fst f)) frames)"
    and "\<forall>f \<in> set frames. system_now (fst f) = steady_now (fst f) + off"
  shows "\<exists>sch. run_checks frames (Schedule_new clk info w h cec) = Some ([], sch)"
proof -
  have "\<exists>sch'. run_checks frames sch = Some ([], sch')" if "parking_ok off now sch"
    "sorted (now # map (\<lambda>f. steady_now (fst f)) frames)" for now sch
    using that assms(4)
  proof (induction frames arbitrary: sch now)
    case (Cons frame frames)
    obtain clk' in_layer where f: "frame = (clk', in_layer)" by fastforce
    have "parking_ok off (steady_now clk') sch" using Cons.prems(1,2) parking_ok_later by (simp add: f)
    then obtain s1 where s1: "Check clk' in_layer sch = Some ([], s1)" "parking_ok off (steady_now clk') s1"
      using parking_check_silent [of off _ sch clk' in_layer] Cons.prems(3) by (auto simp: f)
    then show ?case using Cons.IH [OF s1(2)] Cons.prems(2,3) by (auto simp: f)
  qed simp
  moreover have "parking_ok off (steady_now clk) (Schedule_new clk info w h cec)"
    using assms(1,2) by (auto simp: parking_ok_def Schedule_new_def SetClassEqualChecker_def Let_def
        HistoryChecker_new_def hc_inv_def hist.all_histories_def hc_lookup_def DefineDefault_defs split: option.split)
  ultimately show ?thesis using assms(3) by blast
qed

theorem long_parking_never_reported_witness:
  "\<exists>sch. run_checks (map (\<lambda>t. (example_clock t, [example_box 1 60])) [0, 30000, 60000, 90000, 120000, 300000])
     (Schedule_new (example_clock 0) (example_info VehicleParking 180) 100 100 (Some example_classes)) = Some ([], sch)"
  by (rule long_parking_never_reported [where off = 0]) (simp_all add: example_info_def example_clock_def)

subsection \<open>Zone alarms need an entry\<close>

text \<open>Some frame showed the track outside every region.\<close>

definition seen_outside :: "cv_point list list \<Rightarrow> (clock \<times> DataLayer) list \<Rightarrow> int \<Rightarrow> bool" where
  "seen_outside rois frames tid = (\<exists>frame \<in> set frames. \<exists>obj \<in> set (snd frame). track_id obj = tid
     \<and> (\<forall>r \<in> set rois. \<not> isIncludePoint (getMidPointFromInferObject obj) r))"

definition entry_ok :: "cv_point list list \<Rightarrow> (clock \<times> DataLayer) list \<Rightarrow> int \<Rightarrow> RoiEventInfo \<Rightarrow> int \<Rightarrow> bool" where
  "entry_ok rois frames tid info t = (continuous info \<longrightarrow> seen_outside rois frames tid)"

definition zone_ok :: "(clock \<times> DataLayer) list \<Rightarrow> schedule \<Rightarrow> bool" where
  "zone_ok frames sch = (checker sch = Some IntrusionZone_checker \<and> hc_inv (roi_state_history sch)
     \<and> hist.all_histories (entry_ok (cv_rois sch) frames) (roi_state_history sch))"

lemma zone_body_entry:
  assumes obj: "obj \<in> set in_layer" "(clk', in_layer) \<in> set frames"
    and inv: "hc_inv hc" "hist.all_histories (entry_ok (cv_rois sch) frames) hc"
      "\<forall>r \<in> set results. seen_outside (cv_rois sch) frames (track_id r)"
  shows "\<exists>hc' results'. zone_body clk sch eq obj (hc, results) = Some (hc', results') \<and> hc_inv hc'
           \<and> hist.all_histories (entry_ok (cv_rois sch) frames) hc'
           \<and> (\<forall>r \<in> set results'. seen_outside (cv_rois sch) frames (track_id r))"
proof (cases "eq (class_id obj) ''Person'' \<and> \<not> IsWithinExcludeROI sch obj")
  case act: True
  let ?P = "entry_ok (cv_rois sch) frames" and ?tid = "track_id obj"
  let ?upd = "\<lambda>v. if \<not> in_some_roi sch obj then \<lparr>continuous = True, event_time = system_now clk\<rparr> else v"
  obtain v hc1 where g: "GetHistory (steady_now clk) (RoiEventInfo_default clk) ?tid hc = (v, hc1)" by fastforce
  have fresh: "?P ?tid (RoiEventInfo_default clk) (steady_now clk)" by (simp add: entry_ok_def RoiEventInfo_default_def)
  have out: "seen_outside (cv_rois sch) frames ?tid" if "\<not> in_some_roi sch obj"
    using that obj unfolding seen_outside_def in_some_roi_def by (metis snd_conv)
  then have upd: "?P ?tid v t \<Longrightarrow> ?P ?tid (?upd v) t" for v t by (simp add: entry_ok_def)
  note w = fetch_write_ok [where upd = ?upd, OF inv(1,2) fresh upd g]
  have "continuous (?upd v) \<Longrightarrow> seen_outside (cv_rois sch) frames ?tid"
    using w(3) out by (cases "in_some_roi sch obj") (auto simp: entry_ok_def)
  then show ?thesis using act g w(1,2) inv(3)
    by (auto simp: zone_body_def Let_def zone_rois_result in_some_roi_def [symmetric])
qed (use inv in \<open>auto simp: zone_body_def\<close>)

lemma zone_alarm_inside: "zone_alarm clk sch eq in_layer r \<Longrightarrow> in_some_roi sch r"
  by (auto simp: zone_alarm_def in_some_roi_def getMidPointFromInferObject_def with_extend_def)

lemma entry_ok_mono: "set frames \<subseteq> set frames' \<Longrightarrow> entry_ok rois frames tid info t \<Longrightarrow> entry_ok rois frames' tid info u"
  by (auto simp: entry_ok_def seen_outside_def)

lemma zone_check_entry:
  assumes "zone_ok frames sch"
  shows "\<exists>results sch'. Check clk in_layer sch = Some (results, sch') \<and> zone_ok (frames @ [(clk, in_layer)]) sch'
           \<and> cv_rois sch' = cv_rois sch
           \<and> (\<forall>r \<in> set results. seen_outside (cv_rois sch) (frames @ [(clk, in_layer)]) (track_id r))"
proof -
  let ?frames = "frames @ [(clk, in_layer)]"
  let ?I = "\<lambda>(hc, results). hc_inv hc \<and> hist.all_histories (entry_ok (cv_rois sch) ?frames) hc
      \<and> (\<forall>r \<in> set results. seen_outside (cv_rois sch) ?frames (track_id r))"
  have mono: "hist.all_histories (entry_ok (cv_rois sch) ?frames) (roi_state_history sch)"
    using assms entry_ok_mono [of frames ?frames] by (fastforce simp: zone_ok_def hist.all_histories_def)
  have inv: "hc_inv (roi_state_history sch)" using assms by (simp add: zone_ok_def)
  have loop: "\<exists>s'. for_objects (zone_body clk sch eq) in_layer
      (ReleaseInactiveHistory (steady_now clk) in_layer (roi_state_history sch), []) = Some s' \<and> ?I s'" for eq
  proof (rule for_objects_inv)
    show "?I (ReleaseInactiveHistory (steady_now clk) in_layer (roi_state_history sch), [])"
      using inv mono by (auto intro: hc_inv_ops hist.all_release simp: entry_ok_def)
    show "\<exists>s'. zone_body clk sch eq obj s = Some s' \<and> ?I s'" if "obj \<in> set in_layer" "?I s" for obj s
      using that zone_body_entry [of obj in_layer clk ?frames "fst s" sch "snd s" clk eq] by (cases s) auto
  qed
  have zone: "\<exists>results sch'. IntrusionZone clk in_layer sch = Some (results, sch') \<and> zone_ok ?frames sch'
      \<and> cv_rois sch' = cv_rois sch \<and> (\<forall>r \<in> set results. seen_outside (cv_rois sch) ?frames (track_id r))"
  proof (cases "class_equal_checker sch")
    case None
    then show ?thesis using assms inv mono by (auto simp: IntrusionZone_def zone_ok_def)
  next
    case (Some eq)
    then show ?thesis using loop [of eq] assms
      by (auto simp: IntrusionZone_def finish_check_def UpdateEventActivateTime_def zone_ok_def)
  qed
  show ?thesis using zone assms inv mono by (auto simp: Check_def zone_ok_def)
qed

text \<open>
  C26. No zone alarm without an entry: whatever frames a zone schedule has processed, a check
  reports only detections that are inside a region, at most one per track, and only of tracks that
  some frame so far has shown outside every region.
\<close>

theorem zone_alarm_needs_entry:
  assumes "event_code info = AreaIntrusion" and "[] \<notin> set (two_way_roi info)" and "[] \<notin> set (one_way_roi info)"
  shows "\<exists>sch results sch'. foldl check_step (Some (Schedule_new clk0 info w h cec)) frames = Some sch
           \<and> Check clk in_layer sch = Some (results, sch') \<and> distinct (map track_id results)
           \<and> (\<forall>r \<in> set results. in_some_roi sch r \<and> seen_outside (cv_rois sch) (frames @ [(clk, in_layer)]) (track_id r))"
proof -
  let ?new = "Schedule_new clk0 info w h cec"
  have start: "zone_ok [] ?new"
    using assms(1) by (auto simp: zone_ok_def Schedule_new_def SetClassEqualChecker_def Let_def
        HistoryChecker_new_def hc_inv_def hist.all_histories_def hc_lookup_def split: option.split)
  have "\<exists>sch. foldl check_step (Some ?new) frames = Some sch \<and> zone_ok frames sch"
  proof (induction frames rule: rev_induct)
    case (snoc frame frames)
    then show ?case using zone_check_entry [of frames _ "fst frame" "snd frame"]
      by (fastforce simp: check_step_def)
  qed (use start in simp)
  then obtain sch where sch: "foldl check_step (Some ?new) frames = Some sch" "zone_ok frames sch" by blast
  have "case Some sch of None \<Rightarrow> False | Some sch \<Rightarrow> schedule_ok sch"
    unfolding sch(1) [symmetric]
    by (rule sched.inv_run) (use Schedule_new_ok [OF assms(2,3)] in \<open>auto simp: list_all_iff\<close>)
  then have ok: "schedule_ok sch" by simp
  obtain results sch' where c: "Check clk in_layer sch = Some (results, sch')"
    "\<forall>r \<in> set results. seen_outside (cv_rois sch) (frames @ [(clk, in_layer)]) (track_id r)"
    using zone_check_entry [OF sch(2), of clk in_layer] by blast
  have "results = [] \<or> IntrusionZone clk in_layer sch = Some (results, sch')"
    using c(1) sch(2) by (auto simp: Check_def zone_ok_def split: if_splits)
  then have "distinct (map track_id results) \<and> (\<forall>r \<in> set results. in_some_roi sch r)"
  proof
    assume "IntrusionZone clk in_layer sch = Some (results, sch')"
    then show ?thesis using IntrusionZone_ok [OF ok, of clk in_layer]
      by (auto simp: finish_check_def split: if_splits) (use zone_alarm_inside in blast)+
  qed simp
  then show ?thesis using sch(1) c by blast
qed

theorem zone_alarm_needs_entry_witness:
  "\<exists>sch results sch'. foldl check_step (Some (Schedule_new (example_clock 0) (example_info AreaIntrusion 60) 100 100 (Some example_classes)))
       [(example_clock 99000, [example_box 0 10])] = Some sch
     \<and> Check (example_clock 100000) [example_box 0 60] sch = Some (results, sch') \<and> distinct (map track_id results)"
  using zone_alarm_needs_entry [of "example_info AreaIntrusion 60" "example_clock 0" 100 100 "Some example_classes"
      "[(example_clock 99000, [example_box 0 10])]" "example_clock 100000" "[example_box 0 60]"]
  by (force simp: example_info_def)

end
