(* ===== verification/String_Utils.thy ===== *)
theory String_Utils
  imports Prelude
begin

text \<open>
  The naming-convention conversions of \<open>BasicLibs/utils/string_utils.cpp\<close>.  \<open>toupper\<close>, \<open>tolower\<close> and
  \<open>isupper\<close> are those of the C locale: they change ASCII letters only.
\<close>

definition char_code :: "char \<Rightarrow> nat" where
  "char_code c = of_char c"

definition is_upper :: "char \<Rightarrow> bool" where
  "is_upper c = (65 \<le> char_code c \<and> char_code c \<le> 90)"

definition is_lower :: "char \<Rightarrow> bool" where
  "is_lower c = (97 \<le> char_code c \<and> char_code c \<le> 122)"

definition to_upper :: "char \<Rightarrow> char" where
  "to_upper c = (if is_lower c then char_of (char_code c - 32) else c)"

definition to_lower :: "char \<Rightarrow> char" where
  "to_lower c = (if is_upper c then char_of (char_code c + 32) else c)"

definition ToUpperCase :: "string \<Rightarrow> string" where
  "ToUpperCase s = map to_upper s"

fun camel_loop :: "bool \<Rightarrow> bool \<Rightarrow> string \<Rightarrow> string" where
  "camel_loop first next_upper [] = []"
| "camel_loop first next_upper (c # cs) =
     (if c = CHR ''_'' then camel_loop False True cs
      else if next_upper then to_upper c # camel_loop False False cs
      else if first then to_lower c # camel_loop False False cs
      else c # camel_loop False False cs)"

definition ConvertToCamelCase :: "string \<Rightarrow> string" where
  "ConvertToCamelCase s = (if s = [] then [] else camel_loop True False s)"

fun pascal_loop :: "bool \<Rightarrow> string \<Rightarrow> string" where
  "pascal_loop next_upper [] = []"
| "pascal_loop next_upper (c # cs) =
     (if c = CHR ''_'' then pascal_loop True cs
      else if next_upper then to_upper c # pascal_loop False cs
      else to_lower c # pascal_loop False cs)"

definition ConvertToPascalCase :: "string \<Rightarrow> string" where
  "ConvertToPascalCase s = (if s = [] then [] else pascal_loop True s)"

fun snake_loop :: "bool \<Rightarrow> string \<Rightarrow> string" where
  "snake_loop first [] = []"
| "snake_loop first (c # cs) =
     (if is_upper c \<and> \<not> first then CHR ''_'' # to_lower c # snake_loop False cs
      else to_lower c # snake_loop False cs)"

definition ConvertToSnakeCase :: "string \<Rightarrow> string" where
  "ConvertToSnakeCase s = snake_loop True s"

lemma to_upper_lower: "is_upper c \<Longrightarrow> to_upper (to_lower c) = c"
  by (auto simp: to_upper_def to_lower_def is_upper_def is_lower_def char_code_def)

lemma to_lower_id: "\<not> is_upper c \<Longrightarrow> to_lower c = c"
  by (simp add: to_lower_def)

lemma to_lower_not_underscore: "c \<noteq> CHR ''_'' \<Longrightarrow> to_lower c \<noteq> CHR ''_''"
proof -
  have "char_code (CHR ''_'') = 95" by (simp add: char_code_def)
  moreover have "char_code (to_lower c) = (if is_upper c then char_code c + 32 else char_code c)"
    by (auto simp: to_lower_def char_code_def is_upper_def)
  ultimately show "c \<noteq> CHR ''_'' \<Longrightarrow> to_lower c \<noteq> CHR ''_''"
    by (auto simp: is_upper_def to_lower_def)
qed

lemma pascal_snake_loop:
  "CHR ''_'' \<notin> set s \<Longrightarrow> pascal_loop False (snake_loop False s) = s"
proof (induction s)
  case (Cons c cs)
  then show ?case
    by (cases "is_upper c") (auto simp: to_upper_lower to_lower_not_underscore to_lower_id)
qed simp

text \<open>
  A \<open>PascalCase\<close> name survives the conversion to \<open>snake_case\<close> and back: for a name that starts
  with an upper-case letter and has no underscore the two conversions are inverse.
\<close>

theorem pascal_snake_round_trip:
  assumes "s \<noteq> []" and "is_upper (hd s)" and "CHR ''_'' \<notin> set s"
  shows "ConvertToPascalCase (ConvertToSnakeCase s) = s"
proof -
  obtain c cs where s: "s = c # cs" using assms(1) by (cases s) auto
  then show ?thesis using assms pascal_snake_loop [of cs]
    by (auto simp: ConvertToPascalCase_def ConvertToSnakeCase_def to_upper_lower to_lower_not_underscore)
qed

theorem pascal_snake_round_trip_witness:
  "ConvertToPascalCase (ConvertToSnakeCase ''AccessPassword'') = ''AccessPassword''"
  by (rule pascal_snake_round_trip) (simp_all add: is_upper_def char_code_def)

end
