(* ===== verification/Setting_Data.thy ===== *)
theory Setting_Data
  imports Schedule_Types Json String_Utils "HOL-Library.Monad_Syntax"
begin

text \<open>
  The settings received as JSON: \<open>Management/manager/src/SettingData.cpp\<close> and
  \<open>Management/manager/interface/ISettingData.cpp\<close>.  An updater writes fields one after the other and
  may be stopped by an exception of the JSON library, so it returns the outcome together with the
  state it leaves: \<open>None\<close> is the exception, \<open>Some b\<close> the returned value.
\<close>

type_synonym 's updater = "json \<Rightarrow> 's \<Rightarrow> bool option \<times> 's"

text \<open>One assignment \<open>setting->field = value\<close>, whose right-hand side may throw.\<close>

definition assign :: "'v option \<Rightarrow> ('v \<Rightarrow> 's \<Rightarrow> 's) \<Rightarrow> ('s \<Rightarrow> bool option \<times> 's) \<Rightarrow> 's \<Rightarrow> bool option \<times> 's" where
  "assign v upd k s = (case v of None \<Rightarrow> (None, s) | Some x \<Rightarrow> k (upd x s))"

subsection \<open>\<open>ISettingData\<close>\<close>

datatype UpdateMode = FullArray | FirstOnly

record 's setting =
  is_empty :: bool
  mode :: UpdateMode
  updater_fn :: "'s updater option"
  payload :: 's

definition ISettingData_new :: "UpdateMode \<Rightarrow> 's \<Rightarrow> 's setting" where
  "ISettingData_new m p = \<lparr>is_empty = True, mode = m, updater_fn = None, payload = p\<rparr>"

definition SetUpdater :: "'s updater \<Rightarrow> 's setting \<Rightarrow> 's setting" where
  "SetUpdater f s = s\<lparr>updater_fn := Some f\<rparr>"

definition SetEmptyFlag :: "bool \<Rightarrow> 's setting \<Rightarrow> 's setting" where
  "SetEmptyFlag flag s = s\<lparr>is_empty := flag\<rparr>"

definition UpdateFromJson :: "json \<Rightarrow> 's setting \<Rightarrow> bool option \<times> 's setting" where
  "UpdateFromJson update_json s =
     (case updater_fn s of
        None \<Rightarrow> (Some False, s)
      | Some f \<Rightarrow>
          let input = (if mode s = FirstOnly \<and> is_array update_json \<and> \<not> json_empty update_json
                       then hd (elements update_json) else update_json);
              (success, p) = f input (payload s);
              s = s\<lparr>payload := p\<rparr>
          in case success of
               None \<Rightarrow> (None, s)
             | Some True \<Rightarrow> (Some True, SetEmptyFlag False s)
             | Some False \<Rightarrow> (Some False, s))"

text \<open>
  Construction from JSON.  The constructors are \<open>noexcept\<close>: an exception ends the process (\<open>None\<close>),
  except where the constructor catches it and keeps what was written.
\<close>

definition construct :: "UpdateMode \<Rightarrow> 's updater \<Rightarrow> 's \<Rightarrow> json \<Rightarrow> 's setting option" where
  "construct m f p init_json_data =
     (case UpdateFromJson init_json_data (SetUpdater f (ISettingData_new m p)) of
        (None, s) \<Rightarrow> None
      | (Some b, s) \<Rightarrow> Some s)"

definition construct_catching :: "UpdateMode \<Rightarrow> 's updater \<Rightarrow> 's \<Rightarrow> json \<Rightarrow> 's setting" where
  "construct_catching m f p init_json_data =
     snd (UpdateFromJson init_json_data (SetUpdater f (ISettingData_new m p)))"

subsection \<open>Keys in any naming convention\<close>

definition GetStringRegardlessOfCase :: "json \<Rightarrow> string \<Rightarrow> string" where
  "GetStringRegardlessOfCase json_object key =
     (case find (contains json_object)
             [key, ConvertToCamelCase key, ConvertToPascalCase key, ConvertToSnakeCase key] of
        Some possible_key \<Rightarrow> possible_key
      | None \<Rightarrow> key)"

definition null_to_object :: "json \<Rightarrow> json" where
  "null_to_object j = (if is_null j then JObject [] else j)"

subsection \<open>Server settings\<close>

record server_setting =
  service_server_id :: int
  inference_per_cams_fps_limit :: int
  tracking_memory_object_limit :: int
  rtsp_proxies_sync_delay_ms :: int
  rtsp_proxy_publish_port :: int
  full_image_save_root_path :: string
  crop_image_save_root_path :: string

definition DFPS_LIMIT_PER_UNIT :: int where "DFPS_LIMIT_PER_UNIT = 30"
definition TRACKING_OBJECT_HIST_LIMIT :: int where "TRACKING_OBJECT_HIST_LIMIT = 200"
definition RTSP_PROXY_SYNC_DELAY_MS :: int where "RTSP_PROXY_SYNC_DELAY_MS = 100"
definition RTSP_PROXY_PORT :: int where "RTSP_PROXY_PORT = 555"
definition FULL_FRAME_IMAGE_SAVE_ROOT_PATH :: string where "FULL_FRAME_IMAGE_SAVE_ROOT_PATH = ''/frame''"
definition CROP_FRAME_IMAGE_SAVE_ROOT_PATH :: string where "CROP_FRAME_IMAGE_SAVE_ROOT_PATH = ''/crop''"

definition ServerSetting_default :: server_setting where
  "ServerSetting_default =
     \<lparr>service_server_id = 0, inference_per_cams_fps_limit = DFPS_LIMIT_PER_UNIT,
      tracking_memory_object_limit = TRACKING_OBJECT_HIST_LIMIT,
      rtsp_proxies_sync_delay_ms = RTSP_PROXY_SYNC_DELAY_MS, rtsp_proxy_publish_port = RTSP_PROXY_PORT,
      full_image_save_root_path = FULL_FRAME_IMAGE_SAVE_ROOT_PATH,
      crop_image_save_root_path = CROP_FRAME_IMAGE_SAVE_ROOT_PATH\<rparr>"

definition Impl_ServerSettingData_UpdateFromJsonObject :: "server_setting updater" where
  "Impl_ServerSettingData_UpdateFromJsonObject json_object s =
     (if \<not> is_object json_object then (Some False, s)
      else if \<not> contains json_object ''Id'' then (Some False, s)
      else if \<not> contains json_object ''Setting'' then (Some False, s)
      else
        assign (json_value get_int json_object ''Id'' 0) (\<lambda>v s. s\<lparr>service_server_id := v\<rparr>) (\<lambda>s.
        case at_key json_object ''Setting'' of None \<Rightarrow> (None, s) | Some setting \<Rightarrow>
        let setting_js = null_to_object setting in
        assign (json_value get_int setting_js ''InferencePerCamsFpsLimit'' DFPS_LIMIT_PER_UNIT)
          (\<lambda>v s. s\<lparr>inference_per_cams_fps_limit := v\<rparr>) (
        assign (json_value get_int setting_js ''TrackingMemoryObjectLimit'' TRACKING_OBJECT_HIST_LIMIT)
          (\<lambda>v s. s\<lparr>tracking_memory_object_limit := v\<rparr>) (
        assign (json_value get_int setting_js ''RtspProxiesSyncDelayMs'' RTSP_PROXY_SYNC_DELAY_MS)
          (\<lambda>v s. s\<lparr>rtsp_proxies_sync_delay_ms := v\<rparr>) (
        assign (json_value get_int setting_js ''RtspPort'' RTSP_PROXY_PORT)
          (\<lambda>v s. s\<lparr>rtsp_proxy_publish_port := v\<rparr>) (
        assign (json_value get_string setting_js ''FullImageSaveRootPath'' FULL_FRAME_IMAGE_SAVE_ROOT_PATH)
          (\<lambda>v s. s\<lparr>full_image_save_root_path := v\<rparr>) (
        assign (json_value get_string setting_js ''CropImageSaveRootPath'' CROP_FRAME_IMAGE_SAVE_ROOT_PATH)
          (\<lambda>v s. s\<lparr>crop_image_save_root_path := v\<rparr>) (\<lambda>s.
        if \<not> contains setting_js ''InferencePerCamsFpsLimit'' \<and> contains setting_js ''DetectFps''
        then assign (json_value get_int setting_js ''DetectFps'' DFPS_LIMIT_PER_UNIT)
               (\<lambda>v s. s\<lparr>inference_per_cams_fps_limit := v\<rparr>) (\<lambda>s. (Some True, s)) s
        else (Some True, s))))))) s) s)"

subsection \<open>Camera settings\<close>

record camera_setting =
  camera_id :: int
  url :: string
  access_ip :: string
  access_id :: string
  access_pw :: string
  cam_extend_data :: json

definition CameraSetting_default :: camera_setting where
  "CameraSetting_default =
     \<lparr>camera_id = 0, url = [], access_ip = [], access_id = [], access_pw = [], cam_extend_data = JNull\<rparr>"

text \<open>The part \<open>Extend : Setting/ROI\<close>.\<close>

definition extend_setting_roi :: "json \<Rightarrow> camera_setting \<Rightarrow> bool option \<times> camera_setting" where
  "extend_setting_roi json_object s =
     (let setting_key = GetStringRegardlessOfCase json_object ''setting'';
          roi_key = GetStringRegardlessOfCase json_object ''roi''
      in case at_key json_object setting_key of
           None \<Rightarrow> (Some True, s)
         | Some setting \<Rightarrow>
             let setting_js = null_to_object setting in
             (case at_key json_object roi_key of
               Some roi_value \<Rightarrow>
                 let roi_js = null_to_object roi_value in
                 if \<not> json_empty roi_js then
                   assign (set_key setting_js roi_key roi_js) (\<lambda>v s. s\<lparr>cam_extend_data := v\<rparr>) (\<lambda>s. (Some True, s)) s
                 else (Some True, s)
             | None \<Rightarrow>
                 if \<not> json_empty setting_js then (Some True, s\<lparr>cam_extend_data := setting_js\<rparr>)
                 else (Some True, s)))"

definition extend_survey :: "json \<Rightarrow> camera_setting \<Rightarrow> camera_setting" where
  "extend_survey json_object s =
     (case at_key json_object (GetStringRegardlessOfCase json_object ''SurveyData'') of
        None \<Rightarrow> s
      | Some survey \<Rightarrow>
          let survey_data_js = null_to_object survey in
          if \<not> json_empty survey_data_js then s\<lparr>cam_extend_data := survey_data_js\<rparr> else s)"

definition Impl_CameraSettingData_UpdateFromJsonObject :: "camera_setting updater" where
  "Impl_CameraSettingData_UpdateFromJsonObject json_object s =
     (if \<not> is_object json_object then (Some False, s)
      else
        let key = GetStringRegardlessOfCase json_object in
        assign (json_value get_int json_object (key ''CameraId'') 0) (\<lambda>v s. s\<lparr>camera_id := v\<rparr>) (
        assign (json_value get_string json_object (key ''Url'') ''None'') (\<lambda>v s. s\<lparr>url := v\<rparr>) (
        assign (json_value get_string json_object (key ''AccessIp'') ''None'') (\<lambda>v s. s\<lparr>access_ip := v\<rparr>) (
        assign (json_value get_string json_object (key ''AccessId'') ''None'') (\<lambda>v s. s\<lparr>access_id := v\<rparr>) (
        assign (json_value get_string json_object (key ''AccessPassword'') ''None'') (\<lambda>v s. s\<lparr>access_pw := v\<rparr>) (
        assign (json_value Some json_object (key ''ExtendData'') (JObject [])) (\<lambda>v s. s\<lparr>cam_extend_data := v\<rparr>) (\<lambda>s.
        extend_setting_roi json_object (extend_survey json_object s))))))) s)"

subsection \<open>Excluded cameras\<close>

definition Impl_ExcludeCamSettingData_UpdateFromJsonObject :: "bool updater" where
  "Impl_ExcludeCamSettingData_UpdateFromJsonObject json_object is_exclude = (Some True, \<not> json_empty json_object)"

subsection \<open>Schedules\<close>

text \<open>The regions of one schedule item, in the order of the loops.\<close>

definition parse_point :: "json \<Rightarrow> (cfloat \<times> cfloat) option" where
  "parse_point coords =
     (if \<not> is_array coords \<or> length (elements coords) < 2 then None
      else if \<not> is_number (elements coords ! 0) \<or> \<not> is_number (elements coords ! 1) then None
      else do { x \<leftarrow> get_float (elements coords ! 0); y \<leftarrow> get_float (elements coords ! 1); Some (x, y) })"

definition parse_area :: "json \<Rightarrow> ROI_OneArea" where
  "parse_area each_roi_coords = List.map_filter parse_point (elements each_roi_coords)"

definition parse_areas :: "json \<Rightarrow> ROI" where
  "parse_areas rois_array =
     filter (\<lambda>area. area \<noteq> []) (map parse_area (filter is_array (elements rois_array)))"

definition add_rois :: "int \<Rightarrow> ROI \<Rightarrow> AbnormalEventScheduleInfo \<Rightarrow> AbnormalEventScheduleInfo" where
  "add_rois type_code rois sch =
     (if type_code = IncludeArea then sch\<lparr>roi := roi sch @ rois\<rparr>
      else if type_code = ExcludeArea then sch\<lparr>exclude_roi := exclude_roi sch @ rois\<rparr>
      else if type_code = TwoWayLine then sch\<lparr>two_way_roi := two_way_roi sch @ rois\<rparr>
      else if type_code = OneWayLine then sch\<lparr>one_way_roi := one_way_roi sch @ rois\<rparr>
      else sch)"

fun parse_rois :: "json list \<Rightarrow> AbnormalEventScheduleInfo \<Rightarrow> AbnormalEventScheduleInfo option" where
  "parse_rois [] sch = Some sch"
| "parse_rois (each_roi_obj # rest) sch =
     (case at_key each_roi_obj ''Points'' of
        None \<Rightarrow> parse_rois rest sch
      | Some rois_array \<Rightarrow>
          if \<not> is_array rois_array then parse_rois rest sch
          else let rois = parse_areas rois_array in
               if rois = [] then parse_rois rest sch
               else do {
                 type_code \<leftarrow> json_value get_enum each_roi_obj ''TypeCode'' IncludeArea;
                 parse_rois rest (add_rois type_code rois sch) })"

definition default_roi :: ROI where
  "default_roi = [[(0, 0), (0, 1), (1, 1), (1, 0)]]"

definition parse_weekly :: "json \<Rightarrow> int list" where
  "parse_weekly time_object =
     (case at_key time_object ''Weekly'' of
        Some (JArray days) \<Rightarrow> List.map_filter (\<lambda>d. if is_number_integer d then get_int d else None) days
      | _ \<Rightarrow> replicate DAY_ABOUT_1_WEEK WEEKLY_DAY_ON)"

definition parse_black_list :: "json \<Rightarrow> string list" where
  "parse_black_list data =
     (case at_key data ''BlackList'' of
        None \<Rightarrow> []
      | Some bl \<Rightarrow>
          (case at_key bl ''Data'' of
             Some (JArray dates) \<Rightarrow> List.map_filter get_string dates
           | _ \<Rightarrow> []))"

text \<open>The required fields of an item, in the order they are checked; \<open>None\<close>: the item is skipped.\<close>

definition required_fields :: "json \<Rightarrow> (int \<times> json \<times> json \<times> json) option" where
  "required_fields obj = do {
     idv \<leftarrow> at_key obj ''Id'';
     schedule_id \<leftarrow> (if is_number_integer idv then get_int idv else None);
     data \<leftarrow> at_key obj ''Data'';
     rule \<leftarrow> (if is_object data then at_key data ''Rule'' else None);
     (if is_object rule then Some () else None);
     event \<leftarrow> at_key rule ''EventCode'';
     level \<leftarrow> at_key rule ''LevelCode'';
     (if is_number_integer event \<and> is_number_integer level then Some () else None);
     time_object \<leftarrow> at_key rule ''TimeRange'';
     (if is_object time_object then Some () else None);
     Some (schedule_id, data, rule, time_object) }"

text \<open>
  The body of an accepted item: the fields of the rule, the regions, and the extra settings with
  their defaults.  \<open>None\<close> is an exception.
\<close>

definition initial_schedule :: "int \<Rightarrow> int \<Rightarrow> int \<Rightarrow> string \<Rightarrow> int \<Rightarrow> int list \<Rightarrow> AbnormalEventScheduleInfo" where
  "initial_schedule sid event level start minutes days =
     \<lparr>schedule_id = sid, event_code = EventClass_of_int event, level_code = level,
      start_time = start, range_minutes = minutes, weekly = days,
      roi = [], exclude_roi = [], two_way_roi = [], one_way_roi = [], black_list_days = [],
      notification_min_interval_sec = 0, loitering_require_dur_sec = 0\<rparr>"

definition parse_extra_settings :: "json \<Rightarrow> (int \<times> int) option" where
  "parse_extra_settings rule =
     (case at_key rule ''ExtraSettings'' of
        Some extra_settings \<Rightarrow> do {
          interval \<leftarrow> json_value get_int extra_settings ''NotificationDelaySec'' MINIMUM_EVENT_ACTIVE_INTERVAL_SEC;
          loiter \<leftarrow> json_value get_int extra_settings ''LoiteringDurationSec'' DEFAULT_EVENT_LOITER_DURATION_SEC;
          Some (interval, loiter) }
      | None \<Rightarrow> Some (MINIMUM_EVENT_ACTIVE_INTERVAL_SEC, DEFAULT_EVENT_LOITER_DURATION_SEC))"

definition finish_schedule :: "json \<Rightarrow> int \<times> int \<Rightarrow> AbnormalEventScheduleInfo \<Rightarrow> AbnormalEventScheduleInfo" where
  "finish_schedule data extra sch =
     sch\<lparr>roi := (if roi sch = [] then default_roi else roi sch),
         black_list_days := parse_black_list data,
         notification_min_interval_sec := (if fst extra < 1 then MINIMUM_EVENT_ACTIVE_INTERVAL_SEC else fst extra),
         loitering_require_dur_sec := snd extra\<rparr>"

definition fill_schedule :: "int \<Rightarrow> json \<Rightarrow> json \<Rightarrow> json \<Rightarrow> AbnormalEventScheduleInfo option" where
  "fill_schedule sid data rule time_object = do {
     event \<leftarrow> at_key rule ''EventCode'' \<bind> get_int;
     level \<leftarrow> at_key rule ''LevelCode'' \<bind> get_int;
     start \<leftarrow> json_value get_string time_object ''Start'' ''00:00'';
     minutes \<leftarrow> json_value get_int time_object ''Range'' MIN_ABOUT_1_DAY;
     sch \<leftarrow> parse_rois (case at_key data ''Roi'' of Some (JArray rois) \<Rightarrow> rois | _ \<Rightarrow> [])
             (initial_schedule sid event level start minutes (parse_weekly time_object));
     extra \<leftarrow> parse_extra_settings rule;
     Some (finish_schedule data extra sch) }"

fun parse_schedules :: "json list \<Rightarrow> AbnormalEventScheduleInfo list option" where
  "parse_schedules [] = Some []"
| "parse_schedules (obj # rest) =
     (case required_fields obj of
        None \<Rightarrow> parse_schedules rest
      | Some (sid, data, rule, time_object) \<Rightarrow> do {
          sch \<leftarrow> fill_schedule sid data rule time_object;
          schs \<leftarrow> parse_schedules rest;
          Some (sch # schs) })"

definition Impl_ScheduleSettingData_UpdateFromJsonArray :: "AbnormalEventScheduleInfo list updater" where
  "Impl_ScheduleSettingData_UpdateFromJsonArray json_array schedules =
     (if \<not> is_array json_array then (Some False, schedules)
      else if json_empty json_array then (Some True, [])
      else case parse_schedules (elements json_array) of
             None \<Rightarrow> (None, schedules)
           | Some updateSchedules \<Rightarrow> (Some True, updateSchedules))"

subsection \<open>The constructors\<close>

definition ServerSettingData_new :: "json \<Rightarrow> server_setting setting option" where
  "ServerSettingData_new =
     construct FirstOnly Impl_ServerSettingData_UpdateFromJsonObject ServerSetting_default"

definition CameraSettingData_new :: "json \<Rightarrow> camera_setting setting" where
  "CameraSettingData_new =
     construct_catching FirstOnly Impl_CameraSettingData_UpdateFromJsonObject CameraSetting_default"

definition ExcludeCamSettingData_new :: "json \<Rightarrow> bool setting option" where
  "ExcludeCamSettingData_new =
     construct FirstOnly Impl_ExcludeCamSettingData_UpdateFromJsonObject False"

definition ScheduleSettingData_new :: "json \<Rightarrow> AbnormalEventScheduleInfo list setting option" where
  "ScheduleSettingData_new =
     construct FullArray Impl_ScheduleSettingData_UpdateFromJsonArray []"

subsection \<open>Properties\<close>

definition wf_schedule_info :: "AbnormalEventScheduleInfo \<Rightarrow> bool" where
  "wf_schedule_info sch = (1 \<le> notification_min_interval_sec sch \<and> roi sch \<noteq> [] \<and> [] \<notin> set (roi sch)
     \<and> [] \<notin> set (exclude_roi sch) \<and> [] \<notin> set (two_way_roi sch) \<and> [] \<notin> set (one_way_roi sch))"

definition rois_nonempty :: "AbnormalEventScheduleInfo \<Rightarrow> bool" where
  "rois_nonempty sch = ([] \<notin> set (roi sch) \<and> [] \<notin> set (exclude_roi sch)
     \<and> [] \<notin> set (two_way_roi sch) \<and> [] \<notin> set (one_way_roi sch))"

lemma parse_areas_nonempty: "[] \<notin> set (parse_areas j)"
  by (auto simp: parse_areas_def)

lemma add_rois_keeps: "rois_nonempty sch \<Longrightarrow> [] \<notin> set rois \<Longrightarrow> rois_nonempty (add_rois c rois sch)"
  "schedule_id (add_rois c rois sch) = schedule_id sch"
  by (auto simp: add_rois_def rois_nonempty_def)

lemma parse_rois_keeps:
  "parse_rois objs sch = Some sch' \<Longrightarrow> rois_nonempty sch \<Longrightarrow> rois_nonempty sch' \<and> schedule_id sch' = schedule_id sch"
proof (induction objs arbitrary: sch)
  case (Cons obj objs)
  then show ?case using parse_areas_nonempty add_rois_keeps
    by (fastforce simp: Let_def bind_eq_Some_conv split: option.splits if_splits)
qed simp

lemma fill_schedule_wf:
  assumes "fill_schedule sid data rule time_object = Some sch"
  shows "wf_schedule_info sch" and "schedule_id sch = sid"
proof -
  obtain ev lv st mi s1 ex where p: "parse_rois (case at_key data ''Roi'' of Some (JArray rois) \<Rightarrow> rois | _ \<Rightarrow> [])
      (initial_schedule sid ev lv st mi (parse_weekly time_object)) = Some s1" "sch = finish_schedule data ex s1"
    using assms unfolding fill_schedule_def by (auto simp only: bind_eq_Some_conv option.inject)
  then have "rois_nonempty s1" "schedule_id s1 = sid"
    using parse_rois_keeps [OF p(1)] by (auto simp: initial_schedule_def rois_nonempty_def)
  then show "wf_schedule_info sch" "schedule_id sch = sid"
    using p(2) by (auto simp: finish_schedule_def wf_schedule_info_def rois_nonempty_def default_roi_def DefineDefault_defs)
qed

lemma parse_schedules_wf:
  "parse_schedules objs = Some schs \<Longrightarrow> (\<forall>sch \<in> set schs. wf_schedule_info sch)
     \<and> map schedule_id schs = List.map_filter (\<lambda>obj. map_option fst (required_fields obj)) objs"
proof (induction objs arbitrary: schs)
  case (Cons obj objs)
  then show ?case using fill_schedule_wf
    by (auto simp: map_filter_simps bind_eq_Some_conv split: option.splits)
qed (simp add: map_filter_simps)

lemma ScheduleSettingData_new_cases:
  assumes "ScheduleSettingData_new j = Some s"
  shows "is_empty s \<and> payload s = [] \<and> \<not> is_array j
    \<or> \<not> is_empty s \<and> is_array j \<and> parse_schedules (elements j) = Some (payload s)"
  using assms
  by (cases j) (auto simp: ScheduleSettingData_new_def construct_def UpdateFromJson_def SetUpdater_def
      ISettingData_new_def Impl_ScheduleSettingData_UpdateFromJsonArray_def SetEmptyFlag_def Let_def
      split: option.splits if_splits)

text \<open>
  Whatever JSON arrives, the schedules that a successful construction holds are well formed:
  the notification interval is at least one second, there is at least one included region, and no
  region of any kind is empty.  Exactly the items with all required fields are kept, in their
  order.
\<close>

theorem parsed_schedules_wellformed:
  assumes "ScheduleSettingData_new j = Some s"
  shows "(\<forall>sch \<in> set (payload s). 1 \<le> notification_min_interval_sec sch \<and> roi sch \<noteq> []
            \<and> (\<forall>area \<in> set (roi sch) \<union> set (exclude_roi sch) \<union> set (two_way_roi sch) \<union> set (one_way_roi sch). area \<noteq> []))
       \<and> map schedule_id (payload s) = List.map_filter (\<lambda>obj. map_option fst (required_fields obj)) (elements j)"
  using ScheduleSettingData_new_cases [OF assms] parse_schedules_wf [of "elements j" "payload s"]
  by (cases j) (auto simp: wf_schedule_info_def map_filter_simps)

definition example_item :: "json \<Rightarrow> json" where
  "example_item extra = JObject [(''Id'', JInt 3), (''Data'', JObject [
     (''Rule'', JObject [(''EventCode'', JInt 202), (''LevelCode'', JInt 1),
        (''TimeRange'', JObject [(''Start'', JString ''23:00''), (''Range'', JInt 300)]),
        (''ExtraSettings'', extra)]),
     (''Roi'', JArray [JObject [(''TypeCode'', JInt 3), (''Points'', JArray [JArray [
        JArray [JFloat (1/2), JInt 0], JArray [JFloat (1/2), JInt 1]]])]])])]"

theorem parsed_schedules_wellformed_witness:
  "\<exists>s. ScheduleSettingData_new (JArray [example_item (JObject [(''NotificationDelaySec'', JInt 0)])]) = Some s
     \<and> map schedule_id (payload s) = [3] \<and> (\<forall>sch \<in> set (payload s). 1 \<le> notification_min_interval_sec sch)"
proof -
  let ?j = "JArray [example_item (JObject [(''NotificationDelaySec'', JInt 0)])]"
  have "\<exists>s. ScheduleSettingData_new ?j = Some s"
    by (simp add: ScheduleSettingData_new_def construct_def UpdateFromJson_def SetUpdater_def ISettingData_new_def
        Impl_ScheduleSettingData_UpdateFromJsonArray_def example_item_def required_fields_def fill_schedule_def
        parse_extra_settings_def to_int32_def parse_areas_def parse_area_def parse_point_def map_filter_simps Let_def)
  then obtain s where s: "ScheduleSettingData_new ?j = Some s" by blast
  then show ?thesis using parsed_schedules_wellformed [OF s]
    by (auto simp: example_item_def required_fields_def map_filter_simps to_int32_def)
qed

text \<open>
  An update is all or nothing: if it is refused or stopped by an exception, the schedules in
  force stay; if it succeeds they are replaced by what the document says, whatever they were
  before.
\<close>

theorem schedule_update_all_or_nothing:
  assumes "updater_fn s = Some Impl_ScheduleSettingData_UpdateFromJsonArray" and "mode s = FullArray"
  shows "case UpdateFromJson j s of
           (Some True, s') \<Rightarrow> is_array j \<and> \<not> is_empty s' \<and> parse_schedules (elements j) = Some (payload s')
         | (_, s') \<Rightarrow> s' = s"
  using assms by (cases j) (auto simp: UpdateFromJson_def Impl_ScheduleSettingData_UpdateFromJsonArray_def
      SetEmptyFlag_def Let_def split: option.splits)

theorem schedule_update_all_or_nothing_witness:
  "snd (UpdateFromJson (JString ''x'') \<lparr>is_empty = False, mode = FullArray,
      updater_fn = Some Impl_ScheduleSettingData_UpdateFromJsonArray, payload = []\<rparr>)
    = \<lparr>is_empty = False, mode = FullArray, updater_fn = Some Impl_ScheduleSettingData_UpdateFromJsonArray, payload = []\<rparr>"
  using schedule_update_all_or_nothing [of "\<lparr>is_empty = False, mode = FullArray,
      updater_fn = Some Impl_ScheduleSettingData_UpdateFromJsonArray, payload = []\<rparr>" "JString ''x''"]
  by (simp add: UpdateFromJson_def Impl_ScheduleSettingData_UpdateFromJsonArray_def)

lemma parse_schedules_throws:
  "required_fields obj = Some (sid, data, rule, time_object) \<Longrightarrow> fill_schedule sid data rule time_object = None
     \<Longrightarrow> parse_schedules (pre @ obj # rest) = None"
  by (induction pre) (auto split: option.splits)

text \<open>
  One malformed optional field ends the process: a schedule item that has every required field
  but whose \<open>ExtraSettings\<close> is not an object (null included) makes the \<open>noexcept\<close> constructor of the
  settings throw, whatever the other items are.
\<close>

theorem malformed_extra_settings_terminate:
  assumes "required_fields obj = Some (sid, data, rule, time_object)"
    and "at_key rule ''ExtraSettings'' = Some extra" and "\<not> is_object extra"
  shows "ScheduleSettingData_new (JArray (pre @ obj # rest)) = None"
proof -
  have "json_value get extra key d = None" for get :: "json \<Rightarrow> int option" and key d
    using assms(3) by (cases extra) auto
  then have "fill_schedule sid data rule time_object = None"
    using assms(2) by (auto simp: fill_schedule_def parse_extra_settings_def bind_eq_None_conv)
  then show ?thesis using parse_schedules_throws [OF assms(1)]
    by (simp add: ScheduleSettingData_new_def construct_def UpdateFromJson_def SetUpdater_def
        ISettingData_new_def Impl_ScheduleSettingData_UpdateFromJsonArray_def Let_def)
qed

theorem malformed_extra_settings_terminate_witness:
  "ScheduleSettingData_new (JArray [example_item JNull]) = None"
proof -
  obtain f where f: "required_fields (example_item JNull) = Some f"
    by (simp add: example_item_def required_fields_def)
  then show ?thesis
    using malformed_extra_settings_terminate [of "example_item JNull" "fst f" "fst (snd f)" "fst (snd (snd f))"
        "snd (snd (snd f))" JNull "[]" "[]"]
    by (auto simp: example_item_def required_fields_def)
qed

lemma convention_names:
  "ConvertToCamelCase ''CameraId'' = ''cameraId''"
  "ConvertToPascalCase ''CameraId'' = ''Cameraid''"
  "ConvertToSnakeCase ''CameraId'' = ''camera_id''"
  "ConvertToCamelCase ''Url'' = ''url''"
  "ConvertToPascalCase ''Url'' = ''Url''"
  "ConvertToSnakeCase ''Url'' = ''url''"
  "ConvertToCamelCase ''AccessIp'' = ''accessIp''"
  "ConvertToPascalCase ''AccessIp'' = ''Accessip''"
  "ConvertToSnakeCase ''AccessIp'' = ''access_ip''"
  "ConvertToCamelCase ''AccessId'' = ''accessId''"
  "ConvertToPascalCase ''AccessId'' = ''Accessid''"
  "ConvertToSnakeCase ''AccessId'' = ''access_id''"
  "ConvertToCamelCase ''AccessPassword'' = ''accessPassword''"
  "ConvertToPascalCase ''AccessPassword'' = ''Accesspassword''"
  "ConvertToSnakeCase ''AccessPassword'' = ''access_password''"
  "ConvertToCamelCase ''ExtendData'' = ''extendData''"
  "ConvertToPascalCase ''ExtendData'' = ''Extenddata''"
  "ConvertToSnakeCase ''ExtendData'' = ''extend_data''"
  "ConvertToCamelCase ''SurveyData'' = ''surveyData''"
  "ConvertToPascalCase ''SurveyData'' = ''Surveydata''"
  "ConvertToSnakeCase ''SurveyData'' = ''survey_data''"
  "ConvertToCamelCase ''setting'' = ''setting''"
  "ConvertToPascalCase ''setting'' = ''Setting''"
  "ConvertToSnakeCase ''setting'' = ''setting''"
  "ConvertToCamelCase ''roi'' = ''roi''"
  "ConvertToPascalCase ''roi'' = ''Roi''"
  "ConvertToSnakeCase ''roi'' = ''roi''"
  by code_simp+

text \<open>
  Camera settings are read in each naming convention: a document with \<open>PascalCase\<close>, \<open>camelCase\<close> or
  \<open>snake_case\<close> keys gives the same camera.
\<close>

theorem camera_keys_any_convention:
  assumes "conv \<in> {id, ConvertToCamelCase, ConvertToPascalCase, ConvertToSnakeCase}"
    and "- (2 ^ 31) \<le> cid" and "cid < 2 ^ 31"
  shows "payload (CameraSettingData_new (JObject [(conv ''CameraId'', JInt cid), (conv ''Url'', JString u),
           (conv ''AccessIp'', JString ip), (conv ''AccessId'', JString usr), (conv ''AccessPassword'', JString pw)])) =
         \<lparr>camera_id = cid, url = u, access_ip = ip, access_id = usr, access_pw = pw, cam_extend_data = JObject []\<rparr>"
  using assms
  by (elim insertE emptyE; simp add: CameraSettingData_new_def construct_catching_def UpdateFromJson_def
      SetUpdater_def ISettingData_new_def Impl_CameraSettingData_UpdateFromJsonObject_def Let_def assign_def
      GetStringRegardlessOfCase_def convention_names extend_setting_roi_def extend_survey_def to_int32_id
      CameraSetting_default_def SetEmptyFlag_def)

theorem camera_keys_any_convention_witness:
  "payload (CameraSettingData_new (JObject [(''camera_id'', JInt 7), (''url'', JString ''rtsp://a''),
      (''access_ip'', JString ''10.0.0.1''), (''access_id'', JString ''u''), (''access_password'', JString ''p'')])) =
    \<lparr>camera_id = 7, url = ''rtsp://a'', access_ip = ''10.0.0.1'', access_id = ''u'', access_pw = ''p'', cam_extend_data = JObject []\<rparr>"
  using camera_keys_any_convention [of ConvertToSnakeCase 7 "''rtsp://a''" "''10.0.0.1''" "''u''" "''p''"]
  by (simp add: convention_names)

end
