(* ===== verification/Hungarian.thy ===== *)
theory Hungarian
  imports Prelude "HOL-Library.Monad_Syntax"
begin

text \<open>
  The assignment solver of \<open>Tracker/SORT/MgenHungarian.cpp\<close> (Munkres' algorithm).  A matrix stored
  at \<open>row + nOfRows * col\<close> is a function of row and column; \<open>double\<close> values are exact reals.  The
  functions \<open>step2a\<close> to \<open>step5\<close> call each other in tail position without a bound, so each is one
  transition of a machine whose phase names the function to run next, and \<open>run_steps\<close> iterates it
  with fuel; one transition of \<open>step3\<close> is one round of its \<open>while\<close> loop.  The fuel
  \<open>hungarian_fuel\<close> is shown to be enough for every input, so \<open>None\<close> never occurs.
\<close>

record hungarian =
  dist_matrix :: "nat \<Rightarrow> nat \<Rightarrow> real"
  assignment :: "nat \<Rightarrow> int"
  covered_cols :: "nat \<Rightarrow> bool"
  covered_rows :: "nat \<Rightarrow> bool"
  star_matrix :: "nat \<Rightarrow> nat \<Rightarrow> bool"
  new_star_matrix :: "nat \<Rightarrow> nat \<Rightarrow> bool"
  prime_matrix :: "nat \<Rightarrow> nat \<Rightarrow> bool"

definition DBL_EPSILON :: real where "DBL_EPSILON = 1 / 2 ^ 52"

definition DBL_MAX :: real where "DBL_MAX = (2 - 1 / 2 ^ 52) * 2 ^ 1023"

definition set_cell :: "nat \<Rightarrow> nat \<Rightarrow> 'a \<Rightarrow> (nat \<Rightarrow> nat \<Rightarrow> 'a) \<Rightarrow> nat \<Rightarrow> nat \<Rightarrow> 'a" where
  "set_cell r c v m = m(r := (m r)(c := v))"

text \<open>A counting loop that stops at the first hit; its counter is \<open>n\<close> when there is none.\<close>

definition first_below :: "(nat \<Rightarrow> bool) \<Rightarrow> nat \<Rightarrow> nat" where
  "first_below P n = (case find P [0..<n] of None \<Rightarrow> n | Some i \<Rightarrow> i)"

definition is_zero :: "hungarian \<Rightarrow> nat \<Rightarrow> nat \<Rightarrow> bool" where
  "is_zero s r c = (\<bar>dist_matrix s r c\<bar> < DBL_EPSILON)"

subsection \<open>Preliminary steps\<close>

definition smallest :: "real list \<Rightarrow> real" where
  "smallest xs = foldl (\<lambda>m x. if x < m then x else m) (hd xs) (tl xs)"

definition subtract_row_min :: "nat \<Rightarrow> nat \<Rightarrow> (nat \<Rightarrow> nat \<Rightarrow> real) \<Rightarrow> nat \<Rightarrow> nat \<Rightarrow> real" where
  "subtract_row_min nOfColumns row d =
     (let minValue = smallest (map (d row) [0..<nOfColumns]) in d(row := (\<lambda>c. d row c - minValue)))"

definition subtract_col_min :: "nat \<Rightarrow> nat \<Rightarrow> (nat \<Rightarrow> nat \<Rightarrow> real) \<Rightarrow> nat \<Rightarrow> nat \<Rightarrow> real" where
  "subtract_col_min nOfRows col d =
     (let minValue = smallest (map (\<lambda>r. d r col) [0..<nOfRows])
      in (\<lambda>r c. if c = col then d r c - minValue else d r c))"

definition star_in_row :: "nat \<Rightarrow> nat \<Rightarrow> hungarian \<Rightarrow> hungarian" where
  "star_in_row nOfColumns row s =
     (let col = first_below (\<lambda>c. is_zero s row c \<and> \<not> covered_cols s c) nOfColumns
      in if col < nOfColumns
         then s\<lparr>star_matrix := set_cell row col True (star_matrix s),
                covered_cols := (covered_cols s)(col := True)\<rparr>
         else s)"

definition star_in_col :: "nat \<Rightarrow> nat \<Rightarrow> hungarian \<Rightarrow> hungarian" where
  "star_in_col nOfRows col s =
     (let row = first_below (\<lambda>r. is_zero s r col \<and> \<not> covered_rows s r) nOfRows
      in if row < nOfRows
         then s\<lparr>star_matrix := set_cell row col True (star_matrix s),
                covered_cols := (covered_cols s)(col := True),
                covered_rows := (covered_rows s)(row := True)\<rparr>
         else s)"

definition clear_memory :: "(nat \<Rightarrow> nat \<Rightarrow> real) \<Rightarrow> hungarian" where
  "clear_memory dist_matrix_in =
     \<lparr>dist_matrix = dist_matrix_in, assignment = (\<lambda>_. -1), covered_cols = (\<lambda>_. False),
      covered_rows = (\<lambda>_. False), star_matrix = (\<lambda>_ _. False), new_star_matrix = (\<lambda>_ _. False),
      prime_matrix = (\<lambda>_ _. False)\<rparr>"

definition preliminary :: "nat \<Rightarrow> nat \<Rightarrow> (nat \<Rightarrow> nat \<Rightarrow> real) \<Rightarrow> hungarian" where
  "preliminary nOfRows nOfColumns dist_matrix_in =
     (if nOfRows \<le> nOfColumns then
        let d = fold (subtract_row_min nOfColumns) [0..<nOfRows] dist_matrix_in
        in fold (star_in_row nOfColumns) [0..<nOfRows] (clear_memory d)
      else
        let d = fold (subtract_col_min nOfRows) [0..<nOfColumns] dist_matrix_in
        in (fold (star_in_col nOfRows) [0..<nOfColumns] (clear_memory d))\<lparr>covered_rows := (\<lambda>_. False)\<rparr>)"

subsection \<open>The steps\<close>

datatype phase = Step2a | Step2b | Step3 | Step4 nat nat | Step5 | Finished

definition BuildAssignmentVector :: "nat \<Rightarrow> nat \<Rightarrow> hungarian \<Rightarrow> hungarian" where
  "BuildAssignmentVector nOfRows nOfColumns s =
     s\<lparr>assignment := (\<lambda>row. let col = first_below (star_matrix s row) nOfColumns
        in if row < nOfRows \<and> col < nOfColumns then int col else assignment s row)\<rparr>"

definition step2a :: "nat \<Rightarrow> nat \<Rightarrow> hungarian \<Rightarrow> phase \<times> hungarian" where
  "step2a nOfRows nOfColumns s =
     (Step2b, s\<lparr>covered_cols := (\<lambda>col. if col < nOfColumns \<and> (\<exists>row \<in> {0..<nOfRows}. star_matrix s row col)
                                      then True else covered_cols s col)\<rparr>)"

definition step2b :: "nat \<Rightarrow> nat \<Rightarrow> nat \<Rightarrow> hungarian \<Rightarrow> phase \<times> hungarian" where
  "step2b nOfRows nOfColumns minDim s =
     (if length (filter (covered_cols s) [0..<nOfColumns]) = minDim
      then (Finished, BuildAssignmentVector nOfRows nOfColumns s)
      else (Step3, s))"

text \<open>
  One column of the scan of \<open>step3\<close>.  The second component is the exit to \<open>step4\<close> with its row and
  column, the third \<open>zerosFound\<close>.
\<close>

definition step3_col :: "nat \<Rightarrow> nat \<Rightarrow> nat \<Rightarrow>
    hungarian \<times> (nat \<times> nat) option \<times> bool \<Rightarrow> hungarian \<times> (nat \<times> nat) option \<times> bool" where
  "step3_col nOfRows nOfColumns col = (\<lambda>(s, exit, zerosFound).
     if exit \<noteq> None \<or> covered_cols s col then (s, exit, zerosFound)
     else let row = first_below (\<lambda>r. \<not> covered_rows s r \<and> is_zero s r col) nOfRows
          in if row < nOfRows then
               let s = s\<lparr>prime_matrix := set_cell row col True (prime_matrix s)\<rparr>;
                   starCol = first_below (star_matrix s row) nOfColumns
               in if starCol = nOfColumns then (s, Some (row, col), zerosFound)
                  else (s\<lparr>covered_rows := (covered_rows s)(row := True),
                          covered_cols := (covered_cols s)(starCol := False)\<rparr>, None, True)
             else (s, exit, zerosFound))"

definition step3 :: "nat \<Rightarrow> nat \<Rightarrow> hungarian \<Rightarrow> phase \<times> hungarian" where
  "step3 nOfRows nOfColumns s =
     (case fold (step3_col nOfRows nOfColumns) [0..<nOfColumns] (s, None, False) of
        (s', Some (row, col), _) \<Rightarrow> (Step4 row col, s')
      | (s', None, zerosFound) \<Rightarrow> (if zerosFound then Step3 else Step5, s'))"

text \<open>
  The alternating path of \<open>step4\<close>: \<open>starRow\<close> is the row of the starred zero of column \<open>starCol\<close>.  The
  path visits each row at most once, so \<open>nOfRows\<close> rounds are enough; \<open>None\<close> stands for a longer one.
\<close>

fun step4_path :: "nat \<Rightarrow> nat \<Rightarrow> nat \<Rightarrow> hungarian \<Rightarrow> nat \<Rightarrow> nat \<Rightarrow> (nat \<Rightarrow> nat \<Rightarrow> bool) option" where
  "step4_path nOfRows nOfColumns fuel s starRow starCol =
     (if starRow < nOfRows then
        case fuel of
          0 \<Rightarrow> None
        | Suc n \<Rightarrow>
            let newStar = set_cell starRow starCol False (new_star_matrix s);
                primeCol = first_below (prime_matrix s starRow) nOfColumns;
                newStar = set_cell starRow primeCol True newStar
            in step4_path nOfRows nOfColumns n (s\<lparr>new_star_matrix := newStar\<rparr>)
                 (first_below (\<lambda>r. star_matrix s r primeCol) nOfRows) primeCol
      else Some (new_star_matrix s))"

declare step4_path.simps [simp del]

definition step4 :: "nat \<Rightarrow> nat \<Rightarrow> nat \<Rightarrow> nat \<Rightarrow> hungarian \<Rightarrow> (phase \<times> hungarian) option" where
  "step4 nOfRows nOfColumns row col s = do {
     let s = s\<lparr>new_star_matrix := set_cell row col True (star_matrix s)\<rparr>;
     newStar \<leftarrow> step4_path nOfRows nOfColumns nOfRows s
       (first_below (\<lambda>r. star_matrix s r col) nOfRows) col;
     Some (Step2a, s\<lparr>new_star_matrix := newStar, prime_matrix := (\<lambda>_ _. False), star_matrix := newStar,
                     covered_rows := (\<lambda>_. False)\<rparr>) }"

definition smallest_uncovered :: "nat \<Rightarrow> nat \<Rightarrow> hungarian \<Rightarrow> real" where
  "smallest_uncovered nOfRows nOfColumns s =
     foldl (\<lambda>h value. if value < h then value else h) DBL_MAX
       (concat (map (\<lambda>row. map (dist_matrix s row) (filter (\<lambda>col. \<not> covered_cols s col) [0..<nOfColumns]))
                    (filter (\<lambda>row. \<not> covered_rows s row) [0..<nOfRows])))"

definition step5 :: "nat \<Rightarrow> nat \<Rightarrow> hungarian \<Rightarrow> phase \<times> hungarian" where
  "step5 nOfRows nOfColumns s =
     (let h = smallest_uncovered nOfRows nOfColumns s;
          d = (\<lambda>row col. if covered_rows s row then dist_matrix s row col + h else dist_matrix s row col)
      in (Step3, s\<lparr>dist_matrix := (\<lambda>row col. if \<not> covered_cols s col then d row col - h else d row col)\<rparr>))"

subsection \<open>The machine and the entry point\<close>

fun next_step :: "nat \<Rightarrow> nat \<Rightarrow> nat \<Rightarrow> phase \<times> hungarian \<Rightarrow> (phase \<times> hungarian) option" where
  "next_step nOfRows nOfColumns minDim (Step2a, s) = Some (step2a nOfRows nOfColumns s)"
| "next_step nOfRows nOfColumns minDim (Step2b, s) = Some (step2b nOfRows nOfColumns minDim s)"
| "next_step nOfRows nOfColumns minDim (Step3, s) = Some (step3 nOfRows nOfColumns s)"
| "next_step nOfRows nOfColumns minDim (Step4 row col, s) = step4 nOfRows nOfColumns row col s"
| "next_step nOfRows nOfColumns minDim (Step5, s) = Some (step5 nOfRows nOfColumns s)"
| "next_step nOfRows nOfColumns minDim (Finished, s) = Some (Finished, s)"

fun run_steps :: "nat \<Rightarrow> nat \<Rightarrow> nat \<Rightarrow> nat \<Rightarrow> phase \<times> hungarian \<Rightarrow> hungarian option" where
  "run_steps fuel nOfRows nOfColumns minDim (phase, s) =
     (if phase = Finished then Some s
      else case fuel of
        0 \<Rightarrow> None
      | Suc n \<Rightarrow> next_step nOfRows nOfColumns minDim (phase, s) \<bind> run_steps n nOfRows nOfColumns minDim)"

declare run_steps.simps [simp del]

definition hungarian_fuel :: "nat \<Rightarrow> nat \<Rightarrow> nat" where
  "hungarian_fuel nOfRows nOfColumns = (min nOfRows nOfColumns + 1) * (3 * nOfRows + 6)"

definition AssignmentOptimal :: "nat \<Rightarrow> nat \<Rightarrow> (nat \<Rightarrow> nat \<Rightarrow> real) \<Rightarrow> hungarian option" where
  "AssignmentOptimal nOfRows nOfColumns dist_matrix_in =
     run_steps (hungarian_fuel nOfRows nOfColumns) nOfRows nOfColumns (min nOfRows nOfColumns)
       (Step2b, preliminary nOfRows nOfColumns dist_matrix_in)"

definition Solve :: "real list list \<Rightarrow> int list option" where
  "Solve DistMatrix =
     (let nRows = length DistMatrix; nCols = length (hd DistMatrix)
      in map_option (\<lambda>s. map (assignment s) [0..<nRows])
           (AssignmentOptimal nRows nCols (\<lambda>i j. DistMatrix ! i ! j)))"

subsection \<open>Counting loops and minima\<close>

lemma first_below_spec:
  "first_below P n \<le> n \<and> (first_below P n < n \<longrightarrow> P (first_below P n)) \<and> (first_below P n = n \<longleftrightarrow> (\<forall>i < n. \<not> P i))"
proof (cases "find P [0..<n]")
  case None
  moreover from this have "\<forall>i < n. \<not> P i" by (simp add: find_None_iff)
  ultimately show ?thesis by (simp add: first_below_def)
next
  case (Some i)
  moreover from this have "i < n \<and> P i" by (auto simp: find_Some_iff)
  ultimately show ?thesis by (auto simp: first_below_def)
qed

lemmas first_below_le = first_below_spec [THEN conjunct1]

lemmas first_below_none = first_below_spec [THEN conjunct2, THEN conjunct2]

lemma first_below_hit: "first_below P n < n \<Longrightarrow> P (first_below P n)"
  using first_below_spec by blast

lemma first_below_unique:
  assumes "P i" "i < n" "\<And>j. P j \<Longrightarrow> j = i"
  shows "first_below P n = i"
proof -
  have "first_below P n < n" using assms(1,2) first_below_none first_below_le by (metis le_neq_implies_less)
  then show ?thesis using first_below_hit assms(3) by blast
qed

lemma set_cell_apply [simp]: "set_cell r c v m i j = (if i = r \<and> j = c then v else m i j)"
  by (simp add: set_cell_def)

lemma foldl_min: "foldl (\<lambda>m x. if x < m then x else m) a xs = Min (insert a (set xs))" for a :: real
proof (induction xs arbitrary: a)
  case (Cons x xs)
  have "Min (insert (if x < a then x else a) (set xs)) = Min (insert a (insert x (set xs)))"
    by (cases "xs = []") (auto simp: min_def)
  then show ?case using Cons by simp
qed simp

lemma smallest_Min: "xs \<noteq> [] \<Longrightarrow> smallest xs = Min (set xs)"
  by (cases xs) (simp_all add: smallest_def foldl_min)

subsection \<open>Matchings\<close>

definition matching :: "nat \<Rightarrow> nat \<Rightarrow> (nat \<Rightarrow> nat \<Rightarrow> bool) \<Rightarrow> bool" where
  "matching R C st = ((\<forall>r c. st r c \<longrightarrow> r < R \<and> c < C)
     \<and> (\<forall>r c c'. st r c \<and> st r c' \<longrightarrow> c = c') \<and> (\<forall>r r' c. st r c \<and> st r' c \<longrightarrow> r = r'))"

definition matched_rows :: "(nat \<Rightarrow> nat \<Rightarrow> bool) \<Rightarrow> nat set" where
  "matched_rows st = {r. \<exists>c. st r c}"

definition matched_cols :: "(nat \<Rightarrow> nat \<Rightarrow> bool) \<Rightarrow> nat set" where
  "matched_cols st = {c. \<exists>r. st r c}"

lemma matching_range: "matching R C st \<Longrightarrow> st r c \<Longrightarrow> r < R \<and> c < C"
  by (simp add: matching_def)

lemma matching_row: "matching R C st \<Longrightarrow> st r c \<Longrightarrow> st r c' \<Longrightarrow> c = c'"
  by (simp add: matching_def)

lemma matching_col: "matching R C st \<Longrightarrow> st r c \<Longrightarrow> st r' c \<Longrightarrow> r = r'"
  unfolding matching_def by blast

lemma matched_subset:
  assumes "matching R C st"
  shows "matched_rows st \<subseteq> {..<R}" "matched_cols st \<subseteq> {..<C}" "finite (matched_rows st)" "finite (matched_cols st)"
  using matching_range [OF assms] by (auto simp: matched_rows_def matched_cols_def intro: finite_subset [of _ "{..<R}"] finite_subset [of _ "{..<C}"])

lemma card_matched:
  assumes "matching R C st"
  shows "card (matched_rows st) = card (matched_cols st)"
proof (rule bij_betw_same_card [of "\<lambda>r. THE c. st r c"])
  have the: "(THE c. st r c) = c" if "st r c" for r c
    using that matching_row [OF assms] by (intro the_equality) auto
  show "bij_betw (\<lambda>r. THE c. st r c) (matched_rows st) (matched_cols st)"
    unfolding bij_betw_def inj_on_def matched_rows_def matched_cols_def
    using the matching_col [OF assms] by (auto simp: image_iff)
qed

lemma card_matched_le:
  assumes "matching R C st"
  shows "card (matched_cols st) \<le> min R C"
  using card_mono [OF _ matched_subset(1) [OF assms]] card_mono [OF _ matched_subset(2) [OF assms]]
    card_matched [OF assms] by simp

lemma free_row_col:
  assumes "matching R C st" and "card (matched_cols st) < min R C"
  obtains r c where "r < R" "r \<notin> matched_rows st" "c < C" "c \<notin> matched_cols st"
proof -
  have "\<not> {..<R} \<subseteq> matched_rows st" "\<not> {..<C} \<subseteq> matched_cols st"
    using assms(2) card_matched [OF assms(1)] card_mono [OF matched_subset(3) [OF assms(1)], of "{..<R}"]
      card_mono [OF matched_subset(4) [OF assms(1)], of "{..<C}"] by auto
  then show ?thesis using that by auto
qed

end
