(* ===== verification/Kalman.thy ===== *)
theory Kalman
  imports Infer_Object Hungarian Schedule_Types
begin

text \<open>
  \<open>MgenKalmanTracker\<close> of \<open>Tracker/SORT/MgenKalman.cpp\<close>: the state of one tracked object.  OpenCV is
  outside the repository: \<open>cv::KalmanFilter\<close> and the rectangle operators \<open>&\<close> and \<open>|\<close> are the record
  \<open>opencv\<close>, a parameter of every operation that uses them.  Filter vectors are lists of optional
  reals, \<open>None\<close> for a component that is not a finite number (a ratio with a zero height, the root of
  a negative product); a comparison with such a component is false.  The counters are 32-bit words.
\<close>

type_synonym StateXYWH = InferBBox
type_synonym kf_vector = "real option list"

record 'kf opencv =
  kf_new :: "real list list \<Rightarrow> real \<Rightarrow> real \<Rightarrow> real \<Rightarrow> kf_vector \<Rightarrow> 'kf"
  kf_predict :: "'kf \<Rightarrow> kf_vector \<times> 'kf"
  kf_correct :: "kf_vector \<Rightarrow> 'kf \<Rightarrow> 'kf"
  kf_statePost :: "'kf \<Rightarrow> kf_vector"
  rect_and :: "StateXYWH \<Rightarrow> StateXYWH \<Rightarrow> StateXYWH"
  rect_or :: "StateXYWH \<Rightarrow> StateXYWH \<Rightarrow> StateXYWH"

definition rect_area :: "StateXYWH \<Rightarrow> real" where
  "rect_area b = bbox_w b * bbox_h b"

record 'kf kalman_tracker =
  kt_track_id :: int
  kt_class_id :: int
  kt_engine_id :: u32
  kt_in_style :: ImageExpressStyle
  kt_out_style :: ImageExpressStyle
  last_update_score :: cfloat
  time_since_update :: u32
  hits :: u32
  hit_streak :: u32
  age :: u32
  kf :: 'kf

definition transitionMatrix :: "real list list" where
  "transitionMatrix =
     [[1, 0, 0, 0, 1, 0, 0],
      [0, 1, 0, 0, 0, 1, 0],
      [0, 0, 1, 0, 0, 0, 1],
      [0, 0, 0, 1, 0, 0, 0],
      [0, 0, 0, 0, 1, 0, 0],
      [0, 0, 0, 0, 0, 1, 0],
      [0, 0, 0, 0, 0, 0, 1]]"

definition float_div :: "real \<Rightarrow> real \<Rightarrow> real option" where
  "float_div a b = (if b = 0 then None else Some (a / b))"

text \<open>\<open>[x, y, w, h]\<close> to \<open>[cx, cy, s, r]\<close>, the measurement and the initial state.\<close>

definition measurement_of :: "StateXYWH \<Rightarrow> kf_vector" where
  "measurement_of b = [Some (bbox_x b + bbox_w b / 2), Some (bbox_y b + bbox_h b / 2),
     Some (rect_area b), float_div (bbox_w b) (bbox_h b)]"

definition InitKf :: "'kf opencv \<Rightarrow> StateXYWH \<Rightarrow> 'kf" where
  "InitKf cv stateMat =
     kf_new cv transitionMatrix (1/100) (1/10) 1 (measurement_of stateMat @ [Some 0, Some 0, Some 0])"

definition get_StateXYWH_obj :: "InferObject \<Rightarrow> ImageExpressStyle \<Rightarrow> ImageExpressStyle \<Rightarrow> StateXYWH" where
  "get_StateXYWH_obj obj src_style dst_style =
     (let infer_object = snd (ConvertInferObjectCoordinate obj src_style dst_style);
          b = bbox infer_object
      in if xy_ref_type infer_object = ltx_type then b
         else b\<lparr>bbox_x := bbox_x b - bbox_w b / 2, bbox_y := bbox_y b - bbox_h b / 2\<rparr>)"

definition NEAR_ZERO_PIXEL :: real where "NEAR_ZERO_PIXEL = 1/100"

definition get_StateXYWH_xysr :: "real \<Rightarrow> real \<Rightarrow> real \<Rightarrow> real \<Rightarrow> StateXYWH option" where
  "get_StateXYWH_xysr cx cy s r =
     (if s * r < 0 then None
      else let w = sqrt (s * r);
               h = (if w < DBL_EPSILON then s else s / w);
               x = cx - w / 2;
               y = cy - h / 2;
               x' = (if x < 0 \<and> cx - w / 2 > 0 then NEAR_ZERO_PIXEL else x);
               y' = (if y < 0 \<and> cy - h / 2 > 0 then NEAR_ZERO_PIXEL else y)
           in Some \<lparr>bbox_x = x', bbox_y = y', bbox_w = w, bbox_h = h\<rparr>)"

fun get_StateXYWH_mat :: "kf_vector \<Rightarrow> StateXYWH option" where
  "get_StateXYWH_mat (Some cx # Some cy # Some s # Some r # _) = get_StateXYWH_xysr cx cy s r"
| "get_StateXYWH_mat _ = None"

definition MgenKalmanTracker_new ::
  "'kf opencv \<Rightarrow> int \<Rightarrow> InferObject \<Rightarrow> ImageExpressStyle \<Rightarrow> ImageExpressStyle \<Rightarrow> 'kf kalman_tracker" where
  "MgenKalmanTracker_new cv uuid init_object in_style out_style =
     \<lparr>kt_track_id = uuid, kt_class_id = class_id init_object, kt_engine_id = infer_engine_id init_object,
      kt_in_style = in_style, kt_out_style = out_style, last_update_score = score init_object,
      time_since_update = 0, hits = 0, hit_streak = 0, age = 0,
      kf = InitKf cv (get_StateXYWH_obj init_object in_style out_style)\<rparr>"

definition kt_predict :: "'kf opencv \<Rightarrow> 'kf kalman_tracker \<Rightarrow> StateXYWH option \<times> 'kf kalman_tracker" where
  "kt_predict cv k =
     (let (p, kf') = kf_predict cv (kf k)
      in (get_StateXYWH_mat p,
          k\<lparr>kf := kf', age := age k + 1,
            hit_streak := (if time_since_update k > 0 then 0 else hit_streak k),
            time_since_update := time_since_update k + 1\<rparr>))"

definition kt_update :: "'kf opencv \<Rightarrow> InferObject \<Rightarrow> 'kf kalman_tracker \<Rightarrow> 'kf kalman_tracker" where
  "kt_update cv obj k =
     (if kt_class_id k \<noteq> class_id obj then k
      else let stateMat = get_StateXYWH_obj obj (kt_in_style k) (kt_out_style k)
           in k\<lparr>time_since_update := 0, hit_streak := hit_streak k + 1, hits := hits k + 1,
                last_update_score := score obj, kf := kf_correct cv (measurement_of stateMat) (kf k)\<rparr>)"

definition PAD_ZERO :: real where "PAD_ZERO = 1 / 100000"

definition pixelize :: "real \<Rightarrow> real" where
  "pixelize v = (if \<bar>v\<bar> > DBL_EPSILON then of_int \<lfloor>v + PAD_ZERO\<rfloor> else 0)"

definition get_predict_track_object :: "'kf opencv \<Rightarrow> 'kf kalman_tracker \<Rightarrow> InferObject" where
  "get_predict_track_object cv k =
     (let state = get_StateXYWH_mat (kf_statePost cv (kf k));
          pix = (\<lambda>f. case state of None \<Rightarrow> 0 | Some b \<Rightarrow> pixelize (f b));
          clip = (\<lambda>v. if v < 0 then 0 else v);
          obj = InferObject_default\<lparr>infer_engine_id := kt_engine_id k, class_id := kt_class_id k,
                  track_id := kt_track_id k, score := last_update_score k,
                  bbox := \<lparr>bbox_x = clip (pix bbox_x), bbox_y = clip (pix bbox_y),
                           bbox_w = clip (pix bbox_w), bbox_h = clip (pix bbox_h)\<rparr>,
                  xy_ref_type := ltx_type, coord_format := pixel_int\<rparr>
      in if xy_ref_type obj \<noteq> style_ref_type (kt_out_style k) \<or> coord_format obj \<noteq> style_format (kt_out_style k)
         then snd (ConvertInferObjectCoordinate obj
                ((kt_out_style k)\<lparr>style_ref_type := xy_ref_type obj, style_format := coord_format obj\<rparr>)
                (kt_out_style k))
         else obj)"

definition is_over_age :: "u32 \<Rightarrow> 'kf kalman_tracker \<Rightarrow> bool" where
  "is_over_age max_age k = (time_since_update k > max_age)"

definition is_detected_track_object :: "u32 \<Rightarrow> u32 \<Rightarrow> 'kf kalman_tracker \<Rightarrow> bool" where
  "is_detected_track_object min_hits init_threshold k =
     (time_since_update k < 1 \<and> (hit_streak k \<ge> min_hits \<or> init_threshold \<le> min_hits))"

subsection \<open>Properties\<close>

text \<open>
  The two box representations are inverse: the centre, area and ratio of a box with positive
  sides give the box back.
\<close>

theorem xysr_round_trip:
  assumes "DBL_EPSILON \<le> bbox_w b" and "0 < bbox_h b"
  shows "get_StateXYWH_mat (measurement_of b) = Some b"
proof -
  have w: "0 < bbox_w b" using assms(1) by (simp add: DBL_EPSILON_def less_le_trans [of 0 "1 / 2 ^ 52"])
  have "rect_area b * (bbox_w b / bbox_h b) = bbox_w b * bbox_w b"
    using assms(2) by (simp add: rect_area_def)
  moreover from this have "sqrt (rect_area b * (bbox_w b / bbox_h b)) = bbox_w b" using w by simp
  ultimately show ?thesis using assms w
    by (simp add: measurement_of_def float_div_def get_StateXYWH_xysr_def Let_def rect_area_def)
qed

theorem xysr_round_trip_witness:
  "get_StateXYWH_mat (measurement_of \<lparr>bbox_x = 10, bbox_y = 20, bbox_w = 30, bbox_h = 40\<rparr>) =
     Some \<lparr>bbox_x = 10, bbox_y = 20, bbox_w = 30, bbox_h = 40\<rparr>"
  by (rule xysr_round_trip) (simp_all add: DBL_EPSILON_def)

end
