(* ===== verification/Hungarian_Correct.thy ===== *)
theory Hungarian_Correct
  imports Hungarian
begin

text \<open>
  Correctness of the assignment solver: every transition of the machine keeps its invariant and
  lowers a natural-number measure, so the fuel is enough for every matrix; the assignment returned
  is a matching of the maximal size, and its cost is minimal up to the tolerance of the zero test.
\<close>

subsection \<open>Invariants\<close>

text \<open>
  The reduced matrix differs from the cost by potentials.  On the longer side the potentials have
  a common upper bound, which the unmatched lines attain.
\<close>

definition potentials :: "nat \<Rightarrow> nat \<Rightarrow> (nat \<Rightarrow> nat \<Rightarrow> real) \<Rightarrow> hungarian \<Rightarrow> bool" where
  "potentials R C cost s = (\<exists>u v. (\<forall>r < R. \<forall>c < C. dist_matrix s r c = cost r c - u r - v c)
     \<and> (R \<le> C \<longrightarrow> (\<exists>V. \<forall>c < C. v c \<le> V \<and> (c \<notin> matched_cols (star_matrix s) \<longrightarrow> v c = V)))
     \<and> (C < R \<longrightarrow> (\<exists>U. \<forall>r < R. u r \<le> U \<and> (r \<notin> matched_rows (star_matrix s) \<longrightarrow> u r = U))))"

definition base_inv :: "nat \<Rightarrow> nat \<Rightarrow> (nat \<Rightarrow> nat \<Rightarrow> real) \<Rightarrow> hungarian \<Rightarrow> bool" where
  "base_inv R C cost s = (matching R C (star_matrix s)
     \<and> (\<forall>r < R. \<forall>c < C. 0 \<le> dist_matrix s r c)
     \<and> (\<forall>r c. star_matrix s r c \<longrightarrow> dist_matrix s r c < DBL_EPSILON)
     \<and> (\<forall>r < R. \<forall>c < C. r \<notin> matched_rows (star_matrix s) \<and> c \<notin> matched_cols (star_matrix s)
          \<longrightarrow> dist_matrix s r c < DBL_MAX)
     \<and> potentials R C cost s \<and> assignment s = (\<lambda>_. -1))"

text \<open>
  While zeros are primed: covered lines carry a star, a star's row is covered exactly when its
  column is not, every covered row has one primed zero, in an uncovered column; and the rows can
  be ranked by the moment they were covered, so that the star of a primed zero's column lies in a row
  covered earlier.
\<close>

definition cover_inv :: "nat \<Rightarrow> nat \<Rightarrow> hungarian \<Rightarrow> bool" where
  "cover_inv R C s = (
     (\<forall>c. covered_cols s c \<longrightarrow> c \<in> matched_cols (star_matrix s))
     \<and> (\<forall>r. covered_rows s r \<longrightarrow> r \<in> matched_rows (star_matrix s))
     \<and> (\<forall>r c. star_matrix s r c \<longrightarrow> (covered_rows s r \<longleftrightarrow> \<not> covered_cols s c))
     \<and> (\<forall>r c. prime_matrix s r c \<longrightarrow> r < R \<and> c < C \<and> covered_rows s r \<and> \<not> covered_cols s c
          \<and> dist_matrix s r c < DBL_EPSILON \<and> \<not> star_matrix s r c)
     \<and> (\<forall>r. covered_rows s r \<longrightarrow> (\<exists>c. prime_matrix s r c))
     \<and> (\<forall>r c c'. prime_matrix s r c \<and> prime_matrix s r c' \<longrightarrow> c = c')
     \<and> (\<exists>rank. (\<forall>r r' c. prime_matrix s r c \<and> star_matrix s r' c \<longrightarrow> rank r' < (rank r :: nat))
          \<and> (\<forall>r. covered_rows s r \<longrightarrow> rank r < card {r. covered_rows s r})))"

definition open_rows :: "nat \<Rightarrow> hungarian \<Rightarrow> nat" where
  "open_rows R s = card {r. r < R \<and> \<not> covered_rows s r}"

definition open_zero :: "nat \<Rightarrow> nat \<Rightarrow> hungarian \<Rightarrow> bool" where
  "open_zero R C s = (\<exists>r < R. \<exists>c < C. \<not> covered_rows s r \<and> \<not> covered_cols s c \<and> is_zero s r c)"

text \<open>The exit to \<open>step4\<close>: a zero in an uncovered row without a star has just been primed.\<close>

definition exit_inv :: "nat \<Rightarrow> nat \<Rightarrow> nat \<Rightarrow> nat \<Rightarrow> hungarian \<Rightarrow> bool" where
  "exit_inv R C row col s = (\<exists>s0. cover_inv R C s0
     \<and> s = s0\<lparr>prime_matrix := set_cell row col True (prime_matrix s0)\<rparr>
     \<and> row < R \<and> col < C \<and> row \<notin> matched_rows (star_matrix s0) \<and> \<not> covered_cols s0 col
     \<and> dist_matrix s0 row col < DBL_EPSILON)"

definition clear_covers :: "hungarian \<Rightarrow> bool" where
  "clear_covers s = ((\<forall>r. \<not> covered_rows s r) \<and> (\<forall>r c. \<not> prime_matrix s r c))"

lemma cover_inv_facts:
  assumes "cover_inv R C s"
  shows "covered_cols s c \<Longrightarrow> c \<in> matched_cols (star_matrix s)"
    and "covered_rows s r \<Longrightarrow> r \<in> matched_rows (star_matrix s)"
    and "star_matrix s r c \<Longrightarrow> covered_rows s r \<longleftrightarrow> \<not> covered_cols s c"
    and "prime_matrix s r c \<Longrightarrow> r < R \<and> c < C \<and> covered_rows s r \<and> \<not> covered_cols s c
          \<and> dist_matrix s r c < DBL_EPSILON \<and> \<not> star_matrix s r c"
    and "covered_rows s r \<Longrightarrow> \<exists>c. prime_matrix s r c"
    and "prime_matrix s r c \<Longrightarrow> prime_matrix s r c' \<Longrightarrow> c = c'"
  using assms unfolding cover_inv_def by blast+

lemma DBL_EPSILON_pos: "0 < DBL_EPSILON"
  by (simp add: DBL_EPSILON_def)

lemma finite_covered_rows:
  assumes "base_inv R C cost s" "cover_inv R C s"
  shows "{r. covered_rows s r} \<subseteq> {..<R}" "finite {r. covered_rows s r}"
proof -
  show "{r. covered_rows s r} \<subseteq> {..<R}"
    using assms matched_subset(1) [of R C "star_matrix s"] unfolding base_inv_def cover_inv_def by blast
  then show "finite {r. covered_rows s r}" by (rule finite_subset) simp
qed

subsection \<open>Step 3\<close>

lemma cover_inv_extend:
  assumes base: "base_inv R C cost s" and cov: "cover_inv R C s"
    and row: "row < R" "\<not> covered_rows s row" and col: "col < C" "\<not> covered_cols s col"
    and zero: "dist_matrix s row col < DBL_EPSILON" and star: "star_matrix s row starCol"
  defines "s' \<equiv> s\<lparr>prime_matrix := set_cell row col True (prime_matrix s),
       covered_rows := (covered_rows s)(row := True), covered_cols := (covered_cols s)(starCol := False)\<rparr>"
  shows "cover_inv R C s'"
proof -
  note m = base [unfolded base_inv_def, THEN conjunct1]
  have cv: "covered_cols s starCol" using cov star row(2) by (auto simp: cover_inv_def)
  then have ne: "col \<noteq> starCol" using col(2) by auto
  have fin: "finite {r. covered_rows s r}" using finite_covered_rows [OF base cov] by blast
  have rows: "{r. covered_rows s' r} = insert row {r. covered_rows s r}" by (auto simp: s'_def)
  have card: "card {r. covered_rows s' r} = Suc (card {r. covered_rows s r})"
    unfolding rows using fin row(2) by simp
  obtain rank where rank: "\<forall>r r' c. prime_matrix s r c \<and> star_matrix s r' c \<longrightarrow> rank r' < (rank r :: nat)"
    "\<forall>r. covered_rows s r \<longrightarrow> rank r < card {r. covered_rows s r}"
    using cov unfolding cover_inv_def by blast
  let ?rank = "rank(row := card {r. covered_rows s r})"
  have star_cov: "covered_rows s r" if "star_matrix s r c" "\<not> covered_cols s c" for r c
    using that cover_inv_facts(3) [OF cov] by blast
  have prime_cov: "covered_rows s r \<and> \<not> covered_cols s c" if "prime_matrix s r c" for r c
    using that cover_inv_facts(4) [OF cov] by blast
  have r1: "?rank r' < ?rank r" if "prime_matrix s' r c" "star_matrix s' r' c" for r r' c
  proof (cases "r = row \<and> c = col")
    case True
    then have "covered_rows s r'" using that(2) star_cov col(2) by (simp add: s'_def)
    then show ?thesis using True rank(2) row(2) by auto
  next
    case False
    then have p: "prime_matrix s r c" using that(1) by (auto simp: s'_def)
    then have "covered_rows s r" "covered_rows s r'" using prime_cov star_cov that(2) by (auto simp: s'_def)
    then show ?thesis using rank(1) p that(2) row(2) by (auto simp: s'_def)
  qed
  have r2: "?rank r < card {r. covered_rows s' r}" if "covered_rows s' r" for r
    using that rank(2) unfolding card by (auto simp: s'_def less_Suc_eq)
  show ?thesis unfolding cover_inv_def
  proof (intro conjI allI impI)
    show "\<exists>rank. (\<forall>r r' c. prime_matrix s' r c \<and> star_matrix s' r' c \<longrightarrow> rank r' < (rank r :: nat))
        \<and> (\<forall>r. covered_rows s' r \<longrightarrow> rank r < card {r. covered_rows s' r})"
      using r1 r2 by (intro exI [of _ ?rank]) blast
    show "c \<in> matched_cols (star_matrix s')" if "covered_cols s' c" for c
      using that cover_inv_facts(1) [OF cov] by (auto simp: s'_def split: if_splits)
    show "r \<in> matched_rows (star_matrix s')" if "covered_rows s' r" for r
      using that cover_inv_facts(2) [OF cov] star by (auto simp: s'_def matched_rows_def split: if_splits)
    show "covered_rows s' r \<longleftrightarrow> \<not> covered_cols s' c" if "star_matrix s' r c" for r c
      using that cover_inv_facts(3) [OF cov] matching_row [OF m star] matching_col [OF m star]
      by (auto simp: s'_def split: if_splits)
    show "\<exists>c. prime_matrix s' r c" if "covered_rows s' r" for r
      using that cover_inv_facts(5) [OF cov] by (fastforce simp: s'_def split: if_splits)
    show "c = c'" if "prime_matrix s' r c \<and> prime_matrix s' r c'" for r c c'
      using that cover_inv_facts(6) [OF cov] prime_cov row(2) by (auto simp: s'_def split: if_splits)
    fix r c assume p: "prime_matrix s' r c"
    have "\<not> star_matrix s row col" using matching_row [OF m star] ne by blast
    then have "r < R \<and> c < C \<and> covered_rows s' r \<and> \<not> covered_cols s' c
        \<and> dist_matrix s' r c < DBL_EPSILON \<and> \<not> star_matrix s' r c"
      using p cover_inv_facts(4) [OF cov, of r c] row(1) col zero
      by (cases "r = row \<and> c = col") (auto simp: s'_def split: if_splits)
    then show "r < R" "c < C" "covered_rows s' r" "\<not> covered_cols s' c"
      "dist_matrix s' r c < DBL_EPSILON" "\<not> star_matrix s' r c" by auto
  qed
qed

lemma base_inv_update [simp]:
  "base_inv R C cost (s\<lparr>prime_matrix := p\<rparr>) = base_inv R C cost s"
  "base_inv R C cost (s\<lparr>covered_rows := q\<rparr>) = base_inv R C cost s"
  "base_inv R C cost (s\<lparr>covered_cols := q\<rparr>) = base_inv R C cost s"
  by (simp_all add: base_inv_def potentials_def)

definition step3_inv :: "nat \<Rightarrow> nat \<Rightarrow> (nat \<Rightarrow> nat \<Rightarrow> real) \<Rightarrow> hungarian \<Rightarrow> nat \<Rightarrow>
    hungarian \<times> (nat \<times> nat) option \<times> bool \<Rightarrow> bool" where
  "step3_inv R C cost s0 k = (\<lambda>(s, exit, zerosFound).
     base_inv R C cost s \<and> star_matrix s = star_matrix s0 \<and> open_rows R s \<le> open_rows R s0
     \<and> (case exit of
          Some (row, col) \<Rightarrow> exit_inv R C row col s
        | None \<Rightarrow> cover_inv R C s
            \<and> (zerosFound \<longrightarrow> open_rows R s < open_rows R s0)
            \<and> (\<not> zerosFound \<longrightarrow> s = s0 \<and> (\<forall>c < k. \<not> covered_cols s c \<longrightarrow>
                 (\<forall>r < R. \<not> covered_rows s r \<longrightarrow> \<not> is_zero s r c)))))"

lemma open_rows_cover:
  assumes "row < R" "\<not> covered_rows s row"
  shows "open_rows R (s\<lparr>prime_matrix := p, covered_rows := (covered_rows s)(row := True), covered_cols := q\<rparr>) < open_rows R s"
  unfolding open_rows_def by (rule psubset_card_mono) (use assms in auto)

lemma step3_col_inv:
  assumes inv: "step3_inv R C cost s0 k st" and k: "k < C"
  shows "step3_inv R C cost s0 (Suc k) (step3_col R C k st)"
proof -
  obtain s ex zf where st: "st = (s, ex, zf)" by (cases st) auto
  show ?thesis
  proof (cases "ex \<noteq> None \<or> covered_cols s k")
    case True
    then show ?thesis using inv by (auto simp: st step3_col_def step3_inv_def less_Suc_eq split: option.splits)
  next
    case False
    then have base: "base_inv R C cost s" and cov: "cover_inv R C s" and col: "\<not> covered_cols s k" and ex: "ex = None"
      using inv by (cases ex; auto simp: st step3_inv_def)+
    let ?row = "first_below (\<lambda>r. \<not> covered_rows s r \<and> is_zero s r k) R"
    show ?thesis
    proof (cases "?row < R")
      case False
      then have "\<forall>r < R. \<not> covered_rows s r \<longrightarrow> \<not> is_zero s r k"
        using first_below_none first_below_le by (metis (mono_tags, lifting) le_neq_implies_less)
      then show ?thesis using inv False col ex by (auto simp: st step3_col_def step3_inv_def less_Suc_eq)
    next
      case row: True
      then have r: "\<not> covered_rows s ?row" "is_zero s ?row k" using first_below_hit [OF row] by auto
      then have zero: "dist_matrix s ?row k < DBL_EPSILON" by (auto simp: is_zero_def)
      let ?p = "set_cell ?row k True (prime_matrix s)"
      let ?starCol = "first_below (star_matrix s ?row) C"
      show ?thesis
      proof (cases "?starCol = C")
        case True
        then have "?row \<notin> matched_rows (star_matrix s)"
          using first_below_none [of "star_matrix s ?row" C] base
          by (auto simp: matched_rows_def base_inv_def dest: matching_range)
        then have "exit_inv R C ?row k (s\<lparr>prime_matrix := ?p\<rparr>)"
          unfolding exit_inv_def using cov row k col zero by blast
        then show ?thesis using inv True row col ex base
          by (simp add: st step3_col_def step3_inv_def Let_def open_rows_def)
      next
        case False
        then have sc: "?starCol < C" using first_below_le by (metis le_neq_implies_less)
        then have star: "star_matrix s ?row ?starCol" by (rule first_below_hit)
        have "cover_inv R C (s\<lparr>prime_matrix := ?p, covered_rows := (covered_rows s)(?row := True),
            covered_cols := (covered_cols s)(?starCol := False)\<rparr>)"
          by (rule cover_inv_extend [OF base cov row r(1) k col zero star])
        then show ?thesis using inv False row col ex base open_rows_cover [OF row r(1), where p = ?p and q = "(covered_cols s)(?starCol := False)"]
          by (simp add: st step3_col_def step3_inv_def Let_def)
      qed
    qed
  qed
qed

lemma step3_fold_inv:
  assumes "base_inv R C cost s" and "cover_inv R C s"
  shows "step3_inv R C cost s C (fold (step3_col R C) [0..<C] (s, None, False))"
proof -
  have "k \<le> C \<Longrightarrow> step3_inv R C cost s k (fold (step3_col R C) [0..<k] (s, None, False))" for k
  proof (induction k)
    case 0
    then show ?case using assms by (simp add: step3_inv_def)
  next
    case (Suc k)
    then show ?case using step3_col_inv [of R C cost s k] by simp
  qed
  then show ?thesis by blast
qed

text \<open>What one round of \<open>step3\<close> does.\<close>

lemma step3_cases:
  assumes "base_inv R C cost s" and "cover_inv R C s"
  obtains (exit) row col s' where "step3 R C s = (Step4 row col, s')" "base_inv R C cost s'" "exit_inv R C row col s'"
      "star_matrix s' = star_matrix s" "open_rows R s' \<le> open_rows R s"
    | (again) s' where "step3 R C s = (Step3, s')" "base_inv R C cost s'" "cover_inv R C s'"
      "star_matrix s' = star_matrix s" "open_rows R s' < open_rows R s"
    | (none) "step3 R C s = (Step5, s)" "\<not> open_zero R C s"
proof -
  obtain s' ex zf where f: "fold (step3_col R C) [0..<C] (s, None, False) = (s', ex, zf)" by (metis prod_cases3)
  note inv = step3_fold_inv [OF assms, unfolded f step3_inv_def, simplified]
  show ?thesis
  proof (cases ex)
    case (Some rc)
    then show ?thesis using inv f exit [of "fst rc" "snd rc" s'] by (auto simp: step3_def split: prod.splits)
  next
    case None
    show ?thesis
    proof (cases zf)
      case True
      then show ?thesis using inv f None again [of s'] by (auto simp: step3_def)
    next
      case False
      then show ?thesis using inv f None none by (auto simp: step3_def open_zero_def)
    qed
  qed
qed

subsection \<open>Step 5\<close>

lemma smallest_uncovered_Min:
  "smallest_uncovered R C s =
     Min (insert DBL_MAX {dist_matrix s r c | r c. r < R \<and> c < C \<and> \<not> covered_rows s r \<and> \<not> covered_cols s c})"
  unfolding smallest_uncovered_def foldl_min
  by (rule arg_cong [of _ _ "\<lambda>X. Min (insert DBL_MAX X)"]) (auto simp: image_iff)

lemma finite_uncovered:
  "finite {dist_matrix s r c | r c. r < R \<and> c < C \<and> \<not> covered_rows s r \<and> \<not> covered_cols s c}"
proof -
  have "finite ((\<lambda>(r, c). dist_matrix s r c) ` ({..<R} \<times> {..<C}))" by simp
  then show ?thesis by (rule rev_finite_subset) auto
qed

lemma smallest_uncovered_facts:
  assumes base: "base_inv R C cost s" and cov: "cover_inv R C s"
    and few: "card (matched_cols (star_matrix s)) < min R C" and none: "\<not> open_zero R C s"
  defines "h \<equiv> smallest_uncovered R C s"
  shows "0 < h"
    and "\<And>r c. r < R \<Longrightarrow> c < C \<Longrightarrow> \<not> covered_rows s r \<Longrightarrow> \<not> covered_cols s c \<Longrightarrow> h \<le> dist_matrix s r c"
    and "\<exists>r < R. \<exists>c < C. \<not> covered_rows s r \<and> \<not> covered_cols s c \<and> dist_matrix s r c = h"
proof -
  let ?U = "{dist_matrix s r c | r c. r < R \<and> c < C \<and> \<not> covered_rows s r \<and> \<not> covered_cols s c}"
  have h: "h = Min (insert DBL_MAX ?U)" by (simp add: h_def smallest_uncovered_Min)
  have m: "matching R C (star_matrix s)" using base by (simp add: base_inv_def)
  obtain r c where rc: "r < R" "r \<notin> matched_rows (star_matrix s)" "c < C" "c \<notin> matched_cols (star_matrix s)"
    using free_row_col [OF m few] by blast
  have "\<not> covered_rows s r" "\<not> covered_cols s c" using rc cover_inv_facts(1,2) [OF cov] by blast+
  then have in_U: "dist_matrix s r c \<in> ?U" using rc by blast
  moreover have "dist_matrix s r c < DBL_MAX" using base rc by (auto simp: base_inv_def)
  ultimately have "h < DBL_MAX" unfolding h using finite_uncovered [of s R C]
    by (metis (no_types, lifting) Min_le finite_insert insertI2 order_le_less_trans)
  moreover have "h \<in> insert DBL_MAX ?U" unfolding h using finite_uncovered [of s R C] by (intro Min_in) auto
  ultimately have "h \<in> ?U" by auto
  then show ex: "\<exists>r < R. \<exists>c < C. \<not> covered_rows s r \<and> \<not> covered_cols s c \<and> dist_matrix s r c = h" by blast
  have "0 \<le> h" using ex base by (auto simp: base_inv_def)
  moreover have "\<not> \<bar>h\<bar> < DBL_EPSILON" using ex none by (auto simp: open_zero_def is_zero_def)
  ultimately show "0 < h" using DBL_EPSILON_pos by linarith
  show "\<And>r c. r < R \<Longrightarrow> c < C \<Longrightarrow> \<not> covered_rows s r \<Longrightarrow> \<not> covered_cols s c \<Longrightarrow> h \<le> dist_matrix s r c"
    unfolding h using finite_uncovered [of s R C] by (intro Min_le) auto
qed

lemma step5_dist:
  "dist_matrix (snd (step5 R C s)) r c = dist_matrix s r c
     + (if covered_rows s r then smallest_uncovered R C s else 0)
     - (if covered_cols s c then 0 else smallest_uncovered R C s)"
  by (simp add: step5_def Let_def)

lemma step5_same:
  "star_matrix (snd (step5 R C s)) = star_matrix s" "prime_matrix (snd (step5 R C s)) = prime_matrix s"
  "covered_rows (snd (step5 R C s)) = covered_rows s" "covered_cols (snd (step5 R C s)) = covered_cols s"
  "assignment (snd (step5 R C s)) = assignment s" "fst (step5 R C s) = Step3"
  by (simp_all add: step5_def Let_def)

lemma step5_potentials:
  assumes pot: "potentials R C cost s" and cov: "cover_inv R C s" and pos: "0 < smallest_uncovered R C s"
  shows "potentials R C cost (snd (step5 R C s))"
proof -
  let ?h = "smallest_uncovered R C s"
  obtain u v where uv: "\<forall>r < R. \<forall>c < C. dist_matrix s r c = cost r c - u r - v c"
    "R \<le> C \<longrightarrow> (\<exists>V. \<forall>c < C. v c \<le> V \<and> (c \<notin> matched_cols (star_matrix s) \<longrightarrow> v c = V))"
    "C < R \<longrightarrow> (\<exists>U. \<forall>r < R. u r \<le> U \<and> (r \<notin> matched_rows (star_matrix s) \<longrightarrow> u r = U))"
    using pot unfolding potentials_def by blast
  let ?u = "\<lambda>r. if covered_rows s r then u r - ?h else u r"
  let ?v = "\<lambda>c. if covered_cols s c then v c else v c + ?h"
  have "R \<le> C \<longrightarrow> (\<exists>V. \<forall>c < C. ?v c \<le> V \<and> (c \<notin> matched_cols (star_matrix s) \<longrightarrow> ?v c = V))"
  proof
    assume "R \<le> C"
    then obtain V where "\<forall>c < C. v c \<le> V \<and> (c \<notin> matched_cols (star_matrix s) \<longrightarrow> v c = V)" using uv(2) by blast
    then have "\<forall>c < C. ?v c \<le> V + ?h \<and> (c \<notin> matched_cols (star_matrix s) \<longrightarrow> ?v c = V + ?h)"
      using pos cover_inv_facts(1) [OF cov] by (auto intro: add_increasing2 less_imp_le)
    then show "\<exists>V. \<forall>c < C. ?v c \<le> V \<and> (c \<notin> matched_cols (star_matrix s) \<longrightarrow> ?v c = V)" by blast
  qed
  moreover have "C < R \<longrightarrow> (\<exists>U. \<forall>r < R. ?u r \<le> U \<and> (r \<notin> matched_rows (star_matrix s) \<longrightarrow> ?u r = U))"
    using uv(3) pos cover_inv_facts(2) [OF cov] by (smt (verit, best))
  moreover have "\<forall>r < R. \<forall>c < C. dist_matrix (snd (step5 R C s)) r c = cost r c - ?u r - ?v c"
    using uv(1) by (simp add: step5_dist)
  ultimately show ?thesis unfolding potentials_def step5_same by (intro exI [of _ ?u] exI [of _ ?v]) simp
qed

lemma step5_inv:
  assumes base: "base_inv R C cost s" and cov: "cover_inv R C s"
    and few: "card (matched_cols (star_matrix s)) < min R C" and none: "\<not> open_zero R C s"
  defines "s' \<equiv> snd (step5 R C s)"
  shows "base_inv R C cost s'" and "cover_inv R C s'" and "open_zero R C s'" and "open_rows R s' = open_rows R s"
    and "star_matrix s' = star_matrix s"
proof -
  let ?h = "smallest_uncovered R C s"
  note h = smallest_uncovered_facts [OF base cov few none]
  have free: "\<not> covered_rows s r" if "r \<notin> matched_rows (star_matrix s)" for r
    using that cover_inv_facts(2) [OF cov] by blast
  have freec: "\<not> covered_cols s c" if "c \<notin> matched_cols (star_matrix s)" for c
    using that cover_inv_facts(1) [OF cov] by blast
  have star: "dist_matrix s' r c = dist_matrix s r c" if "star_matrix s r c" for r c
    using cover_inv_facts(3) [OF cov that] by (simp add: s'_def step5_dist)
  have prime: "dist_matrix s' r c = dist_matrix s r c" if "prime_matrix s r c" for r c
    using cover_inv_facts(4) [OF cov that] by (simp add: s'_def step5_dist)
  have "0 \<le> dist_matrix s' r c" if "r < R" "c < C" for r c
    using that h(1) h(2) [OF that] base by (auto simp: s'_def step5_dist base_inv_def)
  moreover have "dist_matrix s' r c < DBL_MAX"
    if "r < R" "c < C" "r \<notin> matched_rows (star_matrix s)" "c \<notin> matched_cols (star_matrix s)" for r c
  proof -
    have "dist_matrix s r c < DBL_MAX" using that base by (simp add: base_inv_def)
    then show ?thesis using that free [of r] freec [of c] h(1) by (simp add: s'_def step5_dist)
  qed
  moreover have "potentials R C cost s'" unfolding s'_def
    by (rule step5_potentials [OF _ cov h(1)]) (use base in \<open>simp add: base_inv_def\<close>)
  ultimately show "base_inv R C cost s'"
    using base star unfolding base_inv_def by (simp add: s'_def step5_same)
  show "cover_inv R C s'"
    using cov prime unfolding cover_inv_def by (simp add: s'_def step5_same)
  obtain r c where "r < R" "c < C" "\<not> covered_rows s r" "\<not> covered_cols s c" "dist_matrix s r c = ?h"
    using h(3) by blast
  then show "open_zero R C s'"
    unfolding open_zero_def is_zero_def s'_def step5_same step5_dist using DBL_EPSILON_pos
    by (intro exI [of _ r] conjI exI [of _ c]) auto
  show "open_rows R s' = open_rows R s" by (simp add: s'_def open_rows_def step5_same)
  show "star_matrix s' = star_matrix s" by (simp add: s'_def step5_same)
qed

subsection \<open>Step 4: the alternating path\<close>

text \<open>
  The new stars \<open>N\<close> while the path is at column \<open>c\<close>, for the old stars \<open>st\<close>.  Every row has at most
  one new star, every column but \<open>c\<close> too; in column \<open>c\<close> there is one new star besides the old one.  Rows
  of a rank up to that of the old star of \<open>c\<close> are untouched, and the other columns with a new star
  had an old one in a row of a higher rank.
\<close>

definition path_inv :: "nat \<Rightarrow> nat \<Rightarrow> hungarian \<Rightarrow> (nat \<Rightarrow> nat) \<Rightarrow> nat \<Rightarrow> (nat \<Rightarrow> nat \<Rightarrow> bool) \<Rightarrow> nat \<Rightarrow> bool" where
  "path_inv R C s rank row N c = (
     (\<forall>r x. N r x \<longrightarrow> r < R \<and> x < C \<and> dist_matrix s r x < DBL_EPSILON)
     \<and> (\<forall>r x x'. N r x \<and> N r x' \<longrightarrow> x = x')
     \<and> (\<forall>r r' x. x \<noteq> c \<and> N r x \<and> N r' x \<longrightarrow> r = r')
     \<and> (\<exists>p. N p c \<and> \<not> star_matrix s p c \<and> (\<forall>r. N r c \<longrightarrow> r = p \<or> star_matrix s r c))
     \<and> (\<forall>r. (\<exists>x. N r x) \<longleftrightarrow> r = row \<or> r \<in> matched_rows (star_matrix s))
     \<and> matched_cols (star_matrix s) \<subseteq> matched_cols N
     \<and> (\<forall>a r x. star_matrix s a c \<and> star_matrix s r x \<and> rank r \<le> rank a \<longrightarrow> N r x)
     \<and> (\<forall>a r x. star_matrix s a c \<and> N r x \<and> \<not> star_matrix s r x \<and> x \<noteq> c \<longrightarrow>
          (\<exists>b. star_matrix s b x \<and> rank a < rank b))
     \<and> c < C \<and> \<not> covered_cols s c)"

lemma path_inv_cong:
  "star_matrix s' = star_matrix s \<Longrightarrow> dist_matrix s' = dist_matrix s \<Longrightarrow> covered_cols s' = covered_cols s \<Longrightarrow>
     path_inv R C s' rank row N c = path_inv R C s rank row N c"
  by (simp only: path_inv_def)

lemma path_inv_facts:
  assumes "path_inv R C s rank row N c"
  shows "N r x \<Longrightarrow> r < R \<and> x < C \<and> dist_matrix s r x < DBL_EPSILON"
    and "N r x \<Longrightarrow> N r x' \<Longrightarrow> x = x'"
    and "x \<noteq> c \<Longrightarrow> N r x \<Longrightarrow> N r' x \<Longrightarrow> r = r'"
    and "\<exists>p. N p c \<and> \<not> star_matrix s p c \<and> (\<forall>r. N r c \<longrightarrow> r = p \<or> star_matrix s r c)"
    and "(\<exists>x. N r x) \<longleftrightarrow> r = row \<or> r \<in> matched_rows (star_matrix s)"
    and "matched_cols (star_matrix s) \<subseteq> matched_cols N"
    and "star_matrix s a c \<Longrightarrow> star_matrix s r x \<Longrightarrow> rank r \<le> rank a \<Longrightarrow> N r x"
    and "star_matrix s a c \<Longrightarrow> N r x \<Longrightarrow> \<not> star_matrix s r x \<Longrightarrow> x \<noteq> c \<Longrightarrow> \<exists>b. star_matrix s b x \<and> rank a < rank b"
    and "c < C" "\<not> covered_cols s c"
  using assms unfolding path_inv_def by blast+

lemma path_inv_step:
  assumes m: "matching R C (star_matrix s)" and inv: "path_inv R C s rank row N c"
    and star: "star_matrix s a c" and prime: "prime_matrix s a c'"
    and rank: "\<And>r r' c. prime_matrix s r c \<Longrightarrow> star_matrix s r' c \<Longrightarrow> rank r' < rank r"
    and pr: "\<And>r c. prime_matrix s r c \<Longrightarrow> r \<noteq> row \<Longrightarrow> r < R \<and> c < C \<and> \<not> covered_cols s c
               \<and> dist_matrix s r c < DBL_EPSILON \<and> \<not> star_matrix s r c"
    and row: "row \<notin> matched_rows (star_matrix s)"
  shows "path_inv R C s rank row (set_cell a c' True (set_cell a c False N)) c'"
proof -
  let ?N = "set_cell a c' True (set_cell a c False N)"
  note f = path_inv_facts [OF inv]
  have a: "a \<noteq> row" using star row by (auto simp: matched_rows_def)
  note p = pr [OF prime a]
  have Nac: "N a c" using f(7) [OF star star] by simp
  have cc: "c' \<noteq> c" using p star by auto
  obtain q where q: "N q c" "\<not> star_matrix s q c" "\<And>r. N r c \<Longrightarrow> r = q \<or> star_matrix s r c" using f(4) by blast
  have qa: "q \<noteq> a" using q(2) star by auto
  have Na: "N a x \<longleftrightarrow> x = c" for x using f(2) [OF Nac] Nac by blast
  have N': "?N r x \<longleftrightarrow> (if r = a then x = c' else N r x)" for r x using cc Na by auto
  have old: "star_matrix s r c'" if n: "N r c'" for r
  proof (rule ccontr)
    assume "\<not> star_matrix s r c'"
    then obtain b where "star_matrix s b c'" "rank a < rank b" using f(8) [OF star n _ cc] by blast
    then show False using rank [OF prime] by fastforce
  qed
  show ?thesis unfolding path_inv_def
  proof (intro conjI allI impI)
    fix r x assume "?N r x"
    then have "r < R \<and> x < C \<and> dist_matrix s r x < DBL_EPSILON"
      using N' [of r x] f(1) [of r x] p by (cases "r = a") auto
    then show "r < R" "x < C" "dist_matrix s r x < DBL_EPSILON" by auto
  next
    show "x = x'" if "?N r x \<and> ?N r x'" for r x x'
      using that f(2) unfolding N' by (cases "r = a") auto
    show "r = r'" if "x \<noteq> c' \<and> ?N r x \<and> ?N r' x" for r r' x
    proof -
      have nr: "N r x" "N r' x" "r \<noteq> a" "r' \<noteq> a" using that unfolding N' by (auto split: if_splits)
      show ?thesis
      proof (cases "x = c")
        case True
        then show ?thesis using nr q(3) matching_col [OF m star] by metis
      qed (use nr f(3) in blast)
    qed
    show "\<exists>p. ?N p c' \<and> \<not> star_matrix s p c' \<and> (\<forall>r. ?N r c' \<longrightarrow> r = p \<or> star_matrix s r c')"
      using p old unfolding N' by (intro exI [of _ a]) auto
    show "(\<exists>x. ?N r x) \<longleftrightarrow> r = row \<or> r \<in> matched_rows (star_matrix s)" for r
      using f(5) [of r] star unfolding N' by (cases "r = a") (auto simp: matched_rows_def)
    show "matched_cols (star_matrix s) \<subseteq> matched_cols ?N"
    proof
      fix x assume "x \<in> matched_cols (star_matrix s)"
      then obtain r where r: "N r x" using f(6) by (auto simp: matched_cols_def)
      have "\<exists>r. ?N r x" unfolding N' using r q(1) qa Na by (metis (full_types))
      then show "x \<in> matched_cols ?N" by (simp add: matched_cols_def)
    qed
    show "?N r x" if "star_matrix s b c' \<and> star_matrix s r x \<and> rank r \<le> rank b" for b r x
    proof -
      have lt: "rank b < rank a" using rank [OF prime] that by blast
      then have "N r x" using f(7) [OF star] that by auto
      moreover have "r \<noteq> a" using lt that by auto
      ultimately show ?thesis unfolding N' by simp
    qed
    show "\<exists>b'. star_matrix s b' x \<and> rank b < rank b'"
      if new: "star_matrix s b c' \<and> ?N r x \<and> \<not> star_matrix s r x \<and> x \<noteq> c'" for b r x
    proof -
      have lt: "rank b < rank a" using rank [OF prime] new by blast
      have nr: "N r x" using new unfolding N' by (auto split: if_splits)
      show ?thesis
      proof (cases "x = c")
        case True
        then show ?thesis using star lt by blast
      next
        case False
        then obtain b' where "star_matrix s b' x" "rank a < rank b'" using f(8) [OF star nr] new by blast
        then show ?thesis using lt less_trans by blast
      qed
    qed
    show "c' < C" "\<not> covered_cols s c'" using p by auto
  qed
qed

lemma step4_path_result:
  assumes m: "matching R C (star_matrix s)" and inv: "path_inv R C s rank row (new_star_matrix s) c"
    and rank: "\<And>r r' c. prime_matrix s r c \<Longrightarrow> star_matrix s r' c \<Longrightarrow> rank r' < rank r"
    and pr: "\<And>r c. prime_matrix s r c \<Longrightarrow> r \<noteq> row \<Longrightarrow> r < R \<and> c < C \<and> \<not> covered_cols s c
               \<and> dist_matrix s r c < DBL_EPSILON \<and> \<not> star_matrix s r c"
    and next_prime: "\<And>a c. star_matrix s a c \<Longrightarrow> \<not> covered_cols s c \<Longrightarrow>
               \<exists>c'. prime_matrix s a c' \<and> (\<forall>x. prime_matrix s a x \<longrightarrow> x = c')"
    and row: "row \<notin> matched_rows (star_matrix s)"
    and fuel: "\<And>a. star_matrix s a c \<Longrightarrow> rank a < fuel"
  shows "\<exists>N c'. step4_path R C fuel s (first_below (\<lambda>r. star_matrix s r c) R) c = Some N
           \<and> path_inv R C s rank row N c' \<and> c' \<notin> matched_cols (star_matrix s)"
  using assms
proof (induction fuel arbitrary: s c)
  case (0 s c)
  then have "\<not> star_matrix s a c" for a by blast
  moreover from this have "first_below (\<lambda>r. star_matrix s r c) R = R" by (simp add: first_below_none)
  ultimately show ?case using 0(2) by (auto simp: step4_path.simps matched_cols_def)
next
  case (Suc fuel s c)
  show ?case
  proof (cases "\<exists>a. star_matrix s a c")
    case False
    then have "first_below (\<lambda>r. star_matrix s r c) R = R" by (simp add: first_below_none)
    then show ?thesis using Suc.prems(2) False by (auto simp: step4_path.simps matched_cols_def)
  next
    case True
    then obtain a where a: "star_matrix s a c" by blast
    have aR: "a < R" using matching_range [OF Suc.prems(1) a] by simp
    have "j = a" if "star_matrix s j c" for j by (rule matching_col [OF Suc.prems(1) that a])
    then have fa: "first_below (\<lambda>r. star_matrix s r c) R = a"
      by (intro first_below_unique [of "\<lambda>r. star_matrix s r c"] a aR)
    obtain c' where c': "prime_matrix s a c'" "\<And>x. prime_matrix s a x \<Longrightarrow> x = c'"
      using Suc.prems(5) [OF a path_inv_facts(10) [OF Suc.prems(2)]] by blast
    have "a \<noteq> row" using a Suc.prems(6) by (auto simp: matched_rows_def)
    note p = Suc.prems(4) [OF c'(1) this]
    have fp: "first_below (prime_matrix s a) C = c'"
      by (rule first_below_unique [of "prime_matrix s a", OF c'(1) _ c'(2)]) (use p in simp_all)
    let ?N = "set_cell a c' True (set_cell a c False (new_star_matrix s))"
    let ?s = "s\<lparr>new_star_matrix := ?N\<rparr>"
    have "path_inv R C s rank row ?N c'"
      by (rule path_inv_step [OF Suc.prems(1,2) a c'(1) Suc.prems(3,4,6)])
    then have inv': "path_inv R C ?s rank row (new_star_matrix ?s) c'"
      using path_inv_cong [of ?s s] by simp
    have "rank b < fuel" if "star_matrix ?s b c'" for b
      using that Suc.prems(3) [OF c'(1), of b] Suc.prems(7) [OF a] by simp
    then have "\<exists>N d. step4_path R C fuel ?s (first_below (\<lambda>r. star_matrix ?s r c') R) c' = Some N
        \<and> path_inv R C ?s rank row N d \<and> d \<notin> matched_cols (star_matrix ?s)"
      using Suc.prems by (intro Suc.IH inv') simp_all
    then show ?thesis using aR unfolding fa
      by (subst step4_path.simps) (simp add: fp Let_def path_inv_cong [of ?s s])
  qed
qed

lemma path_end_matching:
  assumes m: "matching R C (star_matrix s)" and inv: "path_inv R C s rank row N c"
    and free: "c \<notin> matched_cols (star_matrix s)" and row: "row \<notin> matched_rows (star_matrix s)"
  shows "matching R C N" and "\<And>r x. N r x \<Longrightarrow> dist_matrix s r x < DBL_EPSILON"
    and "matched_rows N = insert row (matched_rows (star_matrix s))"
    and "matched_cols (star_matrix s) \<subseteq> matched_cols N"
    and "card (matched_cols N) = Suc (card (matched_cols (star_matrix s)))"
proof -
  note f = path_inv_facts [OF inv]
  have "r = r'" if "N r x" "N r' x" for r r' x
  proof (cases "x = c")
    case True
    obtain p where "\<And>r. N r c \<Longrightarrow> r = p" using f(4) free by (auto simp: matched_cols_def)
    then show ?thesis using that True by metis
  qed (use that f(3) in blast)
  then show mN: "matching R C N" unfolding matching_def using f(1,2) by blast
  show "\<And>r x. N r x \<Longrightarrow> dist_matrix s r x < DBL_EPSILON" using f(1) by blast
  show rows: "matched_rows N = insert row (matched_rows (star_matrix s))"
    using f(5) by (auto simp: matched_rows_def)
  show "matched_cols (star_matrix s) \<subseteq> matched_cols N" by (rule f(6))
  show "card (matched_cols N) = Suc (card (matched_cols (star_matrix s)))"
    using card_matched [OF mN] card_matched [OF m] rows row matched_subset(3) [OF m] by simp
qed

lemma path_inv_start:
  assumes m: "matching R C (star_matrix s)" and rc: "row < R" "col < C" "\<not> covered_cols s col"
    and zero: "dist_matrix s row col < DBL_EPSILON" and stars: "\<And>r c. star_matrix s r c \<Longrightarrow> dist_matrix s r c < DBL_EPSILON"
    and row: "row \<notin> matched_rows (star_matrix s)"
  shows "path_inv R C s rank row (set_cell row col True (star_matrix s)) col"
  unfolding path_inv_def
proof (intro conjI allI impI)
  let ?N = "set_cell row col True (star_matrix s)"
  have norow: "\<not> star_matrix s row x" for x using row by (auto simp: matched_rows_def)
  fix r x assume "?N r x"
  then show "r < R" "x < C" "dist_matrix s r x < DBL_EPSILON"
    using rc zero stars matching_range [OF m] by (auto split: if_splits)
next
  let ?N = "set_cell row col True (star_matrix s)"
  have norow: "\<not> star_matrix s row x" for x using row by (auto simp: matched_rows_def)
  show "x = x'" if "?N r x \<and> ?N r x'" for r x x'
    using that norow matching_row [OF m] by (auto split: if_splits)
  show "r = r'" if "x \<noteq> col \<and> ?N r x \<and> ?N r' x" for r r' x
    using that matching_col [OF m] by (auto split: if_splits)
  show "\<exists>p. ?N p col \<and> \<not> star_matrix s p col \<and> (\<forall>r. ?N r col \<longrightarrow> r = p \<or> star_matrix s r col)"
    using norow by (intro exI [of _ row]) auto
  show "(\<exists>x. ?N r x) \<longleftrightarrow> r = row \<or> r \<in> matched_rows (star_matrix s)" for r
    by (auto simp: matched_rows_def)
  show "matched_cols (star_matrix s) \<subseteq> matched_cols ?N" by (auto simp: matched_cols_def)
  show "?N r x" if "star_matrix s a col \<and> star_matrix s r x \<and> rank r \<le> rank a" for a r x
    using that by simp
  show "\<exists>b. star_matrix s b x \<and> rank a < rank b"
    if "star_matrix s a col \<and> ?N r x \<and> \<not> star_matrix s r x \<and> x \<noteq> col" for a r x
    using that by (auto split: if_splits)
qed (use rc in auto)

lemma potentials_more_stars:
  assumes "potentials R C cost s" and "matched_cols (star_matrix s) \<subseteq> matched_cols (star_matrix s')"
    and "matched_rows (star_matrix s) \<subseteq> matched_rows (star_matrix s')" and "dist_matrix s' = dist_matrix s"
  shows "potentials R C cost s'"
proof -
  obtain u v where uv: "\<forall>r < R. \<forall>c < C. dist_matrix s r c = cost r c - u r - v c"
    "R \<le> C \<longrightarrow> (\<exists>V. \<forall>c < C. v c \<le> V \<and> (c \<notin> matched_cols (star_matrix s) \<longrightarrow> v c = V))"
    "C < R \<longrightarrow> (\<exists>U. \<forall>r < R. u r \<le> U \<and> (r \<notin> matched_rows (star_matrix s) \<longrightarrow> u r = U))"
    using assms(1) unfolding potentials_def by blast
  have "R \<le> C \<longrightarrow> (\<exists>V. \<forall>c < C. v c \<le> V \<and> (c \<notin> matched_cols (star_matrix s') \<longrightarrow> v c = V))"
    using uv(2) assms(2) by blast
  moreover have "C < R \<longrightarrow> (\<exists>U. \<forall>r < R. u r \<le> U \<and> (r \<notin> matched_rows (star_matrix s') \<longrightarrow> u r = U))"
    using uv(3) assms(3) by blast
  ultimately show ?thesis unfolding potentials_def assms(4) using uv(1) by blast
qed

lemma step4_inv:
  assumes base: "base_inv R C cost s" and ex: "exit_inv R C row col s"
  obtains s' where "step4 R C row col s = Some (Step2a, s')" and "base_inv R C cost s'" and "clear_covers s'"
    and "\<And>c. covered_cols s' c \<Longrightarrow> c \<in> matched_cols (star_matrix s')"
    and "card (matched_cols (star_matrix s')) = Suc (card (matched_cols (star_matrix s)))"
proof -
  obtain s0 where cov: "cover_inv R C s0" and s: "s = s0\<lparr>prime_matrix := set_cell row col True (prime_matrix s0)\<rparr>"
    and rc: "row < R" "col < C" and row: "row \<notin> matched_rows (star_matrix s0)" and col: "\<not> covered_cols s0 col"
    and zero: "dist_matrix s0 row col < DBL_EPSILON"
    using ex unfolding exit_inv_def by blast
  have base0: "base_inv R C cost s0" using base by (simp add: s)
  have m: "matching R C (star_matrix s0)" using base0 by (simp add: base_inv_def)
  have norow: "\<not> covered_rows s0 row" using row cover_inv_facts(2) [OF cov] by blast
  obtain rank where rank: "\<And>r r' c. prime_matrix s0 r c \<Longrightarrow> star_matrix s0 r' c \<Longrightarrow> rank r' < (rank r :: nat)"
    "\<And>r. covered_rows s0 r \<Longrightarrow> rank r < card {r. covered_rows s0 r}"
    using cov unfolding cover_inv_def by blast
  have few: "card {r. covered_rows s0 r} \<le> R"
    using card_mono [OF _ finite_covered_rows(1) [OF base0 cov]] by simp
  have low: "rank a < R" if "star_matrix s0 a c" "\<not> covered_cols s0 c" for a c
    using that cover_inv_facts(3) [OF cov] rank(2) few by (metis order_less_le_trans)
  define rank' where "rank' = rank(row := R)"
  let ?s = "s\<lparr>new_star_matrix := set_cell row col True (star_matrix s)\<rparr>"
  have star_row: "r \<noteq> row" if "star_matrix s0 r c" for r c using that row by (auto simp: matched_rows_def)
  have prime0: "r \<noteq> row \<and> prime_matrix s0 r c \<or> r = row \<and> c = col" if "prime_matrix s r c" for r c
    using that cover_inv_facts(4) [OF cov] norow by (auto simp: s split: if_splits)
  have "\<exists>N c'. step4_path R C R ?s (first_below (\<lambda>r. star_matrix ?s r col) R) col = Some N
           \<and> path_inv R C ?s rank' row N c' \<and> c' \<notin> matched_cols (star_matrix ?s)"
  proof (rule step4_path_result)
    show "matching R C (star_matrix ?s)" using m by (simp add: s)
    have "path_inv R C s0 rank' row (set_cell row col True (star_matrix s0)) col"
      by (rule path_inv_start [OF m rc col zero _ row]) (use base0 in \<open>simp add: base_inv_def\<close>)
    then show "path_inv R C ?s rank' row (new_star_matrix ?s) col"
      using path_inv_cong [of ?s s0] by (simp add: s)
    show "rank' r' < rank' r" if "prime_matrix ?s r c" "star_matrix ?s r' c" for r r' c
    proof -
      have st: "star_matrix s0 r' c" using that(2) by (simp add: s)
      have "r \<noteq> row \<and> prime_matrix s0 r c \<or> r = row \<and> c = col" using prime0 that(1) by simp
      then show ?thesis using rank(1) st star_row [OF st] low [OF st] col by (auto simp: rank'_def)
    qed
    show "r < R \<and> c < C \<and> \<not> covered_cols ?s c \<and> dist_matrix ?s r c < DBL_EPSILON \<and> \<not> star_matrix ?s r c"
      if "prime_matrix ?s r c" "r \<noteq> row" for r c
      using prime0 [of r c] that cover_inv_facts(4) [OF cov, of r c] by (simp add: s)
    show "\<exists>c'. prime_matrix ?s a c' \<and> (\<forall>x. prime_matrix ?s a x \<longrightarrow> x = c')"
      if "star_matrix ?s a c" "\<not> covered_cols ?s c" for a c
    proof -
      have st: "star_matrix s0 a c" and "\<not> covered_cols s0 c" using that by (simp_all add: s)
      then have "covered_rows s0 a" using cover_inv_facts(3) [OF cov] by blast
      then obtain c' where "prime_matrix s0 a c'" using cover_inv_facts(5) [OF cov] by blast
      then show ?thesis using cover_inv_facts(6) [OF cov] star_row [OF st] by (auto simp: s)
    qed
    show "row \<notin> matched_rows (star_matrix ?s)" using row by (simp add: s)
    show "rank' a < R" if "star_matrix ?s a col" for a
    proof -
      have st: "star_matrix s0 a col" using that by (simp add: s)
      then show ?thesis using low [OF st col] star_row [OF st] by (simp add: rank'_def)
    qed
  qed
  then obtain N c' where path: "step4_path R C R ?s (first_below (\<lambda>r. star_matrix s0 r col) R) col = Some N"
    "path_inv R C ?s rank' row N c'" "c' \<notin> matched_cols (star_matrix s0)" by (auto simp: s)
  have mm: "matching R C (star_matrix ?s)" "c' \<notin> matched_cols (star_matrix ?s)" "row \<notin> matched_rows (star_matrix ?s)"
    using m path(3) row by (simp_all add: s)
  note N = path_end_matching [OF mm(1) path(2) mm(2,3)]
  define s' where "s' = ?s\<lparr>new_star_matrix := N, prime_matrix := (\<lambda>_ _. False), star_matrix := N, covered_rows := (\<lambda>_. False)\<rparr>"
  have same: "star_matrix s' = N" "dist_matrix s' = dist_matrix s0" "assignment s' = assignment s0"
    "covered_cols s' = covered_cols s0" by (simp_all add: s'_def s)
  have cols: "matched_cols (star_matrix s0) \<subseteq> matched_cols N" and rows: "matched_rows (star_matrix s0) \<subseteq> matched_rows N"
    using N(3,4) by (auto simp: s)
  have "potentials R C cost s0" using base0 by (simp add: base_inv_def)
  then have pot: "potentials R C cost s'"
    by (rule potentials_more_stars) (use cols rows in \<open>simp_all add: same\<close>)
  have big: "dist_matrix s0 r c < DBL_MAX" if "r < R" "c < C" "r \<notin> matched_rows N" "c \<notin> matched_cols N" for r c
    using that base0 cols rows unfolding base_inv_def by blast
  have "base_inv R C cost s'" unfolding base_inv_def same
    using base0 pot N(1,2) big by (simp add: base_inv_def s)
  moreover have "step4 R C row col s = Some (Step2a, s')"
    using path(1) by (simp add: step4_def Let_def s'_def s)
  moreover have "clear_covers s'" by (simp add: clear_covers_def s'_def)
  moreover have "\<And>c. covered_cols s' c \<Longrightarrow> c \<in> matched_cols (star_matrix s')"
    using cover_inv_facts(1) [OF cov] cols by (auto simp: same)
  moreover have "card (matched_cols (star_matrix s')) = Suc (card (matched_cols (star_matrix s)))"
    using N(5) by (simp add: same s)
  ultimately show ?thesis using that by blast
qed

subsection \<open>The machine\<close>

text \<open>The invariant of each phase.\<close>

fun phase_inv :: "nat \<Rightarrow> nat \<Rightarrow> (nat \<Rightarrow> nat \<Rightarrow> real) \<Rightarrow> phase \<times> hungarian \<Rightarrow> bool" where
  "phase_inv R C cost (Step2a, s) = (base_inv R C cost s \<and> clear_covers s
     \<and> (\<forall>c. covered_cols s c \<longrightarrow> c \<in> matched_cols (star_matrix s)))"
| "phase_inv R C cost (Step2b, s) = (base_inv R C cost s \<and> clear_covers s
     \<and> (\<forall>c. covered_cols s c \<longleftrightarrow> c \<in> matched_cols (star_matrix s)))"
| "phase_inv R C cost (Step3, s) = (base_inv R C cost s \<and> cover_inv R C s
     \<and> card (matched_cols (star_matrix s)) < min R C)"
| "phase_inv R C cost (Step4 row col, s) = (base_inv R C cost s \<and> exit_inv R C row col s
     \<and> card (matched_cols (star_matrix s)) < min R C)"
| "phase_inv R C cost (Step5, s) = (base_inv R C cost s \<and> cover_inv R C s
     \<and> card (matched_cols (star_matrix s)) < min R C \<and> \<not> open_zero R C s)"
| "phase_inv R C cost (Finished, s) = (\<exists>s0. base_inv R C cost s0
     \<and> card (matched_cols (star_matrix s0)) = min R C \<and> s = BuildAssignmentVector R C s0)"

fun phase_rank :: "nat \<Rightarrow> nat \<Rightarrow> phase \<times> hungarian \<Rightarrow> nat" where
  "phase_rank R C (Step2a, s) = 5"
| "phase_rank R C (Step2b, s) = 4"
| "phase_rank R C (Step3, s) = (if open_zero R C s then 1 else 3)"
| "phase_rank R C (Step5, s) = 2"
| "phase_rank R C (_, s) = 0"

text \<open>Missing stars first, then uncovered rows, then the phase.\<close>

definition progress :: "nat \<Rightarrow> nat \<Rightarrow> phase \<times> hungarian \<Rightarrow> nat" where
  "progress R C x = (min R C - card (matched_cols (star_matrix (snd x)))) * (3 * R + 6)
     + 3 * open_rows R (snd x) + phase_rank R C x"

lemma open_rows_le: "open_rows R s \<le> R"
  unfolding open_rows_def using card_mono [of "{..<R}" "{r. r < R \<and> \<not> covered_rows s r}"] by auto

lemma covered_count:
  assumes "matching R C (star_matrix s)" "\<And>c. covered_cols s c \<longleftrightarrow> c \<in> matched_cols (star_matrix s)"
  shows "length (filter (covered_cols s) [0..<C]) = card (matched_cols (star_matrix s))"
proof -
  have "length (filter (covered_cols s) [0..<C]) = card (set (filter (covered_cols s) [0..<C]))"
    by (subst distinct_card) simp_all
  also have "set (filter (covered_cols s) [0..<C]) = matched_cols (star_matrix s)"
    using assms(2) matched_subset(2) [OF assms(1)] by auto
  finally show ?thesis .
qed

lemma clear_covers_cover_inv:
  assumes "clear_covers s" "\<And>c. covered_cols s c \<longleftrightarrow> c \<in> matched_cols (star_matrix s)"
  shows "cover_inv R C s"
  using assms by (auto simp: cover_inv_def clear_covers_def matched_cols_def)

lemma next_step_progress:
  assumes inv: "phase_inv R C cost x" and run: "fst x \<noteq> Finished"
  shows "\<exists>y. next_step R C (min R C) x = Some y \<and> phase_inv R C cost y
           \<and> (fst y = Finished \<or> progress R C y < progress R C x)"
proof -
  obtain ph s where x: "x = (ph, s)" by fastforce
  show ?thesis
  proof (cases ph)
    case Step2a
    have m: "matching R C (star_matrix s)" using inv by (simp add: x Step2a base_inv_def)
    let ?s = "snd (step2a R C s)"
    have "covered_cols ?s c \<longleftrightarrow> c \<in> matched_cols (star_matrix s)" for c
      using inv matching_range [OF m] by (auto simp: x Step2a step2a_def matched_cols_def)
    then show ?thesis using inv
      by (auto simp: x Step2a step2a_def clear_covers_def progress_def open_rows_def)
  next
    case Step2b
    have m: "matching R C (star_matrix s)" using inv by (simp add: x Step2b base_inv_def)
    have cov: "covered_cols s c \<longleftrightarrow> c \<in> matched_cols (star_matrix s)" for c using inv by (simp add: x Step2b)
    show ?thesis
    proof (cases "card (matched_cols (star_matrix s)) = min R C")
      case True
      then show ?thesis using inv covered_count [OF m cov]
        by (auto simp: x Step2b step2b_def)
    next
      case False
      then have "card (matched_cols (star_matrix s)) < min R C" using card_matched_le [OF m] by (metis le_neq_implies_less)
      then show ?thesis using False inv covered_count [OF m cov] clear_covers_cover_inv [OF _ cov, of R C]
        by (simp add: x Step2b step2b_def progress_def)
    qed
  next
    case Step3
    then have b: "base_inv R C cost s" "cover_inv R C s" "card (matched_cols (star_matrix s)) < min R C"
      using inv by (simp_all add: x)
    from step3_cases [OF b(1,2)]
    consider (exit) row col s' where "step3 R C s = (Step4 row col, s')" "base_inv R C cost s'" "exit_inv R C row col s'"
        "star_matrix s' = star_matrix s" "open_rows R s' \<le> open_rows R s"
      | (again) s' where "step3 R C s = (Step3, s')" "base_inv R C cost s'" "cover_inv R C s'"
        "star_matrix s' = star_matrix s" "open_rows R s' < open_rows R s"
      | (none) "step3 R C s = (Step5, s)" "\<not> open_zero R C s" by blast
    then show ?thesis
    proof cases
      case (exit row col s')
      then show ?thesis using b by (auto simp: x Step3 progress_def)
    next
      case (again s')
      then show ?thesis using b by (auto simp: x Step3 progress_def)
    next
      case none
      then show ?thesis using b by (auto simp: x Step3 progress_def)
    qed
  next
    case (Step4 row col)
    then have b: "base_inv R C cost s" "exit_inv R C row col s" "card (matched_cols (star_matrix s)) < min R C"
      using inv by (simp_all add: x)
    obtain s' where s': "step4 R C row col s = Some (Step2a, s')" "base_inv R C cost s'" "clear_covers s'"
      "\<And>c. covered_cols s' c \<Longrightarrow> c \<in> matched_cols (star_matrix s')"
      "card (matched_cols (star_matrix s')) = Suc (card (matched_cols (star_matrix s)))"
      using step4_inv [OF b(1,2)] by metis
    have "min R C - card (matched_cols (star_matrix s)) = Suc (min R C - card (matched_cols (star_matrix s')))"
      using b(3) s'(5) by (simp only: Suc_diff_Suc)
    then have "progress R C (Step2a, s') < progress R C x"
      using open_rows_le [of R s'] by (simp add: x Step4 progress_def)
    then show ?thesis using s' by (auto simp: x Step4)
  next
    case Step5
    then have b: "base_inv R C cost s" "cover_inv R C s" "card (matched_cols (star_matrix s)) < min R C"
      "\<not> open_zero R C s" using inv by (simp_all add: x)
    note s' = step5_inv [OF b]
    obtain s1 where s1: "step5 R C s = (Step3, s1)" by (simp add: step5_def Let_def)
    then show ?thesis using b(3) s' by (auto simp: x Step5 progress_def)
  qed (use run in \<open>simp add: x\<close>)
qed

lemma run_steps_finishes:
  assumes "phase_inv R C cost x" and "fst x \<noteq> Finished" and "progress R C x < fuel"
  shows "\<exists>s0. run_steps fuel R C (min R C) x = Some (BuildAssignmentVector R C s0)
           \<and> base_inv R C cost s0 \<and> card (matched_cols (star_matrix s0)) = min R C"
  using assms
proof (induction fuel arbitrary: x)
  case (Suc fuel)
  obtain y where y: "next_step R C (min R C) x = Some y" "phase_inv R C cost y"
    "fst y = Finished \<or> progress R C y < progress R C x"
    using next_step_progress [OF Suc.prems(1,2)] by blast
  have run: "run_steps (Suc fuel) R C (min R C) x = run_steps fuel R C (min R C) y"
    using Suc.prems(2) y(1) by (cases x) (simp add: run_steps.simps [of "Suc fuel"])
  show ?case
  proof (cases "fst y = Finished")
    case True
    then obtain s where "y = (Finished, s)" by (cases y) auto
    then show ?thesis using y(2) unfolding run by (auto simp: run_steps.simps)
  next
    case False
    then show ?thesis unfolding run using Suc.IH [OF y(2)] y(3) Suc.prems(3) by simp
  qed
qed simp

subsection \<open>The preliminary steps\<close>

lemma subtract_row_min_apply:
  "subtract_row_min C row d r c = (if r = row then d r c - smallest (map (d row) [0..<C]) else d r c)"
  by (simp add: subtract_row_min_def Let_def)

lemma subtract_col_min_apply:
  "subtract_col_min R col d r c = (if c = col then d r c - smallest (map (\<lambda>r. d r col) [0..<R]) else d r c)"
  by (simp add: subtract_col_min_def Let_def)

lemma fold_subtract_row_min:
  "fold (subtract_row_min C) [0..<k] d r c =
     (if r < k then d r c - smallest (map (d r) [0..<C]) else d r c)"
proof (induction k arbitrary: r c)
  case (Suc k)
  define F where "F = fold (subtract_row_min C) [0..<k] d"
  have IH: "F r c = (if r < k then d r c - smallest (map (d r) [0..<C]) else d r c)" for r c
    unfolding F_def by (rule Suc)
  then have "F k = d k" by auto
  then have "subtract_row_min C k F r c = (if r < Suc k then d r c - smallest (map (d r) [0..<C]) else d r c)"
    by (simp add: subtract_row_min_apply IH less_Suc_eq)
  then show ?case by (simp add: F_def)
qed simp

lemma fold_subtract_col_min:
  "fold (subtract_col_min R) [0..<k] d r c =
     (if c < k then d r c - smallest (map (\<lambda>r. d r c) [0..<R]) else d r c)"
proof (induction k arbitrary: r c)
  case (Suc k)
  define F where "F = fold (subtract_col_min R) [0..<k] d"
  have IH: "F r c = (if c < k then d r c - smallest (map (\<lambda>r. d r c) [0..<R]) else d r c)" for r c
    unfolding F_def by (rule Suc)
  then have "(\<lambda>r. F r k) = (\<lambda>r. d r k)" by auto
  then have "subtract_col_min R k F r c = (if c < Suc k then d r c - smallest (map (\<lambda>r. d r c) [0..<R]) else d r c)"
    by (simp add: subtract_col_min_apply IH less_Suc_eq)
  then show ?case by (simp add: F_def)
qed simp

lemma smallest_facts:
  assumes "0 < n"
  shows "i < n \<Longrightarrow> smallest (map f [0..<n]) \<le> f i" and "(\<And>i. i < n \<Longrightarrow> 0 \<le> f i) \<Longrightarrow> 0 \<le> smallest (map f [0..<n])"
proof -
  have s: "smallest (map f [0..<n]) = Min (f ` {0..<n})" using assms by (simp add: smallest_Min)
  show "i < n \<Longrightarrow> smallest (map f [0..<n]) \<le> f i" unfolding s by (intro Min_le) auto
  show "(\<And>i. i < n \<Longrightarrow> 0 \<le> f i) \<Longrightarrow> 0 \<le> smallest (map f [0..<n])" unfolding s using assms by (intro Min.boundedI) auto
qed

text \<open>The greedy stars: a partial matching of zeros; covered lines are the matched ones.\<close>

definition greedy_inv :: "nat \<Rightarrow> nat \<Rightarrow> (nat \<Rightarrow> nat \<Rightarrow> real) \<Rightarrow> hungarian \<Rightarrow> bool" where
  "greedy_inv R C d s = (matching R C (star_matrix s) \<and> dist_matrix s = d \<and> assignment s = (\<lambda>_. -1)
     \<and> (\<forall>r c. star_matrix s r c \<longrightarrow> is_zero s r c) \<and> (\<forall>r c. \<not> prime_matrix s r c)
     \<and> (\<forall>c. covered_cols s c \<longleftrightarrow> c \<in> matched_cols (star_matrix s)))"

lemma matching_add:
  "matching R C st \<Longrightarrow> r < R \<Longrightarrow> c < C \<Longrightarrow> r \<notin> matched_rows st \<Longrightarrow> c \<notin> matched_cols st \<Longrightarrow>
     matching R C (set_cell r c True st)"
  unfolding matching_def matched_rows_def matched_cols_def set_cell_apply by (auto split: if_splits; blast)

lemma matched_add:
  "matched_rows (set_cell r c True st) = insert r (matched_rows st)"
  "matched_cols (set_cell r c True st) = insert c (matched_cols st)"
  by (auto simp: matched_rows_def matched_cols_def)

lemma star_in_row_inv:
  assumes inv: "greedy_inv R C d s" and r: "r < R" "r \<notin> matched_rows (star_matrix s)" and cr: "\<forall>r. \<not> covered_rows s r"
  shows "greedy_inv R C d (star_in_row C r s) \<and> (\<forall>i. \<not> covered_rows (star_in_row C r s) i)
    \<and> matched_rows (star_matrix (star_in_row C r s)) \<subseteq> insert r (matched_rows (star_matrix s))"
proof -
  let ?c = "first_below (\<lambda>c. is_zero s r c \<and> \<not> covered_cols s c) C"
  show ?thesis
  proof (cases "?c < C")
    case True
    then have z: "is_zero s r ?c" "\<not> covered_cols s ?c" using first_below_hit [OF True] by auto
    then have "?c \<notin> matched_cols (star_matrix s)" using inv by (simp add: greedy_inv_def)
    then have "matching R C (set_cell r ?c True (star_matrix s))"
      using inv matching_add True r by (simp add: greedy_inv_def)
    then show ?thesis using True inv z cr
      by (auto simp: star_in_row_def Let_def greedy_inv_def matched_add is_zero_def)
  qed (use inv cr in \<open>auto simp: star_in_row_def\<close>)
qed

lemma star_in_col_inv:
  assumes inv: "greedy_inv R C d s" and c: "c < C" "c \<notin> matched_cols (star_matrix s)"
    and cr: "\<forall>r. covered_rows s r \<longleftrightarrow> r \<in> matched_rows (star_matrix s)"
  shows "greedy_inv R C d (star_in_col R c s)
    \<and> (\<forall>r. covered_rows (star_in_col R c s) r \<longleftrightarrow> r \<in> matched_rows (star_matrix (star_in_col R c s)))
    \<and> matched_cols (star_matrix (star_in_col R c s)) \<subseteq> insert c (matched_cols (star_matrix s))"
proof -
  let ?r = "first_below (\<lambda>r. is_zero s r c \<and> \<not> covered_rows s r) R"
  show ?thesis
  proof (cases "?r < R")
    case True
    then have z: "is_zero s ?r c" "\<not> covered_rows s ?r" using first_below_hit [OF True] by auto
    then have "matching R C (set_cell ?r c True (star_matrix s))"
      using inv matching_add [of R C "star_matrix s" ?r c] True c cr by (simp add: greedy_inv_def)
    then show ?thesis using True inv z cr
      by (auto simp: star_in_col_def Let_def greedy_inv_def matched_add is_zero_def)
  qed (use inv cr in \<open>auto simp: star_in_col_def\<close>)
qed

lemma greedy_start: "greedy_inv R C d (clear_memory d)"
  by (auto simp: greedy_inv_def clear_memory_def matching_def matched_cols_def)

lemma greedy_rows:
  "k \<le> R \<Longrightarrow> greedy_inv R C d (fold (star_in_row C) [0..<k] (clear_memory d))
     \<and> (\<forall>r. \<not> covered_rows (fold (star_in_row C) [0..<k] (clear_memory d)) r)
     \<and> matched_rows (star_matrix (fold (star_in_row C) [0..<k] (clear_memory d))) \<subseteq> {..<k}"
proof (induction k)
  case 0
  show ?case using greedy_start by (auto simp: clear_memory_def matched_rows_def)
next
  case (Suc k)
  let ?s = "fold (star_in_row C) [0..<k] (clear_memory d)"
  have "k < R" "k \<notin> matched_rows (star_matrix ?s)" using Suc by auto
  then show ?case using Suc star_in_row_inv [of R C d ?s k] by (auto simp: less_Suc_eq)
qed

lemma greedy_cols:
  "k \<le> C \<Longrightarrow> greedy_inv R C d (fold (star_in_col R) [0..<k] (clear_memory d))
     \<and> (\<forall>r. covered_rows (fold (star_in_col R) [0..<k] (clear_memory d)) r
          \<longleftrightarrow> r \<in> matched_rows (star_matrix (fold (star_in_col R) [0..<k] (clear_memory d))))
     \<and> matched_cols (star_matrix (fold (star_in_col R) [0..<k] (clear_memory d))) \<subseteq> {..<k}"
proof (induction k)
  case 0
  show ?case using greedy_start by (auto simp: clear_memory_def matched_rows_def matched_cols_def)
next
  case (Suc k)
  let ?s = "fold (star_in_col R) [0..<k] (clear_memory d)"
  have "k < C" "k \<notin> matched_cols (star_matrix ?s)" using Suc by auto
  then show ?case using Suc star_in_col_inv [of R C d ?s k] by (auto simp: less_Suc_eq)
qed

lemma preliminary_inv:
  assumes R: "0 < R" and C: "0 < C" and cost: "\<And>r c. r < R \<Longrightarrow> c < C \<Longrightarrow> 0 \<le> cost r c \<and> cost r c < DBL_MAX"
  shows "phase_inv R C cost (Step2b, preliminary R C cost)"
proof -
  let ?s = "preliminary R C cost"
  have "\<exists>d. greedy_inv R C d ?s \<and> (\<forall>r. \<not> covered_rows ?s r)
      \<and> (\<forall>r < R. \<forall>c < C. 0 \<le> d r c \<and> d r c \<le> cost r c)
      \<and> (\<exists>u v. (\<forall>r < R. \<forall>c < C. d r c = cost r c - u r - v c) \<and> (R \<le> C \<longrightarrow> v = (\<lambda>_. 0)) \<and> (C < R \<longrightarrow> u = (\<lambda>_. 0)))"
  proof (cases "R \<le> C")
    case True
    let ?d = "fold (subtract_row_min C) [0..<R] cost"
    have d: "?d r c = cost r c - smallest (map (cost r) [0..<C])" if "r < R" for r c
      using that by (simp add: fold_subtract_row_min)
    have "0 \<le> ?d r c \<and> ?d r c \<le> cost r c" if "r < R" "c < C" for r c
      using smallest_facts(1) [OF C, of c "cost r"] smallest_facts(2) [OF C, of "cost r"] cost that d [OF that(1)] by simp
    moreover have "\<forall>r < R. \<forall>c < C. ?d r c = cost r c - smallest (map (cost r) [0..<C]) - (\<lambda>_. 0) c" using d by simp
    ultimately show ?thesis using greedy_rows [of R R C ?d] True
      by (intro exI [of _ ?d]) (auto simp: preliminary_def Let_def)
  next
    case False
    let ?d = "fold (subtract_col_min R) [0..<C] cost"
    have d: "?d r c = cost r c - smallest (map (\<lambda>r. cost r c) [0..<R])" if "c < C" for r c
      using that by (simp add: fold_subtract_col_min)
    have "0 \<le> ?d r c \<and> ?d r c \<le> cost r c" if "r < R" "c < C" for r c
      using smallest_facts(1) [OF R, of r "\<lambda>r. cost r c"] smallest_facts(2) [OF R, of "\<lambda>r. cost r c"] cost that d [OF that(2)] by simp
    moreover have "\<forall>r < R. \<forall>c < C. ?d r c = cost r c - (\<lambda>_. 0) r - smallest (map (\<lambda>r. cost r c) [0..<R])" using d by simp
    ultimately show ?thesis using greedy_cols [of C C R ?d] False
      by (intro exI [of _ ?d]) (auto simp: preliminary_def Let_def greedy_inv_def is_zero_def)
  qed
  then obtain d u v where g: "greedy_inv R C d ?s" "\<forall>r. \<not> covered_rows ?s r"
    "\<forall>r < R. \<forall>c < C. 0 \<le> d r c \<and> d r c \<le> cost r c"
    and uv: "\<forall>r < R. \<forall>c < C. d r c = cost r c - u r - v c" "R \<le> C \<longrightarrow> v = (\<lambda>_. 0)" "C < R \<longrightarrow> u = (\<lambda>_. 0)"
    by (elim exE conjE) (rule that, assumption+)
  have "potentials R C cost ?s" unfolding potentials_def
    using g(1) uv by (intro exI [of _ u] exI [of _ v]) (auto simp: greedy_inv_def)
  moreover have "d r c < DBL_MAX" if "r < R" "c < C" for r c using g(3) cost that by (meson order_le_less_trans)
  ultimately show ?thesis using g
    by (auto simp: base_inv_def greedy_inv_def clear_covers_def is_zero_def abs_less_iff)
qed

subsection \<open>What the solver returns\<close>

definition assigned_pairs :: "int list \<Rightarrow> (nat \<times> nat) set" where
  "assigned_pairs a = {(r, c). r < length a \<and> a ! r = int c}"

text \<open>
  A complete assignment of \<open>R\<close> rows to \<open>C\<close> columns: \<open>-1\<close> or a column for every row, no column twice,
  and as many rows assigned as possible.
\<close>

definition complete_assignment :: "nat \<Rightarrow> nat \<Rightarrow> int list \<Rightarrow> bool" where
  "complete_assignment R C a = (length a = R \<and> (\<forall>x \<in> set a. x = -1 \<or> 0 \<le> x \<and> x < int C)
     \<and> (\<forall>i j. i < R \<longrightarrow> j < R \<longrightarrow> a ! i = a ! j \<longrightarrow> a ! i \<noteq> -1 \<longrightarrow> i = j)
     \<and> card (assigned_pairs a) = min R C)"

definition assignment_cost :: "real list list \<Rightarrow> int list \<Rightarrow> real" where
  "assignment_cost M a = (\<Sum>(r, c) \<in> assigned_pairs a. M ! r ! c)"

definition rectangular :: "real list list \<Rightarrow> bool" where
  "rectangular M = (M \<noteq> [] \<and> hd M \<noteq> [] \<and> (\<forall>row \<in> set M. length row = length (hd M)))"

lemma sum_extreme:
  assumes "X \<subseteq> {..<n :: nat}" "Y \<subseteq> {..<n}" "card X = card Y" and f: "\<And>i. i < n \<Longrightarrow> f i \<le> (V :: real)"
    and out: "\<And>i. i < n \<Longrightarrow> i \<notin> X \<Longrightarrow> f i = V"
  shows "sum f X \<le> sum f Y"
proof -
  have fin: "finite X" "finite Y" using assms(1,2) by (meson finite_lessThan finite_subset)+
  have "sum (\<lambda>i. f i - V) X = sum (\<lambda>i. f i - V) {..<n}"
    by (rule sum.mono_neutral_left) (use assms(1) out in auto)
  also have "\<dots> \<le> sum (\<lambda>i. f i - V) Y"
  proof -
    have "sum (\<lambda>i. V - f i) Y \<le> sum (\<lambda>i. V - f i) {..<n}"
      by (rule sum_mono2) (use assms(2) f in auto)
    then show ?thesis by (simp add: sum_subtractf)
  qed
  finally show ?thesis using fin assms(3) by (simp add: sum_subtractf)
qed

lemma sum_pairs:
  assumes "inj_on fst A" "inj_on snd A"
  shows "(\<Sum>(r, c) \<in> A. d r c + u r + v c) = (\<Sum>(r, c) \<in> A. d r c) + sum u (fst ` A) + (sum v (snd ` A) :: real)"
  using assms by (simp add: sum.distrib sum.reindex case_prod_unfold)

lemma pairs_cost_bound:
  assumes A: "A \<subseteq> {..<R} \<times> {..<C}" "inj_on fst A" "inj_on snd A" "card A = min R C"
    and B: "B \<subseteq> {..<R} \<times> {..<C}" "inj_on fst B" "inj_on snd B" "card B = min R C"
    and s: "base_inv R C cost s" and star: "\<And>r c. (r, c) \<in> A \<longleftrightarrow> star_matrix s r c"
  shows "(\<Sum>(r, c) \<in> A. cost r c) \<le> (\<Sum>(r, c) \<in> B. cost r c) + real (min R C) * DBL_EPSILON"
proof -
  have pot: "potentials R C cost s" using s by (simp add: base_inv_def)
  obtain u v where uv: "\<forall>r < R. \<forall>c < C. dist_matrix s r c = cost r c - u r - v c"
    "R \<le> C \<longrightarrow> (\<exists>V. \<forall>c < C. v c \<le> V \<and> (c \<notin> matched_cols (star_matrix s) \<longrightarrow> v c = V))"
    "C < R \<longrightarrow> (\<exists>U. \<forall>r < R. u r \<le> U \<and> (r \<notin> matched_rows (star_matrix s) \<longrightarrow> u r = U))"
    using pot unfolding potentials_def by blast
  let ?d = "dist_matrix s"
  have cost: "(\<Sum>(r, c) \<in> X. cost r c) = (\<Sum>(r, c) \<in> X. ?d r c) + sum u (fst ` X) + sum v (snd ` X)"
    if "X \<subseteq> {..<R} \<times> {..<C}" "inj_on fst X" "inj_on snd X" for X
  proof -
    have "(\<Sum>(r, c) \<in> X. cost r c) = (\<Sum>(r, c) \<in> X. ?d r c + u r + v c)"
      using that(1) uv(1) by (intro sum.cong) auto
    then show ?thesis using sum_pairs [OF that(2,3)] by simp
  qed
  have sub: "fst ` X \<subseteq> {..<R}" "snd ` X \<subseteq> {..<C}" if "X \<subseteq> {..<R} \<times> {..<C}" for X using that by auto
  have crd: "card (fst ` A) = card (fst ` B)" "card (snd ` A) = card (snd ` B)"
    using A(2-4) B(2-4) by (simp_all add: card_image)
  have mr: "matched_rows (star_matrix s) = fst ` A" "matched_cols (star_matrix s) = snd ` A"
    using star by (force simp: matched_rows_def matched_cols_def)+
  have full_rows: "fst ` X = {..<R}" if "X \<subseteq> {..<R} \<times> {..<C}" "inj_on fst X" "card X = min R C" "R \<le> C" for X
    using that sub(1) [OF that(1)] by (intro card_subset_eq) (auto simp: card_image)
  have full_cols: "snd ` X = {..<C}" if "X \<subseteq> {..<R} \<times> {..<C}" "inj_on snd X" "card X = min R C" "C < R" for X
    using that sub(2) [OF that(1)] by (intro card_subset_eq) (auto simp: card_image)
  have u_le: "sum u (fst ` A) \<le> sum u (fst ` B)"
  proof (cases "R \<le> C")
    case True
    then show ?thesis using full_rows [OF A(1,2,4)] full_rows [OF B(1,2,4)] by simp
  next
    case False
    then obtain U where "\<forall>r < R. u r \<le> U \<and> (r \<notin> fst ` A \<longrightarrow> u r = U)" using uv(3) mr by auto
    then show ?thesis using sum_extreme [OF sub(1) [OF A(1)] sub(1) [OF B(1)] crd(1), of u U] by blast
  qed
  have v_le: "sum v (snd ` A) \<le> sum v (snd ` B)"
  proof (cases "R \<le> C")
    case True
    then obtain V where "\<forall>c < C. v c \<le> V \<and> (c \<notin> snd ` A \<longrightarrow> v c = V)" using uv(2) mr by auto
    then show ?thesis using sum_extreme [OF sub(2) [OF A(1)] sub(2) [OF B(1)] crd(2), of v V] by blast
  next
    case False
    then show ?thesis using full_cols [OF A(1,3,4)] full_cols [OF B(1,3,4)] by simp
  qed
  have "(\<Sum>(r, c) \<in> A. ?d r c) \<le> (\<Sum>(r, c) \<in> A. DBL_EPSILON)"
    using star s by (intro sum_mono) (auto simp: base_inv_def intro: less_imp_le)
  then have "(\<Sum>(r, c) \<in> A. ?d r c) \<le> real (min R C) * DBL_EPSILON" using A(4) by (simp add: case_prod_unfold)
  moreover have "0 \<le> (\<Sum>(r, c) \<in> B. ?d r c)" using B(1) s by (intro sum_nonneg) (auto simp: base_inv_def)
  ultimately show ?thesis using cost [OF A(1-3)] cost [OF B(1-3)] u_le v_le by linarith
qed

lemma solver_finishes:
  assumes "0 < R" "0 < C" and "\<And>r c. r < R \<Longrightarrow> c < C \<Longrightarrow> 0 \<le> cost r c \<and> cost r c < DBL_MAX"
  obtains s where "AssignmentOptimal R C cost = Some (BuildAssignmentVector R C s)"
    and "base_inv R C cost s" and "card (matched_cols (star_matrix s)) = min R C"
proof -
  let ?x = "(Step2b, preliminary R C cost)"
  have "progress R C ?x \<le> min R C * (3 * R + 6) + 3 * R + 4"
    unfolding progress_def snd_conv phase_rank.simps
    by (intro add_le_mono mult_le_mono diff_le_self open_rows_le le_refl)
  then have "progress R C ?x < hungarian_fuel R C" by (simp add: hungarian_fuel_def)
  then obtain s where "run_steps (hungarian_fuel R C) R C (min R C) ?x = Some (BuildAssignmentVector R C s)"
    "base_inv R C cost s" "card (matched_cols (star_matrix s)) = min R C"
    using run_steps_finishes [of R C cost ?x "hungarian_fuel R C"] preliminary_inv [of R C cost] assms by auto
  then show ?thesis using that by (simp add: AssignmentOptimal_def)
qed

lemma built_assignment:
  assumes base: "base_inv R C cost s" and full: "card (matched_cols (star_matrix s)) = min R C"
  defines "a \<equiv> map (assignment (BuildAssignmentVector R C s)) [0..<R]"
  shows "(r, c) \<in> assigned_pairs a \<longleftrightarrow> star_matrix s r c" and "complete_assignment R C a"
proof -
  have m: "matching R C (star_matrix s)" using base by (simp add: base_inv_def)
  have first: "first_below (star_matrix s r) C = c" if "star_matrix s r c" for r c
    by (rule first_below_unique [of "star_matrix s r" c, OF that])
      (use matching_range [OF m that] matching_row [OF m _ that] in blast)+
  have a: "a ! r = (if r \<in> matched_rows (star_matrix s) then int (first_below (star_matrix s r) C) else -1)"
    if r: "r < R" for r
  proof (cases "r \<in> matched_rows (star_matrix s)")
    case True
    then obtain c where c: "star_matrix s r c" by (auto simp: matched_rows_def)
    then have "first_below (star_matrix s r) C < C" using first [OF c] matching_range [OF m c] by simp
    then show ?thesis using r True by (simp add: a_def BuildAssignmentVector_def Let_def)
  next
    case False
    then have "first_below (star_matrix s r) C = C" by (simp add: first_below_none matched_rows_def)
    then show ?thesis using r False base by (simp add: a_def BuildAssignmentVector_def Let_def base_inv_def)
  qed
  have len: "length a = R" by (simp add: a_def)
  have entry: "a ! r = int c \<longleftrightarrow> star_matrix s r c" if "r < R" for r c
    using that a [OF that] first by (auto simp: matched_rows_def)
  have pairs: "(r, c) \<in> assigned_pairs a \<longleftrightarrow> star_matrix s r c" for r c
    using entry matching_range [OF m] by (auto simp: assigned_pairs_def len)
  then show "(r, c) \<in> assigned_pairs a \<longleftrightarrow> star_matrix s r c" .
  have "card (assigned_pairs a) = card (snd ` assigned_pairs a)"
    using pairs matching_col [OF m] by (intro card_image [symmetric] inj_onI) auto
  also have "snd ` assigned_pairs a = matched_cols (star_matrix s)"
    using pairs by (force simp: matched_cols_def)
  finally have crd: "card (assigned_pairs a) = min R C" using full by simp
  have range: "x = -1 \<or> 0 \<le> x \<and> x < int C" if x: "x \<in> set a" for x
  proof -
    obtain r where r: "r < R" "x = a ! r" using x len by (auto simp: in_set_conv_nth)
    show ?thesis using a [OF r(1)] r(2) first matching_range [OF m] by (auto simp: matched_rows_def)
  qed
  have inj: "i = j" if ij: "i < R" "j < R" "a ! i = a ! j" "a ! i \<noteq> -1" for i j
  proof -
    obtain c where "star_matrix s i c" using a [OF ij(1)] ij(4) by (auto simp: matched_rows_def split: if_splits)
    then show ?thesis using entry [OF ij(1)] entry [OF ij(2)] ij(3) matching_col [OF m] by metis
  qed
  show "complete_assignment R C a" unfolding complete_assignment_def using len range inj crd by blast
qed

lemma complete_assignment_pairs:
  assumes "complete_assignment R C a"
  shows "assigned_pairs a \<subseteq> {..<R} \<times> {..<C}" "inj_on fst (assigned_pairs a)" "inj_on snd (assigned_pairs a)"
proof -
  have "c < C" if "r < R" "a ! r = int c" for r c
  proof -
    have "a ! r \<in> set a" using that(1) assms by (simp add: complete_assignment_def)
    then show ?thesis using assms that(2) unfolding complete_assignment_def by fastforce
  qed
  then show "assigned_pairs a \<subseteq> {..<R} \<times> {..<C}"
    using assms by (auto simp: assigned_pairs_def complete_assignment_def)
  show "inj_on fst (assigned_pairs a)" by (auto simp: inj_on_def assigned_pairs_def)
  have "r = r'" if "(r, c) \<in> assigned_pairs a" "(r', c) \<in> assigned_pairs a" for r r' c
    using assms that unfolding complete_assignment_def assigned_pairs_def by simp
  then show "inj_on snd (assigned_pairs a)" by (auto simp: inj_on_def)
qed

text \<open>
  C2. The assignment solver is correct on every cost matrix: for a non-empty rectangular matrix of
  finite non-negative costs it terminates (the fuel is enough), returns a complete assignment, and
  no complete assignment is cheaper by more than the zero tolerance per assigned pair.
\<close>

theorem hungarian_optimal:
  assumes "rectangular M" and "\<forall>row \<in> set M. \<forall>x \<in> set row. 0 \<le> x \<and> x < DBL_MAX"
  shows "\<exists>a. Solve M = Some a \<and> complete_assignment (length M) (length (hd M)) a
    \<and> (\<forall>b. complete_assignment (length M) (length (hd M)) b \<longrightarrow>
         assignment_cost M a \<le> assignment_cost M b + real (min (length M) (length (hd M))) * DBL_EPSILON)"
proof -
  let ?R = "length M" and ?C = "length (hd M)" and ?cost = "\<lambda>i j. M ! i ! j"
  have pos: "0 < ?R" "0 < ?C" using assms(1) unfolding rectangular_def by blast+
  have finite: "0 \<le> ?cost r c \<and> ?cost r c < DBL_MAX" if "r < ?R" "c < ?C" for r c
  proof -
    have "M ! r \<in> set M" using that(1) by simp
    moreover have "length (M ! r) = ?C" using calculation assms(1) unfolding rectangular_def by blast
    then have "M ! r ! c \<in> set (M ! r)" using that(2) by simp
    ultimately show ?thesis using assms(2) by blast
  qed
  obtain s where s: "AssignmentOptimal ?R ?C ?cost = Some (BuildAssignmentVector ?R ?C s)"
    "base_inv ?R ?C ?cost s" "card (matched_cols (star_matrix s)) = min ?R ?C"
    using solver_finishes [of ?R ?C ?cost, OF pos finite] by blast
  let ?a = "map (assignment (BuildAssignmentVector ?R ?C s)) [0..<?R]"
  note built = built_assignment [OF s(2,3)]
  have "assignment_cost M ?a \<le> assignment_cost M b + real (min ?R ?C) * DBL_EPSILON"
    if b: "complete_assignment ?R ?C b" for b
    unfolding assignment_cost_def
    by (rule pairs_cost_bound [OF complete_assignment_pairs [OF built(2)] _ complete_assignment_pairs [OF b] _ s(2) built(1)])
      (use built(2) b in \<open>auto simp: complete_assignment_def\<close>)
  moreover have "Solve M = Some ?a" by (simp add: Solve_def Let_def s(1))
  ultimately show ?thesis using built(2) by blast
qed

theorem hungarian_optimal_witness:
  "\<exists>a. Solve [[4, 1], [2, 0], [3, 2]] = Some a \<and> complete_assignment 3 2 a"
  using hungarian_optimal [of "[[4, 1], [2, 0], [3, 2]]"]
  by (auto simp: rectangular_def DBL_MAX_def numeral_2_eq_2 numeral_3_eq_3)

end
