(* ===== verification/Sort_Tracker.thy ===== *)
theory Sort_Tracker
  imports Kalman Hungarian_Correct
begin

text \<open>
  \<open>SORTTracker\<close> of \<open>Tracker/SORT/SORTTracker.cpp\<close>: frame-to-frame association of detections with
  Kalman trackers.  The members that every call clears before use (predicted boxes, cost matrix,
  assignment, groups, pairs) are local values here; the state is the list of trackers and the
  counter of track ids.  \<open>None\<close> would be a solver that does not return.
\<close>

record 'kf sort_tracker =
  kalmans :: "'kf kalman_tracker list"
  kalman_tracker_create_count :: u32
  track_in_style :: ImageExpressStyle
  track_out_style :: ImageExpressStyle

definition SORT_TRACKING_MAX_NUM :: nat where "SORT_TRACKING_MAX_NUM = 200"
definition SORT_TRACKER_DEFAULT_MAX_AGE :: u32 where "SORT_TRACKER_DEFAULT_MAX_AGE = 10"
definition SORT_TRACKER_DEFAULT_MIN_HIT :: u32 where "SORT_TRACKER_DEFAULT_MIN_HIT = 3"

text \<open>The value of the literal \<open>0.7f\<close>.\<close>

definition SORT_TRACKER_IOU_THRESHOLD :: real where
  "SORT_TRACKER_IOU_THRESHOLD = 11744051 / 16777216"

definition TRACK_ID_CYCLE_THRESHOLD :: u32 where
  "TRACK_ID_CYCLE_THRESHOLD = 2000000000"

definition SORTTracker_new :: "ImageExpressStyle \<Rightarrow> ImageExpressStyle \<Rightarrow> 'kf sort_tracker" where
  "SORTTracker_new in_style out_style =
     \<lparr>kalmans = [], kalman_tracker_create_count = 1, track_in_style = in_style, track_out_style = out_style\<rparr>"

definition GetIOU :: "'kf opencv \<Rightarrow> 'kf sort_tracker \<Rightarrow> StateXYWH \<Rightarrow> InferObject \<Rightarrow> real" where
  "GetIOU cv t predict_state obj =
     (let tracking_state = get_StateXYWH_obj obj (track_in_style t) (track_out_style t);
          denom = rect_area (rect_or cv predict_state tracking_state)
      in if \<bar>denom\<bar> < DBL_EPSILON then 0
         else rect_area (rect_and cv predict_state tracking_state) / denom)"

text \<open>One new tracker for a detection, with the next track id.\<close>

definition add_kalman :: "'kf opencv \<Rightarrow> InferObject \<Rightarrow> 'kf sort_tracker \<Rightarrow> 'kf sort_tracker" where
  "add_kalman cv obj t =
     t\<lparr>kalmans := kalmans t @ [MgenKalmanTracker_new cv (sint (kalman_tracker_create_count t)) obj
                                 (track_in_style t) (track_out_style t)],
       kalman_tracker_create_count := kalman_tracker_create_count t + 1\<rparr>"

definition box_visible :: "StateXYWH option \<Rightarrow> bool" where
  "box_visible b = (case b of None \<Rightarrow> False | Some b \<Rightarrow> bbox_x b \<ge> 0 \<and> bbox_y b \<ge> 0)"

text \<open>The prediction loop: the predicted boxes and the trackers that stay, in step.\<close>

definition predict_all :: "'kf opencv \<Rightarrow> 'kf kalman_tracker list \<Rightarrow> (StateXYWH \<times> 'kf kalman_tracker) list" where
  "predict_all cv ks = map (\<lambda>(b, k). (the b, k)) (filter (\<lambda>(b, k). box_visible b) (map (kt_predict cv) ks))"

definition erase_over_age :: "'kf kalman_tracker list \<Rightarrow> 'kf kalman_tracker list" where
  "erase_over_age ks = filter (\<lambda>k. \<not> is_over_age SORT_TRACKER_DEFAULT_MAX_AGE k) ks"

definition cost_matrix :: "'kf opencv \<Rightarrow> 'kf sort_tracker \<Rightarrow> StateXYWH list \<Rightarrow> InferObject list \<Rightarrow> real list list" where
  "cost_matrix cv t predicted_boxes objects =
     map (\<lambda>b. map (\<lambda>obj. 1 - GetIOU cv t b obj) objects) predicted_boxes"

definition matched_pairs :: "real list list \<Rightarrow> int list \<Rightarrow> (nat \<times> nat) list" where
  "matched_pairs costs assigned =
     List.map_filter (\<lambda>i. if assigned ! i = -1 then None
        else if costs ! i ! nat (assigned ! i) > SORT_TRACKER_IOU_THRESHOLD then None
        else Some (i, nat (assigned ! i))) [0..<length costs]"

text \<open>The detections without a tracker, in ascending order: the iteration order of the set.\<close>

definition unmatched_items :: "real list list \<Rightarrow> int list \<Rightarrow> nat \<Rightarrow> nat list" where
  "unmatched_items costs assigned det_num =
     filter (\<lambda>j. (det_num > length costs \<and> int j \<notin> set assigned)
        \<or> (\<exists>i \<in> set [0..<length costs]. assigned ! i = int j \<and> costs ! i ! j > SORT_TRACKER_IOU_THRESHOLD))
       [0..<det_num]"

definition update_pairs ::
  "'kf opencv \<Rightarrow> InferObject list \<Rightarrow> (nat \<times> nat) list \<Rightarrow> 'kf kalman_tracker list \<Rightarrow> 'kf kalman_tracker list" where
  "update_pairs cv objects pairs ks =
     fold (\<lambda>(i, j) ks. ks[i := kt_update cv (objects ! j) (ks ! i)]) pairs ks"

definition report_tracks :: "'kf opencv \<Rightarrow> int \<Rightarrow> 'kf kalman_tracker list \<Rightarrow> InferObject list" where
  "report_tracks cv request_seq ks =
     map (get_predict_track_object cv)
       (filter (is_detected_track_object SORT_TRACKER_DEFAULT_MIN_HIT (word_of_int request_seq)) ks)"

definition cycle_ids :: "'kf sort_tracker \<Rightarrow> 'kf sort_tracker" where
  "cycle_ids t = (if kalman_tracker_create_count t > TRACK_ID_CYCLE_THRESHOLD
                  then t\<lparr>kalman_tracker_create_count := 0\<rparr> else t)"

text \<open>The part of \<open>TrackObjects\<close> from the cost matrix on.\<close>

definition associate ::
  "'kf opencv \<Rightarrow> InferObject list \<Rightarrow> int \<Rightarrow> StateXYWH list \<Rightarrow> 'kf sort_tracker \<Rightarrow>
   (InferObject list option \<times> 'kf sort_tracker) option" where
  "associate cv objects request_seq predicted_boxes t =
     (let costs = cost_matrix cv t predicted_boxes objects
      in case Solve costs of
           None \<Rightarrow> None
         | Some assigned \<Rightarrow>
             let t = t\<lparr>kalmans := update_pairs cv objects (matched_pairs costs assigned) (kalmans t)\<rparr>;
                 t = fold (\<lambda>umd. add_kalman cv (objects ! umd))
                       (unmatched_items costs assigned (length objects)) t;
                 results = report_tracks cv request_seq (kalmans t);
                 t = t\<lparr>kalmans := erase_over_age (kalmans t)\<rparr>
             in Some (Some results, cycle_ids t))"

definition TrackObjects ::
  "'kf opencv \<Rightarrow> InferObject list \<Rightarrow> int \<Rightarrow> 'kf sort_tracker \<Rightarrow>
   (InferObject list option \<times> 'kf sort_tracker) option" where
  "TrackObjects cv objects request_seq t =
     (if objects = [] then Some (None, t)
      else if kalmans t = [] then Some (None, fold (add_kalman cv) objects t)
      else let predicted = predict_all cv (kalmans t);
               t = t\<lparr>kalmans := map snd predicted\<rparr>;
               trk_num = length predicted;
               det_num = length objects
           in if trk_num > SORT_TRACKING_MAX_NUM \<or> det_num > SORT_TRACKING_MAX_NUM
              then Some (None, t\<lparr>kalmans := erase_over_age (kalmans t)\<rparr>)
              else if trk_num = 0 then Some (None, t)
              else associate cv objects request_seq (map fst predicted) t)"

subsection \<open>Complete assignments\<close>

lemma fst_map_filter_pairs:
  "map fst (List.map_filter (\<lambda>i. if P i then None else if Q i then None else Some (i, g i)) xs)
     = filter (\<lambda>i. \<not> P i \<and> \<not> Q i) xs"
  by (induction xs) (auto simp: map_filter_simps)

lemma set_matched_pairs:
  assumes "complete_assignment (length M) n a"
  shows "(i, j) \<in> set (matched_pairs M a) \<longleftrightarrow>
     i < length M \<and> a ! i = int j \<and> M ! i ! j \<le> SORT_TRACKER_IOU_THRESHOLD"
proof -
  have "a ! i = -1 \<or> 0 \<le> a ! i" if "i < length M" for i
  proof -
    have "a ! i \<in> set a" using that assms by (simp add: complete_assignment_def)
    then show ?thesis using assms by (auto simp: complete_assignment_def)
  qed
  then show ?thesis
    by (fastforce simp: matched_pairs_def List.map_filter_def not_less split: if_splits)
qed

lemma distinct_matched_pairs:
  assumes "complete_assignment (length M) n a"
  shows "distinct (map fst (matched_pairs M a))" "distinct (map snd (matched_pairs M a))"
proof -
  show fst: "distinct (map fst (matched_pairs M a))" unfolding matched_pairs_def fst_map_filter_pairs by simp
  have "i = i'" if "(i, j) \<in> set (matched_pairs M a)" "(i', j) \<in> set (matched_pairs M a)" for i i' j
    using that assms by (simp add: set_matched_pairs [OF assms] complete_assignment_def)
  then have "inj_on snd (set (matched_pairs M a))" by (auto simp: inj_on_def)
  then show "distinct (map snd (matched_pairs M a))" using fst by (simp add: distinct_map)
qed

lemma assigned_all_columns:
  assumes "complete_assignment R n a" and "n \<le> R" and "j < n"
  shows "\<exists>i < R. a ! i = int j"
proof -
  note p = complete_assignment_pairs [OF assms(1)]
  have "card (snd ` assigned_pairs a) = card {..<n}"
    using assms(1,2) card_image [OF p(3)] by (simp add: complete_assignment_def)
  then have "snd ` assigned_pairs a = {..<n}" using p(1) by (intro card_subset_eq) auto
  then have "j \<in> snd ` assigned_pairs a" using assms(3) by simp
  then show ?thesis using assms(1) by (auto simp: assigned_pairs_def complete_assignment_def)
qed

lemma set_unmatched_items:
  "j \<in> set (unmatched_items M a n) \<longleftrightarrow> j < n \<and> (n > length M \<and> int j \<notin> set a
     \<or> (\<exists>i < length M. a ! i = int j \<and> M ! i ! j > SORT_TRACKER_IOU_THRESHOLD))"
  by (auto simp: unmatched_items_def)

lemma column_paired_or_unmatched:
  assumes "complete_assignment (length M) n a" and "j < n"
  shows "j \<in> set (unmatched_items M a n) \<longleftrightarrow> j \<notin> snd ` set (matched_pairs M a)"
proof (cases "\<exists>i < length M. a ! i = int j")
  case True
  then obtain i where i: "i < length M" "a ! i = int j" by blast
  have uniq: "i' = i" if "i' < length M" "a ! i' = int j" for i'
    using that i assms(1) by (simp add: complete_assignment_def)
  have "length a = length M" using assms(1) by (simp add: complete_assignment_def)
  then have "int j \<in> set a" using i nth_mem [of i a] by simp
  then have "j \<in> set (unmatched_items M a n) \<longleftrightarrow> M ! i ! j > SORT_TRACKER_IOU_THRESHOLD"
    unfolding set_unmatched_items using assms(2) i uniq by blast
  moreover have "j \<in> snd ` set (matched_pairs M a) \<longleftrightarrow> M ! i ! j \<le> SORT_TRACKER_IOU_THRESHOLD"
  proof -
    have "j \<in> snd ` set (matched_pairs M a) \<longleftrightarrow> (\<exists>i. (i, j) \<in> set (matched_pairs M a))" by force
    then show ?thesis unfolding set_matched_pairs [OF assms(1)] using i uniq by blast
  qed
  ultimately show ?thesis by linarith
next
  case False
  then have "n > length M" using assigned_all_columns [OF assms(1) _ assms(2)] not_less by blast
  moreover have "int j \<notin> set a" using False assms(1) by (auto simp: in_set_conv_nth complete_assignment_def)
  moreover have "j \<notin> snd ` set (matched_pairs M a)"
    using False by (auto simp: set_matched_pairs [OF assms(1)])
  ultimately show ?thesis unfolding set_unmatched_items using assms(2) by blast
qed

subsection \<open>The solver as an interface\<close>

text \<open>
  What the tracker needs of the solver: on a matrix of costs between 0 and 1 it returns, and its
  answer is a complete assignment.
\<close>

locale assignment_solver =
  fixes solve :: "real list list \<Rightarrow> int list option"
  assumes complete: "rectangular M \<Longrightarrow> (\<forall>row \<in> set M. \<forall>x \<in> set row. 0 \<le> x \<and> x \<le> 1) \<Longrightarrow>
      \<exists>a. solve M = Some a \<and> complete_assignment (length M) (length (hd M)) a"
begin

text \<open>Every detection is paired with one tracker, or is left for a new one; never both.\<close>

lemma detections_partition:
  assumes M: "rectangular M" "\<forall>row \<in> set M. \<forall>x \<in> set row. 0 \<le> x \<and> x \<le> 1" and n: "length (hd M) = n"
  obtains a where "solve M = Some a"
    and "distinct (map fst (matched_pairs M a))" and "distinct (map snd (matched_pairs M a))"
    and "set (map fst (matched_pairs M a)) \<subseteq> {..<length M}"
    and "set (map snd (matched_pairs M a)) \<union> set (unmatched_items M a n) = {..<n}"
    and "set (map snd (matched_pairs M a)) \<inter> set (unmatched_items M a n) = {}"
    and "\<And>i j. (i, j) \<in> set (matched_pairs M a) \<Longrightarrow> M ! i ! j \<le> SORT_TRACKER_IOU_THRESHOLD"
proof -
  obtain a where a: "solve M = Some a" "complete_assignment (length M) n a" using complete [OF M] n by auto
  have len: "length a = length M" using a(2) by (simp add: complete_assignment_def)
  have "(i, j) \<in> assigned_pairs a" if "(i, j) \<in> set (matched_pairs M a)" for i j
    using that by (simp add: set_matched_pairs [OF a(2)] assigned_pairs_def len)
  then have cols: "snd ` set (matched_pairs M a) \<subseteq> {..<n}" using complete_assignment_pairs(1) [OF a(2)] by fastforce
  show ?thesis
  proof (rule that [OF a(1)])
    show "distinct (map fst (matched_pairs M a))" "distinct (map snd (matched_pairs M a))"
      by (rule distinct_matched_pairs [OF a(2)])+
    show "set (map fst (matched_pairs M a)) \<subseteq> {..<length M}" by (auto simp: set_matched_pairs [OF a(2)])
    have unm: "set (unmatched_items M a n) \<subseteq> {..<n}" by (auto simp: unmatched_items_def)
    show "set (map snd (matched_pairs M a)) \<union> set (unmatched_items M a n) = {..<n}"
      using cols unm column_paired_or_unmatched [OF a(2)] by auto
    show "set (map snd (matched_pairs M a)) \<inter> set (unmatched_items M a n) = {}"
      using cols column_paired_or_unmatched [OF a(2)] by auto
    show "\<And>i j. (i, j) \<in> set (matched_pairs M a) \<Longrightarrow> M ! i ! j \<le> SORT_TRACKER_IOU_THRESHOLD"
      by (simp add: set_matched_pairs [OF a(2)])
  qed
qed

end

lemma solver_complete:
  assumes "rectangular M" and "\<And>row x. row \<in> set M \<Longrightarrow> x \<in> set row \<Longrightarrow> 0 \<le> x \<and> x < DBL_MAX"
  shows "\<exists>a. Solve M = Some a \<and> complete_assignment (length M) (length (hd M)) a"
proof -
  let ?R = "length M" and ?C = "length (hd M)"
  have pos: "0 < ?R" "0 < ?C" using assms(1) unfolding rectangular_def by blast+
  have finite: "0 \<le> M ! r ! c \<and> M ! r ! c < DBL_MAX" if "r < ?R" "c < ?C" for r c
  proof -
    have "M ! r \<in> set M" using that(1) by simp
    moreover have "length (M ! r) = ?C" using calculation assms(1) unfolding rectangular_def by blast
    then have "M ! r ! c \<in> set (M ! r)" using that(2) by simp
    ultimately show ?thesis using assms(2) by blast
  qed
  obtain s where "AssignmentOptimal ?R ?C (\<lambda>i j. M ! i ! j) = Some (BuildAssignmentVector ?R ?C s)"
    "base_inv ?R ?C (\<lambda>i j. M ! i ! j) s" "card (matched_cols (star_matrix s)) = min ?R ?C"
    using solver_finishes [of ?R ?C "\<lambda>i j. M ! i ! j", OF pos finite] by blast
  then show ?thesis using built_assignment(2) by (auto simp: Solve_def Let_def)
qed

interpretation hung: assignment_solver Solve
proof
  fix M :: "real list list"
  assume M: "rectangular M" "\<forall>row \<in> set M. \<forall>x \<in> set row. 0 \<le> x \<and> x \<le> 1"
  have "1 < DBL_MAX" by (simp add: DBL_MAX_def)
  then show "\<exists>a. Solve M = Some a \<and> complete_assignment (length M) (length (hd M)) a"
    using M by (intro solver_complete) (auto intro: order_le_less_trans)
qed

subsection \<open>What is assumed of OpenCV's rectangles\<close>

text \<open>
  The intersection of two rectangles has an area between 0 and that of a rectangle containing both,
  when the second has non-negative sides.
\<close>

definition rect_laws :: "'kf opencv \<Rightarrow> bool" where
  "rect_laws cv = (\<forall>a b. 0 \<le> bbox_w b \<and> 0 \<le> bbox_h b \<longrightarrow>
     0 \<le> rect_area (rect_and cv a b) \<and> rect_area (rect_and cv a b) \<le> rect_area (rect_or cv a b))"

definition valid_detection :: "ImageExpressStyle \<Rightarrow> ImageExpressStyle \<Rightarrow> InferObject \<Rightarrow> bool" where
  "valid_detection in_style out_style obj =
     (0 \<le> bbox_w (get_StateXYWH_obj obj in_style out_style) \<and> 0 \<le> bbox_h (get_StateXYWH_obj obj in_style out_style))"

lemma GetIOU_range:
  assumes "rect_laws cv" and "valid_detection (track_in_style t) (track_out_style t) obj"
  shows "0 \<le> GetIOU cv t b obj \<and> GetIOU cv t b obj \<le> 1"
proof -
  let ?s = "get_StateXYWH_obj obj (track_in_style t) (track_out_style t)"
  have "0 \<le> rect_area (rect_and cv b ?s) \<and> rect_area (rect_and cv b ?s) \<le> rect_area (rect_or cv b ?s)"
    using assms by (simp add: rect_laws_def valid_detection_def)
  then show ?thesis by (auto simp: GetIOU_def Let_def divide_le_eq_1)
qed

lemma cost_matrix_facts:
  assumes "rect_laws cv" and "\<forall>obj \<in> set objects. valid_detection (track_in_style t) (track_out_style t) obj"
    and "bs \<noteq> []" and "objects \<noteq> []"
  shows "rectangular (cost_matrix cv t bs objects)" and "length (cost_matrix cv t bs objects) = length bs"
    and "length (hd (cost_matrix cv t bs objects)) = length objects"
    and "\<forall>row \<in> set (cost_matrix cv t bs objects). \<forall>x \<in> set row. 0 \<le> x \<and> x \<le> 1"
proof -
  show len: "length (hd (cost_matrix cv t bs objects)) = length objects"
    using assms(3) by (cases bs) (simp_all add: cost_matrix_def)
  have "length row = length objects" if "row \<in> set (cost_matrix cv t bs objects)" for row
    using that by (auto simp: cost_matrix_def)
  then show "rectangular (cost_matrix cv t bs objects)"
    using len assms(3,4) unfolding rectangular_def by (auto simp: cost_matrix_def)
  show "\<forall>row \<in> set (cost_matrix cv t bs objects). \<forall>x \<in> set row. 0 \<le> x \<and> x \<le> 1"
    using GetIOU_range [OF assms(1)] assms(2) by (auto simp: cost_matrix_def)
qed (simp add: cost_matrix_def)

subsection \<open>Track ids\<close>

lemma update_pairs_same:
  "map kt_track_id (update_pairs cv objects pairs ks) = map kt_track_id ks"
proof (induction pairs arbitrary: ks)
  case (Cons p pairs)
  have "kt_track_id (kt_update cv obj k) = kt_track_id k" for obj k by (simp add: kt_update_def Let_def)
  then have "map kt_track_id (ks[i := kt_update cv obj (ks ! i)]) = map kt_track_id ks" for i obj
    by (simp add: map_update list_update_same_conv nth_map list_update_beyond
        flip: nth_map) (metis (no_types, lifting) length_map list_update_beyond list_update_id not_le nth_map)
  then show ?case using Cons by (cases p) (simp add: update_pairs_def)
qed (simp add: update_pairs_def)

lemma predict_all_ids: "\<exists>P. map (\<lambda>x. kt_track_id (snd x)) (predict_all cv ks) = map kt_track_id (filter P ks)"
proof -
  have id: "kt_track_id (snd (kt_predict cv k)) = kt_track_id k" for k
    by (simp add: kt_predict_def Let_def split: prod.splits)
  have "map (\<lambda>x. kt_track_id (snd x)) (predict_all cv ks) =
      map kt_track_id (filter (\<lambda>k. box_visible (fst (kt_predict cv k))) ks)"
    by (simp add: predict_all_def filter_map o_def case_prod_unfold id)
  then show ?thesis by blast
qed

text \<open>Ids are distinct and below the counter, which is below the cycle threshold.\<close>

definition ids_ok :: "'kf sort_tracker \<Rightarrow> bool" where
  "ids_ok t = (distinct (map kt_track_id (kalmans t))
     \<and> (\<forall>k \<in> set (kalmans t). kt_track_id k < uint (kalman_tracker_create_count t)))"

lemma sint_count: "uint (c :: u32) < 2 ^ 31 \<Longrightarrow> sint c = uint c"
proof -
  assume "uint c < 2 ^ 31"
  moreover have "- (2 ^ 31) \<le> uint c" by (rule order_trans [of _ 0]) simp_all
  ultimately show ?thesis using signed_take_bit_int_eq_self [of 31 "uint c"] by (simp add: sint_uint)
qed

lemma uint_suc_count: "uint (c :: u32) < 2 ^ 31 \<Longrightarrow> uint (c + 1) = uint c + 1"
  by (simp add: uint_word_ariths)

lemma add_kalman_ids:
  assumes "ids_ok t" and "uint (kalman_tracker_create_count t) < 2 ^ 31"
  shows "ids_ok (add_kalman cv obj t)" "uint (kalman_tracker_create_count (add_kalman cv obj t)) = uint (kalman_tracker_create_count t) + 1"
  using assms by (auto simp: ids_ok_def add_kalman_def uint_suc_count sint_count MgenKalmanTracker_new_def)

lemma fold_add_kalman:
  assumes "ids_ok t" and "uint (kalman_tracker_create_count t) + int (length us) \<le> 2 ^ 31"
  shows "ids_ok (fold (\<lambda>u. add_kalman cv (f u)) us t)
    \<and> uint (kalman_tracker_create_count (fold (\<lambda>u. add_kalman cv (f u)) us t)) = uint (kalman_tracker_create_count t) + int (length us)"
  using assms
proof (induction us arbitrary: t)
  case (Cons u us)
  then show ?case using add_kalman_ids [of t cv "f u"] by (simp add: algebra_simps)
qed simp

text \<open>What adding trackers does to the list and the styles, whatever the counter.\<close>

lemma add_kalman_fields [simp]:
  "kalmans (add_kalman cv obj t) = kalmans t @ [MgenKalmanTracker_new cv (sint (kalman_tracker_create_count t)) obj
     (track_in_style t) (track_out_style t)]"
  "track_in_style (add_kalman cv obj t) = track_in_style t" "track_out_style (add_kalman cv obj t) = track_out_style t"
  by (simp_all add: add_kalman_def)

lemma fold_add_kalman_list:
  "\<exists>news. kalmans (fold (\<lambda>u. add_kalman cv (f u)) us t) = kalmans t @ news \<and> length news = length us
     \<and> (\<forall>i < length us. kt_class_id (news ! i) = class_id (f (us ! i)) \<and> time_since_update (news ! i) = 0)
     \<and> track_in_style (fold (\<lambda>u. add_kalman cv (f u)) us t) = track_in_style t
     \<and> track_out_style (fold (\<lambda>u. add_kalman cv (f u)) us t) = track_out_style t"
proof (induction us arbitrary: t)
  case (Cons u us)
  let ?k = "MgenKalmanTracker_new cv (sint (kalman_tracker_create_count t)) (f u) (track_in_style t) (track_out_style t)"
  obtain news where n: "kalmans (fold (\<lambda>u. add_kalman cv (f u)) us (add_kalman cv (f u) t)) = kalmans t @ ?k # news"
    "length news = length us"
    "\<forall>i < length us. kt_class_id (news ! i) = class_id (f (us ! i)) \<and> time_since_update (news ! i) = 0"
    "track_in_style (fold (\<lambda>u. add_kalman cv (f u)) us (add_kalman cv (f u) t)) = track_in_style t"
    "track_out_style (fold (\<lambda>u. add_kalman cv (f u)) us (add_kalman cv (f u) t)) = track_out_style t"
    using Cons.IH [of "add_kalman cv (f u) t"] by auto
  show ?case
    by (intro exI [of _ "?k # news"])
      (use n in \<open>auto simp: nth_Cons MgenKalmanTracker_new_def split: nat.splits\<close>)
qed simp

lemma reported_track_id: "track_id (get_predict_track_object cv k) = kt_track_id k"
proof -
  have "track_id (snd (ConvertInferObjectCoordinate obj a b)) = track_id obj" for obj a b
    by (simp add: ConvertInferObjectCoordinate_def clamp_object_def Let_def split: option.splits)
  then show ?thesis by (simp add: get_predict_track_object_def Let_def)
qed

subsection \<open>One frame\<close>

definition tracks_detections :: "'kf opencv \<Rightarrow> InferObject list \<Rightarrow> 'kf sort_tracker \<Rightarrow> bool" where
  "tracks_detections cv objects t = (objects \<noteq> [] \<and> kalmans t \<noteq> [] \<and> predict_all cv (kalmans t) \<noteq> []
     \<and> length (predict_all cv (kalmans t)) \<le> 200 \<and> length objects \<le> 200)"


subsection \<open>A stream of frames\<close>

definition tracker_ok :: "'kf sort_tracker \<Rightarrow> bool" where
  "tracker_ok t = (ids_ok t \<and> (\<forall>k \<in> set (kalmans t). time_since_update k \<le> 10))"

lemma ids_ok_sub:
  assumes "ids_ok t" and "map kt_track_id ks = map kt_track_id (filter P (kalmans t))"
  shows "ids_ok (t\<lparr>kalmans := ks\<rparr>)"
proof -
  have "kt_track_id ` set ks \<subseteq> kt_track_id ` set (kalmans t)"
    using arg_cong [OF assms(2), of set] by auto
  moreover have "distinct (map kt_track_id ks)" unfolding assms(2) using assms(1)
    by (simp add: ids_ok_def filter_distinct_map)
  ultimately show ?thesis using assms(1) unfolding ids_ok_def by fastforce
qed

lemma ids_ok_erase: "ids_ok t \<Longrightarrow> ids_ok (t\<lparr>kalmans := erase_over_age (kalmans t)\<rparr>)"
  by (rule ids_ok_sub [where P = "\<lambda>k. \<not> is_over_age SORT_TRACKER_DEFAULT_MAX_AGE k"])
    (simp_all add: erase_over_age_def)

lemma erase_over_age_young: "k \<in> set (erase_over_age ks) \<Longrightarrow> time_since_update k \<le> 10"
  by (simp add: erase_over_age_def is_over_age_def SORT_TRACKER_DEFAULT_MAX_AGE_def not_less)

lemma associate_ok:
  assumes "rect_laws cv" and "ids_ok t" and "length bs = length (kalmans t)" "bs \<noteq> []" "objects \<noteq> []"
    and valid: "\<forall>obj \<in> set objects. valid_detection (track_in_style t) (track_out_style t) obj"
    and room: "uint (kalman_tracker_create_count t) + int (length objects) \<le> 2000000000"
  shows "\<exists>results t'. associate cv objects seq bs t = Some (Some results, t') \<and> tracker_ok t'
    \<and> track_in_style t' = track_in_style t \<and> track_out_style t' = track_out_style t
    \<and> uint (kalman_tracker_create_count t') \<le> uint (kalman_tracker_create_count t) + int (length objects)
    \<and> distinct (map track_id results)"
proof -
  let ?M = "cost_matrix cv t bs objects"
  note M = cost_matrix_facts [OF assms(1) valid assms(4,5)]
  obtain a where a: "Solve ?M = Some a" using hung.detections_partition [OF M(1,4,3)] by metis
  let ?pairs = "matched_pairs ?M a" and ?new = "unmatched_items ?M a (length objects)"
  let ?u = "t\<lparr>kalmans := update_pairs cv objects ?pairs (kalmans t)\<rparr>"
  let ?v = "fold (\<lambda>u. add_kalman cv (objects ! u)) ?new ?u"
  have new: "length ?new \<le> length objects"
    unfolding unmatched_items_def by (rule order_trans [OF length_filter_le]) simp
  have "map kt_track_id (kalmans ?u) = map kt_track_id (filter (\<lambda>_. True) (kalmans t))"
    by (simp add: update_pairs_same)
  then have "ids_ok ?u" using ids_ok_sub [OF assms(2), of "kalmans ?u" "\<lambda>_. True"] by simp
  then have v: "ids_ok ?v"
    "uint (kalman_tracker_create_count ?v) = uint (kalman_tracker_create_count t) + int (length ?new)"
    using fold_add_kalman [of ?u ?new cv "\<lambda>u. objects ! u"] room new by auto
  have styles: "track_in_style ?v = track_in_style t" "track_out_style ?v = track_out_style t"
    using fold_add_kalman_list [of cv "\<lambda>u. objects ! u" ?new ?u] by auto
  let ?w = "?v\<lparr>kalmans := erase_over_age (kalmans ?v)\<rparr>"
  have "\<not> kalman_tracker_create_count ?w > TRACK_ID_CYCLE_THRESHOLD"
    using v(2) room new by (simp add: word_less_def TRACK_ID_CYCLE_THRESHOLD_def)
  then have cyc: "cycle_ids ?w = ?w" by (simp add: cycle_ids_def)
  have "distinct (map track_id (report_tracks cv seq (kalmans ?v)))"
    using v(1) by (simp add: report_tracks_def reported_track_id o_def ids_ok_def filter_distinct_map)
  moreover have "tracker_ok ?w" using ids_ok_erase [OF v(1)] erase_over_age_young by (auto simp: tracker_ok_def)
  moreover have "associate cv objects seq bs t = Some (Some (report_tracks cv seq (kalmans ?v)), ?w)"
    using a cyc by (simp add: associate_def Let_def)
  ultimately show ?thesis using v(2) new styles by auto
qed

lemma TrackObjects_ok:
  assumes "rect_laws cv" and "tracker_ok t"
    and valid: "\<forall>obj \<in> set objects. valid_detection (track_in_style t) (track_out_style t) obj"
    and room: "uint (kalman_tracker_create_count t) + int (length objects) \<le> 2000000000"
  shows "\<exists>r t'. TrackObjects cv objects seq t = Some (r, t') \<and> tracker_ok t'
    \<and> track_in_style t' = track_in_style t \<and> track_out_style t' = track_out_style t
    \<and> uint (kalman_tracker_create_count t') \<le> uint (kalman_tracker_create_count t) + int (length objects)
    \<and> (\<forall>results. r = Some results \<longrightarrow> distinct (map track_id results))"
proof -
  let ?P = "predict_all cv (kalmans t)" and ?t = "t\<lparr>kalmans := map snd (predict_all cv (kalmans t))\<rparr>"
  have ids: "ids_ok t" using assms(2) by (simp add: tracker_ok_def)
  obtain Q where "map kt_track_id (kalmans ?t) = map kt_track_id (filter Q (kalmans t))"
    using predict_all_ids [of cv "kalmans t"] by (auto simp: o_def)
  then have idp: "ids_ok ?t" using ids_ok_sub [OF ids, of "kalmans ?t" Q] by simp
  consider (none) "objects = []" | (first) "objects \<noteq> []" "kalmans t = []"
    | (over) "objects \<noteq> []" "kalmans t \<noteq> []" "length ?P > 200 \<or> length objects > 200"
    | (lost) "objects \<noteq> []" "kalmans t \<noteq> []" "\<not> (length ?P > 200 \<or> length objects > 200)" "?P = []"
    | (full) "objects \<noteq> []" "kalmans t \<noteq> []" "\<not> (length ?P > 200 \<or> length objects > 200)" "?P \<noteq> []" by blast
  then show ?thesis
  proof cases
    case none
    then show ?thesis using assms(2) by (simp add: TrackObjects_def)
  next
    case first
    obtain news where n: "kalmans (fold (add_kalman cv) objects t) = news" "length news = length objects"
      "\<forall>i < length objects. time_since_update (news ! i) = 0"
      "track_in_style (fold (add_kalman cv) objects t) = track_in_style t"
      "track_out_style (fold (add_kalman cv) objects t) = track_out_style t"
      using fold_add_kalman_list [of cv "\<lambda>x. x" objects t] first(2) by auto
    have "\<forall>k \<in> set news. time_since_update k \<le> 10" using n(2,3) by (auto simp: in_set_conv_nth)
    then have "tracker_ok (fold (add_kalman cv) objects t)
      \<and> uint (kalman_tracker_create_count (fold (add_kalman cv) objects t)) = uint (kalman_tracker_create_count t) + int (length objects)"
      using fold_add_kalman [OF ids, of objects cv "\<lambda>x. x"] room n(1) by (simp add: tracker_ok_def)
    then show ?thesis using first n(4,5) by (simp add: TrackObjects_def)
  next
    case over
    have "tracker_ok (?t\<lparr>kalmans := erase_over_age (kalmans ?t)\<rparr>)"
      using ids_ok_erase [OF idp] erase_over_age_young by (auto simp: tracker_ok_def)
    then show ?thesis using over by (simp add: TrackObjects_def Let_def SORT_TRACKING_MAX_NUM_def)
  next
    case lost
    then show ?thesis using idp by (simp add: TrackObjects_def Let_def SORT_TRACKING_MAX_NUM_def tracker_ok_def)
  next
    case full
    have "\<exists>results t'. associate cv objects seq (map fst ?P) ?t = Some (Some results, t') \<and> tracker_ok t'
      \<and> track_in_style t' = track_in_style ?t \<and> track_out_style t' = track_out_style ?t
      \<and> uint (kalman_tracker_create_count t') \<le> uint (kalman_tracker_create_count ?t) + int (length objects)
      \<and> distinct (map track_id results)"
      by (rule associate_ok [OF assms(1) idp]) (use full valid room in simp_all)
    then show ?thesis using full by (auto simp: TrackObjects_def Let_def SORT_TRACKING_MAX_NUM_def)
  qed
qed

text \<open>A stream of frames, each with its request number.\<close>

fun run_frames :: "'kf opencv \<Rightarrow> (InferObject list \<times> int) list \<Rightarrow> 'kf sort_tracker \<Rightarrow>
    (InferObject list option list \<times> 'kf sort_tracker) option" where
  "run_frames cv [] t = Some ([], t)"
| "run_frames cv ((objects, seq) # frames) t = do {
     (r, t1) \<leftarrow> TrackObjects cv objects seq t;
     (rs, t2) \<leftarrow> run_frames cv frames t1;
     Some (r # rs, t2) }"


subsection \<open>A concrete OpenCV\<close>

definition rect_empty :: "StateXYWH \<Rightarrow> bool" where
  "rect_empty a = (bbox_w a \<le> 0 \<or> bbox_h a \<le> 0)"

definition sample_cv :: "kf_vector opencv" where
  "sample_cv =
     \<lparr>kf_new = (\<lambda>_ _ _ _ v. v), kf_predict = (\<lambda>v. (v, v)), kf_correct = (\<lambda>m v. m @ drop 4 v), kf_statePost = (\<lambda>v. v),
      rect_and = (\<lambda>a b.
        let x = max (bbox_x a) (bbox_x b); y = max (bbox_y a) (bbox_y b);
            w = min (bbox_x a + bbox_w a) (bbox_x b + bbox_w b) - x;
            h = min (bbox_y a + bbox_h a) (bbox_y b + bbox_h b) - y
        in if rect_empty a \<or> rect_empty b \<or> w \<le> 0 \<or> h \<le> 0
           then \<lparr>bbox_x = 0, bbox_y = 0, bbox_w = 0, bbox_h = 0\<rparr>
           else \<lparr>bbox_x = x, bbox_y = y, bbox_w = w, bbox_h = h\<rparr>),
      rect_or = (\<lambda>a b.
        if rect_empty a then b else if rect_empty b then a
        else let x = min (bbox_x a) (bbox_x b); y = min (bbox_y a) (bbox_y b)
             in \<lparr>bbox_x = x, bbox_y = y, bbox_w = max (bbox_x a + bbox_w a) (bbox_x b + bbox_w b) - x,
                 bbox_h = max (bbox_y a + bbox_h a) (bbox_y b + bbox_h b) - y\<rparr>)\<rparr>"

lemma sample_cv_laws: "rect_laws sample_cv"
proof -
  have "w1 * h1 \<le> w2 * h2" if "0 < w1" "w1 \<le> w2" "0 < h1" "h1 \<le> h2" for w1 w2 h1 h2 :: real
    using that by (intro mult_mono) auto
  then show ?thesis
    by (auto simp: rect_laws_def sample_cv_def rect_area_def rect_empty_def Let_def not_le)
qed

definition sample_style :: ImageExpressStyle where
  "sample_style = ImageExpressStyle_new 100 100 pixel_int ltx_type False 1 0 0 0 0"

definition sample_detection :: "int \<Rightarrow> cfloat \<Rightarrow> InferObject" where
  "sample_detection cls x = InferObject_default\<lparr>class_id := cls,
     bbox := \<lparr>bbox_x = x, bbox_y = 10, bbox_w = 20, bbox_h = 20\<rparr>\<rparr>"

lemma sample_detection_box:
  "get_StateXYWH_obj (sample_detection cls x) sample_style sample_style =
     \<lparr>bbox_x = x, bbox_y = 10, bbox_w = 20, bbox_h = 20\<rparr>"
  by (simp add: get_StateXYWH_obj_def ConvertInferObjectCoordinate_def styles_are_identical_def sample_style_def
      sample_detection_def InferObject_default_def ImageExpressStyle_new_def Let_def)


definition sample_tracker :: "kf_vector sort_tracker" where
  "sample_tracker = add_kalman sample_cv (sample_detection 0 5) (SORTTracker_new sample_style sample_style)"


end
