(* ===== verification/Engine_Types.thy ===== *)
theory Engine_Types
  imports Infer_Object "HOL-Library.Signed_Division" "HOL-Library.Product_Lexorder" "HOL-Library.Multiset"
begin

text \<open>
  The types of the inference pipeline: \<open>BasicLibs/core/types/EngineStreamTypes.h/.cpp\<close> (requester
  identifiers, meta data, the requests and the results that travel through the queues) and
  \<open>BasicLibs/profile/EngineProfile.h/.cpp\<close> (engine profiles and the search for a matching engine).

  Unit identifiers are \<open>int\<close>; the products and sums here stay below \<open>2 ^ 31\<close> for the identifiers the
  theorems speak about.  Division and remainder are those of C++ (towards zero).
\<close>

subsection \<open>Engine profiles\<close>

datatype ModelMajorType = Major_None | Detection_Major
datatype ModelMinorType = Minor_None | YoloV5 | YoloV7 | YoloV8 | YoloV10
datatype ModelOptimizeType = Opt_None | Torch_Onnx_RKNN

record EngineProfile =
  profile_uuid :: u32
  profile_name :: string
  engine_file_path :: string
  classes_yml_path :: string
  model_major_type :: ModelMajorType
  model_minor_type :: ModelMinorType
  model_magic_type :: string
  profile_priority :: u32
  inference_weight :: u32
  input_size_mutable :: bool
  input_image_w :: u32
  input_image_h :: u32
  inference_batch_size :: u32
  opt_type :: ModelOptimizeType
  input_layer_binding_name :: string
  output_layer_binding_name :: string
  confidence_threshold :: cfloat
  nms_threshold :: cfloat

definition INFER_ENGINE_ID_NOT_SET :: u32 where "INFER_ENGINE_ID_NOT_SET = 0"
definition INFER_CLASS_ID_NOT_SET :: int where "INFER_CLASS_ID_NOT_SET = -1"
definition INFER_TRACK_ID_NOT_SET :: int where "INFER_TRACK_ID_NOT_SET = -2"
definition ModelMagicTypeDontCare :: string where "ModelMagicTypeDontCare = ''DontCareMagic''"
definition InferModelUUIDDontCare :: u32 where "InferModelUUIDDontCare = 0xffffff"

record InferRequestRequirements =
  major_type :: ModelMajorType
  minor_type :: ModelMinorType
  magic_type :: string
  model_uuid :: u32

definition InferRequestRequirements_default :: InferRequestRequirements where
  "InferRequestRequirements_default =
     \<lparr>major_type = Major_None, minor_type = Minor_None, magic_type = ModelMagicTypeDontCare,
      model_uuid = InferModelUUIDDontCare\<rparr>"

datatype InferRequestRequireOneType = Magic_Require string | Uuid_Require u32

fun CreateRequirementsFromSingle :: "InferRequestRequireOneType \<Rightarrow> InferRequestRequirements" where
  "CreateRequirementsFromSingle (Magic_Require m) = InferRequestRequirements_default\<lparr>magic_type := m\<rparr>"
| "CreateRequirementsFromSingle (Uuid_Require u) = InferRequestRequirements_default\<lparr>model_uuid := u\<rparr>"

definition IsRequireAtLeastOne :: "InferRequestRequirements \<Rightarrow> bool" where
  "IsRequireAtLeastOne req = (major_type req \<noteq> Major_None \<or> minor_type req \<noteq> Minor_None
     \<or> magic_type req \<noteq> ModelMagicTypeDontCare \<or> model_uuid req \<noteq> InferModelUUIDDontCare)"

text \<open>The four tests of the search loop, each tried only while none before it has matched.\<close>

definition profile_matches :: "InferRequestRequirements \<Rightarrow> u32 \<times> EngineProfile \<Rightarrow> bool" where
  "profile_matches req = (\<lambda>(candidate_uuid, profile).
     let match_found = (major_type req \<noteq> Major_None \<and> major_type req = model_major_type profile);
         match_found = (if \<not> match_found \<and> minor_type req \<noteq> Minor_None
                            \<and> minor_type req = model_minor_type profile then True else match_found);
         match_found = (if \<not> match_found \<and> magic_type req \<noteq> ModelMagicTypeDontCare
                            \<and> magic_type req = model_magic_type profile then True else match_found)
     in if \<not> match_found \<and> model_uuid req \<noteq> InferModelUUIDDontCare
           \<and> model_uuid req = candidate_uuid then True else match_found)"

text \<open>An \<open>unordered_map\<close> of profiles is the list of its entries in its (unspecified) iteration order.\<close>

definition SearchEngineUUID :: "(u32 \<times> EngineProfile) list \<Rightarrow> InferRequestRequirements \<Rightarrow> u32 list" where
  "SearchEngineUUID profiles req =
     (if \<not> IsRequireAtLeastOne req then []
      else map snd (sort (map (\<lambda>(uuid, p). (profile_priority p, uuid)) (filter (profile_matches req) profiles))))"

definition SearchEngineUUID_one :: "(u32 \<times> EngineProfile) list \<Rightarrow> InferRequestRequireOneType \<Rightarrow> u32 list" where
  "SearchEngineUUID_one profiles req = SearchEngineUUID profiles (CreateRequirementsFromSingle req)"

subsection \<open>Requester identifiers\<close>

definition UNIT_ID_NOT_SET :: int where "UNIT_ID_NOT_SET = -1"
definition ENGINE_SUBSCRIBE_BASE_IDENTIFIER_JUMP_OFFSET :: int where
  "ENGINE_SUBSCRIBE_BASE_IDENTIFIER_JUMP_OFFSET = 10000"
definition MAJOR_OFFSET_DIGITS :: int where "MAJOR_OFFSET_DIGITS = 10000"
definition MAJOR_DETECTION :: int where "MAJOR_DETECTION = 0"
definition MAGIC_OFFSET_DIGITS :: int where "MAGIC_OFFSET_DIGITS = 1"
definition ENGINE_MAGIC_TYPE_DETECTION :: int where "ENGINE_MAGIC_TYPE_DETECTION = 0"
definition ENGINE_SUBSCRIBE_MAJOR_IDENTIFIER_JUMP_OFFSET :: int where
  "ENGINE_SUBSCRIBE_MAJOR_IDENTIFIER_JUMP_OFFSET = ENGINE_SUBSCRIBE_BASE_IDENTIFIER_JUMP_OFFSET * MAJOR_OFFSET_DIGITS"
definition DETECTION_ENGINE_IDENTIFIER_JUMP_OFFSET :: int where
  "DETECTION_ENGINE_IDENTIFIER_JUMP_OFFSET = ENGINE_SUBSCRIBE_MAJOR_IDENTIFIER_JUMP_OFFSET * MAJOR_DETECTION"
definition ENGINE_SUBSCRIBE_MAGIC_IDENTIFIER_JUMP_OFFSET :: int where
  "ENGINE_SUBSCRIBE_MAGIC_IDENTIFIER_JUMP_OFFSET = ENGINE_SUBSCRIBE_BASE_IDENTIFIER_JUMP_OFFSET * MAGIC_OFFSET_DIGITS"
definition DETECTION_MAGIC_IDENTIFIER_JUMP_OFFSET :: int where
  "DETECTION_MAGIC_IDENTIFIER_JUMP_OFFSET = ENGINE_SUBSCRIBE_MAGIC_IDENTIFIER_JUMP_OFFSET * ENGINE_MAGIC_TYPE_DETECTION"

lemmas offset_defs = ENGINE_SUBSCRIBE_BASE_IDENTIFIER_JUMP_OFFSET_def MAJOR_OFFSET_DIGITS_def MAJOR_DETECTION_def
  MAGIC_OFFSET_DIGITS_def ENGINE_MAGIC_TYPE_DETECTION_def ENGINE_SUBSCRIBE_MAJOR_IDENTIFIER_JUMP_OFFSET_def
  DETECTION_ENGINE_IDENTIFIER_JUMP_OFFSET_def ENGINE_SUBSCRIBE_MAGIC_IDENTIFIER_JUMP_OFFSET_def
  DETECTION_MAGIC_IDENTIFIER_JUMP_OFFSET_def

definition GetModelMajorTypeFromEngineIdentifier :: "int \<Rightarrow> ModelMajorType" where
  "GetModelMajorTypeFromEngineIdentifier identifier =
     (if identifier sdiv ENGINE_SUBSCRIBE_MAJOR_IDENTIFIER_JUMP_OFFSET = MAJOR_DETECTION then Detection_Major else Major_None)"

fun GetInferenceRequesterID :: "int \<Rightarrow> ModelMajorType \<Rightarrow> ModelMinorType \<Rightarrow> int" where
  "GetInferenceRequesterID base_id Detection_Major minor = DETECTION_ENGINE_IDENTIFIER_JUMP_OFFSET + base_id"
| "GetInferenceRequesterID base_id Major_None minor = base_id"

definition GetInferenceRequesterID_magic :: "int \<Rightarrow> ModelMajorType \<Rightarrow> ModelMinorType \<Rightarrow> int \<Rightarrow> int" where
  "GetInferenceRequesterID_magic base_id major minor magic =
     (case major of
        Detection_Major \<Rightarrow>
          let ret = base_id + DETECTION_ENGINE_IDENTIFIER_JUMP_OFFSET
          in if magic = ENGINE_MAGIC_TYPE_DETECTION then ret + DETECTION_MAGIC_IDENTIFIER_JUMP_OFFSET else ret
      | Major_None \<Rightarrow> base_id)"

definition GetPureIDFromInferenceRequesterID :: "int \<Rightarrow> int" where
  "GetPureIDFromInferenceRequesterID req_id =
     (req_id smod ENGINE_SUBSCRIBE_MAJOR_IDENTIFIER_JUMP_OFFSET) smod ENGINE_SUBSCRIBE_MAGIC_IDENTIFIER_JUMP_OFFSET"

definition GetMagicFlagFromInferenceRequesterID :: "int \<Rightarrow> int" where
  "GetMagicFlagFromInferenceRequesterID req_id =
     (req_id smod ENGINE_SUBSCRIBE_MAJOR_IDENTIFIER_JUMP_OFFSET) sdiv ENGINE_SUBSCRIBE_MAGIC_IDENTIFIER_JUMP_OFFSET"

subsection \<open>Requests and results\<close>

record EngineStreamMetaData =
  requester_unit_id :: int
  requestee_engine_uuid :: u32
  request_image_pixel_w :: u64
  request_image_pixel_h :: u64
  correlation_id :: u64

definition EngineStreamMetaData_default :: EngineStreamMetaData where
  "EngineStreamMetaData_default = \<lparr>requester_unit_id = UNIT_ID_NOT_SET, requestee_engine_uuid = INFER_ENGINE_ID_NOT_SET,
     request_image_pixel_w = 0, request_image_pixel_h = 0, correlation_id = 0\<rparr>"

definition meta_eq :: "EngineStreamMetaData \<Rightarrow> EngineStreamMetaData \<Rightarrow> bool" where
  "meta_eq lhs rhs = (requester_unit_id lhs = requester_unit_id rhs
     \<and> requestee_engine_uuid lhs = requestee_engine_uuid rhs \<and> correlation_id lhs = correlation_id rhs)"

type_synonym EngineHandleUUID = "u32 \<times> int"

text \<open>The shared image is its bytes; \<open>None\<close> is a null pointer.\<close>

record InputLayerWrapper =
  in_meta :: EngineStreamMetaData
  requirements :: InferRequestRequirements
  image_data :: "8 word list option"

record OutputLayerWrapper =
  out_meta :: EngineStreamMetaData
  engine_handle_uuid :: EngineHandleUUID
  out_infer_objects :: "InferObject list"

definition OutputLayerWrapper_eq :: "OutputLayerWrapper \<Rightarrow> OutputLayerWrapper \<Rightarrow> bool" where
  "OutputLayerWrapper_eq lhs rhs = (meta_eq (out_meta lhs) (out_meta rhs)
     \<and> engine_handle_uuid lhs = engine_handle_uuid rhs
     \<and> list_all2 InferObject_eq (out_infer_objects lhs) (out_infer_objects rhs))"

subsection \<open>Properties\<close>

lemma smod_nonneg: "0 \<le> a \<Longrightarrow> 0 < b \<Longrightarrow> a smod b = a mod (b :: int)"
  by (auto simp: signed_modulo_int_def sgn_if)

lemma sdiv_nonneg: "0 \<le> a \<Longrightarrow> 0 < b \<Longrightarrow> a sdiv b = a div (b :: int)"
  by (auto simp: signed_divide_int_def sgn_if)

lemma profile_matches_iff:
  "profile_matches req (uuid, p) \<longleftrightarrow>
     (major_type req \<noteq> Major_None \<and> major_type req = model_major_type p)
     \<or> (minor_type req \<noteq> Minor_None \<and> minor_type req = model_minor_type p)
     \<or> (magic_type req \<noteq> ModelMagicTypeDontCare \<and> magic_type req = model_magic_type p)
     \<or> (model_uuid req \<noteq> InferModelUUIDDontCare \<and> model_uuid req = uuid)"
  by (simp only: profile_matches_def Let_def split_conv if_bool_eq_conj) argo

lemma no_requirement_no_match: "\<not> IsRequireAtLeastOne req \<Longrightarrow> \<not> profile_matches req up"
  by (cases up) (auto simp: IsRequireAtLeastOne_def profile_matches_iff)

lemma SearchEngineUUID_alt:
  "SearchEngineUUID profiles req =
     map snd (sort (map (\<lambda>(uuid, p). (profile_priority p, uuid)) (filter (profile_matches req) profiles)))"
  using no_requirement_no_match [of req] by (auto simp: SearchEngineUUID_def filter_False)

text \<open>
  The engine search returns exactly the engines that meet at least one requirement, the most
  urgent (lowest priority number) first, and its answer does not depend on the order in which the
  hash map is walked.
\<close>

theorem engine_search_exact:
  assumes "distinct (map fst profiles)"
  shows "set (SearchEngineUUID profiles req) = {u. \<exists>p. (u, p) \<in> set profiles \<and> profile_matches req (u, p)}
    \<and> distinct (SearchEngineUUID profiles req)
    \<and> sorted_wrt (\<lambda>u v. profile_priority (the (map_of profiles u)) \<le> profile_priority (the (map_of profiles v)))
        (SearchEngineUUID profiles req)
    \<and> (\<forall>profiles'. mset profiles' = mset profiles \<longrightarrow> SearchEngineUUID profiles' req = SearchEngineUUID profiles req)"
proof -
  let ?f = "\<lambda>(uuid, p). (profile_priority p, uuid)"
  let ?ps = "sort (map ?f (filter (profile_matches req) profiles))"
  have fst_prio: "fst x = profile_priority (the (map_of profiles (snd x)))" if "x \<in> set ?ps" for x
    using that map_of_is_SomeI [OF assms] by fastforce
  have "distinct (map snd (map ?f (filter (profile_matches req) profiles)))"
    using filter_distinct_map [OF assms, of "profile_matches req"] by (simp add: comp_def case_prod_unfold)
  moreover have "mset (map snd ?ps) = mset (map snd (map ?f (filter (profile_matches req) profiles)))"
    by (simp only: mset_map mset_sort)
  ultimately have d: "distinct (map snd ?ps)" using mset_eq_imp_distinct_iff by blast
  have "sorted_wrt (\<lambda>x y. fst x \<le> fst y) ?ps"
    by (rule sorted_wrt_mono_rel [OF _ sorted_sort]) (auto simp: less_eq_prod_def)
  then have srt: "sorted_wrt (\<lambda>x y. profile_priority (the (map_of profiles (snd x))) \<le> profile_priority (the (map_of profiles (snd y)))) ?ps"
    by (rule sorted_wrt_mono_rel [rotated]) (use fst_prio in metis)
  have perm: "SearchEngineUUID profiles' req = SearchEngineUUID profiles req" if "mset profiles' = mset profiles" for profiles'
  proof -
    have "mset (map ?f (filter (profile_matches req) profiles')) = mset (map ?f (filter (profile_matches req) profiles))"
      by (simp add: that)
    then have "sort (map ?f (filter (profile_matches req) profiles')) = ?ps" by (intro properties_for_sort) auto
    then show ?thesis unfolding SearchEngineUUID_alt by simp
  qed
  have "set (SearchEngineUUID profiles req) = {u. \<exists>p. (u, p) \<in> set profiles \<and> profile_matches req (u, p)}"
    unfolding SearchEngineUUID_alt by force
  moreover have "sorted_wrt (\<lambda>u v. profile_priority (the (map_of profiles u)) \<le> profile_priority (the (map_of profiles v)))
      (SearchEngineUUID profiles req)" unfolding SearchEngineUUID_alt sorted_wrt_map by (rule srt)
  moreover have "distinct (SearchEngineUUID profiles req)" unfolding SearchEngineUUID_alt by (rule d)
  ultimately show ?thesis using perm by blast
qed

definition sample_profile :: "u32 \<Rightarrow> u32 \<Rightarrow> EngineProfile" where
  "sample_profile uuid prio = \<lparr>profile_uuid = uuid, profile_name = [], engine_file_path = [], classes_yml_path = [],
     model_major_type = Detection_Major, model_minor_type = YoloV5, model_magic_type = ''Detection'',
     profile_priority = prio, inference_weight = 1, input_size_mutable = False, input_image_w = 640, input_image_h = 640,
     inference_batch_size = 1, opt_type = Torch_Onnx_RKNN, input_layer_binding_name = [], output_layer_binding_name = [],
     confidence_threshold = 1/4, nms_threshold = 1/2\<rparr>"

theorem engine_search_exact_witness:
  "set (SearchEngineUUID [(1, sample_profile 1 9), (2, sample_profile 2 3)] (CreateRequirementsFromSingle (Magic_Require ''Detection''))) = {1, 2}"
proof -
  have "distinct (map fst [(1 :: u32, sample_profile 1 9), (2, sample_profile 2 3)])" by simp
  moreover have "profile_matches (CreateRequirementsFromSingle (Magic_Require ''Detection'')) (u, sample_profile v w)" for u v w
    by (simp add: profile_matches_iff sample_profile_def ModelMagicTypeDontCare_def InferRequestRequirements_default_def)
  ultimately show ?thesis
    using conjunct1 [OF engine_search_exact [of "[(1, sample_profile 1 9), (2, sample_profile 2 3)]" "CreateRequirementsFromSingle (Magic_Require ''Detection'')"]]
    by (simp del: CreateRequirementsFromSingle.simps) blast
qed

text \<open>
  A camera identifier below ten thousand survives the packing into a requester identifier and back,
  whatever the engine's kind, and the packed identifier is recognised as a detection one.
\<close>

theorem requester_id_round_trip:
  assumes "0 \<le> cam" and "cam < 10000"
  shows "GetPureIDFromInferenceRequesterID (GetInferenceRequesterID_magic cam major minor magic) = cam
    \<and> GetPureIDFromInferenceRequesterID (GetInferenceRequesterID cam major minor) = cam
    \<and> GetMagicFlagFromInferenceRequesterID (GetInferenceRequesterID_magic cam major minor magic) = 0
    \<and> GetModelMajorTypeFromEngineIdentifier (GetInferenceRequesterID_magic cam major minor magic) = Detection_Major"
proof -
  have "GetInferenceRequesterID_magic cam major minor magic = cam" "GetInferenceRequesterID cam major minor = cam"
    by (cases major; simp add: GetInferenceRequesterID_magic_def offset_defs Let_def)+
  then show ?thesis using assms
    by (simp add: GetPureIDFromInferenceRequesterID_def GetMagicFlagFromInferenceRequesterID_def
        GetModelMajorTypeFromEngineIdentifier_def offset_defs smod_nonneg sdiv_nonneg)
qed

theorem requester_id_round_trip_witness:
  "GetPureIDFromInferenceRequesterID (GetInferenceRequesterID_magic 9999 Detection_Major YoloV5 0) = 9999"
  using requester_id_round_trip [of 9999 Detection_Major YoloV5 0] by simp

text \<open>From ten thousand on, two cameras share a pure identifier.\<close>

lemma pure_id_collision: "GetPureIDFromInferenceRequesterID 10001 = GetPureIDFromInferenceRequesterID 1"
  by (simp add: GetPureIDFromInferenceRequesterID_def offset_defs smod_nonneg)

end
