(* ===== verification/Inference_Counter.thy ===== *)
theory Inference_Counter
  imports Engine_Types Safe_Thread "HOL-Library.AList"
begin

text \<open>
  \<open>InferenceCounter\<close> of \<open>Management/worker/src/InferenceCounter.cpp\<close>: one counter per requester
  identifier, read and reset by a reporting thread.  Every method runs under \<open>mutex_\<close>, so a method
  and the snapshot of a reporting round are one transition each; a counter is an \<open>unsigned int\<close>.
  The report is what the log line and the gauges show; the disk gauges are not modelled.
\<close>

datatype counter_fun = Counter_runner | Counter_closer

record inference_counter =
  counters :: "(int \<times> u32) list"
  counter_thread :: "counter_fun safe_thread"

definition DFPS_CHECK_INTERVAL_SECONDS :: int where "DFPS_CHECK_INTERVAL_SECONDS = 10"

definition InferenceCounter_new :: inference_counter where
  "InferenceCounter_new = \<lparr>counters = [],
     counter_thread = SetThreadFunctions (Some Counter_runner) (Some Counter_closer) SafeThread_init\<rparr>"

definition counter_Start :: "inference_counter \<Rightarrow> thread_error + inference_counter" where
  "counter_Start c = map_sum id (\<lambda>(ok, t). c\<lparr>counter_thread := t\<rparr>) (Start (counter_thread c))"

definition counter_Stop :: "inference_counter \<Rightarrow> inference_counter" where
  "counter_Stop c = c\<lparr>counter_thread := Stop (counter_thread c)\<rparr>"

definition Regist :: "int \<Rightarrow> inference_counter \<Rightarrow> inference_counter" where
  "Regist unit_id c =
     (if map_of (counters c) unit_id = None then c\<lparr>counters := AList.update unit_id 0 (counters c)\<rparr> else c)"

definition Unregist :: "int \<Rightarrow> inference_counter \<Rightarrow> inference_counter" where
  "Unregist unit_id c =
     (if map_of (counters c) unit_id \<noteq> None then c\<lparr>counters := AList.delete unit_id (counters c)\<rparr> else c)"

definition AddCount :: "int \<Rightarrow> inference_counter \<Rightarrow> inference_counter" where
  "AddCount unit_id c =
     (case map_of (counters c) unit_id of
        None \<Rightarrow> c
      | Some n \<Rightarrow> c\<lparr>counters := AList.update unit_id (n + 1) (counters c)\<rparr>)"

record dfps_report =
  snapshot :: "(int \<times> u32) list"
  total_regist_cam_count :: nat
  main_total_frames :: u32
  active_cnt :: nat
  avg_fps_per_cam :: cfloat
  total_fps_raw :: cfloat
  undetected_list :: "int list"

text \<open>One iteration of the reporting thread up to its wait; no report while nothing is registered.\<close>

definition counter_round :: "inference_counter \<Rightarrow> dfps_report option \<times> inference_counter" where
  "counter_round c =
     (let all_regist_ids = (\<lambda>(u, n). GetPureIDFromInferenceRequesterID u) ` set (counters c);
          shot = counters c;
          c = c\<lparr>counters := map (\<lambda>(u, n). (u, 0)) (counters c)\<rparr>;
          total = card all_regist_ids
      in if total = 0 then (None, c)
         else let counted = filter (\<lambda>(u, n). n \<noteq> 0 \<and> GetModelMajorTypeFromEngineIdentifier u = Detection_Major) shot;
                  frames = sum_list (map snd counted);
                  active_ids = (\<lambda>(u, n). GetPureIDFromInferenceRequesterID u) ` set counted;
                  active = card active_ids;
                  interval = (if DFPS_CHECK_INTERVAL_SECONDS > 0 then DFPS_CHECK_INTERVAL_SECONDS else 1)
              in (Some \<lparr>snapshot = shot, total_regist_cam_count = total, main_total_frames = frames,
                        active_cnt = active,
                        avg_fps_per_cam = (if active = 0 then 0 else of_nat (unat frames) / (of_nat active * of_int interval)),
                        total_fps_raw = of_nat (unat frames) / of_int interval,
                        undetected_list = (if active < total then sorted_list_of_set (all_regist_ids - active_ids) else [])\<rparr>, c))"

text \<open>The calls of the balancer and the rounds of the reporting thread, in any order.\<close>

datatype counter_call = Call_Regist int | Call_Unregist int | Call_AddCount int | Call_round

fun counter_step :: "inference_counter \<times> dfps_report list \<Rightarrow> counter_call \<Rightarrow> inference_counter \<times> dfps_report list" where
  "counter_step (c, reps) (Call_Regist u) = (Regist u c, reps)"
| "counter_step (c, reps) (Call_Unregist u) = (Unregist u c, reps)"
| "counter_step (c, reps) (Call_AddCount u) = (AddCount u c, reps)"
| "counter_step (c, reps) Call_round = (case counter_round c of (None, c') \<Rightarrow> (c', reps) | (Some r, c') \<Rightarrow> (c', reps @ [r]))"

subsection \<open>Every frame is reported once\<close>

definition counter_of :: "inference_counter \<Rightarrow> int \<rightharpoonup> u32" where
  "counter_of c = map_of (counters c)"

definition counter_inv :: "inference_counter \<Rightarrow> bool" where
  "counter_inv c = distinct (map fst (counters c))"

lemma counter_of_Regist [simp]: "counter_of (Regist u c) = (if counter_of c u = None then (counter_of c)(u \<mapsto> 0) else counter_of c)"
  by (simp add: counter_of_def Regist_def update_conv')

lemma counter_of_Unregist: "counter_inv c \<Longrightarrow> counter_of (Unregist u c) = (counter_of c)(u := None)"
  by (auto simp: counter_of_def Unregist_def delete_conv' fun_eq_iff)

lemma counter_of_AddCount [simp]:
  "counter_of (AddCount u c) = (case counter_of c u of None \<Rightarrow> counter_of c | Some n \<Rightarrow> (counter_of c)(u \<mapsto> n + 1))"
  by (auto simp: counter_of_def AddCount_def update_conv' split: option.split)

lemma counter_inv_ops [simp]:
  "counter_inv c \<Longrightarrow> counter_inv (Regist u c)"
  "counter_inv c \<Longrightarrow> counter_inv (Unregist u c)"
  "counter_inv c \<Longrightarrow> counter_inv (AddCount u c)"
  by (auto simp: counter_inv_def Regist_def Unregist_def AddCount_def distinct_update distinct_delete split: option.split)

lemma map_of_zeros: "map_of (map (\<lambda>p. (fst p, 0)) xs) v = map_option (\<lambda>_. 0) (map_of xs v)"
  by (induction xs) auto

lemma counter_round_cases:
  "counter_of (snd (counter_round c)) v = map_option (\<lambda>_. 0) (counter_of c v)"
  "counter_inv c \<Longrightarrow> counter_inv (snd (counter_round c))"
  "fst (counter_round c) = Some r \<Longrightarrow> snapshot r = counters c"
  "fst (counter_round c) = None \<longleftrightarrow> counters c = []"
  by (auto simp: counter_round_def counter_of_def counter_inv_def map_of_zeros Let_def comp_def case_prod_unfold split: if_splits)

definition reported :: "int \<Rightarrow> dfps_report list \<Rightarrow> u32" where
  "reported u reps = sum_list (map (\<lambda>r. the (map_of (snapshot r) u)) reps)"

definition adds_of :: "int \<Rightarrow> counter_call list \<Rightarrow> nat" where
  "adds_of u cs = length (filter (\<lambda>c. c = Call_AddCount u) cs)"

lemma counter_step_conserves:
  assumes "counter_inv c" and "counter_of c u = Some n" and "call \<noteq> Call_Unregist u"
  shows "\<exists>c' reps' m. counter_step (c, reps) call = (c', reps') \<and> counter_inv c' \<and> counter_of c' u = Some m
    \<and> reported u reps' + m = reported u reps + n + of_nat (adds_of u [call])"
proof (cases call)
  case Call_round
  obtain r c' where rc: "counter_round c = (r, c')" by fastforce
  have ne: "counters c \<noteq> []" using assms(2) by (auto simp: counter_of_def)
  then obtain rep where r: "r = Some rep" using counter_round_cases(4) [of c] rc by (cases r) auto
  then have "snapshot rep = counters c" using counter_round_cases(3) [of c rep] rc by simp
  then show ?thesis using Call_round rc r assms counter_round_cases(1,2) [of c] 
    by (auto simp: reported_def adds_of_def counter_of_def)
qed (use assms in \<open>auto simp: adds_of_def counter_of_Unregist split: option.split\<close>)

text \<open>
  No frame is lost or counted twice.  While a requester stays registered, whatever other
  registrations, counts and reporting rounds happen in between, the counts in the reports and the
  count still pending add up to the frames counted (in 32-bit arithmetic).
\<close>

theorem frames_reported_once:
  assumes "distinct (map fst (counters c))" and "map_of (counters c) u = Some n" and "Call_Unregist u \<notin> set cs"
  shows "\<exists>c' reps m. foldl counter_step (c, []) cs = (c', reps) \<and> map_of (counters c') u = Some m
    \<and> reported u reps + m = n + of_nat (adds_of u cs)"
proof -
  have "\<exists>c' reps' m. foldl counter_step (c, reps) cs = (c', reps') \<and> counter_inv c' \<and> counter_of c' u = Some m
     \<and> reported u reps' + m = reported u reps + n + of_nat (adds_of u cs)"
    if "counter_inv c" "counter_of c u = Some n" "Call_Unregist u \<notin> set cs" for c reps n cs
    using that
  proof (induction cs arbitrary: c reps n)
    case (Cons call cs)
    then obtain c1 reps1 m1 where 1: "counter_step (c, reps) call = (c1, reps1)" "counter_inv c1" "counter_of c1 u = Some m1"
      "reported u reps1 + m1 = reported u reps + n + of_nat (adds_of u [call])"
      using counter_step_conserves [of c u n call reps] by auto
    obtain c2 reps2 m2 where 2: "foldl counter_step (c1, reps1) cs = (c2, reps2)" "counter_inv c2" "counter_of c2 u = Some m2"
      "reported u reps2 + m2 = reported u reps1 + m1 + of_nat (adds_of u cs)"
      using Cons.IH [OF 1(2,3), of reps1] Cons.prems(3) by auto
    have "adds_of u (call # cs) = adds_of u [call] + adds_of u cs" by (simp add: adds_of_def)
    then have "reported u reps2 + m2 = reported u reps + n + of_nat (adds_of u (call # cs))"
      using 2(4) 1(4) by (simp add: add.assoc)
    then show ?case using 1(1) 2(1-3) by auto
  qed (auto simp: adds_of_def)
  from this [of c n cs "[]"] show ?thesis using assms by (auto simp: counter_inv_def counter_of_def reported_def)
qed

theorem frames_reported_once_witness:
  "\<exists>c' reps m. foldl counter_step (Regist 7 InferenceCounter_new, []) [Call_AddCount 7, Call_round, Call_AddCount 7, Call_AddCount 7] = (c', reps)
     \<and> map_of (counters c') 7 = Some m \<and> reported 7 reps + m = 3"
  using frames_reported_once [of "Regist 7 InferenceCounter_new" 7 0 "[Call_AddCount 7, Call_round, Call_AddCount 7, Call_AddCount 7]"]
  by (simp add: Regist_def InferenceCounter_new_def adds_of_def)

end
