(* ===== verification/Engine_Load_Balancer.thy ===== *)
theory Engine_Load_Balancer
  imports Inference_Counter Safe_Queue Reply_Cleaner
begin

text \<open>
  \<open>EngineLoadBalancer\<close> of \<open>Management/manager/src/EngineLoadBalancer.cpp\<close>: engine handlers link
  their input queues, requests are spread over them in turn, and a dispatcher thread moves the
  results from the one respond queue to the result queue of the camera that asked.

  Queues are shared pointers: the input queues of the handlers and the result queues of the
  cameras live in stores indexed by address.  A method is one transition; what other threads do to
  a queue between two locks of one method is an argument of the method.  A null queue pointer that
  is dereferenced is the value \<open>None\<close>.
\<close>

datatype lb_fun = Dispatch_runner | Dispatch_closer

record load_balancer =
  engine_profiles :: "(u32 \<times> EngineProfile) list"
  engine_handles :: "EngineHandleUUID list"
  engine_input_qs :: "(EngineHandleUUID \<times> nat) list"
  round_robin_idx :: u64
  respond_receiver :: "OutputLayerWrapper safe_queue"
  reply_dispatcher :: "(int, OutputLayerWrapper) reply_cleaner"
  cam_result_qs :: "(int \<times> nat) list"
  subscribers :: "int set"
  reply_dispatcher_thread :: "lb_fun safe_thread"
  inference_counter_m :: inference_counter
  is_terminate_instance :: bool
  input_store :: "nat \<Rightarrow> InputLayerWrapper safe_queue"
  result_store :: "nat \<Rightarrow> OutputLayerWrapper safe_queue"
  next_result :: nat

definition MAX_ENGINE_INFER_INPUT_QUEUE_SIZE :: nat where "MAX_ENGINE_INFER_INPUT_QUEUE_SIZE = 128"

text \<open>\<open>emplace\<close> keeps the first profile of an identifier.\<close>

definition CreateProfileMap :: "EngineProfile list \<Rightarrow> (u32 \<times> EngineProfile) list" where
  "CreateProfileMap profiles =
     foldl (\<lambda>m p. if map_of m (profile_uuid p) = None then m @ [(profile_uuid p, p)] else m) [] profiles"

definition EngineLoadBalancer_new :: "EngineProfile list \<Rightarrow> thread_error + load_balancer" where
  "EngineLoadBalancer_new profiles =
     (case Start (SetThreadFunctions (Some Dispatch_runner) (Some Dispatch_closer) SafeThread_init) of
        Inl e \<Rightarrow> Inl e
      | Inr (ok, t) \<Rightarrow>
          map_sum id (\<lambda>r. \<lparr>engine_profiles = CreateProfileMap profiles, engine_handles = [], engine_input_qs = [],
            round_robin_idx = 0, respond_receiver = SafeQueue_init, reply_dispatcher = r, cam_result_qs = [],
            subscribers = {}, reply_dispatcher_thread = t, inference_counter_m = InferenceCounter_new,
            is_terminate_instance = False, input_store = (\<lambda>_. SafeQueue_init),
            result_store = (\<lambda>_. SafeQueue_init), next_result = 0\<rparr>)
            (StartAutoCleanup 10000 5000 ReplyCleaner_init))"

definition ReplyDispatcherThreadCloser :: "load_balancer \<Rightarrow> load_balancer" where
  "ReplyDispatcherThreadCloser lb = lb\<lparr>respond_receiver := terminate (respond_receiver lb)\<rparr>"

text \<open>\<open>SafeThread::Stop\<close> calls the closer only when the thread runs.\<close>

definition stop_dispatcher_thread :: "load_balancer \<Rightarrow> load_balancer" where
  "stop_dispatcher_thread lb =
     (let lb' = (if is_running (reply_dispatcher_thread lb) \<and> thread_closer (reply_dispatcher_thread lb) \<noteq> None
                 then ReplyDispatcherThreadCloser lb else lb)
      in lb'\<lparr>reply_dispatcher_thread := Stop (reply_dispatcher_thread lb)\<rparr>)"

definition lb_Terminate :: "load_balancer \<Rightarrow> bool \<times> load_balancer" where
  "lb_Terminate lb =
     (if \<not> is_terminate_instance lb then
        let lb = lb\<lparr>is_terminate_instance := True\<rparr>;
            lb = lb\<lparr>reply_dispatcher := StopAutoCleanup (reply_dispatcher lb)\<rparr>;
            lb = stop_dispatcher_thread lb;
            lb = lb\<lparr>inference_counter_m := counter_Stop (inference_counter_m lb)\<rparr>
        in (True, lb\<lparr>engine_input_qs := [], engine_handles := []\<rparr>)
      else (False, lb))"

definition IsLoadEngine :: "load_balancer \<Rightarrow> bool" where
  "IsLoadEngine lb = (if is_terminate_instance lb then False else engine_input_qs lb \<noteq> [])"

definition GetAvailableInferEngineID :: "load_balancer \<Rightarrow> InferRequestRequireOneType \<Rightarrow> u32" where
  "GetAvailableInferEngineID lb req =
     (case SearchEngineUUID_one (engine_profiles lb) req of [] \<Rightarrow> INFER_ENGINE_ID_NOT_SET | c # cs \<Rightarrow> c)"

definition GetEngineProfileTargetInferEngineID :: "load_balancer \<Rightarrow> u32 \<Rightarrow> EngineProfile option" where
  "GetEngineProfileTargetInferEngineID lb i = map_of (engine_profiles lb) i"

definition Subscribe :: "int \<Rightarrow> load_balancer \<Rightarrow> bool \<times> load_balancer" where
  "Subscribe unit_id lb =
     (if is_terminate_instance lb then (False, lb)
      else if unit_id \<in> subscribers lb then (False, lb)
      else let lb = lb\<lparr>subscribers := insert unit_id (subscribers lb),
                       inference_counter_m := Regist unit_id (inference_counter_m lb)\<rparr>;
               a = next_result lb
           in (True, lb\<lparr>result_store := (result_store lb)(a := SetMaxSize 10 SafeQueue_init), next_result := Suc a,
                        cam_result_qs := AList.update unit_id a (cam_result_qs lb)\<rparr>))"

definition Unsubscribe :: "int \<Rightarrow> load_balancer \<Rightarrow> load_balancer" where
  "Unsubscribe unit_id lb =
     (let lb = (if unit_id \<in> subscribers lb
                then lb\<lparr>inference_counter_m := Unregist unit_id (inference_counter_m lb),
                        subscribers := subscribers lb - {unit_id}\<rparr> else lb)
      in case map_of (cam_result_qs lb) unit_id of
           None \<Rightarrow> lb
         | Some a \<Rightarrow> lb\<lparr>result_store := (result_store lb)(a := terminate (result_store lb a)),
                        cam_result_qs := AList.delete unit_id (cam_result_qs lb)\<rparr>)"

text \<open>The result says whether the handler gets the respond queue (a null pointer otherwise).\<close>

definition Linker :: "EngineHandleUUID \<Rightarrow> nat \<Rightarrow> load_balancer \<Rightarrow> bool \<times> load_balancer" where
  "Linker handle_uuid input_q lb =
     (if is_terminate_instance lb then (False, lb)
      else if map_of (engine_input_qs lb) handle_uuid \<noteq> None then (False, lb)
      else if map_of (engine_profiles lb) (fst handle_uuid) = None then (False, lb)
      else (True, lb\<lparr>engine_input_qs := AList.update handle_uuid input_q (engine_input_qs lb),
                     engine_handles := engine_handles lb @ [handle_uuid]\<rparr>))"

definition no_image :: "InputLayerWrapper \<Rightarrow> bool" where
  "no_image request = (image_data request = None \<or> image_data request = Some [])"

text \<open>\<open>race\<close>: what other threads do to the chosen queue between its size check and the enqueue.\<close>

definition RequestAsync :: "InputLayerWrapper sq_call list \<Rightarrow> InputLayerWrapper \<Rightarrow> load_balancer \<Rightarrow> (bool \<times> load_balancer) option" where
  "RequestAsync race request lb =
     (if is_terminate_instance lb then Some (False, lb)
      else if no_image request then Some (False, lb)
      else if engine_handles lb = [] then Some (False, lb)
      else let idx = unat (round_robin_idx lb) mod length (engine_handles lb);
               lb = lb\<lparr>round_robin_idx := round_robin_idx lb + 1\<rparr>;
               target_handle = engine_handles lb ! idx
           in case map_of (engine_input_qs lb) target_handle of
                None \<Rightarrow> None
              | Some a \<Rightarrow>
                  if sq_size (input_store lb a) \<ge> MAX_ENGINE_INFER_INPUT_QUEUE_SIZE then Some (False, lb)
                  else let request = request\<lparr>in_meta := (in_meta request)\<lparr>requestee_engine_uuid := fst target_handle\<rparr>\<rparr>;
                           q = foldl sq_step (input_store lb a) race
                       in Some (True, lb\<lparr>input_store := (input_store lb)(a := enqueue_move request q)\<rparr>))"

text \<open>\<open>wakes\<close>: what other threads do to the camera's queue at each wake-up while the caller sleeps.\<close>

definition RespondAsync ::
  "int \<Rightarrow> OutputLayerWrapper sq_call list list \<Rightarrow> load_balancer \<Rightarrow> OutputLayerWrapper option \<times> load_balancer" where
  "RespondAsync unit_id wakes lb =
     (if unit_id \<notin> subscribers lb then (None, lb)
      else case map_of (cam_result_qs lb) unit_id of
             None \<Rightarrow> (None, lb)
           | Some a \<Rightarrow> (case dequeue_wait_for wakes (result_store lb a) of
                          (r, q) \<Rightarrow> (r, lb\<lparr>result_store := (result_store lb)(a := q)\<rparr>)))"

definition Request ::
  "InputLayerWrapper sq_call list \<Rightarrow> InputLayerWrapper \<Rightarrow> OutputLayerWrapper sq_call list list \<Rightarrow> load_balancer \<Rightarrow>
   (OutputLayerWrapper option \<times> load_balancer) option" where
  "Request race request wakes lb =
     (if no_image request then Some (None, lb)
      else case RequestAsync race request lb of
             None \<Rightarrow> None
           | Some (ok, lb') \<Rightarrow> if \<not> ok then Some (None, lb')
                               else Some (RespondAsync (requester_unit_id (in_meta request)) wakes lb'))"

definition DestroySubscribersAll :: "load_balancer \<Rightarrow> load_balancer" where
  "DestroySubscribersAll lb =
     (let lb = lb\<lparr>reply_dispatcher := cleaner_terminate (reply_dispatcher lb)\<rparr>;
          lb = lb\<lparr>result_store := (\<lambda>a. if a \<in> snd ` set (cam_result_qs lb) then terminate (result_store lb a) else result_store lb a)\<rparr>;
          lb = lb\<lparr>subscribers := {}\<rparr>
      in lb\<lparr>cam_result_qs := []\<rparr>)"

definition AddInferCount :: "int \<Rightarrow> load_balancer \<Rightarrow> load_balancer" where
  "AddInferCount u lb = lb\<lparr>inference_counter_m := AddCount u (inference_counter_m lb)\<rparr>"

definition StartInferenceCounter :: "load_balancer \<Rightarrow> thread_error + load_balancer" where
  "StartInferenceCounter lb = map_sum id (\<lambda>c. lb\<lparr>inference_counter_m := c\<rparr>) (counter_Start (inference_counter_m lb))"

definition StopInferenceCounter :: "load_balancer \<Rightarrow> load_balancer" where
  "StopInferenceCounter lb = lb\<lparr>inference_counter_m := counter_Stop (inference_counter_m lb)\<rparr>"

definition deliver :: "OutputLayerWrapper \<Rightarrow> load_balancer \<Rightarrow> load_balancer" where
  "deliver respond lb =
     (case map_of (cam_result_qs lb) (requester_unit_id (out_meta respond)) of
        None \<Rightarrow> lb
      | Some a \<Rightarrow> lb\<lparr>result_store := (result_store lb)(a := enqueue_move respond (result_store lb a))\<rparr>)"

text \<open>
  One element per iteration: the running flag and what other threads do to the respond queue while
  the dispatcher waits on it.
\<close>

fun ReplyDispatcherThreadRunner ::
  "(bool \<times> OutputLayerWrapper sq_call list list) list \<Rightarrow> load_balancer \<Rightarrow> load_balancer" where
  "ReplyDispatcherThreadRunner [] lb = lb"
| "ReplyDispatcherThreadRunner ((running, wakes) # ticks) lb =
     (if \<not> running then lb
      else case dequeue_wait_for wakes (respond_receiver lb) of
        (None, q) \<Rightarrow> (if is_terminated q then lb\<lparr>respond_receiver := q\<rparr>
                     else ReplyDispatcherThreadRunner ticks (lb\<lparr>respond_receiver := q\<rparr>))
      | (Some respond, q) \<Rightarrow> ReplyDispatcherThreadRunner ticks (deliver respond (lb\<lparr>respond_receiver := q\<rparr>)))"

definition GetRespondReceiverSize :: "load_balancer \<Rightarrow> nat" where
  "GetRespondReceiverSize lb = sq_size (respond_receiver lb)"

definition GetTotalInputQueueSize :: "load_balancer \<Rightarrow> nat" where
  "GetTotalInputQueueSize lb = sum_list (map (\<lambda>(h, a). sq_size (input_store lb a)) (engine_input_qs lb))"

definition GetReplyDispatcherEntrySize :: "load_balancer \<Rightarrow> nat" where
  "GetReplyDispatcherEntrySize lb = total_size (dispatcher_state (reply_dispatcher lb))"

definition GetCamResultQTotalSize :: "load_balancer \<Rightarrow> nat" where
  "GetCamResultQTotalSize lb = sum_list (map (\<lambda>(u, a). sq_size (result_store lb a)) (cam_result_qs lb))"

definition GetCamResultQTotalDrop :: "load_balancer \<Rightarrow> u64" where
  "GetCamResultQTotalDrop lb = sum_list (map (\<lambda>(u, a). GetDropCount (result_store lb a)) (cam_result_qs lb))"

subsection \<open>The invariant\<close>

text \<open>The handles in the rotation and their queues; the cameras and their result queues.\<close>

definition link_inv :: "load_balancer \<Rightarrow> bool" where
  "link_inv lb = (distinct (engine_handles lb) \<and> set (engine_handles lb) = fst ` set (engine_input_qs lb)
     \<and> distinct (map fst (engine_input_qs lb))
     \<and> (\<forall>h \<in> set (engine_handles lb). map_of (engine_profiles lb) (fst h) \<noteq> None)
     \<and> (is_terminate_instance lb \<longrightarrow> engine_handles lb = []))"

definition results_inv ::
  "int set \<Rightarrow> (int \<times> nat) list \<Rightarrow> (nat \<Rightarrow> OutputLayerWrapper safe_queue) \<Rightarrow> nat \<Rightarrow> bool" where
  "results_inv subs qs store nxt = (distinct (map fst qs) \<and> distinct (map snd qs) \<and> subs = fst ` set qs
     \<and> (\<forall>(u, a) \<in> set qs. a < nxt \<and> within_cap 10 (store a)
          \<and> (\<forall>r \<in> set (sq_q (store a)). requester_unit_id (out_meta r) = u)))"

definition lb_inv :: "load_balancer \<Rightarrow> bool" where
  "lb_inv lb = (link_inv lb \<and> results_inv (subscribers lb) (cam_result_qs lb) (result_store lb) (next_result lb))"

datatype lb_call =
  LB_Subscribe int | LB_Unsubscribe int | LB_Linker EngineHandleUUID nat | LB_RequestAsync "InputLayerWrapper sq_call list" InputLayerWrapper
| LB_RespondAsync int | LB_deliver OutputLayerWrapper | LB_Destroy | LB_Terminate

fun lb_step :: "load_balancer option \<Rightarrow> lb_call \<Rightarrow> load_balancer option" where
  "lb_step None c = None"
| "lb_step (Some lb) (LB_Subscribe u) = Some (snd (Subscribe u lb))"
| "lb_step (Some lb) (LB_Unsubscribe u) = Some (Unsubscribe u lb)"
| "lb_step (Some lb) (LB_Linker h a) = Some (snd (Linker h a lb))"
| "lb_step (Some lb) (LB_RequestAsync race r) = map_option snd (RequestAsync race r lb)"
| "lb_step (Some lb) (LB_RespondAsync u) = Some (snd (RespondAsync u [] lb))"
| "lb_step (Some lb) (LB_deliver r) = Some (deliver r lb)"
| "lb_step (Some lb) LB_Destroy = Some (DestroySubscribersAll lb)"
| "lb_step (Some lb) LB_Terminate = Some (snd (lb_Terminate lb))"

lemma fst_set_update: "fst ` set (AList.update k v al) = insert k (fst ` set al)"
  by (metis dom_map_of_conv_image_fst dom_fun_upd option.distinct(1) update_conv')

lemma in_set_tlD: "x \<in> set (tl xs) \<Longrightarrow> x \<in> set xs"
  by (cases xs) auto

lemma set_alist_delete: "set (AList.delete k al) = {p \<in> set al. fst p \<noteq> k}"
  by (induction al) auto

lemma alist_update_fresh: "k \<notin> fst ` set al \<Longrightarrow> AList.update k v al = al @ [(k, v)]"
  by (induction al) auto

lemma distinct_snd_delete: "distinct (map snd al) \<Longrightarrow> distinct (map snd (AList.delete k al))"
  by (induction al) (auto simp: set_alist_delete)

lemma distinct_snd_unique: "distinct (map snd al) \<Longrightarrow> (k, a) \<in> set al \<Longrightarrow> (k', a) \<in> set al \<Longrightarrow> k = k'"
  by (induction al) (auto simp: image_iff Bex_def)

lemma lb_inv_Linker: "lb_inv lb \<Longrightarrow> lb_inv (snd (Linker h a lb))"
  by (auto simp: Linker_def lb_inv_def link_inv_def fst_set_update distinct_update map_of_eq_None_iff)

lemma target_linked:
  assumes "lb_inv lb" and "engine_handles lb \<noteq> []"
  shows "\<exists>a. map_of (engine_input_qs lb) (engine_handles lb ! (n mod length (engine_handles lb))) = Some a"
proof -
  have "engine_handles lb ! (n mod length (engine_handles lb)) \<in> set (engine_handles lb)"
    using assms(2) by simp
  then have "map_of (engine_input_qs lb) (engine_handles lb ! (n mod length (engine_handles lb))) \<noteq> None"
    using assms(1) by (simp add: lb_inv_def link_inv_def map_of_eq_None_iff)
  then show ?thesis by auto
qed

lemma lb_inv_RequestAsync: "lb_inv lb \<Longrightarrow> \<exists>ok lb'. RequestAsync race r lb = Some (ok, lb') \<and> lb_inv lb'"
  using target_linked [of lb "unat (round_robin_idx lb)"]
  by (auto simp: RequestAsync_def lb_inv_def link_inv_def Let_def split: option.split)

lemma link_inv_frame [simp]:
  "link_inv (lb\<lparr>result_store := x1\<rparr>) = link_inv lb"
  "link_inv (lb\<lparr>cam_result_qs := x2\<rparr>) = link_inv lb"
  "link_inv (lb\<lparr>subscribers := x3\<rparr>) = link_inv lb"
  "link_inv (lb\<lparr>next_result := x4\<rparr>) = link_inv lb"
  "link_inv (lb\<lparr>inference_counter_m := x5\<rparr>) = link_inv lb"
  "link_inv (lb\<lparr>reply_dispatcher := x6\<rparr>) = link_inv lb"
  by (simp_all add: link_inv_def)

lemma results_inv_add:
  "results_inv subs qs store n \<Longrightarrow> u \<notin> subs \<Longrightarrow>
   results_inv (insert u subs) (AList.update u n qs) (store(n := SetMaxSize 10 SafeQueue_init)) (Suc n)"
  by (fastforce simp: results_inv_def alist_update_fresh within_cap_def SetMaxSize_def SafeQueue_init_def)

lemma results_inv_remove:
  assumes "results_inv subs qs store n" and "map_of qs u = Some a"
  shows "results_inv (subs - {u}) (AList.delete u qs) (store(a := q)) n"
proof -
  have "b \<noteq> a" if "(v, b) \<in> set qs" "v \<noteq> u" for v b
    using assms that by (auto simp: results_inv_def dest!: map_of_SomeD dest: distinct_snd_unique)
  then show ?thesis using assms(1)
    by (auto simp: results_inv_def distinct_delete distinct_snd_delete set_alist_delete image_iff)
qed

text \<open>A change of one camera's queue that keeps its capacity and its owner keeps the invariant.\<close>

lemma results_inv_upd:
  assumes "results_inv subs qs store n" and "map_of qs u = Some a" and "within_cap 10 q"
    and "\<forall>r \<in> set (sq_q q). requester_unit_id (out_meta r) = u"
  shows "results_inv subs qs (store(a := q)) n"
proof -
  have owner: "v = u" if "(v, a) \<in> set qs" for v
    using that assms(1,2) by (auto simp: results_inv_def dest!: map_of_SomeD dest: distinct_snd_unique)
  show ?thesis using assms(1,3,4) by (auto simp: results_inv_def dest: owner)
qed

lemma results_inv_queue:
  assumes "results_inv subs qs store n" and "map_of qs u = Some a"
  shows "within_cap 10 (store a)" "\<forall>r \<in> set (sq_q (store a)). requester_unit_id (out_meta r) = u"
  using assms by (auto simp: results_inv_def split: prod.splits dest!: map_of_SomeD bspec [of "set qs"])

lemma lb_inv_Subscribe: "lb_inv lb \<Longrightarrow> lb_inv (snd (Subscribe u lb))"
  by (simp add: Subscribe_def lb_inv_def Let_def results_inv_add)

lemma lb_inv_Unsubscribe:
  assumes "lb_inv lb"
  shows "lb_inv (Unsubscribe u lb)"
proof (cases "map_of (cam_result_qs lb) u")
  case None
  then have "u \<notin> subscribers lb" using assms by (simp add: lb_inv_def results_inv_def map_of_eq_None_iff)
  then show ?thesis using None assms by (simp add: Unsubscribe_def)
next
  case (Some a)
  then have "u \<in> subscribers lb" using assms by (force simp: lb_inv_def results_inv_def dest: map_of_SomeD)
  then show ?thesis using Some assms
    by (simp add: Unsubscribe_def lb_inv_def results_inv_remove)
qed

lemma lb_inv_RespondAsync: "lb_inv lb \<Longrightarrow> lb_inv (snd (RespondAsync u [] lb))"
proof (cases "map_of (cam_result_qs lb) u")
  case (Some a)
  assume inv: "lb_inv lb"
  then have ri: "results_inv (subscribers lb) (cam_result_qs lb) (result_store lb) (next_result lb)"
    by (simp add: lb_inv_def)
  note ok = results_inv_queue [OF ri Some]
  have eq: "dequeue_wait_for [] (result_store lb a) = dequeue_now (result_store lb a)"
    by (simp add: dequeue_wait_for_def dequeue_now_def)
  have "results_inv (subscribers lb) (cam_result_qs lb)
      ((result_store lb)(a := snd (dequeue_now (result_store lb a)))) (next_result lb)"
    using ok by (intro results_inv_upd [OF ri Some])
      (auto simp: dequeue_now_cases within_cap_def dest: in_set_tlD)
  then show ?thesis using inv Some eq by (auto simp: RespondAsync_def lb_inv_def split: prod.split)
qed (auto simp: RespondAsync_def)

lemma lb_inv_deliver: "lb_inv lb \<Longrightarrow> lb_inv (deliver r lb)"
proof (cases "map_of (cam_result_qs lb) (requester_unit_id (out_meta r))")
  case (Some a)
  assume inv: "lb_inv lb"
  then have ri: "results_inv (subscribers lb) (cam_result_qs lb) (result_store lb) (next_result lb)"
    by (simp add: lb_inv_def)
  note ok = results_inv_queue [OF ri Some]
  have "results_inv (subscribers lb) (cam_result_qs lb)
      ((result_store lb)(a := enqueue_move r (result_store lb a))) (next_result lb)"
    using ok by (intro results_inv_upd [OF ri Some])
      (auto simp: enqueue_move_copy sq_q_enqueue within_cap_def dest: in_set_tlD split: if_splits)
  then show ?thesis using inv Some by (simp add: deliver_def lb_inv_def)
qed (simp add: deliver_def)

lemma lb_inv_Destroy: "lb_inv lb \<Longrightarrow> lb_inv (DestroySubscribersAll lb)"
  by (simp add: DestroySubscribersAll_def lb_inv_def results_inv_def Let_def)

lemma lb_inv_Terminate: "lb_inv lb \<Longrightarrow> lb_inv (snd (lb_Terminate lb))"
  by (auto simp: lb_Terminate_def stop_dispatcher_thread_def ReplyDispatcherThreadCloser_def lb_inv_def link_inv_def Let_def)

lemmas lb_inv_ops = lb_inv_Linker lb_inv_Subscribe lb_inv_Unsubscribe lb_inv_RespondAsync lb_inv_deliver
  lb_inv_Destroy lb_inv_Terminate

interpretation lb: op_system lb_step "\<lambda>_. True" "\<lambda>s. \<exists>lb. s = Some lb \<and> lb_inv lb"
proof unfold_locales
  fix s c assume "\<exists>lb. s = Some lb \<and> lb_inv lb"
  then obtain lb where "s = Some lb" "lb_inv lb" by auto
  then show "\<exists>lb'. lb_step s c = Some lb' \<and> lb_inv lb'"
    using lb_inv_RequestAsync by (cases c) (auto simp: lb_inv_ops, metis option.simps(9) snd_conv)
qed

lemma EngineLoadBalancer_new_ok:
  "\<exists>lb. EngineLoadBalancer_new profiles = Inr lb \<and> lb_inv lb \<and> \<not> is_terminate_instance lb
     \<and> engine_profiles lb = CreateProfileMap profiles \<and> is_running (reply_dispatcher_thread lb)"
  by (simp add: EngineLoadBalancer_new_def Start_def SetThreadFunctions_def SafeThread_init_def
      StartAutoCleanup_def ReplyCleaner_init_def lb_inv_def link_inv_def results_inv_def)


subsection \<open>Results reach the camera that asked\<close>

definition of_unit :: "int \<Rightarrow> OutputLayerWrapper \<Rightarrow> bool" where
  "of_unit u r = (requester_unit_id (out_meta r) = u)"

lemma deliver_frame [simp]:
  "cam_result_qs (deliver r lb) = cam_result_qs lb" "respond_receiver (deliver r lb) = respond_receiver lb"
  "deliver r (lb\<lparr>respond_receiver := q\<rparr>) = (deliver r lb)\<lparr>respond_receiver := q\<rparr>"
  by (auto simp: deliver_def split: option.split)

lemma deliver_queue:
  assumes "lb_inv lb" and "map_of (cam_result_qs lb) u = Some a"
  shows "result_store (deliver r lb) a = (if of_unit u r then enqueue_copy r (result_store lb a) else result_store lb a)"
proof -
  have owner: "v = u" if "map_of (cam_result_qs lb) v = Some a" for v
    using assms that by (auto simp: lb_inv_def results_inv_def dest!: map_of_SomeD dest: distinct_snd_unique)
  show ?thesis using assms(2) by (auto simp: deliver_def of_unit_def enqueue_move_copy split: option.split dest: owner)
qed

lemma fold_deliver_queue:
  "lb_inv lb \<Longrightarrow> map_of (cam_result_qs lb) u = Some a \<Longrightarrow>
   result_store (fold deliver rs lb) a = sq.enq_all (filter (of_unit u) rs) (result_store lb a)"
proof (induction rs arbitrary: lb)
  case (Cons r rs)
  from Cons.IH [of "deliver r lb"] Cons.prems show ?case by (auto simp: lb_inv_deliver deliver_queue)
qed simp

lemma fold_deliver_frame:
  "cam_result_qs (fold deliver rs lb) = cam_result_qs lb"
  "fold deliver rs (lb\<lparr>respond_receiver := q\<rparr>) = (fold deliver rs lb)\<lparr>respond_receiver := q\<rparr>"
  by (induction rs arbitrary: lb) auto

lemma runner_drains:
  "\<not> b_terminate (respond_receiver lb) \<Longrightarrow> sq_q (respond_receiver lb) = rs \<Longrightarrow>
   ReplyDispatcherThreadRunner (replicate (length rs) (True, [])) lb
     = (fold deliver rs lb)\<lparr>respond_receiver := (respond_receiver lb)\<lparr>sq_q := []\<rparr>\<rparr>"
proof (induction rs arbitrary: lb)
  case Nil
  then show ?case by simp
next
  case (Cons r rs)
  have deq: "dequeue_wait_for [] (respond_receiver lb) = (Some r, (respond_receiver lb)\<lparr>sq_q := rs\<rparr>)"
    using Cons.prems by (simp add: dequeue_wait_for_def wait_pred_def take_front_def)
  have "ReplyDispatcherThreadRunner (replicate (length rs) (True, [])) (deliver r (lb\<lparr>respond_receiver := (respond_receiver lb)\<lparr>sq_q := rs\<rparr>\<rparr>))
     = (fold deliver rs (deliver r (lb\<lparr>respond_receiver := (respond_receiver lb)\<lparr>sq_q := rs\<rparr>\<rparr>)))\<lparr>respond_receiver := (respond_receiver lb)\<lparr>sq_q := []\<rparr>\<rparr>"
    using Cons.IH [of "deliver r (lb\<lparr>respond_receiver := (respond_receiver lb)\<lparr>sq_q := rs\<rparr>\<rparr>)"] Cons.prems by simp
  then show ?case using deq by (simp add: fold_deliver_frame)
qed

text \<open>
  C17. Results reach the camera that asked.  When the dispatcher thread has emptied the respond queue,
  each subscribed camera's queue holds the newest ten of what it held followed by its own results
  in the order of their arrival, and nothing of another camera; the respond queue is empty, and
  results of cameras that are not subscribed are gone.
\<close>

theorem results_routed:
  assumes "lb_inv lb" and "\<not> b_terminate (respond_receiver lb)" and "map_of (cam_result_qs lb) u = Some a"
  shows "let rs = sq_q (respond_receiver lb);
             lb' = ReplyDispatcherThreadRunner (replicate (length rs) (True, [])) lb
         in sq_q (result_store lb' a) = last_n 10 (sq_q (result_store lb a) @ filter (of_unit u) rs)
          \<and> (\<forall>r \<in> set (sq_q (result_store lb' a)). requester_unit_id (out_meta r) = u)
          \<and> sq_q (respond_receiver lb') = [] \<and> cam_result_qs lb' = cam_result_qs lb"
proof -
  let ?rs = "sq_q (respond_receiver lb)"
  have ri: "results_inv (subscribers lb) (cam_result_qs lb) (result_store lb) (next_result lb)"
    using assms(1) by (simp add: lb_inv_def)
  note ok = results_inv_queue [OF ri assms(3)]
  have q: "sq_q (result_store (fold deliver ?rs lb) a) = last_n 10 (sq_q (result_store lb a) @ filter (of_unit u) ?rs)"
    using ok(1) sq.contents_enq_all [of "result_store lb a" "filter (of_unit u) ?rs"]
    by (simp add: fold_deliver_queue [OF assms(1,3)] within_cap_def)
  have "\<forall>r \<in> set (last_n 10 (sq_q (result_store lb a) @ filter (of_unit u) ?rs)). requester_unit_id (out_meta r) = u"
    using ok(2) by (auto simp: last_n_def of_unit_def dest!: in_set_dropD)
  then show ?thesis using q runner_drains [OF assms(2) refl] by (simp add: Let_def fold_deliver_frame)
qed

subsection \<open>The rotation\<close>

definition accept :: "InputLayerWrapper \<Rightarrow> load_balancer \<Rightarrow> load_balancer option" where
  "accept r lb = (case RequestAsync [] r lb of Some (True, lb') \<Rightarrow> Some lb' | _ \<Rightarrow> None)"

definition stamp :: "EngineHandleUUID \<Rightarrow> InputLayerWrapper \<Rightarrow> InputLayerWrapper" where
  "stamp h r = r\<lparr>in_meta := (in_meta r)\<lparr>requestee_engine_uuid := fst h\<rparr>\<rparr>"

text \<open>The share of handler \<open>j\<close> of \<open>n\<close> when the rotation stands at \<open>s\<close>.\<close>

fun share :: "nat \<Rightarrow> nat \<Rightarrow> nat \<Rightarrow> 'a list \<Rightarrow> 'a list" where
  "share s n j [] = []"
| "share s n j (r # rs) = (if s mod n = j then [r] else []) @ share (Suc s) n j rs"

lemma add_mod_fixed:
  assumes "x < n" and "j < n" and "(x + j) mod n = (j::nat)"
  shows "x = 0"
proof (cases "x + j < n")
  case False
  then have "(x + j) mod n = (x + j - n) mod n" by (simp only: le_mod_geq not_less)
  moreover have "x + j - n < n" using assms(1,2) by linarith
  ultimately have "x + j - n = j" using assms(3) by (simp only: mod_less)
  then show ?thesis using assms(1,2) False by linarith
qed (use assms in simp)

lemma mod_eq_shift:
  assumes "Suc (j + c) = n"
  shows "Suc (s + c) mod n = 0 \<longleftrightarrow> s mod n = j"
proof -
  have "Suc (s + c) + j = s + n" using assms by simp
  then have sum: "(Suc (s + c) mod n + j) mod n = s mod n" by (metis mod_add_left_eq mod_add_self2)
  have less: "Suc (s + c) mod n < n" "j < n" using assms by auto
  show ?thesis
  proof
    assume "Suc (s + c) mod n = 0"
    then have "(0 + j) mod n = s mod n" using sum by (simp only:)
    then show "s mod n = j" using less(2) by simp
  next
    assume "s mod n = j"
    then show "Suc (s + c) mod n = 0" using add_mod_fixed [OF less] sum by (simp only:)
  qed
qed

lemma length_share:
  assumes "Suc (j + c) = n"
  shows "length (share s n j rs) + (s + c) div n = (s + c + length rs) div n"
proof (induction rs arbitrary: s)
  case (Cons r rs)
  have "Suc (s + c) div n = (s + c) div n + (if s mod n = j then 1 else 0)"
    by (simp only: div_Suc mod_eq_shift [OF assms]) simp
  with Cons.IH [of "Suc s"] show ?case by (auto split: if_splits)
qed simp

lemma share_fair:
  assumes "j < n"
  shows "length (share s n j rs) \<in> {length rs div n, Suc (length rs div n)}"
proof -
  obtain c where c: "Suc (j + c) = n" using assms less_imp_Suc_add by blast
  define t where "t = s + c"
  define q r where "q = length rs div n" and "r = length rs mod n"
  have "t + length rs = (t + r) + q * n" by (simp add: q_def r_def)
  then have "(t + length rs) div n = q + (t + r) div n"
    using assms by (metis div_mult_self1 less_nat_zero_code)
  then have len: "length (share s n j rs) + t div n = q + (t + r) div n" using length_share [OF c, of s rs] by (simp add: t_def)
  have lo: "t div n \<le> (t + r) div n" by (simp add: div_le_mono)
  have "t + r \<le> t + n" using assms by (simp add: r_def)
  then have "(t + r) div n \<le> (t + n) div n" by (rule div_le_mono)
  then have "(t + r) div n \<le> Suc (t div n)" using assms by simp
  then show ?thesis using len lo by (auto simp: q_def)
qed

definition rotation_ready :: "nat \<Rightarrow> load_balancer \<Rightarrow> bool" where
  "rotation_ready m lb = (lb_inv lb \<and> \<not> is_terminate_instance lb \<and> engine_handles lb \<noteq> []
     \<and> distinct (map snd (engine_input_qs lb)) \<and> unat (round_robin_idx lb) + m < 2 ^ 64
     \<and> (\<forall>(h, a) \<in> set (engine_input_qs lb). max_size (input_store lb a) = 0
          \<and> sq_size (input_store lb a) + m \<le> MAX_ENGINE_INFER_INPUT_QUEUE_SIZE))"

lemma accept_next:
  assumes "rotation_ready (Suc m) lb" and "\<not> no_image r"
  shows "\<exists>lb' a. accept r lb = Some lb' \<and> rotation_ready m lb' \<and> engine_handles lb' = engine_handles lb
    \<and> engine_input_qs lb' = engine_input_qs lb \<and> unat (round_robin_idx lb') = Suc (unat (round_robin_idx lb))
    \<and> map_of (engine_input_qs lb) (engine_handles lb ! (unat (round_robin_idx lb) mod length (engine_handles lb))) = Some a
    \<and> input_store lb' = (input_store lb)(a := enqueue_copy
         (stamp (engine_handles lb ! (unat (round_robin_idx lb) mod length (engine_handles lb))) r) (input_store lb a))"
proof -
  let ?h = "engine_handles lb ! (unat (round_robin_idx lb) mod length (engine_handles lb))"
  have inv: "lb_inv lb" and ne: "engine_handles lb \<noteq> []" and nt: "\<not> is_terminate_instance lb"
    and qs: "\<forall>(h, a) \<in> set (engine_input_qs lb). max_size (input_store lb a) = 0
          \<and> sq_size (input_store lb a) + Suc m \<le> MAX_ENGINE_INFER_INPUT_QUEUE_SIZE"
    and small: "unat (round_robin_idx lb) + Suc m < 2 ^ 64"
    using assms(1) by (auto simp: rotation_ready_def)
  obtain a where a: "map_of (engine_input_qs lb) ?h = Some a" using target_linked [OF inv ne] by blast
  have room: "max_size (input_store lb a) = 0" "sq_size (input_store lb a) + Suc m \<le> MAX_ENGINE_INFER_INPUT_QUEUE_SIZE"
    using qs map_of_SomeD [OF a] by auto
  define lb' where "lb' = lb\<lparr>round_robin_idx := round_robin_idx lb + 1,
     input_store := (input_store lb)(a := enqueue_copy (stamp ?h r) (input_store lb a))\<rparr>"
  have acc: "accept r lb = Some lb'" using nt assms(2) ne a room
    by (simp add: accept_def RequestAsync_def lb'_def stamp_def enqueue_move_copy Let_def)
  have rr: "unat (round_robin_idx lb') = Suc (unat (round_robin_idx lb))"
    using small by (simp add: lb'_def unat_word_ariths)
  have "lb_inv lb'" using inv by (simp add: lb'_def lb_inv_def link_inv_def)
  moreover have "(\<forall>(h, a) \<in> set (engine_input_qs lb'). max_size (input_store lb' a) = 0
          \<and> sq_size (input_store lb' a) + m \<le> MAX_ENGINE_INFER_INPUT_QUEUE_SIZE)"
    using qs room by (auto simp: lb'_def sq_size_def sq_q_enqueue)
  ultimately have "rotation_ready m lb'" using assms(1) rr small by (simp add: rotation_ready_def lb'_def)
  then show ?thesis using acc a rr by (intro exI [of _ lb'] exI [of _ a]) (simp add: lb'_def)
qed

lemma accept_all:
  assumes "rotation_ready (length rs) lb" and "list_all (\<lambda>r. \<not> no_image r) rs"
  shows "\<exists>lb'. for_each accept rs lb = Some lb' \<and>
    (\<forall>j a. j < length (engine_handles lb) \<longrightarrow> map_of (engine_input_qs lb) (engine_handles lb ! j) = Some a \<longrightarrow>
       sq_q (input_store lb' a) = sq_q (input_store lb a) @
         map (stamp (engine_handles lb ! j)) (share (unat (round_robin_idx lb)) (length (engine_handles lb)) j rs))"
  using assms
proof (induction rs arbitrary: lb)
  case (Cons r rs)
  let ?N = "length (engine_handles lb)" and ?i = "unat (round_robin_idx lb)"
  obtain lb1 a where 1: "accept r lb = Some lb1" "rotation_ready (length rs) lb1" "engine_handles lb1 = engine_handles lb"
    "engine_input_qs lb1 = engine_input_qs lb" "unat (round_robin_idx lb1) = Suc ?i"
    "map_of (engine_input_qs lb) (engine_handles lb ! (?i mod ?N)) = Some a"
    "input_store lb1 = (input_store lb)(a := enqueue_copy (stamp (engine_handles lb ! (?i mod ?N)) r) (input_store lb a))"
    using accept_next [of "length rs" lb r] Cons.prems by auto
  obtain lb' where 2: "for_each accept rs lb1 = Some lb'"
    "\<And>j b. j < ?N \<Longrightarrow> map_of (engine_input_qs lb) (engine_handles lb ! j) = Some b \<Longrightarrow>
       sq_q (input_store lb' b) = sq_q (input_store lb1 b) @ map (stamp (engine_handles lb ! j)) (share (Suc ?i) ?N j rs)"
    using Cons.IH [OF 1(2)] Cons.prems(2) 1(3-5) by auto
  have first: "sq_q (input_store lb1 b) = sq_q (input_store lb b) @ (if ?i mod ?N = j then [stamp (engine_handles lb ! j) r] else [])"
    if j: "j < ?N" and b: "map_of (engine_input_qs lb) (engine_handles lb ! j) = Some b" for j b
  proof -
    have dist: "distinct (engine_handles lb)" "distinct (map snd (engine_input_qs lb))" "0 < ?N"
      using Cons.prems(1) j by (auto simp: rotation_ready_def lb_inv_def link_inv_def)
    have "max_size (input_store lb a) = 0" using Cons.prems(1) map_of_SomeD [OF 1(6)] by (auto simp: rotation_ready_def)
    moreover have "b = a \<longleftrightarrow> ?i mod ?N = j"
    proof
      assume "b = a"
      then have "engine_handles lb ! j = engine_handles lb ! (?i mod ?N)"
        using distinct_snd_unique [OF dist(2)] map_of_SomeD [OF b] map_of_SomeD [OF 1(6)] by blast
      then show "?i mod ?N = j" using dist j nth_eq_iff_index_eq by fastforce
    qed (use b 1(6) in auto)
    ultimately show ?thesis using 1(7) by (auto simp: sq_q_enqueue)
  qed
  have "sq_q (input_store lb' b) = sq_q (input_store lb b) @ map (stamp (engine_handles lb ! j)) (share ?i ?N j (r # rs))"
    if "j < ?N" "map_of (engine_input_qs lb) (engine_handles lb ! j) = Some b" for j b
    using 2(2) [OF that] first [OF that] by simp
  then show ?case using 1(1) 2(1) by auto
qed simp

text \<open>
  C18. Requests are spread evenly.  While every input queue has room and the rotation counter does not
  wrap, a burst of requests is accepted whole; handler \<open>j\<close> of \<open>n\<close> receives, in order, exactly the
  requests at the positions \<open>i\<close> with \<open>(start + i) mod n = j\<close>, stamped with its engine, so any two
  handlers' loads differ by at most one.
\<close>

theorem requests_round_robin:
  assumes "rotation_ready (length rs) lb" and "list_all (\<lambda>r. \<not> no_image r) rs"
    and "j < length (engine_handles lb)" and "map_of (engine_input_qs lb) (engine_handles lb ! j) = Some a"
  shows "\<exists>lb' mine. for_each accept rs lb = Some lb'
    \<and> mine = share (unat (round_robin_idx lb)) (length (engine_handles lb)) j rs
    \<and> sq_q (input_store lb' a) = sq_q (input_store lb a) @ map (stamp (engine_handles lb ! j)) mine
    \<and> length mine \<in> {length rs div length (engine_handles lb), Suc (length rs div length (engine_handles lb))}"
  using accept_all [OF assms(1,2)] share_fair [OF assms(3)] assms(3,4) by blast

subsection \<open>Backpressure and termination\<close>

lemma sq_step_grows: "sq_size (sq_step q c) \<le> Suc (sq_size q)"
  by (cases c) (auto simp: sq_size_def SetMaxSize_def enqueue_move_copy sq_q_enqueue terminate_def
      clear_without_action_def dequeue_now_cases)

lemma race_grows: "sq_size (foldl sq_step q race) \<le> sq_size q + length race"
proof (induction race arbitrary: q)
  case (Cons c race)
  show ?case using Cons.IH [of "sq_step q c"] sq_step_grows [of q c] by simp
qed simp

lemma enqueue_grows: "sq_size (enqueue_move t q) \<le> Suc (sq_size q)"
  using sq_step_grows [of q "Call_enqueue_move t"] by simp

definition racing_at_most :: "nat \<Rightarrow> lb_call \<Rightarrow> bool" where
  "racing_at_most k c = (case c of LB_RequestAsync race r \<Rightarrow> length race \<le> k | _ \<Rightarrow> True)"

definition inputs_within :: "nat \<Rightarrow> load_balancer \<Rightarrow> bool" where
  "inputs_within k lb = (\<forall>a. sq_size (input_store lb a) \<le> MAX_ENGINE_INFER_INPUT_QUEUE_SIZE + k)"

lemma inputs_within_RequestAsync:
  assumes "inputs_within k lb" and "length race \<le> k" and "RequestAsync race r lb = Some (ok, lb')"
  shows "inputs_within k lb'"
proof -
  have "sq_size (enqueue_move t (foldl sq_step q race)) \<le> MAX_ENGINE_INFER_INPUT_QUEUE_SIZE + k"
    if "\<not> MAX_ENGINE_INFER_INPUT_QUEUE_SIZE \<le> sq_size q" for t and q :: "InputLayerWrapper safe_queue"
    using that assms(2) race_grows [of q race] enqueue_grows [of t "foldl sq_step q race"] by linarith
  then show ?thesis using assms(1,3)
    by (auto simp: RequestAsync_def inputs_within_def Let_def split: if_splits option.splits)
qed

lemma inputs_within_frame:
  "input_store (snd (Subscribe u lb)) = input_store lb" "input_store (Unsubscribe u lb) = input_store lb"
  "input_store (snd (Linker h a lb)) = input_store lb" "input_store (snd (RespondAsync u [] lb)) = input_store lb"
  "input_store (deliver o' lb) = input_store lb" "input_store (DestroySubscribersAll lb) = input_store lb"
  "input_store (snd (lb_Terminate lb)) = input_store lb"
  by (auto simp: Subscribe_def Unsubscribe_def Linker_def RespondAsync_def deliver_def DestroySubscribersAll_def
      lb_Terminate_def stop_dispatcher_thread_def ReplyDispatcherThreadCloser_def Let_def split: option.splits prod.splits)

interpretation lbq: op_system lb_step "racing_at_most k" "\<lambda>s. \<forall>lb. s = Some lb \<longrightarrow> inputs_within k lb" for k
proof unfold_locales
  fix s :: "load_balancer option" and c assume inv: "\<forall>lb. s = Some lb \<longrightarrow> inputs_within k lb" and ok: "racing_at_most k c"
  show "\<forall>lb. lb_step s c = Some lb \<longrightarrow> inputs_within k lb"
  proof (cases s)
    case (Some lb)
    then show ?thesis using inv ok inputs_within_RequestAsync [of k lb]
      by (cases c) (auto simp: racing_at_most_def inputs_within_def inputs_within_frame)
  qed simp
qed

text \<open>
  Backpressure.  If at most \<open>k\<close> other enqueues fall between the size check of a request and its own
  enqueue, no input queue ever grows beyond 128 + \<open>k\<close> requests, whatever the sequence of calls.
\<close>

theorem input_queues_bounded:
  assumes "inputs_within k lb" and "list_all (racing_at_most k) cs" and "foldl lb_step (Some lb) cs = Some lb'"
  shows "sq_size (input_store lb' a) \<le> 128 + k"
  using lbq.inv_run [where s = "Some lb" and cs = cs and k = k] assms by (simp add: inputs_within_def MAX_ENGINE_INFER_INPUT_QUEUE_SIZE_def)

lemma terminated_frame:
  "is_terminate_instance lb \<Longrightarrow> lb_step (Some lb) c = Some lb' \<Longrightarrow> is_terminate_instance lb'"
  by (cases c) (auto simp: Subscribe_def Unsubscribe_def Linker_def RequestAsync_def RespondAsync_def deliver_def
      DestroySubscribersAll_def lb_Terminate_def Let_def split: option.splits prod.splits)

interpretation lbt: op_system lb_step "\<lambda>_. True" "\<lambda>s. \<forall>lb. s = Some lb \<longrightarrow> is_terminate_instance lb"
proof unfold_locales
  fix s :: "load_balancer option" and c assume "\<forall>lb. s = Some lb \<longrightarrow> is_terminate_instance lb"
  then show "\<forall>lb. lb_step s c = Some lb \<longrightarrow> is_terminate_instance lb"
    by (cases s) (auto intro: terminated_frame)
qed

lemma lb_Terminate_sets: "is_terminate_instance (snd (lb_Terminate lb))"
  by (simp add: lb_Terminate_def stop_dispatcher_thread_def ReplyDispatcherThreadCloser_def Let_def)

text \<open>
  Termination is final.  Once \<open>Terminate\<close> is among the calls, the balancer reports no engine, refuses
  every new subscription, link and request without changing, and a second \<open>Terminate\<close> does nothing.
\<close>

theorem terminated_balancer_refuses:
  assumes "LB_Terminate \<in> set cs" and "foldl lb_step (Some lb) cs = Some lb'"
  shows "\<not> IsLoadEngine lb' \<and> Subscribe u lb' = (False, lb') \<and> Linker h q lb' = (False, lb')
    \<and> RequestAsync race r lb' = Some (False, lb') \<and> lb_Terminate lb' = (False, lb')"
proof -
  from assms(1) obtain us vs where cs: "cs = us @ LB_Terminate # vs" by (auto simp: in_set_conv_decomp)
  let ?s = "lb_step (foldl lb_step (Some lb) us) LB_Terminate"
  have "\<forall>lb1. ?s = Some lb1 \<longrightarrow> is_terminate_instance lb1"
    by (cases "foldl lb_step (Some lb) us") (auto simp: lb_Terminate_sets)
  then have "\<forall>lb1. foldl lb_step ?s vs = Some lb1 \<longrightarrow> is_terminate_instance lb1"
    by (intro lbt.inv_run) (auto simp: list_all_iff)
  then have "is_terminate_instance lb'" using assms(2) by (simp add: cs)
  then show ?thesis by (simp add: IsLoadEngine_def Subscribe_def Linker_def RequestAsync_def lb_Terminate_def)
qed

subsection \<open>Concrete runs\<close>

definition sample_request :: "int \<Rightarrow> InputLayerWrapper" where
  "sample_request u = \<lparr>in_meta = EngineStreamMetaData_default\<lparr>requester_unit_id := u\<rparr>,
     requirements = InferRequestRequirements_default, image_data = Some [0]\<rparr>"

definition sample_result :: "int \<Rightarrow> OutputLayerWrapper" where
  "sample_result u = \<lparr>out_meta = EngineStreamMetaData_default\<lparr>requester_unit_id := u\<rparr>, engine_handle_uuid = (7, 0),
     out_infer_objects = []\<rparr>"

definition sample_balancer :: load_balancer where
  "sample_balancer = snd (Subscribe 5 (snd (Linker (7, 1) 1 (snd (Linker (7, 0) 0 (projr (EngineLoadBalancer_new [sample_profile 7 1])))))))"

lemma sample_request_image [simp]: "\<not> no_image (sample_request u)"
  by (simp add: sample_request_def no_image_def)

lemma sample_result_unit [simp]: "of_unit u (sample_result v) = (v = u)"
  by (simp add: sample_result_def of_unit_def)

lemma sample_balancer_inv: "lb_inv sample_balancer"
  using EngineLoadBalancer_new_ok [of "[sample_profile 7 1]"]
  by (auto simp: sample_balancer_def lb_inv_ops)

lemmas sample_simps = EngineLoadBalancer_new_def Start_def SetThreadFunctions_def SafeThread_init_def StartAutoCleanup_def
  ReplyCleaner_init_def CreateProfileMap_def sample_profile_def Linker_def Subscribe_def Let_def SafeQueue_init_def SetMaxSize_def

lemma sample_balancer_fields:
  "engine_handles sample_balancer = [(7, 0), (7, 1)]" "engine_input_qs sample_balancer = [((7, 0), 0), ((7, 1), 1)]"
  "\<not> is_terminate_instance sample_balancer" "round_robin_idx sample_balancer = 0" "cam_result_qs sample_balancer = [(5, 0)]"
  "input_store sample_balancer = (\<lambda>_. SafeQueue_init)" "respond_receiver sample_balancer = SafeQueue_init"
  "result_store sample_balancer 0 = SetMaxSize 10 SafeQueue_init"
  by (simp_all add: sample_balancer_def sample_simps)

theorem requests_round_robin_witness:
  "\<exists>lb' mine. for_each accept [sample_request 5, sample_request 6, sample_request 7] sample_balancer = Some lb'
    \<and> mine = [sample_request 5, sample_request 7] \<and> sq_q (input_store lb' 0) = map (stamp (7, 0)) mine"
  using requests_round_robin [of "[sample_request 5, sample_request 6, sample_request 7]" sample_balancer 0 0]
    sample_balancer_inv
  by (simp add: rotation_ready_def sample_balancer_fields SafeQueue_init_def sq_size_def
      MAX_ENGINE_INFER_INPUT_QUEUE_SIZE_def del: for_each.simps) blast

theorem results_routed_witness:
  "let lb = sample_balancer\<lparr>respond_receiver := enqueue_move (sample_result 5) (enqueue_move (sample_result 6) SafeQueue_init)\<rparr>;
       lb' = ReplyDispatcherThreadRunner [(True, []), (True, [])] lb
   in sq_q (result_store lb' 0) = [sample_result 5]"
proof -
  let ?lb = "sample_balancer\<lparr>respond_receiver := enqueue_move (sample_result 5) (enqueue_move (sample_result 6) SafeQueue_init)\<rparr>"
  have "lb_inv ?lb" using sample_balancer_inv by (simp add: lb_inv_def link_inv_def)
  then show ?thesis using results_routed [of ?lb 5 0]
    by (simp add: sample_balancer_fields enqueue_move_copy sq_q_enqueue SafeQueue_init_def SetMaxSize_def Let_def
        del: ReplyDispatcherThreadRunner.simps)
qed

theorem input_queues_bounded_witness:
  "\<exists>lb'. foldl lb_step (Some sample_balancer) [LB_RequestAsync [] (sample_request 5), LB_Unsubscribe 5] = Some lb'
     \<and> sq_size (input_store lb' 0) \<le> 128"
proof -
  obtain lb' where lb': "foldl lb_step (Some sample_balancer) [LB_RequestAsync [] (sample_request 5), LB_Unsubscribe 5] = Some lb'"
    using lb.inv_run [of "Some sample_balancer" "[LB_RequestAsync [] (sample_request 5), LB_Unsubscribe 5]"] sample_balancer_inv
    by auto
  then show ?thesis using input_queues_bounded [OF _ _ lb', of 0 0]
    by (simp add: inputs_within_def sample_balancer_fields SafeQueue_init_def sq_size_def racing_at_most_def)
qed

theorem terminated_balancer_refuses_witness:
  "\<exists>lb'. foldl lb_step (Some sample_balancer) [LB_Terminate, LB_Subscribe 9] = Some lb' \<and> \<not> IsLoadEngine lb'
     \<and> RequestAsync [] (sample_request 5) lb' = Some (False, lb')"
proof -
  obtain lb' where lb': "foldl lb_step (Some sample_balancer) [LB_Terminate, LB_Subscribe 9] = Some lb'" by simp
  then show ?thesis using terminated_balancer_refuses [OF _ lb'] by auto
qed

end
