(* ===== verification/Engine_Handler.thy ===== *)
theory Engine_Handler
  imports Engine_Load_Balancer
begin

text \<open>
  \<open>EngineHandlerBase\<close> of \<open>Engine/EngineBase/src/EngineHandlerBase.cpp\<close>: the life cycle of an inference
  engine (link to the balancer, load, start, stop) and its inference loop, which takes requests from
  the engine's queue, batches them, runs the model and puts the replies into the respond queue.

  The pure virtual functions are the fields of a record \<open>engine_ops\<close> over the derived class's own
  state \<open>'d\<close>; a thrown exception is the value \<open>Throws\<close> (both \<open>catch\<close> clauses of the source do the same)
  and an invalid memory access of a derived function is \<open>None\<close>.  The replies of one iteration are
  returned in the order in which the source enqueues them.
\<close>

datatype 'a vcall = Returns 'a | Throws

datatype handler_fun = Inference_runner | Inference_closer

type_synonym 'd batch_state = "InputLayerWrapper list \<times> 'd"

record 'd engine_ops =
  op_InitializeDevice :: "'d \<Rightarrow> bool \<times> 'd"
  op_LoadModelEngineFile :: "'d \<Rightarrow> bool \<times> 'd"
  op_AllocateBuffers :: "'d \<Rightarrow> (bool \<times> 'd) option"
  op_ReleaseDeviceResources :: "'d \<Rightarrow> 'd"
  op_Preprocess :: "InputLayerWrapper \<Rightarrow> 'd batch_state \<Rightarrow> (bool vcall \<times> 'd batch_state) option"
  op_DoInference :: "'d batch_state \<Rightarrow> (bool vcall \<times> 'd batch_state) option"
  op_Postprocess :: "'d batch_state \<Rightarrow> (OutputLayerWrapper list vcall \<times> 'd batch_state) option"

text \<open>\<open>request_q\<close> is the address of the queue in the balancer's store, \<open>respond_q\<close> says that the pointer is not null.\<close>

record 'd engine_handler =
  handler_profile :: EngineProfile
  handler_device_id :: int
  batch_size :: u32
  engine_linker :: bool
  request_q :: "nat option"
  respond_q :: bool
  current_batch_inputs :: "InputLayerWrapper list"
  is_activate_handler :: bool
  inference_thread :: "handler_fun safe_thread"
  device :: 'd

definition EngineHandler_new :: "EngineProfile \<Rightarrow> int \<Rightarrow> 'd \<Rightarrow> 'd engine_handler" where
  "EngineHandler_new profile dev_id d = \<lparr>handler_profile = profile, handler_device_id = dev_id,
     batch_size = inference_batch_size profile, engine_linker = False, request_q = None, respond_q = False,
     current_batch_inputs = [], is_activate_handler = False, inference_thread = SafeThread_init, device = d\<rparr>"

definition GetEngineHandleUUID :: "'d engine_handler \<Rightarrow> EngineHandleUUID" where
  "GetEngineHandleUUID h = (profile_uuid (handler_profile h), handler_device_id h)"

definition SetEngineLinker :: "'d engine_handler \<Rightarrow> 'd engine_handler" where
  "SetEngineLinker h = h\<lparr>engine_linker := True\<rparr>"

definition IsActive :: "'d engine_handler \<Rightarrow> bool" where
  "IsActive h = is_activate_handler h"

text \<open>\<open>fresh\<close> is the address of the queue that \<open>make_shared\<close> returns.\<close>

definition Link :: "nat \<Rightarrow> 'd engine_handler \<Rightarrow> load_balancer \<Rightarrow> bool \<times> 'd engine_handler \<times> load_balancer" where
  "Link fresh h lb =
     (if \<not> engine_linker h then (False, h, lb)
      else let h = h\<lparr>request_q := Some fresh\<rparr>;
               lb = lb\<lparr>input_store := (input_store lb)(fresh := SafeQueue_init)\<rparr>
           in case Linker (GetEngineHandleUUID h) fresh lb of
                (linked, lb) \<Rightarrow>
                  let h = h\<lparr>respond_q := linked\<rparr>
                  in if \<not> respond_q h then (False, h\<lparr>request_q := None, engine_linker := False\<rparr>, lb)
                     else (True, h, lb))"

definition InitializeDeviceAndModel :: "'d engine_ops \<Rightarrow> 'd engine_handler \<Rightarrow> (bool \<times> 'd engine_handler) option" where
  "InitializeDeviceAndModel ops h =
     (case op_LoadModelEngineFile ops (device h) of
        (loaded, d) \<Rightarrow>
          if \<not> loaded then Some (False, h\<lparr>device := d\<rparr>)
          else map_option (\<lambda>(allocated, d). (allocated, h\<lparr>device := d\<rparr>)) (op_AllocateBuffers ops d))"

datatype handler_error = Invalid_access | Thread_error thread_error

definition ActivateEngine ::
  "'d engine_ops \<Rightarrow> nat \<Rightarrow> 'd engine_handler \<Rightarrow> load_balancer \<Rightarrow> handler_error + bool \<times> 'd engine_handler \<times> load_balancer" where
  "ActivateEngine ops fresh h lb =
     (if is_activate_handler h then Inr (True, h, lb)
      else if \<not> engine_linker h then Inr (False, h, lb)
      else case Link fresh h lb of
             (linked, h, lb) \<Rightarrow>
               if \<not> linked then Inr (False, h, lb)
               else case InitializeDeviceAndModel ops h of
                      None \<Rightarrow> Inl Invalid_access
                    | Some (ok, h) \<Rightarrow>
                        if \<not> ok then Inr (False, h, lb)
                        else case Start (SetThreadFunctions (Some Inference_runner) (Some Inference_closer) (inference_thread h)) of
                               Inl e \<Rightarrow> Inl (Thread_error e)
                             | Inr (started, t) \<Rightarrow> Inr (True, h\<lparr>inference_thread := t, is_activate_handler := True\<rparr>, lb))"

definition BuildInferenceFailureRespond :: "'d engine_handler \<Rightarrow> InputLayerWrapper \<Rightarrow> OutputLayerWrapper" where
  "BuildInferenceFailureRespond h input_layer =
     \<lparr>out_meta = in_meta input_layer, engine_handle_uuid = GetEngineHandleUUID h, out_infer_objects = []\<rparr>"

subsection \<open>One iteration of the inference loop\<close>

definition set_batch :: "'d batch_state \<Rightarrow> 'd engine_handler \<Rightarrow> 'd engine_handler" where
  "set_batch b h = h\<lparr>current_batch_inputs := fst b, device := snd b\<rparr>"

definition batch_of :: "'d engine_handler \<Rightarrow> 'd batch_state" where
  "batch_of h = (current_batch_inputs h, device h)"

definition fail_batch :: "'d engine_handler \<Rightarrow> 'd engine_handler \<times> OutputLayerWrapper list" where
  "fail_batch h = (h\<lparr>current_batch_inputs := []\<rparr>, map (BuildInferenceFailureRespond h) (current_batch_inputs h))"

definition run_batch :: "'d engine_ops \<Rightarrow> 'd engine_handler \<Rightarrow> ('d engine_handler \<times> OutputLayerWrapper list) option" where
  "run_batch ops h =
     (case op_DoInference ops (batch_of h) of
        None \<Rightarrow> None
      | Some (infer_success, b) \<Rightarrow>
          let h = set_batch b h
          in if infer_success \<noteq> Returns True then Some (fail_batch h)
             else case op_Postprocess ops (batch_of h) of
                    None \<Rightarrow> None
                  | Some (Throws, b) \<Rightarrow> Some (fail_batch (set_batch b h))
                  | Some (Returns output_results, b) \<Rightarrow>
                      Some ((set_batch b h)\<lparr>current_batch_inputs := []\<rparr>, output_results))"

definition process_input ::
  "'d engine_ops \<Rightarrow> InputLayerWrapper \<Rightarrow> 'd engine_handler \<Rightarrow> ('d engine_handler \<times> OutputLayerWrapper list) option" where
  "process_input ops input_data h =
     (let prev_batched_input_size = length (current_batch_inputs h)
      in case op_Preprocess ops input_data (batch_of h) of
           None \<Rightarrow> None
         | Some (Throws, b) \<Rightarrow>
             (let h = set_batch b h
              in Some (h, if prev_batched_input_size = length (current_batch_inputs h)
                          then [BuildInferenceFailureRespond h input_data] else []))
         | Some (Returns batch_ready, b) \<Rightarrow>
             (let h = set_batch b h
              in if \<not> batch_ready then Some (h, []) else run_batch ops h))"

subsection \<open>The loop and its end\<close>

definition send_all :: "OutputLayerWrapper list \<Rightarrow> OutputLayerWrapper safe_queue \<Rightarrow> OutputLayerWrapper safe_queue" where
  "send_all rs q = foldl (\<lambda>q r. enqueue_move r q) q rs"

text \<open>One element per iteration: the running flag and what other threads do to the request queue meanwhile.\<close>

fun inference_loop ::
  "'d engine_ops \<Rightarrow> (bool \<times> InputLayerWrapper sq_call list list) list \<Rightarrow>
   'd engine_handler \<times> InputLayerWrapper safe_queue \<times> OutputLayerWrapper safe_queue \<Rightarrow>
   ('d engine_handler \<times> InputLayerWrapper safe_queue \<times> OutputLayerWrapper safe_queue) option" where
  "inference_loop ops [] (h, rq, sq) = Some (h, rq, sq)"
| "inference_loop ops ((running, wakes) # ticks) (h, rq, sq) =
     (if \<not> running then Some (h, rq, sq)
      else case dequeue_wait_for wakes rq of
             (None, rq) \<Rightarrow> inference_loop ops ticks (h, rq, sq)
           | (Some input_data, rq) \<Rightarrow>
               (case process_input ops input_data h of
                  None \<Rightarrow> None
                | Some (h, replies) \<Rightarrow> inference_loop ops ticks (h, rq, send_all replies sq)))"

definition InferenceThreadRunner ::
  "'d engine_ops \<Rightarrow> (bool \<times> InputLayerWrapper sq_call list list) list \<Rightarrow>
   'd engine_handler \<times> InputLayerWrapper safe_queue \<times> OutputLayerWrapper safe_queue \<Rightarrow>
   ('d engine_handler \<times> InputLayerWrapper safe_queue \<times> OutputLayerWrapper safe_queue) option" where
  "InferenceThreadRunner ops ticks s =
     (case s of (h, rq, sq) \<Rightarrow>
        case op_InitializeDevice ops (device h) of
          (initialized, d) \<Rightarrow>
            let h = h\<lparr>device := d\<rparr>
            in if \<not> initialized
               then Some (h\<lparr>inference_thread := (inference_thread h)\<lparr>is_running := False\<rparr>\<rparr>, rq, sq)
               else inference_loop ops ticks (h, rq, sq))"

definition InferenceThreadCloser ::
  "'d engine_handler \<Rightarrow> InputLayerWrapper safe_queue \<Rightarrow> OutputLayerWrapper safe_queue \<Rightarrow>
   InputLayerWrapper safe_queue \<times> OutputLayerWrapper safe_queue" where
  "InferenceThreadCloser h rq sq =
     (if request_q h \<noteq> None
      then case clear_with_action
                  (\<lambda>x sq. (None, if respond_q h then enqueue_move (BuildInferenceFailureRespond h x) sq else sq))
                  sq (terminate rq) of
             (rq, sq, err) \<Rightarrow> (rq, sq)
      else (rq, sq))"

text \<open>
  \<open>in_flight\<close> is the request the loop had taken when \<open>Stop\<close> was called: the thread finishes that
  iteration before it is joined.
\<close>

definition TerminateEngine ::
  "'d engine_ops \<Rightarrow> InputLayerWrapper option \<Rightarrow>
   'd engine_handler \<times> InputLayerWrapper safe_queue \<times> OutputLayerWrapper safe_queue \<Rightarrow>
   ('d engine_handler \<times> InputLayerWrapper safe_queue \<times> OutputLayerWrapper safe_queue) option" where
  "TerminateEngine ops in_flight s =
     (case s of (h, rq, sq) \<Rightarrow>
        if \<not> is_activate_handler h then Some (h, rq, sq)
        else let h = h\<lparr>is_activate_handler := False\<rparr>;
                 (rq, sq) = (if is_running (inference_thread h) then InferenceThreadCloser h rq sq else (rq, sq));
                 finished = (case in_flight of None \<Rightarrow> Some (h, []) | Some x \<Rightarrow> process_input ops x h)
             in map_option (\<lambda>(h, replies).
                  (h\<lparr>inference_thread := Stop (inference_thread h), device := op_ReleaseDeviceResources ops (device h),
                     request_q := None, respond_q := False, engine_linker := False\<rparr>, rq, send_all replies sq)) finished)"

subsection \<open>What the base class relies on\<close>

fun process_all ::
  "'d engine_ops \<Rightarrow> InputLayerWrapper list \<Rightarrow> 'd engine_handler \<Rightarrow> ('d engine_handler \<times> OutputLayerWrapper list) option" where
  "process_all ops [] h = Some (h, [])"
| "process_all ops (x # xs) h =
     (case process_input ops x h of
        None \<Rightarrow> None
      | Some (h, rs) \<Rightarrow> map_option (\<lambda>(h, rs'). (h, rs @ rs')) (process_all ops xs h))"

definition in_metas :: "InputLayerWrapper list \<Rightarrow> EngineStreamMetaData list" where
  "in_metas = map in_meta"

definition out_metas :: "OutputLayerWrapper list \<Rightarrow> EngineStreamMetaData list" where
  "out_metas = map out_meta"

lemma metas_simps [simp]:
  "in_metas [] = []" "in_metas (x # xs) = in_meta x # in_metas xs" "in_metas (xs @ ys) = in_metas xs @ in_metas ys"
  "out_metas [] = []" "out_metas (r # rs) = out_meta r # out_metas rs" "out_metas (rs @ ts) = out_metas rs @ out_metas ts"
  by (simp_all add: in_metas_def out_metas_def)

lemma failure_metas [simp]:
  "out_meta (BuildInferenceFailureRespond h x) = in_meta x"
  "out_metas (map (BuildInferenceFailureRespond h) xs) = in_metas xs"
  by (simp_all add: BuildInferenceFailureRespond_def in_metas_def out_metas_def)

lemma set_batch_simps [simp]:
  "current_batch_inputs (set_batch b h) = fst b" "device (set_batch b h) = snd b"
  "batch_of (set_batch b h) = b" "set_batch b (set_batch b' h) = set_batch b h"
  by (simp_all add: set_batch_def batch_of_def)

text \<open>
  The contract of a derived class.  \<open>dinv\<close> holds of its state, \<open>ready\<close> after a successful inference;
  a \<open>wanted\<close> input is either batched with its meta data or refused by an exception, inference leaves
  the batch alone, and post-processing returns one result per batched input, in order.
\<close>

locale engine_contract =
  fixes ops :: "'d engine_ops"
    and dinv :: "'d \<Rightarrow> bool"
    and ready :: "'d \<Rightarrow> bool"
    and wanted :: "InputLayerWrapper \<Rightarrow> bool"
  assumes preprocess: "dinv d \<Longrightarrow> wanted x \<Longrightarrow>
      \<exists>r batch' d'. op_Preprocess ops x (batch, d) = Some (r, batch', d') \<and> dinv d'
        \<and> (r = Throws \<and> batch' = batch \<or> (\<exists>x'. batch' = batch @ [x'] \<and> in_meta x' = in_meta x))"
    and inference: "dinv d \<Longrightarrow> \<exists>r d'. op_DoInference ops (batch, d) = Some (r, batch, d') \<and> dinv d' \<and> (r = Returns True \<longrightarrow> ready d')"
    and postprocess: "dinv d \<Longrightarrow> ready d \<Longrightarrow>
      \<exists>r d'. op_Postprocess ops (batch, d) = Some (r, batch, d') \<and> dinv d'
        \<and> (\<forall>outs. r = Returns outs \<longrightarrow> out_metas outs = in_metas batch)"
begin

lemma run_batch_answers:
  assumes "dinv (device h)"
  shows "\<exists>h' outs. run_batch ops h = Some (h', outs) \<and> dinv (device h') \<and> current_batch_inputs h' = []
    \<and> out_metas outs = in_metas (current_batch_inputs h)"
proof -
  let ?b = "current_batch_inputs h"
  obtain r d1 where 1: "op_DoInference ops (?b, device h) = Some (r, ?b, d1)" "dinv d1" "r = Returns True \<longrightarrow> ready d1"
    using inference [OF assms] by blast
  show ?thesis
  proof (cases "r = Returns True")
    case False
    then show ?thesis using 1 by (simp add: run_batch_def batch_of_def fail_batch_def Let_def)
  next
    case True
    obtain r2 d2 where 2: "op_Postprocess ops (?b, d1) = Some (r2, ?b, d2)" "dinv d2"
      "\<forall>outs. r2 = Returns outs \<longrightarrow> out_metas outs = in_metas ?b"
      using postprocess [OF 1(2)] 1(3) True by blast
    then show ?thesis using 1 True
      by (cases r2) (simp_all add: run_batch_def fail_batch_def batch_of_def [of h] Let_def)
  qed
qed

lemma process_conserves:
  assumes "dinv (device h)" and "wanted x"
  shows "\<exists>h' outs. process_input ops x h = Some (h', outs) \<and> dinv (device h')
    \<and> mset (out_metas outs) + mset (in_metas (current_batch_inputs h')) = mset (in_metas (current_batch_inputs h)) + {#in_meta x#}"
proof -
  obtain r batch' d' where 1: "op_Preprocess ops x (current_batch_inputs h, device h) = Some (r, batch', d')" "dinv d'"
    "r = Throws \<and> batch' = current_batch_inputs h \<or> (\<exists>x'. batch' = current_batch_inputs h @ [x'] \<and> in_meta x' = in_meta x)"
    using preprocess [OF assms] by blast
  obtain h2 outs where 2: "run_batch ops (set_batch (batch', d') h) = Some (h2, outs)" "dinv (device h2)"
    "current_batch_inputs h2 = []" "out_metas outs = in_metas batch'"
    using run_batch_answers [of "set_batch (batch', d') h"] 1(2) by auto
  show ?thesis
  proof (cases r)
    case (Returns ready)
    then show ?thesis using 1 2 by (cases ready) (auto simp: process_input_def batch_of_def [of h] Let_def)
  next
    case Throws
    then show ?thesis using 1 by (auto simp: process_input_def batch_of_def [of h] Let_def)
  qed
qed

lemma process_all_conserves:
  assumes "dinv (device h)" and "list_all wanted xs"
  shows "\<exists>h' outs. process_all ops xs h = Some (h', outs) \<and> dinv (device h')
    \<and> mset (out_metas outs) + mset (in_metas (current_batch_inputs h')) = mset (in_metas (current_batch_inputs h)) + mset (in_metas xs)"
  using assms
proof (induction xs arbitrary: h)
  case (Cons x xs)
  obtain h1 outs1 where 1: "process_input ops x h = Some (h1, outs1)" "dinv (device h1)"
    "mset (out_metas outs1) + mset (in_metas (current_batch_inputs h1)) = mset (in_metas (current_batch_inputs h)) + {#in_meta x#}"
    using process_conserves [of h x] Cons.prems by auto
  obtain h2 outs2 where 2: "process_all ops xs h1 = Some (h2, outs2)" "dinv (device h2)"
    "mset (out_metas outs2) + mset (in_metas (current_batch_inputs h2)) = mset (in_metas (current_batch_inputs h1)) + mset (in_metas xs)"
    using Cons.IH [of h1] 1(2) Cons.prems by auto
  have "mset (out_metas (outs1 @ outs2)) + mset (in_metas (current_batch_inputs h2))
      = mset (in_metas (current_batch_inputs h)) + mset (in_metas (x # xs))"
    using 1(3) 2(3) by (simp add: ac_simps)
  then show ?case using 1(1) 2(1,2) by auto
qed simp

end

text \<open>A derived class that batches every wanted input and runs when the batch has \<open>capacity\<close> inputs.\<close>

locale exact_engine = engine_contract +
  fixes capacity :: nat
  assumes pushes: "dinv d \<Longrightarrow> wanted x \<Longrightarrow> \<exists>batch' d'. op_Preprocess ops x (batch, d) = Some (Returns (capacity \<le> Suc (length batch)), batch', d')"
    and capacity_pos: "0 < capacity"
begin

lemma process_exact:
  assumes "dinv (device h)" and "wanted x" and "length (current_batch_inputs h) < capacity"
  shows "\<exists>h' outs. process_input ops x h = Some (h', outs) \<and> dinv (device h') \<and> length (current_batch_inputs h') < capacity
    \<and> out_metas outs @ in_metas (current_batch_inputs h') = in_metas (current_batch_inputs h) @ [in_meta x]"
proof -
  let ?b = "current_batch_inputs h"
  obtain x' d' where 1: "op_Preprocess ops x (?b, device h) = Some (Returns (capacity \<le> Suc (length ?b)), ?b @ [x'], d')"
    "in_meta x' = in_meta x" "dinv d'"
    using preprocess [OF assms(1,2), of ?b] pushes [OF assms(1,2), of ?b] by fastforce
  obtain h2 outs where 2: "run_batch ops (set_batch (?b @ [x'], d') h) = Some (h2, outs)" "dinv (device h2)"
    "current_batch_inputs h2 = []" "out_metas outs = in_metas (?b @ [x'])"
    using run_batch_answers [of "set_batch (?b @ [x'], d') h"] 1(3) by auto
  show ?thesis using 1 2 assms(3) capacity_pos
    by (cases "capacity \<le> Suc (length ?b)") (auto simp: process_input_def batch_of_def [of h] Let_def)
qed

lemma process_all_exact:
  assumes "dinv (device h)" and "list_all wanted xs" and "length (current_batch_inputs h) < capacity"
  shows "\<exists>h' outs. process_all ops xs h = Some (h', outs) \<and> dinv (device h') \<and> length (current_batch_inputs h') < capacity
    \<and> out_metas outs @ in_metas (current_batch_inputs h') = in_metas (current_batch_inputs h) @ in_metas xs"
  using assms
proof (induction xs arbitrary: h)
  case (Cons x xs)
  obtain h1 outs1 where 1: "process_input ops x h = Some (h1, outs1)" "dinv (device h1)" "length (current_batch_inputs h1) < capacity"
    "out_metas outs1 @ in_metas (current_batch_inputs h1) = in_metas (current_batch_inputs h) @ [in_meta x]"
    using process_exact [of h x] Cons.prems by auto
  obtain h2 outs2 where 2: "process_all ops xs h1 = Some (h2, outs2)" "dinv (device h2)" "length (current_batch_inputs h2) < capacity"
    "out_metas outs2 @ in_metas (current_batch_inputs h2) = in_metas (current_batch_inputs h1) @ in_metas xs"
    using Cons.IH [of h1] 1(2,3) Cons.prems by auto
  have "out_metas (outs1 @ outs2) @ in_metas (current_batch_inputs h2) = in_metas (current_batch_inputs h) @ in_metas (x # xs)"
    using 1(4) 2(4) by (metis append.assoc append_Cons append_Nil metas_simps(2,6))
  then show ?case using 1(1) 2(1-3) by auto
qed simp

end

subsection \<open>The loop on a queue\<close>

lemma send_all_simps [simp]:
  "send_all [] q = q" "send_all (rs @ ts) q = send_all ts (send_all rs q)"
  by (simp_all add: send_all_def)

lemma send_all_contents: "max_size q = 0 \<Longrightarrow> sq_q (send_all rs q) = sq_q q @ rs"
  using sq.contents_enq_all_unbounded [of q rs] by (simp add: send_all_def sq.enq_all_def enqueue_move_copy)

text \<open>With nothing arriving meanwhile, the loop works its queue off request by request.\<close>

lemma inference_loop_drains:
  "\<not> b_terminate rq \<Longrightarrow> sq_q rq = xs \<Longrightarrow>
   inference_loop ops (replicate (length xs) (True, [])) (h, rq, sq) =
     map_option (\<lambda>(h, rs). (h, rq\<lparr>sq_q := []\<rparr>, send_all rs sq)) (process_all ops xs h)"
proof (induction xs arbitrary: h rq sq)
  case Nil
  then show ?case by simp
next
  case (Cons x xs)
  have deq: "dequeue_wait_for [] rq = (Some x, rq\<lparr>sq_q := xs\<rparr>)"
    using Cons.prems by (simp add: dequeue_wait_for_def wait_pred_def take_front_def)
  show ?case
  proof (cases "process_input ops x h")
    case None
    then show ?thesis using deq by simp
  next
    case (Some r)
    obtain h1 rs1 where r: "r = (h1, rs1)" by fastforce
    show ?thesis using Some r deq Cons.IH [of "rq\<lparr>sq_q := xs\<rparr>" h1 "send_all rs1 sq"] Cons.prems
      by (cases "process_all ops xs h1") auto
  qed
qed

lemma closer_drain: "drain (\<lambda>x sq. (None, enqueue_move (f x) sq)) xs (sq, err) = (send_all (map f xs) sq, err)"
  by (induction xs arbitrary: sq) (simp_all add: send_all_def)

lemma InferenceThreadCloser_flushes:
  "request_q h \<noteq> None \<Longrightarrow> respond_q h \<Longrightarrow>
   InferenceThreadCloser h rq sq = ((terminate rq)\<lparr>sq_q := []\<rparr>, send_all (map (BuildInferenceFailureRespond h) (sq_q rq)) sq)"
  by (simp add: InferenceThreadCloser_def clear_with_action_def closer_drain terminate_def)

end
