(* ===== verification/Yolo_Postprocess.thy ===== *)
theory Yolo_Postprocess
  imports Geometry "HOL-Library.Multiset" "HOL-Library.Monad_Syntax"
begin

text \<open>
  The post-processing of \<open>Engine/NPU/YoloV5_Torch_Onnx_RKNN_NPU\<close>: the three quantised output tensors
  of the network are scanned cell by cell, cells above the confidence threshold become candidate
  boxes, the candidates are sorted by confidence and overlapping ones of a class are suppressed.

  A tensor is the list of its bytes; a read outside of it is \<open>None\<close>.  \<open>float\<close> arithmetic is exact real
  arithmetic; the scale of a quantised tensor is positive.  \<open>std::sort\<close> is not stable: the order of
  equal confidences is a parameter, any function that sorts.
\<close>

type_synonym int8 = "8 word"

definition anchor_0 :: "int list" where "anchor_0 = [10, 13, 16, 30, 33, 23]"
definition anchor_1 :: "int list" where "anchor_1 = [30, 61, 62, 45, 59, 119]"
definition anchor_2 :: "int list" where "anchor_2 = [116, 90, 156, 198, 373, 326]"

definition BBOX_ELEMENT_COUNT :: nat where "BBOX_ELEMENT_COUNT = 4"
definition CONF_ELEMENT_COUNT :: nat where "CONF_ELEMENT_COUNT = 1"

record Detection =
  det_bbox :: InferBBox
  det_conf :: cfloat
  det_class_id :: cfloat

subsection \<open>Suppression of overlapping boxes\<close>

definition CalculateOverlap ::
  "cfloat \<Rightarrow> cfloat \<Rightarrow> cfloat \<Rightarrow> cfloat \<Rightarrow> cfloat \<Rightarrow> cfloat \<Rightarrow> cfloat \<Rightarrow> cfloat \<Rightarrow> cfloat" where
  "CalculateOverlap xmin0 ymin0 xmax0 ymax0 xmin1 ymin1 xmax1 ymax1 =
     (let w = max 0 (min xmax0 xmax1 - max xmin0 xmin1 + 1);
          h = max 0 (min ymax0 ymax1 - max ymin0 ymin1 + 1);
          i = w * h;
          u = (xmax0 - xmin0 + 1) * (ymax0 - ymin0 + 1) + (xmax1 - xmin1 + 1) * (ymax1 - ymin1 + 1) - i
      in if u \<le> 0 then 0 else i / u)"

definition box_overlap :: "cfloat list \<Rightarrow> nat \<Rightarrow> nat \<Rightarrow> cfloat" where
  "box_overlap outputLocations n m =
     (let xmin0 = outputLocations ! (n * 4 + 0);
          ymin0 = outputLocations ! (n * 4 + 1);
          xmax0 = outputLocations ! (n * 4 + 0) + outputLocations ! (n * 4 + 2);
          ymax0 = outputLocations ! (n * 4 + 1) + outputLocations ! (n * 4 + 3);
          xmin1 = outputLocations ! (m * 4 + 0);
          ymin1 = outputLocations ! (m * 4 + 1);
          xmax1 = outputLocations ! (m * 4 + 0) + outputLocations ! (m * 4 + 2);
          ymax1 = outputLocations ! (m * 4 + 1) + outputLocations ! (m * 4 + 3)
      in CalculateOverlap xmin0 ymin0 xmax0 ymax0 xmin1 ymin1 xmax1 ymax1)"

definition nms_pair :: "cfloat list \<Rightarrow> int list \<Rightarrow> int \<Rightarrow> cfloat \<Rightarrow> nat \<Rightarrow> nat \<Rightarrow> int list \<Rightarrow> int list" where
  "nms_pair outputLocations classIds filterId threshold n j order =
     (let m = order ! j
      in if m = -1 \<or> classIds ! nat m \<noteq> filterId then order
         else if box_overlap outputLocations n (nat m) > threshold then order[j := -1] else order)"

definition nms_row :: "cfloat list \<Rightarrow> int list \<Rightarrow> int \<Rightarrow> cfloat \<Rightarrow> nat \<Rightarrow> nat \<Rightarrow> int list \<Rightarrow> int list" where
  "nms_row outputLocations classIds filterId threshold validCount i order =
     (let n = order ! i
      in if n = -1 \<or> classIds ! nat n \<noteq> filterId then order
         else fold (nms_pair outputLocations classIds filterId threshold (nat n)) [i + 1..<validCount] order)"

definition nms :: "nat \<Rightarrow> cfloat list \<Rightarrow> int list \<Rightarrow> int list \<Rightarrow> int \<Rightarrow> cfloat \<Rightarrow> int list" where
  "nms validCount outputLocations classIds order filterId threshold =
     fold (nms_row outputLocations classIds filterId threshold validCount) [0..<validCount] order"

definition sort_by_confidence_desc ::
  "((cfloat \<times> int) list \<Rightarrow> (cfloat \<times> int) list) \<Rightarrow> cfloat list \<Rightarrow> nat \<Rightarrow> nat \<Rightarrow> int list \<Rightarrow> cfloat list \<times> int list" where
  "sort_by_confidence_desc std_sort input left right indices =
     (if left \<ge> right then (input, indices)
      else let pairs = std_sort (map (\<lambda>i. (input ! i, indices ! i)) [left..<right + 1])
           in (take left input @ map fst pairs @ drop (right + 1) input,
               take left indices @ map snd pairs @ drop (right + 1) indices))"

text \<open>What \<open>std::sort\<close> with the comparison \<open>a.first > b.first\<close> promises.\<close>

definition sorts_desc :: "((cfloat \<times> int) list \<Rightarrow> (cfloat \<times> int) list) \<Rightarrow> bool" where
  "sorts_desc f = (\<forall>xs. mset (f xs) = mset xs \<and> sorted_wrt (\<lambda>a b. fst a \<ge> fst b) (f xs))"

definition make_detection :: "cfloat list \<Rightarrow> int list \<Rightarrow> nat \<Rightarrow> cfloat \<Rightarrow> Detection" where
  "make_detection filterBoxes classId n conf =
     \<lparr>det_bbox = \<lparr>bbox_x = filterBoxes ! (n * 4 + 0), bbox_y = filterBoxes ! (n * 4 + 1),
                  bbox_w = filterBoxes ! (n * 4 + 2), bbox_h = filterBoxes ! (n * 4 + 3)\<rparr>,
      det_conf = conf, det_class_id = of_int (classId ! n)\<rparr>"

text \<open>The part of \<open>PostProcessImplRKNN\<close> after the tensors are scanned.\<close>

definition select_detections ::
  "((cfloat \<times> int) list \<Rightarrow> (cfloat \<times> int) list) \<Rightarrow> cfloat \<Rightarrow> nat \<Rightarrow> cfloat list \<Rightarrow> cfloat list \<Rightarrow> int list \<Rightarrow> Detection list" where
  "select_detections std_sort nms_threshold validCount filterBoxes objProbs classId =
     (if validCount \<le> 0 then []
      else let (objProbs, indexArray) =
                 sort_by_confidence_desc std_sort objProbs 0 (validCount - 1) (map int [0..<validCount]);
               indexArray = fold (\<lambda>c order. nms validCount filterBoxes classId order c nms_threshold)
                 (sorted_list_of_set (set classId)) indexArray
           in List.map_filter (\<lambda>i. if indexArray ! i = -1 then None
                else Some (make_detection filterBoxes classId (nat (indexArray ! i)) (objProbs ! i))) [0..<validCount])"

subsection \<open>Quantised values\<close>

definition clip_value :: "cfloat \<Rightarrow> cfloat \<Rightarrow> cfloat \<Rightarrow> cfloat" where
  "clip_value val lo hi = (if val \<le> lo then lo else if val \<ge> hi then hi else val)"

definition qnt_f32_to_affine :: "cfloat \<Rightarrow> int \<Rightarrow> cfloat \<Rightarrow> int8" where
  "qnt_f32_to_affine f32 zp scale = word_of_int (int_cast (clip_value (f32 / scale + of_int zp) (-128) 127))"

definition deqnt_affine_to_f32 :: "int8 \<Rightarrow> int \<Rightarrow> cfloat \<Rightarrow> cfloat" where
  "deqnt_affine_to_f32 qnt zp scale = (of_int (sint qnt) - of_int zp) * scale"

subsection \<open>Scanning a tensor\<close>

record candidates =
  cand_boxes :: "cfloat list"
  cand_probs :: "cfloat list"
  cand_class :: "int list"

definition tensor_at :: "int8 list \<Rightarrow> nat \<Rightarrow> int8 option" where
  "tensor_at t i = (if i < length t then Some (t ! i) else None)"

text \<open>The largest class confidence of a cell and the first class that has it.\<close>

definition best_class :: "int8 list \<Rightarrow> nat \<Rightarrow> nat \<Rightarrow> nat \<Rightarrow> (int8 \<times> int) option" where
  "best_class input offset grid_len class_num = do {
     p0 \<leftarrow> tensor_at input (offset + 5 * grid_len);
     for_each (\<lambda>k (maxClassProbs, maxClassId). do {
       prob \<leftarrow> tensor_at input (offset + (5 + k) * grid_len);
       Some (if sint prob > sint maxClassProbs then (prob, int k) else (maxClassProbs, maxClassId)) })
       [1..<class_num] (p0, 0) }"

definition decode_box ::
  "int8 list \<Rightarrow> int list \<Rightarrow> nat \<Rightarrow> nat \<Rightarrow> nat \<Rightarrow> int \<Rightarrow> cfloat \<Rightarrow> nat \<times> nat \<times> nat \<Rightarrow> cfloat list option" where
  "decode_box input anchor offset grid_len stride zp scale = (\<lambda>(a, i, j). do {
     qx \<leftarrow> tensor_at input offset;
     qy \<leftarrow> tensor_at input (offset + grid_len);
     qw \<leftarrow> tensor_at input (offset + 2 * grid_len);
     qh \<leftarrow> tensor_at input (offset + 3 * grid_len);
     let box_x = deqnt_affine_to_f32 qx zp scale * 2 - 1/2;
     let box_y = deqnt_affine_to_f32 qy zp scale * 2 - 1/2;
     let box_w = deqnt_affine_to_f32 qw zp scale * 2;
     let box_h = deqnt_affine_to_f32 qh zp scale * 2;
     let box_x = (box_x + of_nat j) * of_nat stride;
     let box_y = (box_y + of_nat i) * of_nat stride;
     let box_w = box_w * box_w * of_int (anchor ! (a * 2));
     let box_h = box_h * box_h * of_int (anchor ! (a * 2 + 1));
     Some [box_x - box_w / 2, box_y - box_h / 2, box_w, box_h] })"

definition decode_cell ::
  "int8 list \<Rightarrow> int list \<Rightarrow> nat \<Rightarrow> nat \<Rightarrow> nat \<Rightarrow> int8 \<Rightarrow> int \<Rightarrow> cfloat \<Rightarrow> nat \<Rightarrow> nat \<times> nat \<times> nat \<Rightarrow>
   nat \<times> candidates \<Rightarrow> (nat \<times> candidates) option" where
  "decode_cell input anchor grid_h grid_w stride thres_i8 zp scale class_num = (\<lambda>(a, i, j) (validCount, c). do {
     let grid_len = grid_h * grid_w;
     let base_offset = class_num + BBOX_ELEMENT_COUNT + CONF_ELEMENT_COUNT;
     box_confidence \<leftarrow> tensor_at input ((base_offset * a + 4) * grid_len + i * grid_w + j);
     if sint box_confidence \<ge> sint thres_i8 then do {
       let offset = base_offset * a * grid_len + i * grid_w + j;
       box \<leftarrow> decode_box input anchor offset grid_len stride zp scale (a, i, j);
       (maxClassProbs, maxClassId) \<leftarrow> best_class input offset grid_len class_num;
       Some (if sint maxClassProbs > sint thres_i8
             then (validCount + 1,
                   c\<lparr>cand_probs := cand_probs c @ [deqnt_affine_to_f32 maxClassProbs zp scale * deqnt_affine_to_f32 box_confidence zp scale],
                     cand_class := cand_class c @ [maxClassId],
                     cand_boxes := cand_boxes c @ box\<rparr>)
             else (validCount, c)) }
     else Some (validCount, c) })"

definition grid_cells :: "nat \<Rightarrow> nat \<Rightarrow> (nat \<times> nat \<times> nat) list" where
  "grid_cells grid_h grid_w =
     concat (map (\<lambda>a. concat (map (\<lambda>i. map (\<lambda>j. (a, i, j)) [0..<grid_w]) [0..<grid_h])) [0..<3])"

text \<open>The two parameters \<open>height\<close> and \<open>width\<close> of the source are not used by its body.\<close>

definition rknn_process_impl ::
  "int8 list \<Rightarrow> int list \<Rightarrow> nat \<Rightarrow> nat \<Rightarrow> nat \<Rightarrow> candidates \<Rightarrow> cfloat \<Rightarrow> int \<Rightarrow> cfloat \<Rightarrow> nat \<Rightarrow> (nat \<times> candidates) option" where
  "rknn_process_impl input anchor grid_h grid_w stride c threshold zp scale class_num =
     for_each (decode_cell input anchor grid_h grid_w stride (qnt_f32_to_affine threshold zp scale) zp scale class_num)
       (grid_cells grid_h grid_w) (0, c)"

definition PostProcessImplRKNN ::
  "((cfloat \<times> int) list \<Rightarrow> (cfloat \<times> int) list) \<Rightarrow> cfloat \<Rightarrow> cfloat \<Rightarrow> nat \<Rightarrow> nat \<Rightarrow>
   int8 list \<Rightarrow> int8 list \<Rightarrow> int8 list option \<Rightarrow> nat \<Rightarrow> nat \<Rightarrow> int list \<Rightarrow> cfloat list \<Rightarrow> Detection list option" where
  "PostProcessImplRKNN std_sort confidence_threshold nms_threshold class_num output_index_num
     input_0 input_1 input_2 model_in_h model_in_w qnt_zps qnt_scales = do {
     let c = \<lparr>cand_boxes = [], cand_probs = [], cand_class = []\<rparr>;
     (validCount0, c) \<leftarrow> rknn_process_impl input_0 anchor_0 (model_in_h div 8) (model_in_w div 8) 8 c
       confidence_threshold (qnt_zps ! 0) (qnt_scales ! 0) class_num;
     (validCount1, c) \<leftarrow> rknn_process_impl input_1 anchor_1 (model_in_h div 16) (model_in_w div 16) 16 c
       confidence_threshold (qnt_zps ! 1) (qnt_scales ! 1) class_num;
     (validCount2, c) \<leftarrow> (case input_2 of
         Some input \<Rightarrow>
           if output_index_num = 3
           then rknn_process_impl input anchor_2 (model_in_h div 32) (model_in_w div 32) 32 c
                  confidence_threshold (qnt_zps ! 2) (qnt_scales ! 2) class_num
           else Some (0, c)
       | None \<Rightarrow> Some (0, c));
     Some (select_detections std_sort nms_threshold (validCount0 + validCount1 + validCount2)
             (cand_boxes c) (cand_probs c) (cand_class c)) }"

subsection \<open>Overlap\<close>

lemma CalculateOverlap_sym:
  "CalculateOverlap a b c d e f g h = CalculateOverlap e f g h a b c d"
  by (simp add: CalculateOverlap_def Let_def min.commute max.commute add.commute)

lemma box_overlap_sym: "box_overlap loc n m = box_overlap loc m n"
  unfolding box_overlap_def Let_def by (rule CalculateOverlap_sym)

subsection \<open>What one pass of suppression does\<close>

text \<open>Position \<open>j\<close> is taken out by position \<open>i\<close>: both are of the class, and their boxes overlap.\<close>

definition suppresses :: "cfloat list \<Rightarrow> int list \<Rightarrow> int \<Rightarrow> cfloat \<Rightarrow> int \<Rightarrow> int \<Rightarrow> bool" where
  "suppresses loc cls f thr n m = (n \<noteq> -1 \<and> m \<noteq> -1 \<and> cls ! nat n = f \<and> cls ! nat m = f
     \<and> box_overlap loc (nat n) (nat m) > thr)"

lemma nms_pair_nth:
  "j < length order \<Longrightarrow> nms_pair loc cls f thr n k order ! j =
     (if k = j \<and> order ! j \<noteq> -1 \<and> cls ! nat (order ! j) = f \<and> box_overlap loc n (nat (order ! j)) > thr
      then -1 else order ! j)"
  by (cases "k = j") (simp_all add: nms_pair_def Let_def)

lemma length_nms_pair [simp]: "length (nms_pair loc cls f thr n k order) = length order"
  by (simp add: nms_pair_def Let_def)

lemma length_fold_nms_pair [simp]: "length (fold (nms_pair loc cls f thr n) ks order) = length order"
  by (induction ks arbitrary: order) auto

lemma fold_nms_pair_nth:
  "j < length order \<Longrightarrow> fold (nms_pair loc cls f thr n) ks order ! j =
     (if j \<in> set ks \<and> order ! j \<noteq> -1 \<and> cls ! nat (order ! j) = f \<and> box_overlap loc n (nat (order ! j)) > thr
      then -1 else order ! j)"
  by (induction ks arbitrary: order) (auto simp: nms_pair_nth)

lemma length_nms_row [simp]: "length (nms_row loc cls f thr vc i order) = length order"
  by (simp add: nms_row_def Let_def)

lemma nms_row_nth:
  "j < length order \<Longrightarrow> nms_row loc cls f thr (length order) i order ! j =
     (if i < j \<and> suppresses loc cls f thr (order ! i) (order ! j) then -1 else order ! j)"
  by (auto simp: nms_row_def Let_def fold_nms_pair_nth suppresses_def)

lemma length_fold_nms_row [simp]: "length (fold (nms_row loc cls f thr vc) is order) = length order"
  by (induction "is" arbitrary: order) auto

text \<open>
  After the rows below \<open>k\<close> a position is out exactly when it was before, or when a position before
  it that is below \<open>k\<close> and still in suppresses it.
\<close>

lemma nms_rows_nth:
  assumes "j < length order" and "k \<le> length order"
    and out: "out = fold (nms_row loc cls f thr (length order)) [0..<k] order"
  shows "out ! j = (if \<exists>i < k. i < j \<and> suppresses loc cls f thr (out ! i) (order ! j) then -1 else order ! j)"
  unfolding out using assms(1,2)
proof (induction k arbitrary: j)
  case (Suc k)
  let ?o = "fold (nms_row loc cls f thr (length order)) [0..<k] order"
  let ?o' = "fold (nms_row loc cls f thr (length order)) [0..<Suc k] order"
  have step: "?o' ! i = (if k < i \<and> suppresses loc cls f thr (?o ! k) (?o ! i) then -1 else ?o ! i)"
    if "i < length order" for i
    using that nms_row_nth [of i ?o loc cls f thr k] by simp
  have IH: "?o ! j = (if \<exists>i < k. i < j \<and> suppresses loc cls f thr (?o ! i) (order ! j) then -1 else order ! j)"
    using Suc by simp
  have same: "?o' ! i = ?o ! i" if "i \<le> k" for i
    using step [of i] that Suc.prems by simp
  have iff: "(\<exists>i < Suc k. i < j \<and> suppresses loc cls f thr (?o' ! i) (order ! j))
     \<longleftrightarrow> (\<exists>i < k. i < j \<and> suppresses loc cls f thr (?o ! i) (order ! j)) \<or> k < j \<and> suppresses loc cls f thr (?o ! k) (order ! j)"
    using same less_Suc_eq by (metis le_less less_imp_le)
  have gone: "\<not> suppresses loc cls f thr (?o ! k) (-1)" by (simp add: suppresses_def)
  show ?case
  proof (cases "\<exists>i < k. i < j \<and> suppresses loc cls f thr (?o ! i) (order ! j)")
    case True
    then have "?o ! j = -1" using IH by (simp only: if_True)
    then have "?o' ! j = -1" using step [OF Suc.prems(1)] gone by (simp only: if_cancel)
    then show ?thesis using iff True by (simp only: simp_thms if_True)
  next
    case False
    then have "?o ! j = order ! j" using IH by (simp only: if_False)
    then show ?thesis using step [OF Suc.prems(1)] iff False by (simp only: simp_thms)
  qed
qed simp

lemma nms_nth:
  assumes "j < length order" and out: "out = nms (length order) loc cls order f thr"
  shows "out ! j = (if \<exists>i < j. suppresses loc cls f thr (out ! i) (order ! j) then -1 else order ! j)"
proof -
  have "(\<exists>i < length order. i < j \<and> P i) \<longleftrightarrow> (\<exists>i < j. P i)" for P using assms(1) by (meson less_trans)
  then show ?thesis
    using nms_rows_nth [OF assms(1) order_refl, of out loc cls f thr] out unfolding nms_def by simp
qed

lemma length_nms [simp]: "length (nms vc loc cls order f thr) = length order"
  by (simp add: nms_def)

subsection \<open>The passes for all classes\<close>

text \<open>
  The state after the passes for the classes in \<open>D\<close>: a position of such a class is out exactly when
  an earlier position of its class that is in overlaps it too much; the others are untouched.
\<close>

definition passed :: "cfloat list \<Rightarrow> int list \<Rightarrow> cfloat \<Rightarrow> int list \<Rightarrow> int set \<Rightarrow> int list \<Rightarrow> bool" where
  "passed loc cls thr order D out = (length out = length order \<and> (\<forall>j < length order.
     out ! j = (if cls ! nat (order ! j) \<in> D \<and> (\<exists>i < j. out ! i \<noteq> -1 \<and> cls ! nat (order ! i) = cls ! nat (order ! j)
         \<and> box_overlap loc (nat (order ! i)) (nat (order ! j)) > thr) then -1 else order ! j)))"

lemma passedD:
  assumes "passed loc cls thr order D out" and "j < length order"
  shows "out ! j = (if cls ! nat (order ! j) \<in> D \<and> (\<exists>i < j. out ! i \<noteq> -1 \<and> cls ! nat (order ! i) = cls ! nat (order ! j)
         \<and> box_overlap loc (nat (order ! i)) (nat (order ! j)) > thr) then -1 else order ! j)"
  using assms unfolding passed_def by blast

lemma passed_nms:
  assumes out: "passed loc cls thr order D out" and c: "c \<notin> D" and pos: "\<forall>i < length order. order ! i \<noteq> -1"
  shows "passed loc cls thr order (insert c D) (nms (length order) loc cls out c thr)"
proof -
  let ?n = "nms (length order) loc cls out c thr"
  have len: "length out = length order" using out by (simp add: passed_def)
  have old: "out ! j = -1 \<or> out ! j = order ! j" if "j < length order" for j
    using passedD [OF out that] by (metis (full_types))
  have new: "?n ! j = (if \<exists>i < j. suppresses loc cls c thr (?n ! i) (out ! j) then -1 else out ! j)" if "j < length order" for j
    using nms_nth [of j out ?n loc cls c thr] that len by simp
  have val: "?n ! j = -1 \<or> ?n ! j = order ! j" if "j < length order" for j
    using new [OF that] old [OF that] by (metis (full_types))
  have other: "?n ! j = out ! j" if "j < length order" "cls ! nat (order ! j) \<noteq> c" for j
    using new [OF that(1)] old [OF that(1)] that(2) by (auto simp: suppresses_def)
  have "?n ! j = (if cls ! nat (order ! j) \<in> insert c D \<and> (\<exists>i < j. ?n ! i \<noteq> -1 \<and> cls ! nat (order ! i) = cls ! nat (order ! j)
         \<and> box_overlap loc (nat (order ! i)) (nat (order ! j)) > thr) then -1 else order ! j)" if j: "j < length order" for j
  proof (cases "cls ! nat (order ! j) = c")
    case True
    then have "out ! j = order ! j" using passedD [OF out j] c by simp
    moreover have "suppresses loc cls c thr (?n ! i) (order ! j) \<longleftrightarrow>
        ?n ! i \<noteq> -1 \<and> cls ! nat (order ! i) = c \<and> box_overlap loc (nat (order ! i)) (nat (order ! j)) > thr" if "i < j" for i
      using val [of i] j that True pos by (auto simp: suppresses_def)
    ultimately show ?thesis using new [OF j] True by auto
  next
    case False
    have "?n ! i = out ! i" if "i < j" "cls ! nat (order ! i) = cls ! nat (order ! j)" for i
      using other [of i] that j False by simp
    then have "(\<exists>i < j. ?n ! i \<noteq> -1 \<and> cls ! nat (order ! i) = cls ! nat (order ! j)
         \<and> box_overlap loc (nat (order ! i)) (nat (order ! j)) > thr) \<longleftrightarrow>
       (\<exists>i < j. out ! i \<noteq> -1 \<and> cls ! nat (order ! i) = cls ! nat (order ! j)
         \<and> box_overlap loc (nat (order ! i)) (nat (order ! j)) > thr)" by metis
    then show ?thesis using other [OF j False] passedD [OF out j] False by simp
  qed
  then show ?thesis unfolding passed_def using len by simp
qed

lemma passed_fold:
  assumes "distinct cs" and "set cs \<inter> D = {}" and "passed loc cls thr order D out"
    and "\<forall>i < length order. order ! i \<noteq> -1"
  shows "passed loc cls thr order (set cs \<union> D)
    (fold (\<lambda>c order'. nms (length order) loc cls order' c thr) cs out)"
  using assms
proof (induction cs arbitrary: D out)
  case (Cons c cs)
  then have "passed loc cls thr order (insert c D) (nms (length order) loc cls out c thr)"
    by (intro passed_nms) auto
  then show ?case using Cons.IH [of "insert c D"] Cons.prems by auto
qed simp

subsection \<open>Sorting\<close>

lemma sort_key_sorts_desc: "sorts_desc (sort_key (\<lambda>p. - fst p))"
proof -
  have "sorted_wrt (\<lambda>a b. - fst a \<le> - fst b) (sort_key (\<lambda>p. - fst p) xs)" for xs :: "(cfloat \<times> int) list"
    using sorted_sort_key [of "\<lambda>p. - fst p" xs] by (simp only: sorted_map)
  then show ?thesis by (simp add: sorts_desc_def)
qed

lemma sort_by_confidence_desc_perm:
  assumes "sorts_desc std_sort" and "length probs = n" and "0 < n"
  obtains perm where "sort_by_confidence_desc std_sort probs 0 (n - 1) (map int [0..<n]) = (map ((!) probs) perm, map int perm)"
    "distinct perm" "set perm = {..<n}" "length perm = n" "sorted_wrt (\<lambda>i j. probs ! i \<ge> probs ! j) perm"
proof (cases "n = 1")
  case True
  then have "sort_by_confidence_desc std_sort probs 0 (n - 1) (map int [0..<n]) = (map ((!) probs) [0], map int [0])"
    using assms(2) by (cases probs) (auto simp: sort_by_confidence_desc_def)
  then show ?thesis using that [of "[0]"] True by auto
next
  case False
  define pairs where "pairs = std_sort (map (\<lambda>i. (probs ! i, int i)) [0..<n])"
  define perm where "perm = map (nat \<circ> snd) pairs"
  have ms: "mset pairs = mset (map (\<lambda>i. (probs ! i, int i)) [0..<n])"
    and srt: "sorted_wrt (\<lambda>a b. fst a \<ge> fst b) pairs"
    using assms(1) unfolding sorts_desc_def pairs_def by blast+
  have el: "\<exists>i < n. p = (probs ! i, int i)" if "p \<in> set pairs" for p
    using that mset_eq_setD [OF ms] by auto
  have fst_snd: "map fst pairs = map ((!) probs) perm" "map snd pairs = map int perm"
    using el unfolding perm_def by (fastforce intro!: map_cong [OF refl])+
  have "mset perm = image_mset (nat \<circ> snd) (mset (map (\<lambda>i. (probs ! i, int i)) [0..<n]))"
    unfolding perm_def mset_map ms ..
  also have "\<dots> = mset [0..<n]" by (simp add: image_mset.compositionality comp_def)
  finally have mperm: "mset perm = mset [0..<n]" .
  have pairs': "map (\<lambda>i. (probs ! i, map int [0..<n] ! i)) [0..<n - 1 + 1] = map (\<lambda>i. (probs ! i, int i)) [0..<n]"
    using assms(3) by (intro map_cong) auto
  have "sort_by_confidence_desc std_sort probs 0 (n - 1) (map int [0..<n]) = (map ((!) probs) perm, map int perm)"
    using False assms(2,3) unfolding sort_by_confidence_desc_def pairs' pairs_def [symmetric] Let_def fst_snd by simp
  moreover have "distinct perm" using mset_eq_imp_distinct_iff [OF mperm] by simp
  moreover have "set perm = {..<n}" using mset_eq_setD [OF mperm] by (simp add: atLeast0LessThan)
  moreover have "length perm = n" using mset_eq_length [OF mperm] by simp
  moreover have "sorted_wrt (\<ge>) (map fst pairs)" using srt by (simp add: sorted_wrt_map)
  then have "sorted_wrt (\<lambda>i j. probs ! i \<ge> probs ! j) perm" unfolding fst_snd by (simp add: sorted_wrt_map)
  ultimately show ?thesis using that by blast
qed

subsection \<open>The detections that remain\<close>

lemma select_detections_kept:
  assumes "sorts_desc std_sort" and "length probs = n" and "length cls = n" and "0 < n"
  obtains perm out where "passed boxes cls thr (map int perm) (set cls) out"
    "distinct perm" "set perm = {..<n}" "length perm = n" "sorted_wrt (\<lambda>i j. probs ! i \<ge> probs ! j) perm"
    "select_detections std_sort thr n boxes probs cls =
       map (\<lambda>k. make_detection boxes cls k (probs ! k)) (map ((!) perm) (filter (\<lambda>i. out ! i \<noteq> -1) [0..<n]))"
proof -
  obtain perm where perm: "sort_by_confidence_desc std_sort probs 0 (n - 1) (map int [0..<n]) = (map ((!) probs) perm, map int perm)"
    "distinct perm" "set perm = {..<n}" "length perm = n" "sorted_wrt (\<lambda>i j. probs ! i \<ge> probs ! j) perm"
    using sort_by_confidence_desc_perm [OF assms(1,2,4)] by blast
  define out where "out = fold (\<lambda>c order. nms n boxes cls order c thr) (sorted_list_of_set (set cls)) (map int perm)"
  have "passed boxes cls thr (map int perm) {} (map int perm)" by (simp add: passed_def)
  from passed_fold [OF _ _ this, of "sorted_list_of_set (set cls)"]
  have p: "passed boxes cls thr (map int perm) (set cls) out"
    unfolding out_def using perm(4) by simp
  have "out ! i = int (perm ! i)" if "i < n" "out ! i \<noteq> -1" for i
    using passedD [OF p, of i] that perm(4) by (metis length_map nth_map)
  then have "nat (out ! i) = perm ! i" if "i < n" "out ! i \<noteq> -1" for i
    using that by (metis nat_int)
  then have "select_detections std_sort thr n boxes probs cls =
      map (\<lambda>k. make_detection boxes cls k (probs ! k)) (map ((!) perm) (filter (\<lambda>i. out ! i \<noteq> -1) [0..<n]))"
    using assms(4) perm(1,4) unfolding select_detections_def
    by (simp add: out_def [symmetric] List.map_filter_def cong: filter_cong)
  then show ?thesis using that p perm by blast
qed

text \<open>
  C5. Suppression is exact.  Whatever candidates the scan found, the detections that are reported are
  candidates with their own box, class and confidence, in descending order of confidence; two of
  them that have the same class overlap by at most the threshold; and a candidate is missing only
  because a reported one of its class, of at least its confidence, overlaps it by more.
\<close>

theorem suppression_exact:
  assumes "sorts_desc std_sort" and "length probs = n" and "length cls = n"
  shows "\<exists>kept. distinct kept \<and> set kept \<subseteq> {..<n}
    \<and> select_detections std_sort thr n boxes probs cls = map (\<lambda>k. make_detection boxes cls k (probs ! k)) kept
    \<and> sorted_wrt (\<lambda>i j. probs ! i \<ge> probs ! j) kept
    \<and> (\<forall>i \<in> set kept. \<forall>j \<in> set kept. i \<noteq> j \<and> cls ! i = cls ! j \<longrightarrow> box_overlap boxes i j \<le> thr)
    \<and> (\<forall>m < n. m \<notin> set kept \<longrightarrow> (\<exists>k \<in> set kept. cls ! k = cls ! m \<and> probs ! k \<ge> probs ! m \<and> box_overlap boxes k m > thr))"
proof (cases "n = 0")
  case True
  then show ?thesis by (intro exI [of _ "[]"]) (simp add: select_detections_def)
next
  case False
  then obtain perm out where p: "passed boxes cls thr (map int perm) (set cls) out"
    and perm: "distinct perm" "set perm = {..<n}" "length perm = n" "sorted_wrt (\<lambda>i j. probs ! i \<ge> probs ! j) perm"
    and sel: "select_detections std_sort thr n boxes probs cls =
       map (\<lambda>k. make_detection boxes cls k (probs ! k)) (map ((!) perm) (filter (\<lambda>i. out ! i \<noteq> -1) [0..<n]))"
    using select_detections_kept [OF assms] by blast
  let ?P = "filter (\<lambda>i. out ! i \<noteq> -1) [0..<n]"
  have cl: "cls ! (perm ! i) \<in> set cls" if "i < n" for i
    using that perm(2,3) assms(3) by (metis lessThan_iff nth_mem)
  have outj: "out ! j = (if \<exists>i < j. out ! i \<noteq> -1 \<and> cls ! (perm ! i) = cls ! (perm ! j)
      \<and> box_overlap boxes (perm ! i) (perm ! j) > thr then -1 else int (perm ! j))" if "j < n" for j
  proof -
    have "map int perm ! i = int (perm ! i)" if "i < n" for i using that perm(3) by simp
    then have "nat (map int perm ! i) = perm ! i" if "i \<le> j" for i using that \<open>j < n\<close> by simp
    then show ?thesis using passedD [OF p, of j] that perm(3) cl [OF that] by (auto simp: less_imp_le)
  qed
  have le: "box_overlap boxes (perm ! a) (perm ! b) \<le> thr"
    if "a < b" "b < n" "out ! a \<noteq> -1" "out ! b \<noteq> -1" "cls ! (perm ! a) = cls ! (perm ! b)" for a b
    using outj [OF that(2)] that by (meson not_le)
  have pair: "box_overlap boxes i j \<le> thr"
    if ij: "i \<in> set (map ((!) perm) ?P)" "j \<in> set (map ((!) perm) ?P)" "i \<noteq> j \<and> cls ! i = cls ! j" for i j
  proof -
    obtain a where a: "i = perm ! a" "a < n" "out ! a \<noteq> -1" using ij(1) by auto
    obtain b where b: "j = perm ! b" "b < n" "out ! b \<noteq> -1" using ij(2) by auto
    note ab = a(1) b(1) a(2) b(2) a(3) b(3)
    then have "a < b \<or> b < a" using ij by (metis nat_neq_iff)
    then show ?thesis using le [of a b] le [of b a] ab ij(3) box_overlap_sym [of boxes i j] by auto
  qed
  have drop: "\<exists>k \<in> set (map ((!) perm) ?P). cls ! k = cls ! m \<and> probs ! k \<ge> probs ! m \<and> box_overlap boxes k m > thr"
    if m: "m < n" "m \<notin> set (map ((!) perm) ?P)" for m
  proof -
    obtain b where b: "b < n" "m = perm ! b" using m(1) perm(2,3) by (metis in_set_conv_nth lessThan_iff)
    then have "out ! b = -1" using m(2) by auto
    then obtain a where a: "a < b" "out ! a \<noteq> -1" "cls ! (perm ! a) = cls ! (perm ! b)"
      "box_overlap boxes (perm ! a) (perm ! b) > thr"
      using outj [OF b(1)] by (metis of_nat_0_le_iff neg_0_le_iff_le not_one_le_zero)
    moreover have "probs ! (perm ! a) \<ge> probs ! (perm ! b)"
      using sorted_wrt_nth_less [OF perm(4) a(1)] b(1) perm(3) by simp
    ultimately show ?thesis using b(1) unfolding b(2) by (intro bexI [of _ "perm ! a"]) auto
  qed
  have "sorted_wrt (\<lambda>i j. probs ! i \<ge> probs ! j) (map ((!) perm) ?P)"
    unfolding sorted_wrt_map
    by (rule sorted_wrt_mono_rel [of _ "(<)"])
      (use perm(3,4) in \<open>auto intro: sorted_wrt_nth_less sorted_wrt_filter\<close>)
  moreover have "distinct (map ((!) perm) ?P)" using perm(1,3)
    by (auto simp: distinct_map inj_on_def nth_eq_iff_index_eq)
  moreover have "set (map ((!) perm) ?P) \<subseteq> {..<n}" using perm(2,3) nth_mem by fastforce
  ultimately show ?thesis using sel pair drop by (intro exI [of _ "map ((!) perm) ?P"]) blast
qed

theorem suppression_exact_witness:
  "\<exists>kept. select_detections (sort_key (\<lambda>p. - fst p)) (1/2) 2 [0, 0, 9, 9, 1, 0, 9, 9] [3/10, 9/10] [0, 0]
     = map (\<lambda>k. make_detection [0, 0, 9, 9, 1, 0, 9, 9] [0, 0] k ([3/10, 9/10] ! k)) kept \<and> kept = [1]"
proof -
  let ?b = "[0, 0, 9, 9, 1, 0, 9, 9] :: cfloat list" and ?p = "[3/10, 9/10] :: cfloat list"
  have ov: "box_overlap ?b 0 1 > 1/2" by (simp add: box_overlap_def CalculateOverlap_def Let_def)
  obtain kept where k: "distinct kept" "set kept \<subseteq> {..<2}"
    "select_detections (sort_key (\<lambda>p. - fst p)) (1/2) 2 ?b ?p [0, 0] = map (\<lambda>k. make_detection ?b [0, 0] k (?p ! k)) kept"
    "\<forall>i \<in> set kept. \<forall>j \<in> set kept. i \<noteq> j \<and> [0, 0::int] ! i = [0, 0] ! j \<longrightarrow> box_overlap ?b i j \<le> 1/2"
    "\<forall>m < 2. m \<notin> set kept \<longrightarrow> (\<exists>k \<in> set kept. [0, 0::int] ! k = [0, 0] ! m \<and> ?p ! k \<ge> ?p ! m \<and> box_overlap ?b k m > 1/2)"
    using suppression_exact [OF sort_key_sorts_desc, of ?p 2 "[0, 0]" "1/2" ?b] by auto
  have lt: "k \<in> set kept \<Longrightarrow> k = 0 \<or> k = 1" for k using k(2) by force
  have one: "1 \<in> set kept"
  proof (rule ccontr)
    assume "1 \<notin> set kept"
    then obtain j where "j \<in> set kept" "?p ! j \<ge> ?p ! 1" using k(5) [rule_format, of 1] by auto
    then show False using lt [of j] \<open>1 \<notin> set kept\<close> by auto
  qed
  then have "0 \<notin> set kept" using k(4) [rule_format, of 0 1] ov by auto
  then have "set kept = set [1]" using one lt by auto
  moreover from this have "length kept = 1" using distinct_card [OF k(1)] by simp
  ultimately have "kept = [1]" by (cases kept) auto
  then show ?thesis using k(3) by blast
qed

end
