(* ===== verification/Yolo_Decode.thy ===== *)
theory Yolo_Decode
  imports Yolo_Postprocess
begin

text \<open>
  What the tensor scan of \<open>Yolo_Postprocess\<close> computes: it stays inside tensors of the network's
  output shape, emits exactly the cells above the quantised threshold with their best class, and
  the quantised threshold agrees with the configured one up to one quantisation step.
\<close>

subsection \<open>The layout of a tensor\<close>

text \<open>Channel \<open>ch\<close> of a cell: the tensor is laid out by anchor, channel, row and column.\<close>

definition channel :: "int8 list \<Rightarrow> nat \<Rightarrow> nat \<Rightarrow> nat \<Rightarrow> nat \<Rightarrow> nat \<times> nat \<times> nat \<Rightarrow> int8" where
  "channel t class_num grid_h grid_w ch = (\<lambda>(a, i, j). t ! (((class_num + 5) * a + ch) * (grid_h * grid_w) + i * grid_w + j))"

definition tensor_shape :: "int8 list \<Rightarrow> nat \<Rightarrow> nat \<Rightarrow> nat \<Rightarrow> bool" where
  "tensor_shape t class_num grid_h grid_w = (length t = 3 * (class_num + 5) * (grid_h * grid_w))"

lemma grid_cells_iff: "(a, i, j) \<in> set (grid_cells grid_h grid_w) \<longleftrightarrow> a < 3 \<and> i < grid_h \<and> j < grid_w"
  by (auto simp: grid_cells_def image_iff)

lemma cell_index_bound:
  fixes a i j gh gw ch B :: nat
  assumes "a < 3" "i < gh" "j < gw" "ch < B"
  shows "(B * a + ch) * (gh * gw) + i * gw + j < 3 * B * (gh * gw)"
proof -
  have "i * gw + j < Suc i * gw" using assms(3) by simp
  also have "\<dots> \<le> gh * gw" using assms(2) by (intro mult_le_mono1) simp
  finally have ij: "i * gw + j < gh * gw" .
  have "B * a \<le> B * 2" using assms(1) by simp
  then have "Suc (B * a + ch) \<le> 3 * B" using assms(4) by linarith
  then have "Suc (B * a + ch) * (gh * gw) \<le> 3 * B * (gh * gw)" by (rule mult_le_mono1)
  then show ?thesis using ij by simp
qed

lemma tensor_at_channel:
  assumes "tensor_shape t C gh gw" and "cell \<in> set (grid_cells gh gw)" and "ch < C + 5" and "cell = (a, i, j)"
    and "idx = ((C + 5) * a + ch) * (gh * gw) + i * gw + j"
  shows "tensor_at t idx = Some (channel t C gh gw ch cell)"
  using assms cell_index_bound [of a i gh j gw ch "C + 5"]
  by (simp add: tensor_at_def channel_def tensor_shape_def grid_cells_iff)

subsection \<open>The best class of a cell\<close>

definition first_best :: "(nat \<Rightarrow> int) \<Rightarrow> nat \<Rightarrow> nat \<Rightarrow> bool" where
  "first_best f n k = (k < n \<and> (\<forall>l < n. f l \<le> f k) \<and> (\<forall>l < k. f l < f k))"

lemma first_best_fold:
  assumes "0 < n"
  shows "\<exists>k. first_best (\<lambda>k. sint (g k :: int8)) n k \<and>
    fold (\<lambda>k (p, c). if sint (g k) > sint p then (g k, int k) else (p, c)) [1..<n] (g 0, 0) = (g k, int k)"
  using assms
proof (induction n)
  case (Suc n)
  show ?case
  proof (cases "n = 0")
    case True
    then show ?thesis by (intro exI [of _ 0]) (simp add: first_best_def)
  next
    case False
    then obtain k where k: "first_best (\<lambda>k. sint (g k)) n k"
      "fold (\<lambda>k (p, c). if sint (g k) > sint p then (g k, int k) else (p, c)) [1..<n] (g 0, 0) = (g k, int k)"
      using Suc.IH by auto
    then show ?thesis using False
      by (intro exI [of _ "if sint (g n) > sint (g k) then n else k"])
        (auto simp: first_best_def less_Suc_eq intro: order_trans le_less_trans)
  qed
qed simp

lemma best_class_first:
  assumes "tensor_shape t C gh gw" and "(a, i, j) \<in> set (grid_cells gh gw)" and "0 < C"
  shows "\<exists>k. first_best (\<lambda>k. sint (channel t C gh gw (5 + k) (a, i, j))) C k \<and>
    best_class t ((C + 5) * a * (gh * gw) + i * gw + j) (gh * gw) C = Some (channel t C gh gw (5 + k) (a, i, j), int k)"
proof -
  let ?g = "\<lambda>k. channel t C gh gw (5 + k) (a, i, j)"
  have at: "tensor_at t ((C + 5) * a * (gh * gw) + i * gw + j + (5 + k) * (gh * gw)) = Some (?g k)" if "k < C" for k
    by (rule tensor_at_channel [OF assms(1,2) _ refl]) (use that in \<open>auto simp: algebra_simps\<close>)
  obtain k where k: "first_best (\<lambda>k. sint (?g k)) C k"
    "fold (\<lambda>k (p, c). if sint (?g k) > sint p then (?g k, int k) else (p, c)) [1..<C] (?g 0, 0) = (?g k, int k)"
    using first_best_fold [OF assms(3), of ?g] by blast
  have "for_each (\<lambda>k (p, c). do {
       prob \<leftarrow> tensor_at t ((C + 5) * a * (gh * gw) + i * gw + j + (5 + k) * (gh * gw));
       Some (if sint prob > sint p then (prob, int k) else (p, c)) }) [1..<C] (?g 0, 0) = Some (?g k, int k)"
    unfolding k(2) [symmetric] by (rule for_each_total) (auto simp: at)
  then show ?thesis using k(1) at [OF assms(3)] by (auto simp: best_class_def)
qed

subsection \<open>The candidates of a tensor\<close>

definition cell_box :: "(nat \<Rightarrow> int8) \<Rightarrow> int list \<Rightarrow> nat \<Rightarrow> int \<Rightarrow> cfloat \<Rightarrow> nat \<times> nat \<times> nat \<Rightarrow> cfloat list" where
  "cell_box ch anchor stride zp scale = (\<lambda>(a, i, j).
     let d = (\<lambda>n. deqnt_affine_to_f32 (ch n) zp scale);
         w = (2 * d 2)\<^sup>2 * of_int (anchor ! (2 * a));
         h = (2 * d 3)\<^sup>2 * of_int (anchor ! (2 * a + 1))
     in [(2 * d 0 - 1/2 + of_nat j) * of_nat stride - w / 2, (2 * d 1 - 1/2 + of_nat i) * of_nat stride - h / 2, w, h])"

lemma decode_box_cell:
  assumes "tensor_shape t C gh gw" and "(a, i, j) \<in> set (grid_cells gh gw)"
  shows "decode_box t anchor ((C + 5) * a * (gh * gw) + i * gw + j) (gh * gw) stride zp scale (a, i, j) =
    Some (cell_box (\<lambda>ch. channel t C gh gw ch (a, i, j)) anchor stride zp scale (a, i, j))"
proof -
  have at: "tensor_at t ((C + 5) * a * (gh * gw) + i * gw + j + ch * (gh * gw)) = Some (channel t C gh gw ch (a, i, j))"
    if "ch < 4" for ch
    by (rule tensor_at_channel [OF assms _ refl]) (use that in \<open>auto simp: algebra_simps\<close>)
  show ?thesis using at [of 0] at [of 1] at [of 2] at [of 3]
    by (simp add: decode_box_def cell_box_def Let_def power2_eq_square mult.commute mult.left_commute)
qed

definition push_cell :: "int8 list \<Rightarrow> int list \<Rightarrow> nat \<Rightarrow> nat \<Rightarrow> nat \<Rightarrow> int \<Rightarrow> cfloat \<Rightarrow> nat \<Rightarrow>
    (nat \<times> nat \<times> nat \<Rightarrow> nat) \<Rightarrow> nat \<times> nat \<times> nat \<Rightarrow> nat \<times> candidates \<Rightarrow> nat \<times> candidates" where
  "push_cell t anchor gh gw stride zp scale C best cell = (\<lambda>(n, c). (n + 1,
     c\<lparr>cand_probs := cand_probs c @ [deqnt_affine_to_f32 (channel t C gh gw (5 + best cell) cell) zp scale
                                      * deqnt_affine_to_f32 (channel t C gh gw 4 cell) zp scale],
       cand_class := cand_class c @ [int (best cell)],
       cand_boxes := cand_boxes c @ cell_box (\<lambda>ch. channel t C gh gw ch cell) anchor stride zp scale cell\<rparr>))"

lemma decode_cell_step:
  assumes "tensor_shape t C gh gw" and "cell \<in> set (grid_cells gh gw)" and "0 < C"
    and "first_best (\<lambda>k. sint (channel t C gh gw (5 + k) cell)) C (best cell)"
  shows "decode_cell t anchor gh gw stride T zp scale C cell nc =
    Some (if sint (channel t C gh gw 4 cell) \<ge> sint T \<and> sint (channel t C gh gw (5 + best cell) cell) > sint T
          then push_cell t anchor gh gw stride zp scale C best cell nc else nc)"
proof -
  obtain a i j where cell: "cell = (a, i, j)" by (cases cell)
  obtain n c where nc: "nc = (n, c)" by fastforce
  have conf: "tensor_at t (((C + 5) * a + 4) * (gh * gw) + i * gw + j) = Some (channel t C gh gw 4 cell)"
    by (rule tensor_at_channel [OF assms(1,2) _ cell refl]) simp
  obtain k where k: "first_best (\<lambda>k. sint (channel t C gh gw (5 + k) (a, i, j))) C k"
    "best_class t ((C + 5) * a * (gh * gw) + i * gw + j) (gh * gw) C = Some (channel t C gh gw (5 + k) (a, i, j), int k)"
    using best_class_first [OF assms(1) _ assms(3)] assms(2) unfolding cell by blast
  have "k = best cell" using k(1) assms(4) unfolding cell first_best_def by (meson linorder_neqE_nat not_less)
  have b: "C + BBOX_ELEMENT_COUNT + CONF_ELEMENT_COUNT = C + 5"
    by (simp add: BBOX_ELEMENT_COUNT_def CONF_ELEMENT_COUNT_def)
  show ?thesis
    using conf k(2) decode_box_cell [OF assms(1), of a i j anchor stride zp scale] assms(2)
    unfolding \<open>k = best cell\<close> cell nc
    by (auto simp: decode_cell_def b push_cell_def Let_def simp del: add_mult_distrib)
qed

lemma fold_push_cell:
  "fold (push_cell t anchor gh gw stride zp scale C best) cells (n, c) =
     (n + length cells,
      c\<lparr>cand_probs := cand_probs c @ map (\<lambda>cell. deqnt_affine_to_f32 (channel t C gh gw (5 + best cell) cell) zp scale
                                      * deqnt_affine_to_f32 (channel t C gh gw 4 cell) zp scale) cells,
        cand_class := cand_class c @ map (\<lambda>cell. int (best cell)) cells,
        cand_boxes := cand_boxes c @ concat (map (\<lambda>cell. cell_box (\<lambda>ch. channel t C gh gw ch cell) anchor stride zp scale cell) cells)\<rparr>)"
  by (induction cells arbitrary: n c) (auto simp: push_cell_def)

lemma fold_filter: "fold (\<lambda>x s. if P x then f x s else s) xs s = fold f (filter P xs) s"
  by (induction xs arbitrary: s) auto

text \<open>
  C6. The scan of a tensor is exact and stays inside it.  On a tensor of the shape the model announces
  (three anchors, box, confidence and class channels, the grid) it reads nothing outside, and it
  emits, in scan order, exactly the cells whose box confidence reaches the quantised threshold and
  whose best class exceeds it; the class of a candidate is the first with the largest score, its
  confidence the product of the two dequantised scores.
\<close>

theorem tensor_scan_exact:
  assumes "length t = 3 * (class_num + 5) * (grid_h * grid_w)" and "0 < class_num"
  shows "\<exists>best cells. (\<forall>cell \<in> set (grid_cells grid_h grid_w).
         first_best (\<lambda>k. sint (channel t class_num grid_h grid_w (5 + k) cell)) class_num (best cell))
    \<and> cells = filter (\<lambda>cell. let T = sint (qnt_f32_to_affine threshold zp scale) in
         T \<le> sint (channel t class_num grid_h grid_w 4 cell)
         \<and> T < sint (channel t class_num grid_h grid_w (5 + best cell) cell)) (grid_cells grid_h grid_w)
    \<and> rknn_process_impl t anchor grid_h grid_w stride c threshold zp scale class_num = Some (length cells,
        \<lparr>cand_boxes = cand_boxes c @ concat (map (\<lambda>cell. cell_box (\<lambda>ch. channel t class_num grid_h grid_w ch cell) anchor stride zp scale cell) cells),
         cand_probs = cand_probs c @ map (\<lambda>cell. deqnt_affine_to_f32 (channel t class_num grid_h grid_w (5 + best cell) cell) zp scale
                        * deqnt_affine_to_f32 (channel t class_num grid_h grid_w 4 cell) zp scale) cells,
         cand_class = cand_class c @ map (\<lambda>cell. int (best cell)) cells\<rparr>)"
proof -
  have shape: "tensor_shape t class_num grid_h grid_w" using assms(1) by (simp add: tensor_shape_def)
  have "\<forall>cell \<in> set (grid_cells grid_h grid_w). \<exists>k. first_best (\<lambda>k. sint (channel t class_num grid_h grid_w (5 + k) cell)) class_num k"
    using best_class_first [OF shape _ assms(2)] by fast
  then obtain best where best: "\<forall>cell \<in> set (grid_cells grid_h grid_w).
      first_best (\<lambda>k. sint (channel t class_num grid_h grid_w (5 + k) cell)) class_num (best cell)" by metis
  let ?T = "qnt_f32_to_affine threshold zp scale"
  let ?P = "\<lambda>cell. sint (channel t class_num grid_h grid_w 4 cell) \<ge> sint ?T
      \<and> sint (channel t class_num grid_h grid_w (5 + best cell) cell) > sint ?T"
  have "rknn_process_impl t anchor grid_h grid_w stride c threshold zp scale class_num =
      Some (fold (\<lambda>cell nc. if ?P cell then push_cell t anchor grid_h grid_w stride zp scale class_num best cell nc else nc)
             (grid_cells grid_h grid_w) (0, c))"
    unfolding rknn_process_impl_def
    by (rule for_each_total) (use decode_cell_step [OF shape _ assms(2)] best in blast)
  then show ?thesis
    by (intro exI [of _ best] exI [of _ "filter ?P (grid_cells grid_h grid_w)"])
      (simp add: fold_filter fold_push_cell best Let_def)
qed

definition sample_tensor :: "int8 list" where
  "sample_tensor = replicate 4 0 @ [100, 100] @ replicate 12 0"

theorem tensor_scan_exact_witness:
  "\<exists>n c. rknn_process_impl sample_tensor anchor_0 1 1 8 \<lparr>cand_boxes = [], cand_probs = [], cand_class = []\<rparr> (1/2) 0 (1/100) 1
     = Some (n, c) \<and> n = 1 \<and> cand_class c = [0] \<and> cand_probs c = [1]"
proof -
  have grid: "grid_cells 1 1 = [(0, 0, 0), (1, 0, 0), (2, 0, 0)]" by (simp add: grid_cells_def upt_rec)
  have T: "sint (qnt_f32_to_affine (1/2) 0 (1/100)) = 50"
    by (simp add: qnt_f32_to_affine_def clip_value_def int_cast_def)
  obtain best cells where b: "\<forall>cell \<in> set (grid_cells 1 1).
         first_best (\<lambda>k. sint (channel sample_tensor 1 1 1 (5 + k) cell)) 1 (best cell)"
    "cells = filter (\<lambda>cell. let T = sint (qnt_f32_to_affine (1/2) 0 (1/100)) in
         T \<le> sint (channel sample_tensor 1 1 1 4 cell) \<and> T < sint (channel sample_tensor 1 1 1 (5 + best cell) cell)) (grid_cells 1 1)"
    "rknn_process_impl sample_tensor anchor_0 1 1 8 \<lparr>cand_boxes = [], cand_probs = [], cand_class = []\<rparr> (1/2) 0 (1/100) 1 = Some (length cells,
        \<lparr>cand_boxes = [] @ concat (map (\<lambda>cell. cell_box (\<lambda>ch. channel sample_tensor 1 1 1 ch cell) anchor_0 8 0 (1/100) cell) cells),
         cand_probs = [] @ map (\<lambda>cell. deqnt_affine_to_f32 (channel sample_tensor 1 1 1 (5 + best cell) cell) 0 (1/100)
                        * deqnt_affine_to_f32 (channel sample_tensor 1 1 1 4 cell) 0 (1/100)) cells,
         cand_class = [] @ map (\<lambda>cell. int (best cell)) cells\<rparr>)"
    using tensor_scan_exact [of sample_tensor 1 1 1 "1/2" 0 "1/100" anchor_0 8 "\<lparr>cand_boxes = [], cand_probs = [], cand_class = []\<rparr>"]
    by (auto simp: sample_tensor_def)
  have bst: "best cell = 0" if "cell \<in> set (grid_cells 1 1)" for cell using b(1) that by (simp add: first_best_def)
  have best: "best (0, 0, 0) = 0" "best (1, 0, 0) = 0" "best (2, 0, 0) = 0" by (rule bst; simp add: grid_cells_iff)+
  have "cells = [(0, 0, 0)]" unfolding b(2) T grid
    by (simp add: Let_def best channel_def sample_tensor_def nth_append numeral_eq_Suc)
  then show ?thesis using b(3)
    by (simp add: best channel_def sample_tensor_def nth_append deqnt_affine_to_f32_def numeral_eq_Suc)
qed

subsection \<open>The quantised threshold\<close>

lemma int_cast_between: "real_of_int lo \<le> r \<Longrightarrow> r \<le> real_of_int hi \<Longrightarrow> lo \<le> int_cast r \<and> int_cast r \<le> hi"
  by (auto simp: int_cast_def) linarith+

lemma sint_qnt: "sint (qnt_f32_to_affine f zp scale) = int_cast (clip_value (f / scale + of_int zp) (-128) 127)"
proof -
  have "-128 \<le> int_cast (clip_value (f / scale + of_int zp) (-128) 127) \<and> int_cast (clip_value (f / scale + of_int zp) (-128) 127) \<le> 127"
    by (rule int_cast_between) (auto simp: clip_value_def)
  then show ?thesis
    unfolding qnt_f32_to_affine_def sint_sbintrunc' by (intro signed_take_bit_int_eq_self) auto
qed

text \<open>
  C35. Comparing bytes is comparing scores.  For a threshold inside the quantised range, every byte whose
  dequantised value reaches the threshold passes the byte comparison, and every byte that passes is
  worth more than the threshold less one quantisation step; quantising and dequantising changes a
  value by less than one step.
\<close>

theorem quantised_threshold_sound:
  assumes "0 < scale" and "-128 \<le> thr / scale + of_int zp" and "thr / scale + of_int zp \<le> 127"
  shows "(thr \<le> deqnt_affine_to_f32 q zp scale \<longrightarrow> sint (qnt_f32_to_affine thr zp scale) \<le> sint q)
    \<and> (sint (qnt_f32_to_affine thr zp scale) \<le> sint q \<longrightarrow> thr - scale < deqnt_affine_to_f32 q zp scale)
    \<and> \<bar>deqnt_affine_to_f32 (qnt_f32_to_affine thr zp scale) zp scale - thr\<bar> < scale"
proof -
  define d where "d = thr / scale + of_int zp"
  have thr: "thr = (d - of_int zp) * scale" using assms(1) by (simp add: d_def)
  have s: "sint (qnt_f32_to_affine thr zp scale) = int_cast d"
    using assms(2,3) unfolding sint_qnt d_def by (auto simp: clip_value_def)
  have near: "d - 1 < of_int (int_cast d)" "of_int (int_cast d) < d + 1" by (auto simp: int_cast_def) linarith+
  have "d \<le> of_int z \<Longrightarrow> int_cast d \<le> z" for z by (auto simp: int_cast_def floor_le_iff ceiling_le_iff)
  note this [of "sint q"]
  moreover have "thr \<le> deqnt_affine_to_f32 q zp scale \<longleftrightarrow> d \<le> of_int (sint q)"
    using assms(1) by (simp add: deqnt_affine_to_f32_def thr)
  moreover have "int_cast d \<le> sint q \<Longrightarrow> thr - scale < deqnt_affine_to_f32 q zp scale"
  proof -
    assume "int_cast d \<le> sint q"
    then have "d - 1 < of_int (sint q)" using near(1) by linarith
    then have "(d - 1 - of_int zp) * scale < (of_int (sint q) - of_int zp) * scale" using assms(1) by simp
    then show ?thesis by (simp add: deqnt_affine_to_f32_def thr algebra_simps)
  qed
  moreover have "deqnt_affine_to_f32 (qnt_f32_to_affine thr zp scale) zp scale - thr = (of_int (int_cast d) - d) * scale"
    unfolding deqnt_affine_to_f32_def s by (simp add: thr algebra_simps)
  then have "\<bar>deqnt_affine_to_f32 (qnt_f32_to_affine thr zp scale) zp scale - thr\<bar> = \<bar>of_int (int_cast d) - d\<bar> * scale"
    using assms(1) by (simp add: abs_mult)
  moreover have "\<bar>of_int (int_cast d) - d\<bar> * scale < 1 * scale"
    using near assms(1) by (intro mult_strict_right_mono) auto
  ultimately show ?thesis using s by simp
qed

theorem quantised_threshold_sound_witness:
  "\<bar>deqnt_affine_to_f32 (qnt_f32_to_affine (1/4) (-128) (1/255)) (-128) (1/255) - 1/4\<bar> < 1/255"
  using quantised_threshold_sound [of "1/255" "1/4" "-128"] by simp

subsection \<open>Every report is well formed\<close>

lemma scan_ok:
  assumes "length t = 3 * (C + 5) * (gh * gw)" and "0 < C"
    and "length (cand_probs c) = m" "length (cand_class c) = m" "length (cand_boxes c) = 4 * m" "set (cand_class c) \<subseteq> int ` {..<C}"
  shows "\<exists>n c'. rknn_process_impl t anchor gh gw stride c thr zp scale C = Some (n, c')
    \<and> length (cand_probs c') = m + n \<and> length (cand_class c') = m + n \<and> length (cand_boxes c') = 4 * (m + n)
    \<and> set (cand_class c') \<subseteq> int ` {..<C}"
proof -
  let ?I = "\<lambda>(n, c'). length (cand_probs c') = m + n \<and> length (cand_class c') = m + n \<and> length (cand_boxes c') = 4 * (m + n)
    \<and> set (cand_class c') \<subseteq> int ` {..<C}"
  have shape: "tensor_shape t C gh gw" using assms(1) by (simp add: tensor_shape_def)
  have step: "\<exists>s'. decode_cell t anchor gh gw stride T zp scale C cell s = Some s' \<and> ?I s'"
    if cell: "cell \<in> set (grid_cells gh gw)" and s: "?I s" for cell s T
  proof -
    obtain a i j where aij: "cell = (a, i, j)" by (cases cell)
    obtain k where k: "first_best (\<lambda>k. sint (channel t C gh gw (5 + k) cell)) C k"
      using best_class_first [OF shape _ assms(2)] cell unfolding aij by blast
    have "?I (push_cell t anchor gh gw stride zp scale C (\<lambda>_. k) cell s)"
      using s k by (auto simp: push_cell_def cell_box_def Let_def first_best_def split: prod.splits)
    then show ?thesis
      using decode_cell_step [where best = "\<lambda>_. k", OF shape cell assms(2) k, of anchor stride T zp scale s] s by auto
  qed
  have "\<exists>s'. rknn_process_impl t anchor gh gw stride c thr zp scale C = Some s' \<and> ?I s'"
    unfolding rknn_process_impl_def by (rule for_each_inv) (use assms(3-6) step in auto)
  then show ?thesis by auto
qed

lemma select_detections_ok:
  assumes "sorts_desc std_sort" and "length probs = n" and "length cls = n" and "set cls \<subseteq> int ` {..<C}"
  shows "(\<forall>d \<in> set (select_detections std_sort thr n boxes probs cls). \<exists>k < C. det_class_id d = real k)
    \<and> sorted_wrt (\<lambda>d e. det_conf d \<ge> det_conf e) (select_detections std_sort thr n boxes probs cls)"
proof (cases "n = 0")
  case True then show ?thesis by (simp add: select_detections_def)
next
  case False
  then have "0 < n" by simp
  obtain perm out where "passed boxes cls thr (map int perm) (set cls) out" "distinct perm"
    and perm: "set perm = {..<n}" "length perm = n" "sorted_wrt (\<lambda>i j. probs ! i \<ge> probs ! j) perm"
    and sel: "select_detections std_sort thr n boxes probs cls =
       map (\<lambda>k. make_detection boxes cls k (probs ! k)) (map ((!) perm) (filter (\<lambda>i. out ! i \<noteq> -1) [0..<n]))"
    by (rule select_detections_kept [OF assms(1-3) \<open>0 < n\<close>, of boxes thr])
  have "sorted_wrt (\<lambda>i j. probs ! (perm ! i) \<ge> probs ! (perm ! j)) (filter (\<lambda>i. out ! i \<noteq> -1) [0..<n])"
    by (rule sorted_wrt_mono_rel [of _ "(<)"])
      (use perm(2) in \<open>auto intro: sorted_wrt_nth_less [OF perm(3)] sorted_wrt_filter\<close>)
  moreover have "\<exists>k < C. of_int (cls ! (perm ! i)) = real k" if "i < n" for i
  proof -
    have "perm ! i \<in> {..<n}" using perm(1,2) that nth_mem by metis
    then have "perm ! i < length cls" using assms(3) by simp
    then have "cls ! (perm ! i) \<in> int ` {..<C}" using assms(3,4) nth_mem by blast
    then obtain k where "k < C" "cls ! (perm ! i) = int k" by auto
    then show ?thesis by (intro exI [of _ k]) simp
  qed
  ultimately show ?thesis unfolding sel by (auto simp: make_detection_def sorted_wrt_map)
qed

lemma PostProcess_total:
  assumes "sorts_desc std_sort" and "0 < class_num"
    and "length t0 = 3 * (class_num + 5) * ((h div 8) * (w div 8))"
    and "length t1 = 3 * (class_num + 5) * ((h div 16) * (w div 16))"
    and "\<forall>t. t2 = Some t \<longrightarrow> length t = 3 * (class_num + 5) * ((h div 32) * (w div 32))"
  shows "\<exists>results. PostProcessImplRKNN std_sort conf_thr nms_thr class_num outputs t0 t1 t2 h w zps scales = Some results
    \<and> (\<forall>d \<in> set results. \<exists>k < class_num. det_class_id d = real k)
    \<and> sorted_wrt (\<lambda>d e. det_conf d \<ge> det_conf e) results"
proof -
  let ?c = "\<lparr>cand_boxes = [], cand_probs = [], cand_class = []\<rparr>"
  let ?ok = "\<lambda>n c. length (cand_probs c) = n \<and> length (cand_class c) = n \<and> length (cand_boxes c) = 4 * n
      \<and> set (cand_class c) \<subseteq> int ` {..<class_num}"
  obtain n0 c0 where 0: "rknn_process_impl t0 anchor_0 (h div 8) (w div 8) 8 ?c conf_thr (zps ! 0) (scales ! 0) class_num = Some (n0, c0)" "?ok n0 c0"
    using scan_ok [OF assms(3,2), of ?c 0 anchor_0 8 conf_thr "zps ! 0" "scales ! 0"] by auto
  obtain n1 c1 where 1: "rknn_process_impl t1 anchor_1 (h div 16) (w div 16) 16 c0 conf_thr (zps ! 1) (scales ! 1) class_num = Some (n1, c1)" "?ok (n0 + n1) c1"
    using scan_ok [OF assms(4,2), of c0 n0 anchor_1 16 conf_thr "zps ! 1" "scales ! 1"] 0(2) by auto
  have "\<exists>n2 c2. (case t2 of Some input \<Rightarrow> if outputs = 3
           then rknn_process_impl input anchor_2 (h div 32) (w div 32) 32 c1 conf_thr (zps ! 2) (scales ! 2) class_num
           else Some (0, c1) | None \<Rightarrow> Some (0, c1)) = Some (n2, c2) \<and> ?ok (n0 + n1 + n2) c2"
    using scan_ok [OF _ assms(2), of _ "h div 32" "w div 32" c1 "n0 + n1" anchor_2 32 conf_thr "zps ! 2" "scales ! 2"] 1(2) assms(5)
    by (auto split: option.split)
  then obtain n2 c2 where 2: "(case t2 of Some input \<Rightarrow> if outputs = 3
           then rknn_process_impl input anchor_2 (h div 32) (w div 32) 32 c1 conf_thr (zps ! 2) (scales ! 2) class_num
           else Some (0, c1) | None \<Rightarrow> Some (0, c1)) = Some (n2, c2)" "?ok (n0 + n1 + n2) c2" by blast
  have "PostProcessImplRKNN std_sort conf_thr nms_thr class_num outputs t0 t1 t2 h w zps scales =
      Some (select_detections std_sort nms_thr (n0 + n1 + n2) (cand_boxes c2) (cand_probs c2) (cand_class c2))"
    using 0(1) 1(1) 2(1) by (simp add: PostProcessImplRKNN_def)
  then show ?thesis
    using select_detections_ok [OF assms(1), of "cand_probs c2" "n0 + n1 + n2" "cand_class c2" class_num nms_thr "cand_boxes c2"] 2(2) by auto
qed

text \<open>
  On tensors of the announced shapes the post-processing always returns: every read is inside its
  tensor, every reported class is one of the model's, and the reports come in descending order of
  confidence.
\<close>

theorem detections_wellformed:
  assumes "sorts_desc std_sort" and "0 < class_num"
    and "length t0 = 3 * (class_num + 5) * ((h div 8) * (w div 8))"
    and "length t1 = 3 * (class_num + 5) * ((h div 16) * (w div 16))"
    and "\<forall>t. t2 = Some t \<longrightarrow> length t = 3 * (class_num + 5) * ((h div 32) * (w div 32))"
  shows "\<exists>results. PostProcessImplRKNN std_sort conf_thr nms_thr class_num outputs t0 t1 t2 h w zps scales = Some results
    \<and> (\<forall>d \<in> set results. \<exists>k < class_num. det_class_id d = real k)
    \<and> sorted_wrt (\<lambda>d e. det_conf d \<ge> det_conf e) results"
  by (rule PostProcess_total [OF assms])

theorem detections_wellformed_witness:
  "\<exists>results. PostProcessImplRKNN (sort_key (\<lambda>p. - fst p)) (1/2) (1/2) 1 2 sample_tensor [] None 8 8 [0, 0] [1/100, 1/100] = Some results
     \<and> (\<forall>d \<in> set results. \<exists>k < 1. det_class_id d = real k)"
  using detections_wellformed [OF sort_key_sorts_desc, of 1 sample_tensor 8 8 "[]" None "1/2" "1/2" 2 "[0, 0]" "[1/100, 1/100]"]
  by (auto simp: sample_tensor_def)

end
