(* ===== verification/Npu_Handler.thy ===== *)
theory Npu_Handler
  imports Engine_Handler Yolo_Decode
begin

text \<open>
  \<open>YoloV5_Torch_Onnx_RKNN_NPU\<close> (\<open>Engine/NPU/YoloV5_Torch_Onnx_RKNN_NPU\<close>), the engine handler for the
  RK3588 NPU, and its builder \<open>EngineHandlerBuilder_NPU\<close>.

  The RKNN runtime, the file system and the allocator are not part of the repository: what they answer
  is the record \<open>rknn_env\<close>, an argument of every operation that calls them.  Return codes that the
  source only logs do not appear.  A null pointer that is read or written, an access outside of a
  buffer and a division by zero are \<open>None\<close>.  The buffers that \<open>rknn_outputs_release\<close> gives back are not
  read again before the next inference overwrites them, so the release is not modelled.
\<close>

subsection \<open>Device state\<close>

datatype rknn_core_mask = RKNN_NPU_CORE_AUTO | RKNN_NPU_CORE_0 | RKNN_NPU_CORE_1 | RKNN_NPU_CORE_2

datatype rknn_tensor_format = RKNN_TENSOR_NCHW | RKNN_TENSOR_NHWC | RKNN_TENSOR_NC1HWC2 | RKNN_TENSOR_UNDEFINED

record rknn_tensor_attr =
  attr_fmt :: rknn_tensor_format
  attr_dims :: "nat \<Rightarrow> nat"
  attr_zp :: int
  attr_scale :: cfloat

record rknn_input =
  inp_index :: nat
  inp_size :: nat
  inp_fmt :: rknn_tensor_format
  inp_buf :: "8 word list option"

record rknn_env =
  env_IsValidFile :: "string \<Rightarrow> bool"
  env_read_file :: "string \<Rightarrow> 8 word list option"
  env_rknn_init :: "8 word list \<Rightarrow> int"
  env_query_sdk_version :: int
  env_set_core_mask :: "rknn_core_mask \<Rightarrow> int"
  env_query_in_out_num :: "int \<times> nat \<times> nat"
  env_query_input_attr :: "nat \<Rightarrow> int \<times> rknn_tensor_attr"
  env_query_output_attr :: "nat \<Rightarrow> int \<times> rknn_tensor_attr"
  env_malloc :: "nat \<Rightarrow> bool"
  env_forward :: "8 word list option list \<Rightarrow> int8 list option list"

record rknn_device =
  confidence_threshold_m :: cfloat
  nms_threshold_m :: cfloat
  class_num :: u64
  output_index_num :: nat
  n_input :: nat
  n_output :: nat
  core_mask :: rknn_core_mask
  input_attrs :: "rknn_tensor_attr list"
  output_attrs :: "rknn_tensor_attr list"
  rknn_inputs :: "rknn_input list"
  rknn_outputs :: "int8 list option list option"
  rknn_model_c :: nat
  rknn_model_w :: nat
  rknn_model_h :: nat

definition Yolo_device_new :: "EngineProfile \<Rightarrow> rknn_device" where
  "Yolo_device_new profile = \<lparr>confidence_threshold_m = confidence_threshold profile, nms_threshold_m = nms_threshold profile,
     class_num = 0, output_index_num = 0, n_input = 0, n_output = 0, core_mask = RKNN_NPU_CORE_AUTO, input_attrs = [],
     output_attrs = [], rknn_inputs = [], rknn_outputs = None, rknn_model_c = 0, rknn_model_w = 0, rknn_model_h = 0\<rparr>"

subsection \<open>Loading\<close>

definition core_mask_of :: "int \<Rightarrow> rknn_core_mask" where
  "core_mask_of dev_id = (if dev_id = 0 then RKNN_NPU_CORE_0 else if dev_id = 1 then RKNN_NPU_CORE_1
     else if dev_id = 2 then RKNN_NPU_CORE_2 else RKNN_NPU_CORE_AUTO)"

definition LoadModelEngineFile :: "rknn_env \<Rightarrow> EngineProfile \<Rightarrow> int \<Rightarrow> u32 \<Rightarrow> rknn_device \<Rightarrow> bool \<times> rknn_device" where
  "LoadModelEngineFile env profile dev_id batch d =
     (let engine_path = engine_file_path profile
      in if engine_path = [] then (False, d)
         else if \<not> env_IsValidFile env engine_path then (False, d)
         else case env_read_file env engine_path of
                None \<Rightarrow> (False, d)
              | Some engine_data \<Rightarrow>
                  if env_rknn_init env engine_data < 0 then (False, d)
                  else if env_query_sdk_version env < 0 then (False, d)
                  else let mask = core_mask_of dev_id;
                           d = (if env_set_core_mask env mask < 0 then d else d\<lparr>core_mask := mask\<rparr>)
                       in case env_query_in_out_num env of
                            (ret, n_in, n_out) \<Rightarrow>
                              if ret < 0 then (False, d)
                              else let d = d\<lparr>n_input := n_in, n_output := n_out\<rparr>
                                   in if unat batch \<noteq> n_input d then (False, d)
                                      else (True, d\<lparr>output_index_num := n_output d\<rparr>))"

fun query_attrs :: "(nat \<Rightarrow> int \<times> rknn_tensor_attr) \<Rightarrow> nat list \<Rightarrow> rknn_tensor_attr list option" where
  "query_attrs query [] = Some []"
| "query_attrs query (i # is) =
     (case query i of (ret, attr) \<Rightarrow> if ret < 0 then None else map_option (Cons attr) (query_attrs query is))"

text \<open>An input is pushed before its buffer is allocated; a failed allocation leaves it there with a null buffer.\<close>

fun alloc_inputs :: "(nat \<Rightarrow> bool) \<Rightarrow> nat \<Rightarrow> (nat \<times> rknn_tensor_attr) list \<Rightarrow> rknn_input list \<Rightarrow> bool \<times> rknn_input list" where
  "alloc_inputs malloc_ok bytes [] ins = (True, ins)"
| "alloc_inputs malloc_ok bytes ((i, attr) # rest) ins =
     (if malloc_ok bytes
      then alloc_inputs malloc_ok bytes rest
             (ins @ [\<lparr>inp_index = i, inp_size = bytes, inp_fmt = attr_fmt attr, inp_buf = Some (replicate bytes 0)\<rparr>])
      else (False, ins @ [\<lparr>inp_index = i, inp_size = bytes, inp_fmt = attr_fmt attr, inp_buf = None\<rparr>]))"

text \<open>\<open>class_num_\<close> is computed in 64-bit unsigned arithmetic; the size of an input buffer is stored in 32 bits.\<close>

definition AllocateBuffers :: "rknn_env \<Rightarrow> rknn_device \<Rightarrow> (bool \<times> rknn_device) option" where
  "AllocateBuffers env d =
     (case query_attrs (env_query_input_attr env) [0..<n_input d] of
        None \<Rightarrow> Some (False, d)
      | Some ins \<Rightarrow>
          (case query_attrs (env_query_output_attr env) [0..<n_output d] of
             None \<Rightarrow> Some (False, d)
           | Some outs \<Rightarrow>
               if outs = [] \<or> ins = [] then None
               else let d = d\<lparr>class_num := of_nat (attr_dims (hd outs) 1 div 3)
                                 - of_nat (BBOX_ELEMENT_COUNT + CONF_ELEMENT_COUNT),
                              input_attrs := ins, output_attrs := outs\<rparr>;
                        dims = attr_dims (hd ins);
                        d = (if attr_fmt (hd ins) = RKNN_TENSOR_NCHW
                             then d\<lparr>rknn_model_c := dims 1, rknn_model_h := dims 2, rknn_model_w := dims 3\<rparr>
                             else d\<lparr>rknn_model_h := dims 1, rknn_model_w := dims 2, rknn_model_c := dims 3\<rparr>);
                        d = d\<lparr>rknn_outputs := None\<rparr>
                    in case alloc_inputs (env_malloc env) ((rknn_model_w d * rknn_model_h d * rknn_model_c d) mod 2 ^ 32)
                              (enumerate 0 ins) (rknn_inputs d) of
                         (ok, inputs) \<Rightarrow>
                           let d = d\<lparr>rknn_inputs := inputs\<rparr>
                           in if \<not> ok then Some (False, d)
                              else Some (True, d\<lparr>rknn_outputs := Some (replicate (n_output d) None)\<rparr>)))"

definition ReleaseDeviceResources :: "rknn_device \<Rightarrow> rknn_device" where
  "ReleaseDeviceResources d = d\<lparr>rknn_outputs := None, rknn_inputs := map (\<lambda>i. i\<lparr>inp_buf := None\<rparr>) (rknn_inputs d)\<rparr>"

definition InitializeDevice :: "rknn_device \<Rightarrow> bool \<times> rknn_device" where
  "InitializeDevice d = (True, d)"

subsection \<open>Inference\<close>

definition swap_pixel :: "nat \<Rightarrow> 8 word list \<Rightarrow> 8 word list option" where
  "swap_pixel i data =
     (if 3 * i + 2 < length data then Some (data[3 * i := data ! (3 * i + 2), 3 * i + 2 := data ! (3 * i)]) else None)"

definition bgrToRgbInPlace :: "nat \<Rightarrow> nat \<Rightarrow> 8 word list \<Rightarrow> 8 word list option" where
  "bgrToRgbInPlace width height data = for_each swap_pixel [0..<width * height] data"

definition Preprocess ::
  "u32 \<Rightarrow> InputLayerWrapper \<Rightarrow> rknn_device batch_state \<Rightarrow> (bool vcall \<times> rknn_device batch_state) option" where
  "Preprocess batch_sz input = (\<lambda>(batch, d).
     if no_image input then Some (Returns False, batch, d)
     else if batch_sz = 0 then None
     else let idx = length batch mod unat batch_sz
          in if idx \<ge> length (rknn_inputs d) then Some (Returns False, batch, d)
             else case bgrToRgbInPlace (rknn_model_w d) (rknn_model_h d) (the (image_data input)) of
                    None \<Rightarrow> None
                  | Some img \<Rightarrow>
                      let target = rknn_inputs d ! idx
                      in if inp_buf target = None \<or> length img < inp_size target then None
                         else let d = d\<lparr>rknn_inputs := (rknn_inputs d)[idx := target\<lparr>inp_buf := Some (take (inp_size target) img)\<rparr>]\<rparr>;
                                  batch = batch @ [input\<lparr>image_data := Some img\<rparr>]
                              in Some (Returns (length batch \<ge> unat batch_sz), batch, d))"

definition DoInference :: "rknn_env \<Rightarrow> rknn_device batch_state \<Rightarrow> (bool vcall \<times> rknn_device batch_state) option" where
  "DoInference env = (\<lambda>(batch, d).
     if rknn_outputs d = None then None
     else Some (Returns True, batch, d\<lparr>rknn_outputs := Some (env_forward env (map inp_buf (rknn_inputs d)))\<rparr>))"

definition out_buf :: "rknn_device \<Rightarrow> nat \<Rightarrow> int8 list option" where
  "out_buf d i = (case rknn_outputs d of None \<Rightarrow> None | Some bufs \<Rightarrow> if i < length bufs then bufs ! i else None)"

text \<open>Reading through a null buffer fails at the first byte, like reading an empty tensor.\<close>

definition tensor_of :: "rknn_device \<Rightarrow> nat \<Rightarrow> int8 list" where
  "tensor_of d i = (case out_buf d i of None \<Rightarrow> [] | Some t \<Rightarrow> t)"

definition raw_detections ::
  "((cfloat \<times> int) list \<Rightarrow> (cfloat \<times> int) list) \<Rightarrow> rknn_device \<Rightarrow> Detection list option" where
  "raw_detections std_sort d =
     (let out_scales = map attr_scale (output_attrs d);
          out_zps = map attr_zp (output_attrs d);
          post = (\<lambda>input_2. PostProcessImplRKNN std_sort (confidence_threshold_m d) (nms_threshold_m d) (unat (class_num d))
                    (output_index_num d) (tensor_of d 0) (tensor_of d 1) input_2 (rknn_model_h d) (rknn_model_w d) out_zps out_scales)
      in if output_index_num d = 3 then post (out_buf d 2)
         else if output_index_num d = 2 then post None
         else Some [])"

definition infer_object_of :: "EngineProfile \<Rightarrow> Detection \<Rightarrow> InferObject" where
  "infer_object_of profile raw = InferObject_default\<lparr>bbox := det_bbox raw, xy_ref_type := ltx_type, coord_format := pixel_int,
     score := det_conf raw, class_id := int_cast (det_class_id raw), infer_engine_id := profile_uuid profile,
     track_id := INFER_TRACK_ID_NOT_SET\<rparr>"

definition Postprocess ::
  "((cfloat \<times> int) list \<Rightarrow> (cfloat \<times> int) list) \<Rightarrow> EngineProfile \<Rightarrow> int \<Rightarrow> rknn_device batch_state \<Rightarrow>
   (OutputLayerWrapper list vcall \<times> rknn_device batch_state) option" where
  "Postprocess std_sort profile dev_id = (\<lambda>(batch, d).
     if batch = [] then Some (Returns [], batch, d)
     else case raw_detections std_sort d of
            None \<Rightarrow> None
          | Some raw \<Rightarrow>
              Some (Returns (map (\<lambda>input_wrapper. \<lparr>out_meta = in_meta input_wrapper,
                       engine_handle_uuid = (profile_uuid profile, dev_id),
                       out_infer_objects = map (infer_object_of profile) raw\<rparr>) batch), batch, d))"

definition yolo_ops ::
  "rknn_env \<Rightarrow> ((cfloat \<times> int) list \<Rightarrow> (cfloat \<times> int) list) \<Rightarrow> EngineProfile \<Rightarrow> int \<Rightarrow> rknn_device engine_ops" where
  "yolo_ops env std_sort profile dev_id = \<lparr>op_InitializeDevice = InitializeDevice,
     op_LoadModelEngineFile = LoadModelEngineFile env profile dev_id (inference_batch_size profile),
     op_AllocateBuffers = AllocateBuffers env, op_ReleaseDeviceResources = ReleaseDeviceResources,
     op_Preprocess = Preprocess (inference_batch_size profile), op_DoInference = DoInference env,
     op_Postprocess = Postprocess std_sort profile dev_id\<rparr>"

subsection \<open>The builder\<close>

definition GetAvailableDeviceIDs :: "int list" where
  "GetAvailableDeviceIDs = [0, 1, 2]"

definition IsProfileSupported :: "EngineProfile \<Rightarrow> bool" where
  "IsProfileSupported profile = (opt_type profile = Torch_Onnx_RKNN)"

definition CreateNpuEngineHandler :: "EngineProfile \<Rightarrow> int \<Rightarrow> rknn_device engine_handler option" where
  "CreateNpuEngineHandler profile dev_id =
     (if model_major_type profile = Detection_Major
      then if model_minor_type profile = YoloV5
           then Some (EngineHandler_new profile dev_id (Yolo_device_new profile))
           else None
      else None)"

definition CreateAndLinkHandler :: "EngineProfile \<Rightarrow> int \<Rightarrow> rknn_device engine_handler option" where
  "CreateAndLinkHandler profile dev_id = map_option SetEngineLinker (CreateNpuEngineHandler profile dev_id)"

definition BuildHandlers :: "EngineProfile list \<Rightarrow> rknn_device engine_handler list" where
  "BuildHandlers profiles =
     concat (map (\<lambda>profile. if \<not> IsProfileSupported profile then []
        else List.map_filter (CreateAndLinkHandler profile) GetAvailableDeviceIDs) profiles)"

subsection \<open>Channel order\<close>

definition mirror :: "nat \<Rightarrow> nat" where
  "mirror k = 3 * (k div 3) + (2 - k mod 3)"

lemma mirror_cases: "mirror (3 * i) = 3 * i + 2" "mirror (3 * i + 1) = 3 * i + 1" "mirror (3 * i + 2) = 3 * i"
proof -
  have "(3 * i + 1) div 3 = i" "(3 * i + 1) mod 3 = 1" "(3 * i + 2) div 3 = i" "(3 * i + 2) mod 3 = 2" by presburger+
  then show "mirror (3 * i) = 3 * i + 2" "mirror (3 * i + 1) = 3 * i + 1" "mirror (3 * i + 2) = 3 * i"
    by (simp_all add: mirror_def)
qed

lemma mirror_cases_Suc [simp]: "mirror (Suc (3 * i)) = Suc (3 * i)" "mirror (Suc (Suc (3 * i))) = 3 * i"
  using mirror_cases [of i] by simp_all

lemma pixel_index:
  fixes k n :: nat
  obtains "k < 3 * n" | "k = 3 * n" | "k = 3 * n + 1" | "k = 3 * n + 2" | "3 * Suc n \<le> k"
proof -
  have "k < 3 * n \<or> k = 3 * n \<or> k = 3 * n + 1 \<or> k = 3 * n + 2 \<or> 3 * Suc n \<le> k" by presburger
  then show thesis using that by blast
qed

lemma mirror_less: "k < 3 * n \<Longrightarrow> mirror k < 3 * n"
  unfolding mirror_def by presburger

lemma mirror_mirror: "mirror (mirror k) = k"
proof -
  have "k = 3 * (k div 3) \<or> k = 3 * (k div 3) + 1 \<or> k = 3 * (k div 3) + 2" by presburger
  then show ?thesis using mirror_cases [of "k div 3"] by metis
qed

lemma for_each_append: "for_each f (xs @ ys) s = Option.bind (for_each f xs s) (for_each f ys)"
proof (induction xs arbitrary: s)
  case (Cons x xs)
  then show ?case by (cases "f x s") auto
qed simp

lemma swap_pixels:
  assumes "3 * n \<le> length data"
  shows "\<exists>data'. for_each swap_pixel [0..<n] data = Some data' \<and> length data' = length data
    \<and> (\<forall>k < length data. data' ! k = (if k < 3 * n then data ! mirror k else data ! k))"
  using assms
proof (induction n)
  case (Suc n)
  then obtain d1 where d1: "for_each swap_pixel [0..<n] data = Some d1" "length d1 = length data"
    "\<And>k. k < length data \<Longrightarrow> d1 ! k = (if k < 3 * n then data ! mirror k else data ! k)" by auto
  define d2 where "d2 = d1[3 * n := d1 ! (3 * n + 2), 3 * n + 2 := d1 ! (3 * n)]"
  have "d2 ! k = (if k < 3 * Suc n then data ! mirror k else data ! k)" if k: "k < length data" for k
    by (cases k n rule: pixel_index) (use k d1(2,3) Suc.prems in \<open>auto simp: d2_def mirror_cases nth_list_update\<close>)
  moreover have "for_each swap_pixel [0..<Suc n] data = Some d2"
    using d1(1,2) Suc.prems by (simp add: for_each_append swap_pixel_def d2_def)
  ultimately show ?case using d1(2) by (auto simp: d2_def)
qed simp

text \<open>
  The channel swap.  On a buffer that holds the image, \<open>bgrToRgbInPlace\<close> writes within the buffer,
  exchanges the first and the third byte of each of the width times height pixels and touches nothing
  else; applied twice it restores the image.
\<close>

theorem bgr_to_rgb_exact:
  assumes "3 * (w * h) \<le> length data"
  shows "\<exists>rgb. bgrToRgbInPlace w h data = Some rgb \<and> length rgb = length data
    \<and> (\<forall>i < w * h. rgb ! (3 * i) = data ! (3 * i + 2) \<and> rgb ! (3 * i + 1) = data ! (3 * i + 1) \<and> rgb ! (3 * i + 2) = data ! (3 * i))
    \<and> drop (3 * (w * h)) rgb = drop (3 * (w * h)) data \<and> bgrToRgbInPlace w h rgb = Some data"
proof -
  obtain rgb where rgb: "bgrToRgbInPlace w h data = Some rgb" "length rgb = length data"
    "\<And>k. k < length data \<Longrightarrow> rgb ! k = (if k < 3 * (w * h) then data ! mirror k else data ! k)"
    using swap_pixels [OF assms] by (auto simp: bgrToRgbInPlace_def)
  obtain again where again: "bgrToRgbInPlace w h rgb = Some again" "length again = length data"
    "\<And>k. k < length data \<Longrightarrow> again ! k = (if k < 3 * (w * h) then rgb ! mirror k else rgb ! k)"
    using swap_pixels [of "w * h" rgb] assms rgb(2) by (auto simp: bgrToRgbInPlace_def)
  have "again ! k = data ! k" if k: "k < length data" for k
  proof (cases "k < 3 * (w * h)")
    case True
    then have "mirror k < 3 * (w * h)" by (rule mirror_less)
    then show ?thesis using True k again(3) rgb(3) assms by (simp add: mirror_mirror)
  qed (use k again(3) rgb(3) in auto)
  then have "again = data" using again(2) by (intro nth_equalityI) auto
  moreover have "drop (3 * (w * h)) rgb = drop (3 * (w * h)) data"
    using rgb(2,3) by (intro nth_equalityI) auto
  moreover have "\<forall>i < w * h. rgb ! (3 * i) = data ! (3 * i + 2) \<and> rgb ! (3 * i + 1) = data ! (3 * i + 1) \<and> rgb ! (3 * i + 2) = data ! (3 * i)"
  proof (intro allI impI)
    fix i assume "i < w * h"
    then have "3 * i + 2 < 3 * (w * h)" by linarith
    then show "rgb ! (3 * i) = data ! (3 * i + 2) \<and> rgb ! (3 * i + 1) = data ! (3 * i + 1) \<and> rgb ! (3 * i + 2) = data ! (3 * i)"
      using rgb(3) [of "3 * i"] rgb(3) [of "3 * i + 1"] rgb(3) [of "3 * i + 2"] assms mirror_cases [of i] by simp
  qed
  ultimately show ?thesis using rgb(1,2) again(1) by auto
qed

theorem bgr_to_rgb_exact_witness:
  "\<exists>rgb. bgrToRgbInPlace 2 1 [1, 2, 3, 4, 5, 6, 7] = Some rgb \<and> length rgb = 7 \<and> rgb ! 0 = 3 \<and> bgrToRgbInPlace 2 1 rgb = Some [1, 2, 3, 4, 5, 6, 7]"
  using bgr_to_rgb_exact [of 2 1 "[1, 2, 3, 4, 5, 6, 7]"] by (auto dest!: spec [of _ 0])

subsection \<open>The handler meets the contract of its base class\<close>

text \<open>The output tensors have the shapes the model announces (for the two layouts the handler reads).\<close>

definition outputs_shaped :: "nat \<Rightarrow> nat \<Rightarrow> nat \<Rightarrow> int8 list option list \<Rightarrow> bool" where
  "outputs_shaped w h C bufs =
     (\<exists>t0 t1 rest. bufs = Some t0 # Some t1 # rest
        \<and> length t0 = 3 * (C + 5) * ((h div 8) * (w div 8)) \<and> length t1 = 3 * (C + 5) * ((h div 16) * (w div 16))
        \<and> (\<forall>t. rest \<noteq> [] \<and> hd rest = Some t \<longrightarrow> length t = 3 * (C + 5) * ((h div 32) * (w div 32))))"

definition yolo_dinv :: "rknn_env \<Rightarrow> u32 \<Rightarrow> nat \<Rightarrow> nat \<Rightarrow> rknn_device \<Rightarrow> bool" where
  "yolo_dinv env batch w h d = (rknn_model_w d = w \<and> rknn_model_h d = h \<and> length (rknn_inputs d) = unat batch
     \<and> (\<forall>i \<in> set (rknn_inputs d). inp_buf i \<noteq> None \<and> inp_size i \<le> 3 * (w * h)) \<and> rknn_outputs d \<noteq> None
     \<and> (output_index_num d \<in> {2, 3} \<longrightarrow> 0 < unat (class_num d) \<and> (\<forall>ins. outputs_shaped w h (unat (class_num d)) (env_forward env ins))))"

definition yolo_ready :: "nat \<Rightarrow> nat \<Rightarrow> rknn_device \<Rightarrow> bool" where
  "yolo_ready w h d = (output_index_num d \<in> {2, 3} \<longrightarrow> 0 < unat (class_num d)
     \<and> (\<exists>bufs. rknn_outputs d = Some bufs \<and> outputs_shaped w h (unat (class_num d)) bufs))"

definition holds_image :: "nat \<Rightarrow> nat \<Rightarrow> InputLayerWrapper \<Rightarrow> bool" where
  "holds_image w h x = (\<exists>bytes. image_data x = Some bytes \<and> bytes \<noteq> [] \<and> 3 * (w * h) \<le> length bytes)"

lemma Preprocess_batches:
  assumes "yolo_dinv env batch w h d" and "holds_image w h x" and "0 < batch"
  shows "\<exists>x' d'. Preprocess batch x (b, d) = Some (Returns (unat batch \<le> Suc (length b)), b @ [x'], d')
    \<and> yolo_dinv env batch w h d' \<and> in_meta x' = in_meta x"
proof -
  let ?i = "length b mod unat batch"
  obtain bytes where bytes: "image_data x = Some bytes" "bytes \<noteq> []" "3 * (w * h) \<le> length bytes"
    using assms(2) by (auto simp: holds_image_def)
  obtain img where img: "bgrToRgbInPlace w h bytes = Some img" "length img = length bytes"
    using swap_pixels [OF bytes(3)] by (auto simp: bgrToRgbInPlace_def)
  have pos: "0 < unat batch" using assms(3) by (simp add: unat_gt_0 word_neq_0_conv)
  then have idx: "?i < length (rknn_inputs d)" using assms(1) by (simp add: yolo_dinv_def)
  then have target: "inp_buf (rknn_inputs d ! ?i) \<noteq> None" "inp_size (rknn_inputs d ! ?i) \<le> 3 * (w * h)"
    using assms(1) by (auto simp: yolo_dinv_def)
  have fits: "\<not> length bytes < inp_size (rknn_inputs d ! ?i)" using target(2) bytes(3) by linarith
  have wh: "rknn_model_w d = w" "rknn_model_h d = h" using assms(1) by (simp_all add: yolo_dinv_def)
  define d' where "d' = d\<lparr>rknn_inputs := (rknn_inputs d)[?i := (rknn_inputs d ! ?i)\<lparr>inp_buf := Some (take (inp_size (rknn_inputs d ! ?i)) img)\<rparr>]\<rparr>"
  have "yolo_dinv env batch w h d'" using assms(1) target
    by (auto simp: yolo_dinv_def d'_def dest!: subsetD [OF set_update_subset_insert])
  moreover have "Preprocess batch x (b, d) = Some (Returns (unat batch \<le> Suc (length b)), b @ [x\<lparr>image_data := Some img\<rparr>], d')"
    using wh assms(3) bytes img idx target(1) fits by (auto simp: Preprocess_def no_image_def d'_def Let_def)
  ultimately show ?thesis by (intro exI [of _ "x\<lparr>image_data := Some img\<rparr>"] exI [of _ d']) simp
qed

lemma DoInference_ready:
  assumes "yolo_dinv env batch w h d"
  shows "\<exists>d'. DoInference env (b, d) = Some (Returns True, b, d') \<and> yolo_dinv env batch w h d' \<and> yolo_ready w h d'"
  using assms by (auto simp: DoInference_def yolo_dinv_def yolo_ready_def)

lemma raw_detections_ok:
  assumes "yolo_dinv env batch w h d" and "yolo_ready w h d" and "sorts_desc std_sort"
  shows "\<exists>raw. raw_detections std_sort d = Some raw
    \<and> (\<forall>x \<in> set raw. \<exists>k < unat (class_num d). det_class_id x = real k) \<and> sorted_wrt (\<lambda>x y. det_conf x \<ge> det_conf y) raw"
proof (cases "output_index_num d \<in> {2, 3}")
  case False
  then show ?thesis by (simp add: raw_detections_def Let_def)
next
  case True
  let ?C = "unat (class_num d)"
  obtain t0 t1 rest where bufs: "rknn_outputs d = Some (Some t0 # Some t1 # rest)"
    "length t0 = 3 * (?C + 5) * ((h div 8) * (w div 8))" "length t1 = 3 * (?C + 5) * ((h div 16) * (w div 16))"
    "\<And>t. rest \<noteq> [] \<and> hd rest = Some t \<Longrightarrow> length t = 3 * (?C + 5) * ((h div 32) * (w div 32))"
    using assms(2) True by (auto simp: yolo_ready_def outputs_shaped_def)
  have wh: "rknn_model_w d = w" "rknn_model_h d = h" "0 < ?C" using assms(1) True by (auto simp: yolo_dinv_def)
  have t: "tensor_of d 0 = t0" "tensor_of d (Suc 0) = t1" by (simp_all add: tensor_of_def out_buf_def bufs(1))
  have two: "\<forall>t. out_buf d 2 = Some t \<longrightarrow> length t = 3 * (?C + 5) * ((h div 32) * (w div 32))"
    using bufs(1,4) by (cases rest) (auto simp: out_buf_def)
  note post = PostProcess_total [OF assms(3) wh(3) bufs(2,3)]
  show ?thesis using True post [OF two] post [of None]
    by (auto simp: raw_detections_def Let_def t wh(1,2))
qed

lemma Postprocess_answers:
  assumes "yolo_dinv env batch w h d" and "yolo_ready w h d" and "sorts_desc std_sort"
  shows "\<exists>outs. Postprocess std_sort profile dev_id (b, d) = Some (Returns outs, b, d) \<and> out_metas outs = in_metas b"
  using raw_detections_ok [OF assms]
  by (cases "b = []") (auto simp: Postprocess_def out_metas_def in_metas_def comp_def)

text \<open>The laws of the contract, for any runtime, any image size and any correct sort.\<close>

interpretation yolo: exact_engine "yolo_ops env std_sort profile dev_id"
  "\<lambda>d. yolo_dinv env (inference_batch_size profile) w h d \<and> sorts_desc std_sort \<and> 0 < inference_batch_size profile"
  "yolo_ready w h" "holds_image w h" "max 1 (unat (inference_batch_size profile))"
  for env std_sort profile dev_id w h
proof unfold_locales
  fix d x batch
  assume d: "yolo_dinv env (inference_batch_size profile) w h d \<and> sorts_desc std_sort \<and> 0 < inference_batch_size profile"
    and x: "holds_image w h x"
  then have pos: "max 1 (unat (inference_batch_size profile)) = unat (inference_batch_size profile)"
    using unat_gt_0 [of "inference_batch_size profile"] word_neq_0_conv [of "inference_batch_size profile"] by auto
  show "\<exists>r batch' d'. op_Preprocess (yolo_ops env std_sort profile dev_id) x (batch, d) = Some (r, batch', d')
      \<and> (yolo_dinv env (inference_batch_size profile) w h d' \<and> sorts_desc std_sort \<and> 0 < inference_batch_size profile)
      \<and> (r = Throws \<and> batch' = batch \<or> (\<exists>x'. batch' = batch @ [x'] \<and> in_meta x' = in_meta x))"
    using Preprocess_batches [of env _ w h d x batch] d x by (fastforce simp: yolo_ops_def)
  show "\<exists>batch' d'. op_Preprocess (yolo_ops env std_sort profile dev_id) x (batch, d)
      = Some (Returns (max 1 (unat (inference_batch_size profile)) \<le> Suc (length batch)), batch', d')"
    using Preprocess_batches [of env _ w h d x batch] d x unfolding pos by (fastforce simp: yolo_ops_def)
next
  fix d batch
  assume "yolo_dinv env (inference_batch_size profile) w h d \<and> sorts_desc std_sort \<and> 0 < inference_batch_size profile"
  then show "\<exists>r d'. op_DoInference (yolo_ops env std_sort profile dev_id) (batch, d) = Some (r, batch, d')
      \<and> (yolo_dinv env (inference_batch_size profile) w h d' \<and> sorts_desc std_sort \<and> 0 < inference_batch_size profile)
      \<and> (r = Returns True \<longrightarrow> yolo_ready w h d')"
    using DoInference_ready [of env _ w h d batch] by (fastforce simp: yolo_ops_def)
next
  fix d batch
  assume "yolo_dinv env (inference_batch_size profile) w h d \<and> sorts_desc std_sort \<and> 0 < inference_batch_size profile"
    and "yolo_ready w h d"
  then show "\<exists>r d'. op_Postprocess (yolo_ops env std_sort profile dev_id) (batch, d) = Some (r, batch, d')
      \<and> (yolo_dinv env (inference_batch_size profile) w h d' \<and> sorts_desc std_sort \<and> 0 < inference_batch_size profile)
      \<and> (\<forall>outs. r = Returns outs \<longrightarrow> out_metas outs = in_metas batch)"
    using Postprocess_answers [of env _ w h d std_sort profile dev_id batch] by (fastforce simp: yolo_ops_def)
qed auto

subsection \<open>A loaded device satisfies the invariant\<close>

text \<open>What the runtime promises of the model it has loaded: the announced shapes are the delivered ones.\<close>

definition rknn_conforms :: "rknn_env \<Rightarrow> bool" where
  "rknn_conforms env = (case env_query_in_out_num env of (ret, n_in, n_out) \<Rightarrow>
     let a = snd (env_query_input_attr env 0); C = attr_dims (snd (env_query_output_attr env 0)) 1 div 3 - 5;
         nchw = (attr_fmt a = RKNN_TENSOR_NCHW);
         c = attr_dims a (if nchw then 1 else 3); h = attr_dims a (if nchw then 2 else 1); w = attr_dims a (if nchw then 3 else 2)
     in c \<le> 3 \<and> (n_out \<in> {2, 3} \<longrightarrow> 0 < C \<and> C < 2 ^ 63 \<and> (\<forall>ins. outputs_shaped w h C (env_forward env ins))))"

lemma query_attrs_Some:
  "query_attrs query is = Some attrs \<Longrightarrow> length attrs = length is \<and> (is \<noteq> [] \<longrightarrow> attrs \<noteq> [] \<and> hd attrs = snd (query (hd is)))"
  by (induction query "is" arbitrary: attrs rule: query_attrs.induct) (auto split: prod.splits if_splits)

lemma alloc_inputs_ok:
  "alloc_inputs malloc_ok bytes attrs ins = (True, ins') \<Longrightarrow> length ins' = length ins + length attrs
     \<and> (\<forall>i \<in> set ins'. i \<in> set ins \<or> inp_buf i \<noteq> None \<and> inp_size i = bytes)"
  by (induction malloc_ok bytes attrs ins arbitrary: ins' rule: alloc_inputs.induct) (fastforce split: if_splits)+

lemma class_num_exact: "5 < k \<Longrightarrow> k - 5 < 2 ^ 63 \<Longrightarrow> unat (of_nat k - of_nat (BBOX_ELEMENT_COUNT + CONF_ELEMENT_COUNT) :: u64) = k - 5"
proof -
  assume k: "5 < k" "k - 5 < 2 ^ 63"
  have "(of_nat k - of_nat (BBOX_ELEMENT_COUNT + CONF_ELEMENT_COUNT) :: u64) = of_nat (k - 5)"
    using k(1) by (simp add: BBOX_ELEMENT_COUNT_def CONF_ELEMENT_COUNT_def of_nat_diff)
  then show ?thesis using k(2) by (simp add: unat_of_nat take_bit_nat_eq_self)
qed

lemma LoadModelEngineFile_ok:
  assumes "LoadModelEngineFile env profile dev_id batch d = (True, d')"
  shows "n_input d' = unat batch \<and> output_index_num d' = n_output d' \<and> n_output d' = snd (snd (env_query_in_out_num env))
    \<and> rknn_inputs d' = rknn_inputs d"
  using assms by (auto simp: LoadModelEngineFile_def Let_def split: if_splits option.splits prod.splits)

lemma AllocateBuffers_ok:
  assumes "AllocateBuffers env d = Some (True, d')" and "rknn_conforms env" and "rknn_inputs d = []"
    and "output_index_num d = n_output d" and "n_output d = snd (snd (env_query_in_out_num env))" and "n_input d = unat batch"
  shows "yolo_dinv env batch (rknn_model_w d') (rknn_model_h d') d' \<and> 0 < batch"
proof -
  obtain ins where ins: "query_attrs (env_query_input_attr env) [0..<n_input d] = Some ins"
    using assms(1) by (auto simp: AllocateBuffers_def split: option.splits)
  obtain outs where outs: "query_attrs (env_query_output_attr env) [0..<n_output d] = Some outs"
    using assms(1) ins by (auto simp: AllocateBuffers_def split: option.splits)
  have ne: "ins \<noteq> []" "outs \<noteq> []" using assms(1) ins outs by (auto simp: AllocateBuffers_def)
  have pos: "0 < n_input d" "0 < n_output d"
    using ne query_attrs_Some [OF ins] query_attrs_Some [OF outs] by (auto simp flip: length_greater_0_conv)
  have hds: "hd ins = snd (env_query_input_attr env 0)" "hd outs = snd (env_query_output_attr env 0)" "length ins = unat batch"
    using query_attrs_Some [OF ins] query_attrs_Some [OF outs] pos assms(6) by (auto simp: upt_conv_Cons)
  obtain c h w where chw: "(c, h, w) = (if attr_fmt (hd ins) = RKNN_TENSOR_NCHW
      then (attr_dims (hd ins) 1, attr_dims (hd ins) 2, attr_dims (hd ins) 3)
      else (attr_dims (hd ins) 3, attr_dims (hd ins) 1, attr_dims (hd ins) 2))" by (metis prod_cases3)
  obtain inputs where inputs: "alloc_inputs (env_malloc env) ((w * h * c) mod 2 ^ 32) (enumerate 0 ins) [] = (True, inputs)"
    and d': "rknn_inputs d' = inputs" "rknn_model_w d' = w" "rknn_model_h d' = h" "rknn_outputs d' \<noteq> None"
      "output_index_num d' = n_output d" "class_num d' = of_nat (attr_dims (hd outs) 1 div 3) - of_nat (BBOX_ELEMENT_COUNT + CONF_ELEMENT_COUNT)"
    using assms(1,3,4) ins outs ne chw
    by (auto simp: AllocateBuffers_def Let_def split: prod.splits if_splits)
  have small: "(w * h * c) mod 2 ^ 32 \<le> 3 * (w * h)"
  proof -
    have "c \<le> 3" using assms(2) chw by (auto simp: rknn_conforms_def Let_def hds split: prod.splits if_splits)
    then have "w * h * c \<le> w * h * 3" by (rule mult_le_mono2)
    moreover have "(w * h * c) mod 2 ^ 32 \<le> w * h * c" by (rule mod_less_eq_dividend)
    ultimately show ?thesis by linarith
  qed
  have "unat (class_num d') = attr_dims (hd outs) 1 div 3 - 5 \<and> 0 < attr_dims (hd outs) 1 div 3 - 5
      \<and> (\<forall>is. outputs_shaped w h (attr_dims (hd outs) 1 div 3 - 5) (env_forward env is))" if "n_output d \<in> {2, 3}"
  proof -
    have "0 < attr_dims (hd outs) 1 div 3 - 5 \<and> attr_dims (hd outs) 1 div 3 - 5 < 2 ^ 63
        \<and> (\<forall>is. outputs_shaped w h (attr_dims (hd outs) 1 div 3 - 5) (env_forward env is))"
      using assms(2,5) that chw by (auto simp: rknn_conforms_def Let_def hds split: prod.splits if_splits)
    then show ?thesis using class_num_exact [of "attr_dims (hd outs) 1 div 3"] d'(6) by simp
  qed
  moreover have "length inputs = unat batch \<and> (\<forall>i \<in> set inputs. inp_buf i \<noteq> None \<and> inp_size i \<le> 3 * (w * h))"
    using alloc_inputs_ok [OF inputs] small hds(3) by auto
  moreover have "0 < batch" using pos(1) assms(6) by (simp add: word_neq_0_conv [symmetric] unat_gt_0)
  ultimately show ?thesis using d' by (simp add: yolo_dinv_def)
qed

text \<open>An engine of the builder, once activated.\<close>

definition built :: "EngineProfile \<Rightarrow> int \<Rightarrow> rknn_device engine_handler" where
  "built profile dev_id = SetEngineLinker (EngineHandler_new profile dev_id (Yolo_device_new profile))"

lemma ActivateEngine_ok:
  assumes "ActivateEngine ops fresh h lb = Inr (True, h', lb')" and "\<not> is_activate_handler h"
  obtains h1 d d1 t where "Link fresh h lb = (True, h1, lb')" "op_LoadModelEngineFile ops (device h1) = (True, d)"
    "op_AllocateBuffers ops d = Some (True, d1)"
    "Start (SetThreadFunctions (Some Inference_runner) (Some Inference_closer) (inference_thread h1)) = Inr (True, t)"
    "h' = h1\<lparr>device := d1, inference_thread := t, is_activate_handler := True\<rparr>"
proof -
  from assms obtain h1 where 1: "Link fresh h lb = (True, h1, lb')"
    by (auto simp: ActivateEngine_def split: if_splits prod.splits option.splits sum.splits)
  from assms 1 obtain h2 where 2: "InitializeDeviceAndModel ops h1 = Some (True, h2)"
    by (auto simp: ActivateEngine_def split: if_splits prod.splits option.splits sum.splits)
  from assms 1 2 obtain ok t where 3: "Start (SetThreadFunctions (Some Inference_runner) (Some Inference_closer) (inference_thread h2)) = Inr (ok, t)"
    "h' = h2\<lparr>inference_thread := t, is_activate_handler := True\<rparr>"
    by (auto simp: ActivateEngine_def split: if_splits prod.splits option.splits sum.splits)
  from 2 obtain d d1 where 4: "op_LoadModelEngineFile ops (device h1) = (True, d)" "op_AllocateBuffers ops d = Some (True, d1)"
    "h2 = h1\<lparr>device := d1\<rparr>"
    by (auto simp: InitializeDeviceAndModel_def split: if_splits prod.splits)
  have "ok" using 3(1) by (auto simp: Start_def Let_def split: if_splits)
  then show thesis using that [OF 1 4(1,2)] 3 4(3) by simp
qed

lemma Link_ok:
  assumes "Link fresh h lb = (True, h', lb')"
  shows "h' = h\<lparr>request_q := Some fresh, respond_q := True\<rparr>"
    "Linker (GetEngineHandleUUID h) fresh (lb\<lparr>input_store := (input_store lb)(fresh := SafeQueue_init)\<rparr>) = (True, lb')"
  using assms by (auto simp: Link_def Let_def GetEngineHandleUUID_def split: if_splits prod.splits)

lemma activated_device:
  assumes "ActivateEngine (yolo_ops env std_sort profile dev_id) fresh (built profile dev_id) lb = Inr (True, h', lb')"
    and "rknn_conforms env"
  shows "yolo_dinv env (inference_batch_size profile) (rknn_model_w (device h')) (rknn_model_h (device h')) (device h')"
    "0 < inference_batch_size profile" "current_batch_inputs h' = []" "is_activate_handler h'" "is_running (inference_thread h')"
    "request_q h' = Some fresh" "respond_q h'"
proof -
  have inactive: "\<not> is_activate_handler (built profile dev_id)"
    by (simp add: built_def SetEngineLinker_def EngineHandler_new_def)
  obtain h1 d d1 t where 1: "Link fresh (built profile dev_id) lb = (True, h1, lb')"
    "op_LoadModelEngineFile (yolo_ops env std_sort profile dev_id) (device h1) = (True, d)"
    "op_AllocateBuffers (yolo_ops env std_sort profile dev_id) d = Some (True, d1)"
    "Start (SetThreadFunctions (Some Inference_runner) (Some Inference_closer) (inference_thread h1)) = Inr (True, t)"
    "h' = h1\<lparr>device := d1, inference_thread := t, is_activate_handler := True\<rparr>"
    by (rule ActivateEngine_ok [OF assms(1) inactive])
  have h1: "h1 = (built profile dev_id)\<lparr>request_q := Some fresh, respond_q := True\<rparr>" by (rule Link_ok(1) [OF 1(1)])
  have load: "LoadModelEngineFile env profile dev_id (inference_batch_size profile) (Yolo_device_new profile) = (True, d)"
    using 1(2) by (simp add: h1 yolo_ops_def built_def SetEngineLinker_def EngineHandler_new_def)
  note d = LoadModelEngineFile_ok [OF load]
  have alloc: "AllocateBuffers env d = Some (True, d1)" using 1(3) by (simp add: yolo_ops_def)
  have none: "rknn_inputs d = []" using d by (simp add: Yolo_device_new_def)
  show "yolo_dinv env (inference_batch_size profile) (rknn_model_w (device h')) (rknn_model_h (device h')) (device h')"
    "0 < inference_batch_size profile"
    using AllocateBuffers_ok [OF alloc assms(2) none] d by (simp_all add: 1(5))
  show "current_batch_inputs h' = []" "is_activate_handler h'" "request_q h' = Some fresh" "respond_q h'"
    by (simp_all add: 1(5) h1 built_def SetEngineLinker_def EngineHandler_new_def)
  show "is_running (inference_thread h')" using 1(4,5)
    by (auto simp: Start_def SetThreadFunctions_def Let_def split: if_splits)
qed

subsection \<open>Properties\<close>

lemma batch_pos: "0 < (b :: u32) \<Longrightarrow> 0 < unat b \<and> max 1 (unat b) = unat b"
  using unat_gt_0 [of b] word_neq_0_conv [of b] by auto

text \<open>
  C16. Every request is answered, in order.  Once an NPU engine is activated on a conforming runtime, its
  loop takes every request from its queue and never makes an invalid access; the meta data of its
  replies, followed by those of the inputs still waiting for a full batch (fewer than the batch size),
  are exactly the meta data of the requests, in order, whatever the network detects.
\<close>

theorem npu_requests_answered:
  assumes "ActivateEngine (yolo_ops env std_sort profile dev_id) fresh (built profile dev_id) lb = Inr (True, h, lb')"
    and "rknn_conforms env" and "sorts_desc std_sort" and "\<not> b_terminate rq" and "max_size sq = 0"
    and "list_all (holds_image (rknn_model_w (device h)) (rknn_model_h (device h))) (sq_q rq)"
  shows "\<exists>h' outs sq'. inference_loop (yolo_ops env std_sort profile dev_id) (replicate (length (sq_q rq)) (True, [])) (h, rq, sq)
       = Some (h', rq\<lparr>sq_q := []\<rparr>, sq') \<and> sq_q sq' = sq_q sq @ outs
    \<and> map out_meta outs @ map in_meta (current_batch_inputs h') = map in_meta (sq_q rq)
    \<and> length (current_batch_inputs h') < unat (inference_batch_size profile)"
proof -
  let ?w = "rknn_model_w (device h)" and ?h = "rknn_model_h (device h)" and ?b = "inference_batch_size profile"
  note act = activated_device [OF assms(1,2)]
  note cap = batch_pos [OF act(2)]
  obtain h' outs where run: "process_all (yolo_ops env std_sort profile dev_id) (sq_q rq) h = Some (h', outs)"
    "length (current_batch_inputs h') < max 1 (unat ?b)"
    "out_metas outs @ in_metas (current_batch_inputs h') = in_metas (current_batch_inputs h) @ in_metas (sq_q rq)"
    using yolo.process_all_exact [of env profile ?w ?h h std_sort "sq_q rq" dev_id] act(1-3) assms(3,6) cap by auto
  show ?thesis
    using run inference_loop_drains [OF assms(4) refl, of "yolo_ops env std_sort profile dev_id" h sq] assms(5) act(3) cap
    by (auto simp: send_all_contents in_metas_def out_metas_def)
qed

text \<open>
  An orderly end.  Terminating an active engine empties and closes its request queue; every request that
  was queued gets a failure reply, the request in the thread's hands is finished first, and only inputs
  of an incomplete batch remain unanswered.  The engine cannot be activated again.
\<close>

theorem shutdown_answers_queue:
  assumes "yolo_dinv env (inference_batch_size profile) w h (device e)" and "0 < inference_batch_size profile" and "sorts_desc std_sort"
    and "is_activate_handler e" "is_running (inference_thread e)" "request_q e \<noteq> None" "respond_q e" and "max_size sq = 0"
    and "length (current_batch_inputs e) < unat (inference_batch_size profile)"
    and "\<forall>x. in_flight = Some x \<longrightarrow> holds_image w h x"
  shows "\<exists>e' outs sq'. TerminateEngine (yolo_ops env std_sort profile dev_id) in_flight (e, rq, sq) = Some (e', (terminate rq)\<lparr>sq_q := []\<rparr>, sq')
    \<and> sq_q sq' = sq_q sq @ outs
    \<and> map out_meta outs @ map in_meta (current_batch_inputs e')
        = map in_meta (sq_q rq) @ map in_meta (current_batch_inputs e) @ map in_meta (case in_flight of None \<Rightarrow> [] | Some x \<Rightarrow> [x])
    \<and> \<not> IsActive e' \<and> ActivateEngine ops fresh e' lb = Inr (False, e', lb)"
proof -
  let ?ops = "yolo_ops env std_sort profile dev_id" and ?b = "inference_batch_size profile"
  let ?e = "e\<lparr>is_activate_handler := False\<rparr>"
  note cap = batch_pos [OF assms(2)]
  let ?xs = "case in_flight of None \<Rightarrow> [] | Some x \<Rightarrow> [x]"
  have wanted: "list_all (holds_image w h) ?xs" using assms(10) by (auto split: option.splits)
  obtain e1 outs where run: "process_all ?ops ?xs ?e = Some (e1, outs)"
    "out_metas outs @ in_metas (current_batch_inputs e1) = in_metas (current_batch_inputs e) @ in_metas ?xs"
    using yolo.process_all_exact [of env profile w h ?e std_sort ?xs dev_id] assms(1-3,9) cap wanted by auto
  have fin: "(case in_flight of None \<Rightarrow> Some (?e, []) | Some x \<Rightarrow> process_input ?ops x ?e) = Some (e1, outs)"
    using run(1) by (cases in_flight) (auto split: option.splits)
  have inactive: "\<not> is_activate_handler e1"
    using fin by (cases in_flight) (auto simp: process_input_def run_batch_def fail_batch_def set_batch_def Let_def
        split: option.splits vcall.splits if_splits)
  let ?fails = "map (BuildInferenceFailureRespond ?e) (sq_q rq)"
  let ?e' = "e1\<lparr>inference_thread := Stop (inference_thread e1), device := op_ReleaseDeviceResources ?ops (device e1),
     request_q := None, respond_q := False, engine_linker := False\<rparr>"
  have "TerminateEngine ?ops in_flight (e, rq, sq) = Some (?e', (terminate rq)\<lparr>sq_q := []\<rparr>, send_all (?fails @ outs) sq)"
    using assms(4-7) fin InferenceThreadCloser_flushes [of ?e rq sq] by (auto simp: TerminateEngine_def Let_def)
  moreover have "sq_q (send_all (?fails @ outs) sq) = sq_q sq @ (?fails @ outs)"
    by (rule send_all_contents [OF assms(8)])
  moreover have "map out_meta (?fails @ outs) @ map in_meta (current_batch_inputs ?e')
        = map in_meta (sq_q rq) @ map in_meta (current_batch_inputs e) @ map in_meta ?xs"
    using run(2) by (simp add: in_metas_def out_metas_def comp_def)
  ultimately show ?thesis using inactive
    by (intro exI [of _ ?e'] exI [of _ "?fails @ outs"] exI [of _ "send_all (?fails @ outs) sq"])
      (simp add: IsActive_def ActivateEngine_def)
qed

subsection \<open>Start-up of all engines\<close>

text \<open>The activation loop of \<open>DETECTOR\<close>: the engines one after the other, until one fails.\<close>

fun activate_engines ::
  "rknn_env \<Rightarrow> ((cfloat \<times> int) list \<Rightarrow> (cfloat \<times> int) list) \<Rightarrow> nat \<Rightarrow> rknn_device engine_handler list \<Rightarrow> load_balancer \<Rightarrow>
   handler_error + bool \<times> rknn_device engine_handler list \<times> load_balancer" where
  "activate_engines env std_sort fresh [] lb = Inr (True, [], lb)"
| "activate_engines env std_sort fresh (h # hs) lb =
     (case ActivateEngine (yolo_ops env std_sort (handler_profile h) (handler_device_id h)) fresh h lb of
        Inl e \<Rightarrow> Inl e
      | Inr (ok, h, lb) \<Rightarrow>
          if \<not> ok then Inr (False, h # hs, lb)
          else map_sum id (\<lambda>(ok, hs, lb). (ok, h # hs, lb)) (activate_engines env std_sort (Suc fresh) hs lb))"

lemma Linker_ok:
  assumes "Linker h a lb = (True, lb')"
  shows "lb' = lb\<lparr>engine_input_qs := engine_input_qs lb @ [(h, a)], engine_handles := engine_handles lb @ [h]\<rparr>"
    "\<not> is_terminate_instance lb"
  using assms by (auto simp: Linker_def map_of_eq_None_iff alist_update_fresh split: if_splits)

definition start_inv :: "nat \<Rightarrow> load_balancer \<Rightarrow> bool" where
  "start_inv n lb = (lb_inv lb \<and> round_robin_idx lb = 0 \<and> map snd (engine_input_qs lb) = [0..<n]
     \<and> map fst (engine_input_qs lb) = engine_handles lb \<and> (\<forall>a < n. input_store lb a = SafeQueue_init))"

lemma activate_one:
  assumes "ActivateEngine (yolo_ops env std_sort profile dev_id) n (built profile dev_id) lb = Inr (True, h', lb')" and "start_inv n lb"
  shows "start_inv (Suc n) lb' \<and> engine_handles lb' = engine_handles lb @ [(profile_uuid profile, dev_id)]
    \<and> GetEngineHandleUUID h' = (profile_uuid profile, dev_id)"
proof -
  have inactive: "\<not> is_activate_handler (built profile dev_id)" and uuid: "GetEngineHandleUUID (built profile dev_id) = (profile_uuid profile, dev_id)"
    by (simp_all add: built_def SetEngineLinker_def EngineHandler_new_def GetEngineHandleUUID_def)
  obtain h1 d1 t where 1: "Link n (built profile dev_id) lb = (True, h1, lb')"
    "h' = h1\<lparr>device := d1, inference_thread := t, is_activate_handler := True\<rparr>"
    by (rule ActivateEngine_ok [OF assms(1) inactive])
  let ?lb = "lb\<lparr>input_store := (input_store lb)(n := SafeQueue_init)\<rparr>"
  note h1 = Link_ok(1) [OF 1(1)] and link = Link_ok(2) [OF 1(1), unfolded uuid]
  have "lb_inv ?lb" using assms(2) by (simp add: start_inv_def lb_inv_def link_inv_def)
  then have "lb_inv lb'" using lb_inv_Linker [of ?lb "(profile_uuid profile, dev_id)" n] link by simp
  moreover have "lb' = ?lb\<lparr>engine_input_qs := engine_input_qs lb @ [((profile_uuid profile, dev_id), n)],
      engine_handles := engine_handles lb @ [(profile_uuid profile, dev_id)]\<rparr>"
    using Linker_ok(1) [OF link] by simp
  ultimately show ?thesis using assms(2) uuid
    by (auto simp: start_inv_def 1(2) h1 GetEngineHandleUUID_def less_Suc_eq)
qed

lemma activate_engines_links:
  assumes "activate_engines env std_sort n hs lb = Inr (True, hs', lb')" and "start_inv n lb"
    and "\<forall>h \<in> set hs. \<exists>profile dev_id. h = built profile dev_id"
  shows "start_inv (n + length hs) lb' \<and> engine_handles lb' = engine_handles lb @ map GetEngineHandleUUID hs
    \<and> (rknn_conforms env \<longrightarrow> list_all IsActive hs') \<and> map GetEngineHandleUUID hs' = map GetEngineHandleUUID hs"
  using assms
proof (induction hs arbitrary: n lb hs')
  case (Cons h hs)
  obtain profile dev_id where h: "h = built profile dev_id" using Cons.prems(3) by auto
  have p: "handler_profile h = profile" "handler_device_id h = dev_id" "GetEngineHandleUUID h = (profile_uuid profile, dev_id)"
    by (simp_all add: h built_def SetEngineLinker_def EngineHandler_new_def GetEngineHandleUUID_def)
  obtain h1 lb1 hs1 where 1: "ActivateEngine (yolo_ops env std_sort profile dev_id) n (built profile dev_id) lb = Inr (True, h1, lb1)"
    "activate_engines env std_sort (Suc n) hs lb1 = Inr (True, hs1, lb')" "hs' = h1 # hs1"
    using Cons.prems(1) unfolding h
    by (cases "activate_engines env std_sort (Suc n) hs (snd (snd (projr (ActivateEngine (yolo_ops env std_sort profile dev_id) n (built profile dev_id) lb))))")
      (auto simp: p [unfolded h] split: sum.splits if_splits)
  note one = activate_one [OF 1(1) Cons.prems(2)]
  have rest: "start_inv (Suc n + length hs) lb' \<and> engine_handles lb' = engine_handles lb1 @ map GetEngineHandleUUID hs
      \<and> (rknn_conforms env \<longrightarrow> list_all IsActive hs1) \<and> map GetEngineHandleUUID hs1 = map GetEngineHandleUUID hs"
    using Cons.IH [OF 1(2)] one Cons.prems(3) by simp
  have "rknn_conforms env \<Longrightarrow> IsActive h1" using activated_device(4) [OF 1(1)] by (simp add: IsActive_def)
  then show ?case using one rest by (simp add: 1(3) p(3))
qed simp

definition npu_profile :: "EngineProfile \<Rightarrow> bool" where
  "npu_profile p = (opt_type p = Torch_Onnx_RKNN \<and> model_major_type p = Detection_Major \<and> model_minor_type p = YoloV5)"

lemma BuildHandlers_all:
  "BuildHandlers profiles = concat (map (\<lambda>p. map (built p) [0, 1, 2]) (filter npu_profile profiles))"
  by (induction profiles) (simp_all add: BuildHandlers_def GetAvailableDeviceIDs_def CreateAndLinkHandler_def CreateNpuEngineHandler_def
      IsProfileSupported_def npu_profile_def built_def map_filter_simps)

lemma BuildHandlers_built: "h \<in> set (BuildHandlers profiles) \<Longrightarrow> \<exists>profile dev_id. h = built profile dev_id"
  unfolding BuildHandlers_all by auto

lemma BuildHandlers_uuids:
  "map GetEngineHandleUUID (BuildHandlers profiles)
     = concat (map (\<lambda>p. [(profile_uuid p, 0), (profile_uuid p, 1), (profile_uuid p, 2)]) (filter npu_profile profiles))"
  by (induction profiles) (simp_all add: BuildHandlers_all GetEngineHandleUUID_def built_def SetEngineLinker_def EngineHandler_new_def)

text \<open>
  Start-up.  When the activation loop succeeds, each supported profile runs on the three NPU cores, the
  rotation holds exactly these handlers in the order of the profiles, each with a queue of its own, and
  the balancer is ready to spread a burst of up to 128 requests over them.
\<close>

theorem start_up_links_all_cores:
  assumes "EngineLoadBalancer_new profiles = Inr lb"
    and "activate_engines env std_sort 0 (BuildHandlers profiles) lb = Inr (True, hs, lb')"
    and "rknn_conforms env" and "BuildHandlers profiles \<noteq> []" and "m \<le> 128"
  shows "engine_handles lb' = concat (map (\<lambda>p. [(profile_uuid p, 0), (profile_uuid p, 1), (profile_uuid p, 2)]) (filter npu_profile profiles))
    \<and> map GetEngineHandleUUID hs = engine_handles lb' \<and> list_all IsActive hs \<and> rotation_ready m lb'"
proof -
  have lb: "lb_inv lb" "engine_handles lb = []" "engine_input_qs lb = []" "round_robin_idx lb = 0"
    using assms(1) EngineLoadBalancer_new_ok [of profiles]
    by (auto simp: EngineLoadBalancer_new_def Start_def SetThreadFunctions_def SafeThread_init_def
        StartAutoCleanup_def ReplyCleaner_init_def)
  then have "start_inv 0 lb" by (simp add: start_inv_def)
  note r = activate_engines_links [OF assms(2) this] BuildHandlers_built
  then have inv: "start_inv (length (BuildHandlers profiles)) lb'" and hs: "engine_handles lb' = map GetEngineHandleUUID (BuildHandlers profiles)"
    "list_all IsActive hs" "map GetEngineHandleUUID hs = map GetEngineHandleUUID (BuildHandlers profiles)"
    using assms(3) lb(2) by auto
  have ne: "engine_handles lb' \<noteq> []" using hs(1) assms(4) by simp
  have qs: "max_size (input_store lb' a) = 0 \<and> sq_size (input_store lb' a) + m \<le> MAX_ENGINE_INFER_INPUT_QUEUE_SIZE"
    if "(h, a) \<in> set (engine_input_qs lb')" for h a
  proof -
    have "a \<in> set (map snd (engine_input_qs lb'))" using that by force
    then have "input_store lb' a = SafeQueue_init" using inv unfolding start_inv_def by (simp del: set_map)
    then show ?thesis using assms(5) by (simp add: SafeQueue_init_def sq_size_def MAX_ENGINE_INFER_INPUT_QUEUE_SIZE_def)
  qed
  have "\<not> is_terminate_instance lb'" using inv ne by (auto simp: start_inv_def lb_inv_def link_inv_def)
  then have "rotation_ready m lb'" using inv ne qs assms(5) by (auto simp: rotation_ready_def start_inv_def)
  then show ?thesis using hs by (simp add: BuildHandlers_uuids)
qed

subsection \<open>A failed run\<close>

lemma null_tensor_scan:
  assumes "0 < gh" "0 < gw"
  shows "rknn_process_impl [] anchor gh gw stride c thr zp scale C = None"
proof -
  have "grid_cells gh gw \<noteq> []" using assms grid_cells_iff [of 0 0 0 gh gw] by auto
  then obtain cell cells where "grid_cells gh gw = cell # cells" by (auto simp: neq_Nil_conv)
  then show ?thesis by (cases cell) (simp add: rknn_process_impl_def decode_cell_def tensor_at_def Let_def)
qed

text \<open>
  A failed NPU run is not reported.  \<open>DoInference\<close> only logs the return codes of \<open>rknn_run\<close> and
  \<open>rknn_outputs_get\<close> and returns true: when the runtime hands out no buffer for the first output, the
  iteration does not produce failure replies but reads through the null pointer.
\<close>

theorem failed_run_reads_null:
  assumes "rknn_outputs (device e) \<noteq> None" and "output_index_num (device e) \<in> {2, 3}"
    and "8 \<le> rknn_model_w (device e)" and "8 \<le> rknn_model_h (device e)" and "current_batch_inputs e \<noteq> []"
    and "env_forward env (map inp_buf (rknn_inputs (device e))) = None # rest"
  shows "run_batch (yolo_ops env std_sort profile dev_id) e = None"
proof -
  let ?d = "(device e)\<lparr>rknn_outputs := Some (None # rest)\<rparr>"
  have t: "tensor_of ?d 0 = []" by (simp add: tensor_of_def out_buf_def)
  have grid: "0 < rknn_model_h (device e) div 8" "0 < rknn_model_w (device e) div 8" using assms(3,4) by (simp_all add: div_greater_zero_iff)
  have "raw_detections std_sort ?d = None"
    using assms(2) null_tensor_scan [OF grid] by (auto simp: raw_detections_def Let_def t PostProcessImplRKNN_def)
  then show ?thesis using assms(1,5,6)
    by (simp add: run_batch_def yolo_ops_def DoInference_def batch_of_def [of e] Postprocess_def Let_def)
qed

subsection \<open>A concrete runtime\<close>

definition sample_npu_profile :: EngineProfile where
  "sample_npu_profile = (sample_profile 7 1)\<lparr>engine_file_path := ''yolov5.rknn''\<rparr>"

definition sample_env :: rknn_env where
  "sample_env = \<lparr>env_IsValidFile = (\<lambda>_. True), env_read_file = (\<lambda>_. Some [0]), env_rknn_init = (\<lambda>_. 0),
     env_query_sdk_version = 0, env_set_core_mask = (\<lambda>_. 0), env_query_in_out_num = (0, 1, 2),
     env_query_input_attr = (\<lambda>_. (0, \<lparr>attr_fmt = RKNN_TENSOR_NHWC, attr_dims = (\<lambda>i. if i = 3 then 3 else 8), attr_zp = 0, attr_scale = 1\<rparr>)),
     env_query_output_attr = (\<lambda>_. (0, \<lparr>attr_fmt = RKNN_TENSOR_NCHW, attr_dims = (\<lambda>_. 18), attr_zp = 0, attr_scale = 1 / 100\<rparr>)),
     env_malloc = (\<lambda>_. True), env_forward = (\<lambda>_. [Some (replicate 18 0), Some []])\<rparr>"

lemma sample_env_conforms: "rknn_conforms sample_env"
  by (simp add: rknn_conforms_def sample_env_def outputs_shaped_def)

definition sample_new :: load_balancer where
  "sample_new = projr (EngineLoadBalancer_new [sample_npu_profile])"

lemma sample_new_eq: "EngineLoadBalancer_new [sample_npu_profile] = Inr sample_new"
  using EngineLoadBalancer_new_ok [of "[sample_npu_profile]"] by (auto simp: sample_new_def)

lemma upto_two: "[0..<2] = [0, 1::nat]"
  by (simp add: upt_rec)

lemmas load_simps = upto_two Link_def Linker_def InitializeDeviceAndModel_def yolo_ops_def LoadModelEngineFile_def AllocateBuffers_def
  Start_def SetThreadFunctions_def SafeThread_init_def built_def SetEngineLinker_def EngineHandler_new_def GetEngineHandleUUID_def
  Yolo_device_new_def sample_npu_profile_def sample_profile_def sample_env_def

lemma sample_activation:
  assumes "map_of (engine_input_qs lb) (7, dev_id) = None" "\<not> is_terminate_instance lb" "map_of (engine_profiles lb) 7 \<noteq> None"
  shows "\<exists>h lb'. ActivateEngine (yolo_ops sample_env std_sort sample_npu_profile dev_id) a (built sample_npu_profile dev_id) lb = Inr (True, h, lb')
    \<and> rknn_model_w (device h) = 8 \<and> rknn_model_h (device h) = 8 \<and> output_index_num (device h) = 2
    \<and> lb' = lb\<lparr>input_store := (input_store lb)(a := SafeQueue_init), engine_input_qs := AList.update (7, dev_id) a (engine_input_qs lb),
              engine_handles := engine_handles lb @ [(7, dev_id)]\<rparr>"
  using assms by (simp add: ActivateEngine_def load_simps Let_def)

lemma sample_new_fields:
  "engine_input_qs sample_new = []" "\<not> is_terminate_instance sample_new" "map_of (engine_profiles sample_new) 7 \<noteq> None"
  by (simp_all add: sample_new_def EngineLoadBalancer_new_def CreateProfileMap_def sample_npu_profile_def sample_profile_def
      Start_def SetThreadFunctions_def SafeThread_init_def StartAutoCleanup_def ReplyCleaner_init_def)

definition sample_frame :: "int \<Rightarrow> InputLayerWrapper" where
  "sample_frame u = (sample_request u)\<lparr>image_data := Some (replicate 192 0)\<rparr>"

lemma sample_frame_image: "holds_image 8 8 (sample_frame u)"
  by (simp add: holds_image_def sample_frame_def)

theorem npu_requests_answered_witness:
  "\<exists>h lb' h' outs sq'. ActivateEngine (yolo_ops sample_env (sort_key (\<lambda>p. - fst p)) sample_npu_profile 0) 0 (built sample_npu_profile 0) sample_new
       = Inr (True, h, lb')
    \<and> inference_loop (yolo_ops sample_env (sort_key (\<lambda>p. - fst p)) sample_npu_profile 0) [(True, [])]
        (h, enqueue_move (sample_frame 5) SafeQueue_init, SafeQueue_init) = Some (h', SafeQueue_init, sq')
    \<and> sq_q sq' = outs \<and> map out_meta outs = [in_meta (sample_frame 5)]"
proof -
  let ?sort = "sort_key (\<lambda>p :: cfloat \<times> int. - fst p)" and ?q = "enqueue_move (sample_frame 5) SafeQueue_init"
  obtain h lb' where act: "ActivateEngine (yolo_ops sample_env ?sort sample_npu_profile 0) 0 (built sample_npu_profile 0) sample_new = Inr (True, h, lb')"
    "rknn_model_w (device h) = 8" "rknn_model_h (device h) = 8"
    using sample_activation [of sample_new 0 ?sort 0] sample_new_fields by auto
  have q: "sq_q ?q = [sample_frame 5]" "\<not> b_terminate ?q" "?q\<lparr>sq_q := []\<rparr> = SafeQueue_init"
    by (simp_all add: enqueue_move_def SafeQueue_init_def)
  have one: "unat (inference_batch_size sample_npu_profile) = 1" by (simp add: sample_npu_profile_def sample_profile_def)
  show ?thesis
    using npu_requests_answered [OF act(1) sample_env_conforms sort_key_sorts_desc q(2), of "SafeQueue_init"] act sample_frame_image one
    by (auto simp: q SafeQueue_init_def [THEN arg_cong [where f = max_size]] SafeQueue_init_def [THEN arg_cong [where f = sq_q]] simp del: inference_loop.simps)
qed

theorem shutdown_answers_queue_witness:
  "\<exists>h e' outs sq'. IsActive h \<and> TerminateEngine (yolo_ops sample_env (sort_key (\<lambda>p. - fst p)) sample_npu_profile 0) (Some (sample_frame 5))
        (h, enqueue_move (sample_frame 6) SafeQueue_init, SafeQueue_init)
      = Some (e', terminate SafeQueue_init, sq') \<and> sq_q sq' = outs
    \<and> map out_meta outs @ map in_meta (current_batch_inputs e') = [in_meta (sample_frame 6), in_meta (sample_frame 5)]"
proof -
  let ?sort = "sort_key (\<lambda>p :: cfloat \<times> int. - fst p)" and ?q = "enqueue_move (sample_frame 6) SafeQueue_init"
  obtain h lb' where act: "ActivateEngine (yolo_ops sample_env ?sort sample_npu_profile 0) 0 (built sample_npu_profile 0) sample_new = Inr (True, h, lb')"
    "rknn_model_w (device h) = 8" "rknn_model_h (device h) = 8"
    using sample_activation [of sample_new 0 ?sort 0] sample_new_fields by auto
  note dev = activated_device [OF act(1) sample_env_conforms, unfolded act(2,3)]
  have q: "sq_q ?q = [sample_frame 6]" "(terminate ?q)\<lparr>sq_q := []\<rparr> = terminate SafeQueue_init"
    by (simp_all add: enqueue_move_def SafeQueue_init_def terminate_def)
  have q0: "sq_q (SafeQueue_init :: OutputLayerWrapper safe_queue) = []" "max_size (SafeQueue_init :: OutputLayerWrapper safe_queue) = 0"
    by (simp_all add: SafeQueue_init_def)
  show ?thesis
    using shutdown_answers_queue [of sample_env sample_npu_profile 8 8 h ?sort SafeQueue_init "Some (sample_frame 5)" 0 ?q
        "yolo_ops sample_env ?sort sample_npu_profile 0" 0 sample_new]
      dev sample_frame_image sort_key_sorts_desc batch_pos [OF dev(2)]
    unfolding q q0 by - (rule exI [of _ h], auto simp: IsActive_def dev(3))
qed

theorem start_up_links_all_cores_witness:
  "\<exists>hs lb'. activate_engines sample_env (sort_key (\<lambda>p. - fst p)) 0 (BuildHandlers [sample_npu_profile]) sample_new = Inr (True, hs, lb')
     \<and> engine_handles lb' = [(7, 0), (7, 1), (7, 2)] \<and> list_all IsActive hs \<and> rotation_ready 128 lb'"
proof -
  let ?sort = "sort_key (\<lambda>p :: cfloat \<times> int. - fst p)"
  have npu: "npu_profile sample_npu_profile" and id: "profile_uuid sample_npu_profile = 7"
    by (simp_all add: npu_profile_def sample_npu_profile_def sample_profile_def)
  have hs: "BuildHandlers [sample_npu_profile] = [built sample_npu_profile 0, built sample_npu_profile 1, built sample_npu_profile 2]"
    by (simp add: BuildHandlers_all npu)
  have p: "handler_profile (built sample_npu_profile i) = sample_npu_profile" "handler_device_id (built sample_npu_profile i) = i" for i
    by (simp_all add: built_def SetEngineLinker_def EngineHandler_new_def)
  obtain h0 lb0 where 0: "ActivateEngine (yolo_ops sample_env ?sort sample_npu_profile 0) 0 (built sample_npu_profile 0) sample_new = Inr (True, h0, lb0)"
    "engine_input_qs lb0 = [((7, 0), 0)]" "\<not> is_terminate_instance lb0" "map_of (engine_profiles lb0) 7 \<noteq> None"
    using sample_activation [of sample_new 0 ?sort 0] sample_new_fields by auto
  obtain h1 lb1 where 1: "ActivateEngine (yolo_ops sample_env ?sort sample_npu_profile 1) 1 (built sample_npu_profile 1) lb0 = Inr (True, h1, lb1)"
    "engine_input_qs lb1 = [((7, 0), 0), ((7, 1), 1)]" "\<not> is_terminate_instance lb1" "map_of (engine_profiles lb1) 7 \<noteq> None"
    using sample_activation [of lb0 1 ?sort 1] 0(2-4) by auto
  obtain h2 lb2 where 2: "ActivateEngine (yolo_ops sample_env ?sort sample_npu_profile 2) 2 (built sample_npu_profile 2) lb1 = Inr (True, h2, lb2)"
    using sample_activation [of lb1 2 ?sort 2] 1(2-4) by auto
  have run: "activate_engines sample_env ?sort 0 (BuildHandlers [sample_npu_profile]) sample_new = Inr (True, [h0, h1, h2], lb2)"
    using 0(1) 1(1) 2 by (simp add: hs p numeral_2_eq_2)
  show ?thesis
    using start_up_links_all_cores [OF sample_new_eq run sample_env_conforms, of 128] run by (simp add: hs npu id)
qed

theorem failed_run_reads_null_witness:
  "\<exists>e. IsActive e \<and> length (current_batch_inputs e) = 1
     \<and> run_batch (yolo_ops (sample_env\<lparr>env_forward := \<lambda>_. [None, None]\<rparr>) (sort_key (\<lambda>p. - fst p)) sample_npu_profile 0) e = None"
proof -
  let ?sort = "sort_key (\<lambda>p :: cfloat \<times> int. - fst p)"
  obtain h lb' where act: "ActivateEngine (yolo_ops sample_env ?sort sample_npu_profile 0) 0 (built sample_npu_profile 0) sample_new = Inr (True, h, lb')"
    "rknn_model_w (device h) = 8" "rknn_model_h (device h) = 8" "output_index_num (device h) = 2"
    using sample_activation [of sample_new 0 ?sort 0] sample_new_fields by auto
  note dev = activated_device [OF act(1) sample_env_conforms]
  then show ?thesis
    using failed_run_reads_null [of "h\<lparr>current_batch_inputs := [sample_frame 5]\<rparr>" "sample_env\<lparr>env_forward := \<lambda>_. [None, None]\<rparr>" "[None]" ?sort sample_npu_profile 0] act
    by (intro exI [of _ "h\<lparr>current_batch_inputs := [sample_frame 5]\<rparr>"]) (auto simp: IsActive_def yolo_dinv_def)
qed

end
