(* ===== verification/Setting_Manager.thy ===== *)
theory Setting_Manager
  imports Setting_Data "HOL-Library.Multiset"
begin

text \<open>
  \<open>SetterBase<T>\<close> and \<open>SettingManagerBase<T>\<close> of \<open>Management/manager/include\<close>: the current value of one
  setting with the callbacks that follow it, and the table of the settings of all units.

  Callbacks run outside of the locks; what the caller sees of them is the list of calls with their
  argument (an exception of a callback is caught and counted).  The iteration order of the unordered
  map that groups a document by unit is the argument \<open>order\<close>; the association lists of the state stand
  for the maps in their iteration order.  An exception that leaves a method is the outcome \<open>None\<close>.
\<close>

subsection \<open>\<open>SetterBase\<close>\<close>

record ('s, 'cb) setter =
  is_initialized :: bool
  setting_data :: "'s setting"
  setter_callbacks :: "(string \<times> 'cb) list"

type_synonym ('s, 'cb) cb_calls = "('cb \<times> 's setting) list"

definition SetterBase_new :: "'s setting \<Rightarrow> ('s, 'cb) setter" where
  "SetterBase_new default_data = \<lparr>is_initialized = False, setting_data = default_data, setter_callbacks = []\<rparr>"

definition UpdateInternal :: "json \<Rightarrow> ('s, 'cb) setter \<Rightarrow> bool option \<times> ('s, 'cb) setter" where
  "UpdateInternal update_json s =
     (let was_initialized = is_initialized s;
          prev_setting = setting_data s
      in case UpdateFromJson update_json (setting_data s) of
           (None, d) \<Rightarrow> (None, s\<lparr>setting_data := d\<rparr>)
         | (Some True, d) \<Rightarrow> (Some True, s\<lparr>setting_data := d, is_initialized := True\<rparr>)
         | (Some False, d) \<Rightarrow>
             (Some False, if was_initialized then s\<lparr>setting_data := prev_setting\<rparr> else s\<lparr>setting_data := d\<rparr>))"

definition call_all :: "('s, 'cb) setter \<Rightarrow> ('s, 'cb) cb_calls" where
  "call_all s = map (\<lambda>(uuid, cb). (cb, setting_data s)) (setter_callbacks s)"

definition setter_Update :: "json \<Rightarrow> ('s, 'cb) setter \<Rightarrow> bool option \<times> ('s, 'cb) setter \<times> ('s, 'cb) cb_calls" where
  "setter_Update update_json s =
     (case UpdateInternal update_json s of
        (Some True, s) \<Rightarrow> (Some True, s, call_all s)
      | (outcome, s) \<Rightarrow> (outcome, s, []))"

definition SetterBase_new_json :: "'s setting \<Rightarrow> json \<Rightarrow> (('s, 'cb) setter) option" where
  "SetterBase_new_json default_data init_json =
     (case setter_Update init_json (SetterBase_new default_data) of
        (None, s, calls) \<Rightarrow> None
      | (Some ok, s, calls) \<Rightarrow> Some s)"

definition setter_GetSetting :: "('s, 'cb) setter \<Rightarrow> 's setting option" where
  "setter_GetSetting s = (if \<not> is_initialized s then None else Some (setting_data s))"

text \<open>\<open>callback = None\<close> is a null function; \<open>uuid\<close> is what the generator returns.\<close>

definition setter_RegisterCallback :: "string \<Rightarrow> 'cb option \<Rightarrow> ('s, 'cb) setter \<Rightarrow> string \<times> ('s, 'cb) setter" where
  "setter_RegisterCallback uuid callback s =
     (case callback of
        None \<Rightarrow> ([], s)
      | Some cb \<Rightarrow> if uuid = [] then ([], s)
                  else (uuid, s\<lparr>setter_callbacks := AList.update uuid cb (setter_callbacks s)\<rparr>))"

definition setter_UnregisterCallback :: "string \<Rightarrow> ('s, 'cb) setter \<Rightarrow> bool \<times> ('s, 'cb) setter" where
  "setter_UnregisterCallback uuid s =
     (if uuid = [] then (False, s)
      else (map_of (setter_callbacks s) uuid \<noteq> None, s\<lparr>setter_callbacks := AList.delete uuid (setter_callbacks s)\<rparr>))"

definition StealCallbacks :: "('s, 'cb) setter \<Rightarrow> (string \<times> 'cb) list \<times> ('s, 'cb) setter" where
  "StealCallbacks s = (setter_callbacks s, s\<lparr>setter_callbacks := []\<rparr>)"

definition SetCallbacks :: "(string \<times> 'cb) list \<Rightarrow> ('s, 'cb) setter \<Rightarrow> ('s, 'cb) setter" where
  "SetCallbacks new_callbacks s = s\<lparr>setter_callbacks := new_callbacks\<rparr>"

definition TriggerCallbacks :: "('s, 'cb) setter \<Rightarrow> ('s, 'cb) cb_calls" where
  "TriggerCallbacks s = (if \<not> is_initialized s then [] else call_all s)"

subsection \<open>\<open>SettingManagerBase\<close>\<close>

definition MISSING_UNIT_ID :: int where "MISSING_UNIT_ID = -99"

record ('s, 'cb) setting_manager =
  unit_key_name :: string
  default_setting :: "'s setting"
  settings :: "(int \<times> ('s, 'cb) setter) list"

definition IsUnitExist :: "int \<Rightarrow> ('s, 'cb) setting_manager \<Rightarrow> bool" where
  "IsUnitExist i m = (map_of (settings m) i \<noteq> None)"

definition GetRegistedUnitList :: "('s, 'cb) setting_manager \<Rightarrow> int set" where
  "GetRegistedUnitList m = fst ` set (settings m)"

definition GetSetting :: "int \<Rightarrow> ('s, 'cb) setting_manager \<Rightarrow> 's setting option" where
  "GetSetting i m = (case map_of (settings m) i of None \<Rightarrow> None | Some s \<Rightarrow> setter_GetSetting s)"

definition GetUnitID :: "('s, 'cb) setting_manager \<Rightarrow> json \<Rightarrow> int option" where
  "GetUnitID m json_object =
     (if unit_key_name m = [] then Some MISSING_UNIT_ID
      else if \<not> is_object json_object then Some MISSING_UNIT_ID
      else if \<not> contains json_object (unit_key_name m) then Some MISSING_UNIT_ID
      else json_value get_int json_object (unit_key_name m) MISSING_UNIT_ID)"

definition UpdateTargetUnit ::
  "int \<Rightarrow> json \<Rightarrow> ('s, 'cb) setting_manager \<Rightarrow> bool option \<times> ('s, 'cb) setting_manager \<times> ('s, 'cb) cb_calls" where
  "UpdateTargetUnit i update_json m =
     (if i = MISSING_UNIT_ID then (Some False, m, [])
      else let s = (case map_of (settings m) i of Some s \<Rightarrow> s | None \<Rightarrow> SetterBase_new (default_setting m))
           in case setter_Update update_json s of
                (outcome, s, calls) \<Rightarrow> (outcome, m\<lparr>settings := AList.update i s (settings m)\<rparr>, calls))"

definition RemoveTargetUnit :: "int \<Rightarrow> ('s, 'cb) setting_manager \<Rightarrow> bool \<times> ('s, 'cb) setting_manager" where
  "RemoveTargetUnit i m =
     (if i = MISSING_UNIT_ID then (False, m)
      else (map_of (settings m) i \<noteq> None, m\<lparr>settings := AList.delete i (settings m)\<rparr>))"

text \<open>The objects of a document grouped by unit; other elements are skipped.\<close>

fun group_units ::
  "('s, 'cb) setting_manager \<Rightarrow> json list \<Rightarrow> (int \<times> json list) list \<Rightarrow> (int \<times> json list) list option" where
  "group_units m [] cluster = Some cluster"
| "group_units m (object # objects) cluster =
     (if \<not> is_object object \<or> \<not> contains object (unit_key_name m) then group_units m objects cluster
      else case GetUnitID m object of
             None \<Rightarrow> None
           | Some unit_id \<Rightarrow>
               if unit_id = MISSING_UNIT_ID then group_units m objects cluster
               else group_units m objects
                      (AList.update unit_id ((case map_of cluster unit_id of None \<Rightarrow> [] | Some xs \<Rightarrow> xs) @ [object]) cluster))"

text \<open>An exception of one unit's update ends the loop; the units before it stay updated.\<close>

fun update_units ::
  "(int \<times> json list) list \<Rightarrow> bool \<Rightarrow> ('s, 'cb) setting_manager \<Rightarrow> bool option \<times> ('s, 'cb) setting_manager \<times> ('s, 'cb) cb_calls" where
  "update_units [] all_success m = (Some all_success, m, [])"
| "update_units ((i, objects) # rest) all_success m =
     (case UpdateTargetUnit i (JArray objects) m of
        (None, m, calls) \<Rightarrow> (None, m, calls)
      | (Some ok, m, calls) \<Rightarrow>
          (case update_units rest (all_success \<and> ok) m of (r, m, calls') \<Rightarrow> (r, m, calls @ calls')))"

definition UpdateBulkUnits ::
  "((int \<times> json list) list \<Rightarrow> (int \<times> json list) list) \<Rightarrow> json \<Rightarrow> ('s, 'cb) setting_manager \<Rightarrow>
   bool option \<times> ('s, 'cb) setting_manager \<times> ('s, 'cb) cb_calls" where
  "UpdateBulkUnits order update_json m =
     (if \<not> is_array update_json then (Some False, m, [])
      else case group_units m (elements update_json) [] of
             None \<Rightarrow> (None, m, [])
           | Some cluster \<Rightarrow> update_units (order cluster) True m)"

record ('s, 'cb) renewal =
  map_for_swap :: "(int \<times> ('s, 'cb) setter) list"
  stolen_callbacks_map :: "(int \<times> (string \<times> 'cb) list) list"
  old_settings :: "(int \<times> ('s, 'cb) setter) list"

text \<open>Phase 1: the new setters, and the callbacks of the old ones that they replace.\<close>

fun prepare ::
  "'s setting \<Rightarrow> (int \<times> json list) list \<Rightarrow> ('s, 'cb) renewal \<Rightarrow> bool \<times> ('s, 'cb) renewal" where
  "prepare default_data [] r = (True, r)"
| "prepare default_data ((i, init_data) # rest) r =
     (case setter_Update (JArray init_data) (SetterBase_new default_data) of
        (None, s, calls) \<Rightarrow> (False, r)
      | (Some True, s, calls) \<Rightarrow>
          let r = (case map_of (old_settings r) i of
                     None \<Rightarrow> r
                   | Some old \<Rightarrow>
                       (case StealCallbacks old of
                          (cbs, old) \<Rightarrow> r\<lparr>stolen_callbacks_map := AList.update i cbs (stolen_callbacks_map r),
                                         old_settings := AList.update i old (old_settings r)\<rparr>))
          in prepare default_data rest (r\<lparr>map_for_swap := AList.update i s (map_for_swap r)\<rparr>)
      | (Some False, s, calls) \<Rightarrow> prepare default_data rest r)"

text \<open>Phase 2, after an exception: the stolen callbacks return to the old setters.\<close>

definition rollback :: "('s, 'cb) renewal \<Rightarrow> (int \<times> ('s, 'cb) setter) list" where
  "rollback r = fold (\<lambda>(i, cbs) old. case map_of old i of None \<Rightarrow> old | Some s \<Rightarrow> AList.update i (SetCallbacks cbs s) old)
     (stolen_callbacks_map r) (old_settings r)"

text \<open>Phase 3: the stolen callbacks move to the new setters.\<close>

definition hand_over :: "('s, 'cb) renewal \<Rightarrow> (int \<times> ('s, 'cb) setter) list" where
  "hand_over r = map (\<lambda>(i, s). (i, case map_of (stolen_callbacks_map r) i of
     None \<Rightarrow> s | Some cbs \<Rightarrow> if cbs \<noteq> [] then SetCallbacks cbs s else s)) (map_for_swap r)"

definition RenewAfterReset ::
  "((int \<times> json list) list \<Rightarrow> (int \<times> json list) list) \<Rightarrow> json \<Rightarrow> ('s, 'cb) setting_manager \<Rightarrow>
   bool \<times> ('s, 'cb) setting_manager \<times> ('s, 'cb) cb_calls" where
  "RenewAfterReset order renew_json m =
     (if \<not> is_array renew_json then (False, m, [])
      else case group_units m (elements renew_json) [] of
             None \<Rightarrow> (False, m, [])
           | Some cluster \<Rightarrow>
               (case prepare (default_setting m) (order cluster)
                       \<lparr>map_for_swap = [], stolen_callbacks_map = [], old_settings = settings m\<rparr> of
                  (preparation_ok, r) \<Rightarrow>
                    if \<not> preparation_ok then (False, m\<lparr>settings := rollback r\<rparr>, [])
                    else let m = m\<lparr>settings := hand_over r\<rparr>
                         in (True, m, concat (map (\<lambda>(i, s). TriggerCallbacks s) (settings m)))))"

definition RegisterCallback ::
  "int \<Rightarrow> string \<Rightarrow> 'cb option \<Rightarrow> ('s, 'cb) setting_manager \<Rightarrow> string \<times> ('s, 'cb) setting_manager" where
  "RegisterCallback i uuid callback m =
     (if i = MISSING_UNIT_ID then ([], m)
      else if callback = None then ([], m)
      else let s = (case map_of (settings m) i of Some s \<Rightarrow> s | None \<Rightarrow> SetterBase_new (default_setting m))
           in case setter_RegisterCallback uuid callback s of
                (result, s) \<Rightarrow> (result, m\<lparr>settings := AList.update i s (settings m)\<rparr>))"

definition UnregisterCallback :: "int \<Rightarrow> string \<Rightarrow> ('s, 'cb) setting_manager \<Rightarrow> bool \<times> ('s, 'cb) setting_manager" where
  "UnregisterCallback i uuid m =
     (if i = MISSING_UNIT_ID then (False, m)
      else if uuid = [] then (False, m)
      else case map_of (settings m) i of
             None \<Rightarrow> (False, m)
           | Some s \<Rightarrow> (case setter_UnregisterCallback uuid s of
                          (ok, s) \<Rightarrow> (ok, m\<lparr>settings := AList.update i s (settings m)\<rparr>)))"

definition SettingManagerBase_new ::
  "((int \<times> json list) list \<Rightarrow> (int \<times> json list) list) \<Rightarrow> json \<Rightarrow> string \<Rightarrow> 's setting \<Rightarrow> ('s, 'cb) setting_manager" where
  "SettingManagerBase_new order js key default_data =
     fst (snd (RenewAfterReset order js \<lparr>unit_key_name = key, default_setting = default_data, settings = []\<rparr>))"

subsection \<open>One unit\<close>

lemma setter_Update_frame: "setter_Update j s = (outcome, s', calls) \<Longrightarrow> setter_callbacks s' = setter_callbacks s"
  by (auto simp: setter_Update_def UpdateInternal_def Let_def split: prod.splits option.splits bool.splits if_splits)

lemma setter_Update_True:
  "setter_Update j s = (Some True, s', calls) \<Longrightarrow> is_initialized s' \<and> setting_data s' = snd (UpdateFromJson j (setting_data s)) \<and> calls = call_all s'"
  by (auto simp: setter_Update_def UpdateInternal_def Let_def split: prod.splits option.splits bool.splits if_splits)

lemma setter_Update_False: "setter_Update j s = (Some False, s', calls) \<Longrightarrow> calls = [] \<and> (is_initialized s \<longrightarrow> s' = s)"
  by (auto simp: setter_Update_def UpdateInternal_def Let_def split: prod.splits option.splits bool.splits if_splits)

definition unit_callbacks :: "int \<Rightarrow> ('s, 'cb) setting_manager \<Rightarrow> (string \<times> 'cb) list" where
  "unit_callbacks i m = (case map_of (settings m) i of None \<Rightarrow> [] | Some s \<Rightarrow> setter_callbacks s)"

text \<open>
  An update concerns one unit.  \<open>UpdateTargetUnit\<close> never changes another unit.  When it accepts the
  document, the unit's setting is the updated one and each of its callbacks is called once, with that
  setting; when it rejects it, a unit that had a setting keeps it and no callback runs.
\<close>

theorem unit_update_isolated:
  assumes "UpdateTargetUnit i doc m = (Some ok, m', calls)"
  shows "(\<forall>j. j \<noteq> i \<longrightarrow> map_of (settings m') j = map_of (settings m) j)
    \<and> (ok \<longrightarrow> (\<exists>d. GetSetting i m' = Some d \<and> d = snd (UpdateFromJson doc (case map_of (settings m) i of None \<Rightarrow> default_setting m | Some s \<Rightarrow> setting_data s))
               \<and> calls = map (\<lambda>(uuid, cb). (cb, d)) (unit_callbacks i m)))
    \<and> (\<not> ok \<longrightarrow> calls = [] \<and> (GetSetting i m \<noteq> None \<longrightarrow> map_of (settings m') = map_of (settings m)))"
proof (cases "i = MISSING_UNIT_ID")
  case True
  then show ?thesis using assms by (auto simp: UpdateTargetUnit_def)
next
  case False
  let ?s = "case map_of (settings m) i of Some s \<Rightarrow> s | None \<Rightarrow> SetterBase_new (default_setting m)"
  obtain s' where s': "setter_Update doc ?s = (Some ok, s', calls)" "m' = m\<lparr>settings := AList.update i s' (settings m)\<rparr>"
    using assms False by (auto simp: UpdateTargetUnit_def Let_def split: prod.splits)
  have cbs: "setter_callbacks s' = unit_callbacks i m"
    using setter_Update_frame [OF s'(1)] by (simp add: unit_callbacks_def SetterBase_new_def split: option.split)
  have data: "setting_data ?s = (case map_of (settings m) i of None \<Rightarrow> default_setting m | Some s \<Rightarrow> setting_data s)"
    by (simp add: SetterBase_new_def split: option.split)
  show ?thesis
  proof (cases ok)
    case True
    then show ?thesis using setter_Update_True [of doc ?s s' calls] s' cbs data
      by (simp add: GetSetting_def setter_GetSetting_def call_all_def update_conv')
  next
    case False
    then have "calls = []" "is_initialized ?s \<longrightarrow> s' = ?s" using setter_Update_False [of doc ?s s' calls] s'(1) by auto
    then show ?thesis using False s'(2)
      by (auto simp: GetSetting_def setter_GetSetting_def update_conv' fun_upd_idem_iff split: option.splits if_splits)
  qed
qed

subsection \<open>Grouping by unit\<close>

definition unit_objects :: "('s, 'cb) setting_manager \<Rightarrow> int \<Rightarrow> json list \<Rightarrow> json list" where
  "unit_objects m i objects = filter (\<lambda>x. is_object x \<and> contains x (unit_key_name m) \<and> GetUnitID m x = Some i) objects"

lemma unit_objects_simps [simp]:
  "unit_objects m i [] = []"
  "unit_objects m i (x # xs) = (if is_object x \<and> contains x (unit_key_name m) \<and> GetUnitID m x = Some i then [x] else []) @ unit_objects m i xs"
  by (simp_all add: unit_objects_def)

lemma group_units_spec:
  "group_units m objects cluster = Some cluster' \<Longrightarrow> distinct (map fst cluster) \<Longrightarrow>
   distinct (map fst cluster') \<and> (\<forall>i. map_of cluster' i = (if i = MISSING_UNIT_ID \<or> unit_objects m i objects = [] then map_of cluster i
     else Some ((case map_of cluster i of None \<Rightarrow> [] | Some xs \<Rightarrow> xs) @ unit_objects m i objects)))"
proof (induction m objects cluster rule: group_units.induct)
  case (2 m object objects cluster)
  show ?case
  proof (cases "\<not> is_object object \<or> \<not> contains object (unit_key_name m)")
    case True
    then show ?thesis using 2 by auto
  next
    case False
    then obtain u where u: "GetUnitID m object = Some u" using 2(4) by (auto split: option.splits)
    show ?thesis
    proof (cases "u = MISSING_UNIT_ID")
      case True
      then show ?thesis using 2(2) [OF False u] 2(4,5) False u by auto
    next
      case ne: False
      let ?c = "AList.update u ((case map_of cluster u of None \<Rightarrow> [] | Some xs \<Rightarrow> xs) @ [object]) cluster"
      have "distinct (map fst ?c)" using 2(5) by (rule distinct_update)
      then show ?thesis using 2(3) [OF False u ne] 2(4) False u ne by (auto simp: update_conv' split: option.split)
    qed
  qed
qed auto

definition reorders :: "('a list \<Rightarrow> 'a list) \<Rightarrow> bool" where
  "reorders f = (\<forall>xs. mset (f xs) = mset xs)"

lemma reorders_cluster:
  assumes "reorders order" and "distinct (map fst cluster)"
  shows "distinct (map fst (order cluster))" "map_of (order cluster) = map_of cluster"
proof -
  have ms: "mset (order cluster) = mset cluster" using assms(1) by (simp add: reorders_def)
  then have "mset (map fst (order cluster)) = mset (map fst cluster)" by simp
  then show "distinct (map fst (order cluster))" using assms(2) mset_eq_imp_distinct_iff by blast
  then show "map_of (order cluster) = map_of cluster"
    using map_of_inject_set [OF _ assms(2)] mset_eq_setD [OF ms] by blast
qed

subsection \<open>Renewal\<close>

definition fresh_setter :: "'s setting \<Rightarrow> json list \<Rightarrow> ('s, 'cb) setter option" where
  "fresh_setter d objects = (case setter_Update (JArray objects) (SetterBase_new d) of (Some True, s, calls) \<Rightarrow> Some s | _ \<Rightarrow> None)"

definition renewal_inv :: "(int \<rightharpoonup> ('s, 'cb) setter) \<Rightarrow> ('s, 'cb) renewal \<Rightarrow> bool" where
  "renewal_inv old0 r = (distinct (map fst (stolen_callbacks_map r)) \<and> distinct (map fst (map_for_swap r))
     \<and> (\<forall>i cbs. map_of (stolen_callbacks_map r) i = Some cbs \<longrightarrow>
          (\<exists>s. old0 i = Some s \<and> cbs = setter_callbacks s \<and> map_of (old_settings r) i = Some (s\<lparr>setter_callbacks := []\<rparr>)))
     \<and> (\<forall>i. map_of (stolen_callbacks_map r) i = None \<longrightarrow> map_of (old_settings r) i = old0 i))"

definition steal :: "int \<Rightarrow> ('s, 'cb) setter \<Rightarrow> ('s, 'cb) renewal \<Rightarrow> ('s, 'cb) renewal" where
  "steal i s r = (case map_of (old_settings r) i of
       None \<Rightarrow> r
     | Some old \<Rightarrow> r\<lparr>stolen_callbacks_map := AList.update i (setter_callbacks old) (stolen_callbacks_map r),
                     old_settings := AList.update i (old\<lparr>setter_callbacks := []\<rparr>) (old_settings r)\<rparr>)
     \<lparr>map_for_swap := AList.update i s (map_for_swap r)\<rparr>"

lemma prepare_Cons:
  "prepare d ((i, objs) # rest) r =
     (case setter_Update (JArray objs) (SetterBase_new d) of
        (None, s, calls) \<Rightarrow> (False, r)
      | (Some True, s, calls) \<Rightarrow> prepare d rest (steal i s r)
      | (Some False, s, calls) \<Rightarrow> prepare d rest r)"
  by (auto simp: steal_def StealCallbacks_def Let_def split: prod.splits option.splits bool.splits)

lemma steal_maps:
  assumes "renewal_inv old0 r" and "map_of (stolen_callbacks_map r) i = None"
  shows "renewal_inv old0 (steal i s r)"
    "map_of (map_for_swap (steal i s r)) = (map_of (map_for_swap r))(i \<mapsto> s)"
    "map_of (stolen_callbacks_map (steal i s r)) = (map_of (stolen_callbacks_map r))(i := map_option setter_callbacks (old0 i))"
proof -
  have old: "map_of (old_settings r) i = old0 i" using assms by (simp add: renewal_inv_def)
  show "map_of (map_for_swap (steal i s r)) = (map_of (map_for_swap r))(i \<mapsto> s)"
    by (simp add: steal_def update_conv' split: option.split)
  show "map_of (stolen_callbacks_map (steal i s r)) = (map_of (stolen_callbacks_map r))(i := map_option setter_callbacks (old0 i))"
    using assms(2) by (auto simp: steal_def update_conv' old split: option.split)
  show "renewal_inv old0 (steal i s r)"
    using assms by (auto simp: renewal_inv_def steal_def update_conv' distinct_update old simp del: map_of_eq_Some_iff
        split: option.splits if_splits)
qed

lemma prepare_inv:
  assumes "prepare d cl r = (ok, r')" and "renewal_inv old0 r" and "distinct (map fst cl)"
    and "\<forall>i \<in> fst ` set cl. map_of (stolen_callbacks_map r) i = None"
  shows "renewal_inv old0 r'"
  using assms
proof (induction cl arbitrary: r)
  case (Cons p cl)
  obtain i objs where p: "p = (i, objs)" by fastforce
  obtain out s calls where u: "setter_Update (JArray objs) (SetterBase_new d :: ('a, 'b) setter) = (out, s, calls)" by (metis prod_cases3)
  have free: "map_of (stolen_callbacks_map r) i = None" using Cons.prems(4) by (simp add: p)
  note st = steal_maps [OF Cons.prems(2) free, of s]
  have rest: "\<forall>j \<in> fst ` set cl. map_of (stolen_callbacks_map (steal i s r)) j = None"
    using Cons.prems(3,4) by (auto simp: st(3) p)
  show ?case
  proof (cases out)
    case None
    then show ?thesis using Cons.prems(1,2) u by (simp add: p prepare_Cons del: prepare.simps)
  next
    case (Some b)
    show ?thesis
      using Cons.prems u Some Cons.IH [of r] Cons.IH [OF _ st(1) _ rest]
      by (cases b) (simp_all add: p prepare_Cons del: prepare.simps)
  qed
qed simp

lemma prepare_maps:
  assumes "prepare d cl r = (True, r')" and "renewal_inv old0 r" and "distinct (map fst cl)"
    and "\<forall>i \<in> fst ` set cl. map_of (stolen_callbacks_map r) i = None \<and> map_of (map_for_swap r) i = None"
  shows "map_of (map_for_swap r') i = (case map_of cl i of None \<Rightarrow> map_of (map_for_swap r) i | Some objs \<Rightarrow> fresh_setter d objs)
    \<and> (map_of cl i \<noteq> None \<longrightarrow> map_of (map_for_swap r') i \<noteq> None \<longrightarrow>
          map_of (stolen_callbacks_map r') i = map_option setter_callbacks (old0 i))
    \<and> (map_of cl i = None \<longrightarrow> map_of (stolen_callbacks_map r') i = map_of (stolen_callbacks_map r) i)"
  using assms
proof (induction cl arbitrary: r)
  case (Cons p cl)
  obtain k objs where p: "p = (k, objs)" by fastforce
  obtain out s calls where u: "setter_Update (JArray objs) (SetterBase_new d :: ('a, 'b) setter) = (out, s, calls)" by (metis prod_cases3)
  have free: "map_of (stolen_callbacks_map r) k = None" "map_of (map_for_swap r) k = None" using Cons.prems(4) by (auto simp: p)
  note st = steal_maps [OF Cons.prems(2) free(1), of s]
  have k: "k \<notin> fst ` set cl" "distinct (map fst cl)" using Cons.prems(3) by (auto simp: p)
  then have none: "map_of cl k = None" by (simp add: map_of_eq_None_iff)
  obtain b where b: "out = Some b" using Cons.prems(1) u by (cases out) (simp_all add: p prepare_Cons del: prepare.simps)
  show ?case
  proof (cases b)
    case True
    have run: "prepare d cl (steal k s r) = (True, r')" using Cons.prems(1) u b True by (simp add: p prepare_Cons del: prepare.simps)
    have fr: "fresh_setter d objs = Some s" using u b True by (simp add: fresh_setter_def)
    have "\<forall>j \<in> fst ` set cl. map_of (stolen_callbacks_map (steal k s r)) j = None \<and> map_of (map_for_swap (steal k s r)) j = None"
      using Cons.prems(4) k by (auto simp: st(2,3) p)
    note ih = Cons.IH [OF run st(1) k(2) this]
    show ?thesis using ih unfolding st(2,3) by (cases "i = k") (auto simp: p none fr split: option.split)
  next
    case False
    have run: "prepare d cl r = (True, r')" using Cons.prems(1) u b False by (simp add: p prepare_Cons del: prepare.simps)
    have fr: "fresh_setter d objs = (None :: ('a, 'b) setter option)" using u b False by (simp add: fresh_setter_def)
    have "\<forall>j \<in> fst ` set cl. map_of (stolen_callbacks_map r) j = None \<and> map_of (map_for_swap r) j = None"
      using Cons.prems(4) by (auto simp: p)
    note ih = Cons.IH [OF run Cons.prems(2) k(2) this]
    show ?thesis using ih by (cases "i = k") (simp_all add: p none fr free)
  qed
qed simp

lemma rollback_fold:
  assumes "distinct (map fst xs)" and "\<forall>(i, cbs) \<in> set xs. \<exists>s. old0 i = Some s \<and> cbs = setter_callbacks s \<and> map_of old i = Some (s\<lparr>setter_callbacks := []\<rparr>)"
    and "\<forall>i. i \<notin> fst ` set xs \<longrightarrow> map_of old i = old0 i"
  shows "map_of (fold (\<lambda>(i, cbs) old. case map_of old i of None \<Rightarrow> old | Some s \<Rightarrow> AList.update i (SetCallbacks cbs s) old) xs old) = old0"
  using assms
proof (induction xs arbitrary: old)
  case (Cons p xs)
  obtain i cbs where p: "p = (i, cbs)" by fastforce
  obtain s where s: "old0 i = Some s" "cbs = setter_callbacks s" "map_of old i = Some (s\<lparr>setter_callbacks := []\<rparr>)"
    using Cons.prems(2) by (auto simp: p)
  let ?old = "AList.update i s old"
  have step: "AList.update i (SetCallbacks cbs (s\<lparr>setter_callbacks := []\<rparr>)) old = ?old" by (simp add: s(2) SetCallbacks_def)
  have "map_of (fold (\<lambda>(i, cbs) old. case map_of old i of None \<Rightarrow> old | Some s \<Rightarrow> AList.update i (SetCallbacks cbs s) old) xs ?old) = old0"
  proof (rule Cons.IH)
    show "\<forall>(j, cbs) \<in> set xs. \<exists>s. old0 j = Some s \<and> cbs = setter_callbacks s \<and> map_of ?old j = Some (s\<lparr>setter_callbacks := []\<rparr>)"
      using Cons.prems(1,2) by (force simp: p update_conv' image_iff)
    show "\<forall>j. j \<notin> fst ` set xs \<longrightarrow> map_of ?old j = old0 j" using Cons.prems(3) s(1) by (auto simp: p update_conv')
  qed (use Cons.prems(1) p in simp)
  then show ?case by (simp add: p s(3) step)
qed (auto simp: fun_eq_iff)

lemma rollback_restores:
  assumes "renewal_inv old0 r"
  shows "map_of (rollback r) = old0"
  unfolding rollback_def
proof (rule rollback_fold)
  show dist: "distinct (map fst (stolen_callbacks_map r))" using assms by (simp add: renewal_inv_def)
  show "\<forall>(i, cbs) \<in> set (stolen_callbacks_map r). \<exists>s. old0 i = Some s \<and> cbs = setter_callbacks s
      \<and> map_of (old_settings r) i = Some (s\<lparr>setter_callbacks := []\<rparr>)"
  proof clarify
    fix i cbs assume "(i, cbs) \<in> set (stolen_callbacks_map r)"
    then have "map_of (stolen_callbacks_map r) i = Some cbs" using dist by (rule map_of_is_SomeI [rotated])
    then show "\<exists>s. old0 i = Some s \<and> cbs = setter_callbacks s \<and> map_of (old_settings r) i = Some (s\<lparr>setter_callbacks := []\<rparr>)"
      using assms unfolding renewal_inv_def by blast
  qed
  show "\<forall>i. i \<notin> fst ` set (stolen_callbacks_map r) \<longrightarrow> map_of (old_settings r) i = old0 i"
    using assms unfolding renewal_inv_def map_of_eq_None_iff by blast
qed

lemma map_of_hand_over:
  "map_of (hand_over r) i = map_option (\<lambda>s. case map_of (stolen_callbacks_map r) i of
     None \<Rightarrow> s | Some cbs \<Rightarrow> if cbs \<noteq> [] then SetCallbacks cbs s else s) (map_of (map_for_swap r) i)"
proof -
  have "map_of (map (\<lambda>(i, s). (i, f i s)) xs) i = map_option (f i) (map_of xs i)" for f :: "int \<Rightarrow> ('a, 'b) setter \<Rightarrow> ('a, 'b) setter" and xs
    by (induction xs) auto
  then show ?thesis unfolding hand_over_def .
qed

lemma fresh_setter_callbacks:
  assumes "fresh_setter d objs = Some s"
  shows "setter_callbacks s = [] \<and> is_initialized s"
proof -
  obtain calls where u: "setter_Update (JArray objs) (SetterBase_new d) = (Some True, s, calls)"
    using assms by (auto simp: fresh_setter_def split: prod.splits option.splits bool.splits)
  have "setter_callbacks s = setter_callbacks (SetterBase_new d :: ('a, 'b) setter)" by (rule setter_Update_frame [OF u])
  then show ?thesis using setter_Update_True [OF u] by (simp add: SetterBase_new_def)
qed

lemma start_renewal_inv: "renewal_inv (map_of old) \<lparr>map_for_swap = [], stolen_callbacks_map = [], old_settings = old\<rparr>"
  by (simp add: renewal_inv_def)

lemma RenewAfterReset_True:
  assumes "RenewAfterReset order doc m = (True, m', calls)"
  obtains cluster r where "group_units m (elements doc) [] = Some cluster"
    "prepare (default_setting m) (order cluster) \<lparr>map_for_swap = [], stolen_callbacks_map = [], old_settings = settings m\<rparr> = (True, r)"
    "m' = m\<lparr>settings := hand_over r\<rparr>" "calls = concat (map (\<lambda>(i, s). TriggerCallbacks s) (hand_over r))"
  using assms by (auto simp: RenewAfterReset_def Let_def split: if_splits option.splits prod.splits)

text \<open>
  C28. A renewal is all or nothing.  When \<open>RenewAfterReset\<close> reports failure (the document is not an array,
  a unit key has the wrong type, or decoding any unit throws half-way), every unit has its old setting
  and its old callbacks again, also those that had already been moved, and no callback was called.
\<close>

theorem failed_renewal_changes_nothing:
  assumes "RenewAfterReset order doc m = (False, m', calls)" and "reorders order"
  shows "map_of (settings m') = map_of (settings m) \<and> unit_key_name m' = unit_key_name m
    \<and> default_setting m' = default_setting m \<and> calls = []"
proof (cases "\<not> is_array doc \<or> group_units m (elements doc) [] = None")
  case True
  then show ?thesis using assms(1) by (auto simp: RenewAfterReset_def split: if_splits)
next
  case False
  then obtain cluster where cl: "group_units m (elements doc) [] = Some cluster" by auto
  obtain ok r where run: "prepare (default_setting m) (order cluster) \<lparr>map_for_swap = [], stolen_callbacks_map = [], old_settings = settings m\<rparr> = (ok, r)"
    by fastforce
  have "distinct (map fst (order cluster))"
    using reorders_cluster(1) [OF assms(2)] group_units_spec [OF cl] by simp
  from prepare_inv [OF run start_renewal_inv this] have "map_of (rollback r) = map_of (settings m)"
    by (intro rollback_restores) simp
  then show ?thesis using assms(1) False cl run by (auto simp: RenewAfterReset_def Let_def split: if_splits)
qed

text \<open>
  A renewal installs exactly the document.  When it succeeds, a unit has a setting if and only if the
  document has objects for it and they decode; its setting is then decoded from these objects alone, in
  their order, and it keeps the callbacks the unit had; the callbacks called are those of the units that
  now exist, each with the new setting.
\<close>

theorem renewal_installs_document:
  assumes "RenewAfterReset order doc m = (True, m', calls)" and "reorders order"
  shows "(\<forall>i. i \<noteq> MISSING_UNIT_ID \<longrightarrow> map_of (settings m') i =
           (if unit_objects m i (elements doc) = [] then None
            else map_option (\<lambda>s. s\<lparr>setter_callbacks := unit_callbacks i m\<rparr>) (fresh_setter (default_setting m) (unit_objects m i (elements doc)))))
    \<and> set calls = {(cb, d). \<exists>i s uuid. (i, s) \<in> set (settings m') \<and> (uuid, cb) \<in> set (setter_callbacks s) \<and> d = setting_data s}"
proof -
  obtain cluster r where 1: "group_units m (elements doc) [] = Some cluster"
    "prepare (default_setting m) (order cluster) \<lparr>map_for_swap = [], stolen_callbacks_map = [], old_settings = settings m\<rparr> = (True, r)"
    "m' = m\<lparr>settings := hand_over r\<rparr>" "calls = concat (map (\<lambda>(i, s). TriggerCallbacks s) (hand_over r))"
    by (rule RenewAfterReset_True [OF assms(1)])
  note cl = group_units_spec [OF 1(1), simplified]
  note ord = reorders_cluster [OF assms(2), of cluster]
  have spec: "map_of (map_for_swap r) i = (case map_of cluster i of None \<Rightarrow> None | Some objs \<Rightarrow> fresh_setter (default_setting m) objs)
      \<and> (map_of (map_for_swap r) i \<noteq> None \<longrightarrow> map_of (stolen_callbacks_map r) i = map_option setter_callbacks (map_of (settings m) i))" for i
    using prepare_maps [OF 1(2) start_renewal_inv, of i] ord cl by (auto split: option.splits)
  have unit: "map_of (hand_over r) i = (case map_of cluster i of None \<Rightarrow> None | Some objs \<Rightarrow>
      map_option (\<lambda>s. s\<lparr>setter_callbacks := unit_callbacks i m\<rparr>) (fresh_setter (default_setting m) objs))" for i
  proof (cases "map_of (map_for_swap r) i")
    case None
    then show ?thesis using spec [of i] by (auto simp: map_of_hand_over split: option.splits)
  next
    case (Some s)
    obtain objs where objs: "map_of cluster i = Some objs" "fresh_setter (default_setting m) objs = Some s"
      using spec [of i] Some by (auto split: option.splits)
    then show ?thesis using spec [of i] Some fresh_setter_callbacks [OF objs(2)]
      by (auto simp: map_of_hand_over unit_callbacks_def SetCallbacks_def split: option.splits)
  qed
  have init: "is_initialized s" if "(i, s) \<in> set (hand_over r)" for i s
  proof -
    have "distinct (map fst (hand_over r))"
      using prepare_inv [OF 1(2) start_renewal_inv] ord cl by (simp add: hand_over_def renewal_inv_def comp_def case_prod_unfold)
    then have "map_of (hand_over r) i = Some s" using that by simp
    then show ?thesis using unit [of i] by (auto split: option.splits dest: fresh_setter_callbacks)
  qed
  have "set calls = {(cb, d). \<exists>i s uuid. (i, s) \<in> set (settings m') \<and> (uuid, cb) \<in> set (setter_callbacks s) \<and> d = setting_data s}"
    unfolding 1(3,4) using init by (force simp: TriggerCallbacks_def call_all_def)
  moreover have "map_of (settings m') i =
           (if unit_objects m i (elements doc) = [] then None
            else map_option (\<lambda>s. s\<lparr>setter_callbacks := unit_callbacks i m\<rparr>) (fresh_setter (default_setting m) (unit_objects m i (elements doc))))"
    if "i \<noteq> MISSING_UNIT_ID" for i
    using that unit [of i] cl by (simp add: 1(3))
  ultimately show ?thesis by blast
qed

subsection \<open>Concrete documents\<close>

definition camera_default :: "camera_setting setting" where
  "camera_default = SetUpdater Impl_CameraSettingData_UpdateFromJsonObject (ISettingData_new FirstOnly CameraSetting_default)"

definition camera_doc :: "int \<Rightarrow> json \<Rightarrow> json" where
  "camera_doc cam u = JObject [(''CameraId'', JInt cam), (''Url'', u)]"

lemmas setting_simps = UpdateFromJson_def SetUpdater_def ISettingData_new_def camera_default_def camera_doc_def
  Impl_CameraSettingData_UpdateFromJsonObject_def GetStringRegardlessOfCase_def convention_names assign_def extend_setting_roi_def
  extend_survey_def to_int32_def SetEmptyFlag_def CameraSetting_default_def Let_def

definition camera_of :: "int \<Rightarrow> string \<Rightarrow> camera_setting setting" where
  "camera_of cam u = camera_default\<lparr>is_empty := False, payload := \<lparr>camera_id = cam, url = u, access_ip = ''None'', access_id = ''None'',
     access_pw = ''None'', cam_extend_data = JObject []\<rparr>\<rparr>"

lemma camera_decodes:
  "cam \<in> {5, 6} \<Longrightarrow> UpdateFromJson (JArray [camera_doc cam (JString u)]) camera_default = (Some True, camera_of cam u)"
  by (auto simp: setting_simps camera_of_def)

lemma camera_throws: "fst (UpdateFromJson (JArray [camera_doc 6 (JInt 1)]) camera_default) = None"
  by (simp add: setting_simps)

lemma camera_redecodes: "UpdateFromJson (JArray [camera_doc 5 (JString u)]) (camera_of 5 v) = (Some True, camera_of 5 u)"
  by (simp add: setting_simps camera_of_def)

definition camera_manager :: "(camera_setting, nat) setting_manager" where
  "camera_manager = \<lparr>unit_key_name = ''CameraId'', default_setting = camera_default,
     settings = [(5, \<lparr>is_initialized = True, setting_data = camera_of 5 ''a'', setter_callbacks = [(''id'', 1)]\<rparr>)]\<rparr>"

lemma camera_docs_grouped:
  "group_units camera_manager [camera_doc 5 x, camera_doc 6 y] [] = Some [(5, [camera_doc 5 x]), (6, [camera_doc 6 y])]"
  by (simp add: camera_manager_def camera_doc_def GetUnitID_def MISSING_UNIT_ID_def to_int32_def)

lemma reorders_id: "reorders id"
  by (simp add: reorders_def)

theorem unit_update_isolated_witness:
  "\<exists>m' calls. UpdateTargetUnit 5 (JArray [camera_doc 5 (JString ''b'')]) camera_manager = (Some True, m', calls)
     \<and> GetSetting 5 m' = Some (camera_of 5 ''b'') \<and> calls = [(1, camera_of 5 ''b'')]"
proof -
  obtain m' calls where u: "UpdateTargetUnit 5 (JArray [camera_doc 5 (JString ''b'')]) camera_manager = (Some True, m', calls)"
    by (simp add: UpdateTargetUnit_def camera_manager_def MISSING_UNIT_ID_def setter_Update_def UpdateInternal_def camera_redecodes)
  show ?thesis using unit_update_isolated [OF u] u by (simp add: camera_manager_def camera_redecodes unit_callbacks_def)
qed

theorem failed_renewal_changes_nothing_witness:
  "\<exists>m' calls. RenewAfterReset id (JArray [camera_doc 5 (JString ''b''), camera_doc 6 (JInt 1)]) camera_manager = (False, m', calls)
     \<and> map_of (settings m') = map_of (settings camera_manager) \<and> calls = []"
proof -
  have throws: "\<exists>d. UpdateFromJson (JArray [camera_doc 6 (JInt 1)]) camera_default = (None, d)"
    using camera_throws by (metis prod.collapse)
  then obtain m' calls where r: "RenewAfterReset id (JArray [camera_doc 5 (JString ''b''), camera_doc 6 (JInt 1)]) camera_manager = (False, m', calls)"
    using camera_docs_grouped [of "JString ''b''" "JInt 1"] camera_decodes [of 5 "''b''"]
    by (auto simp: RenewAfterReset_def setter_Update_def UpdateInternal_def SetterBase_new_def camera_manager_def Let_def)
  show ?thesis using failed_renewal_changes_nothing [OF r reorders_id] r by blast
qed

theorem renewal_installs_document_witness:
  "\<exists>m' calls s. RenewAfterReset id (JArray [camera_doc 5 (JString ''b''), camera_doc 6 (JString ''c'')]) camera_manager = (True, m', calls)
     \<and> map_of (settings m') 5 = Some s \<and> setter_callbacks s = [(''id'', 1)] \<and> map_of (settings m') 7 = None"
proof -
  let ?doc = "JArray [camera_doc 5 (JString ''b''), camera_doc 6 (JString ''c'')]"
  obtain m' calls where r: "RenewAfterReset id ?doc camera_manager = (True, m', calls)"
    using camera_docs_grouped [of "JString ''b''" "JString ''c''"] camera_decodes [of 5 "''b''"] camera_decodes [of 6 "''c''"]
    by (auto simp: RenewAfterReset_def setter_Update_def UpdateInternal_def SetterBase_new_def camera_manager_def Let_def)
  have objs: "unit_objects camera_manager 5 (elements ?doc) = [camera_doc 5 (JString ''b'')]" "unit_objects camera_manager 7 (elements ?doc) = []"
    by (simp_all add: camera_manager_def camera_doc_def GetUnitID_def to_int32_def)
  obtain s where "fresh_setter camera_default [camera_doc 5 (JString ''b'')] = Some (s :: (camera_setting, nat) setter)"
    using camera_decodes [of 5 "''b''"] by (auto simp: fresh_setter_def setter_Update_def UpdateInternal_def SetterBase_new_def Let_def)
  moreover have "unit_callbacks 5 camera_manager = [(''id'', 1)]" "default_setting camera_manager = camera_default"
    by (simp_all add: unit_callbacks_def camera_manager_def)
  ultimately have "map_of (settings m') 5 = Some (s\<lparr>setter_callbacks := [(''id'', 1)]\<rparr>)" "map_of (settings m') 7 = None"
    using renewal_installs_document [OF r reorders_id, THEN conjunct1, rule_format, of 5]
      renewal_installs_document [OF r reorders_id, THEN conjunct1, rule_format, of 7]
    unfolding objs by (simp_all add: MISSING_UNIT_ID_def)
  then show ?thesis using r by auto
qed

subsection \<open>An update that throws\<close>

text \<open>
  An exception escapes the restore.  \<open>UpdateInternal\<close> keeps a copy of the setting to restore it when
  decoding fails, but an exception of the decoder passes it by: a document whose later fields have the
  wrong type leaves the setter, still initialised, with the earlier fields of the new document and the
  later ones of the old, and its callbacks are not told.
\<close>

theorem throwing_update_not_restored:
  "\<exists>s' d. setter_Update (camera_doc 6 (JInt 1)) \<lparr>is_initialized = True, setting_data = camera_of 5 ''a'', setter_callbacks = [(''id'', 1)]\<rparr> = (None, s', [])
     \<and> setter_GetSetting s' = Some d \<and> camera_id (payload d) = 6 \<and> url (payload d) = ''a''"
  by (simp add: setter_Update_def UpdateInternal_def setter_GetSetting_def camera_of_def setting_simps)

end
