(* ===== verification/Frame_Preprocessor.thy ===== *)
theory Frame_Preprocessor
  imports Infer_Object Schedule Engine_Types "HOL-Library.Monad_Syntax"
begin

text \<open>
  \<open>FrameFormattingContext\<close> of \<open>VisionCommon/src/FramePreProcessor.cpp\<close> and its cache \<open>SwsContextManager\<close>
  (\<open>SwsContextManager.cpp\<close>): a camera frame is scaled with its aspect kept, centred in the network's
  input and framed in grey; the buffers the inference requests share are recycled through a pool.
  Images are byte lists with a line stride.  FFmpeg is the parameter \<open>ffmpeg\<close>: whether a scaler can be
  made, the lines it writes, the size of a buffer, and what the memory of a fresh \<open>cv::Mat\<close> holds.  \<open>None\<close> is a thrown \<open>cv::Exception\<close> (a rectangle
  outside its matrix) or a write outside a buffer.  The dimensions of a decoded frame and of a network input are positive, so the
  ratios are finite.
\<close>

subsection \<open>State\<close>

type_synonym raw_buffer = "8 word list"

record pool_container =
  pool :: "raw_buffer list"
  pool_max_size :: nat

text \<open>What a scaler was made for: source size and pixel format, scaled size.\<close>

record sws_context =
  sws_src_w :: int
  sws_src_h :: int
  sws_src_fmt :: int
  sws_dst_w :: int
  sws_dst_h :: int

record av_frame =
  frame_width :: int
  frame_height :: int
  frame_format :: int
  frame_planes :: raw_buffer

record ffmpeg =
  sws_getContext :: "sws_context \<Rightarrow> bool"
  sws_scale :: "sws_context \<Rightarrow> av_frame \<Rightarrow> int \<times> raw_buffer list"
  image_buffer_size :: "int \<Rightarrow> int \<Rightarrow> int"
  mat_memory :: "nat \<Rightarrow> raw_buffer"

record frame_context =
  ctx_initialized :: bool
  need_resize :: bool
  src_w :: int
  src_h :: int
  target_w :: int
  target_h :: int
  scale_w :: int
  scale_h :: int
  pad_top :: int
  pad_bottom :: int
  pad_left :: int
  pad_right :: int
  sws_scale_ctx :: "sws_context option"
  save_snapshot_mat :: raw_buffer
  inference_style :: ImageExpressStyle
  original_style :: ImageExpressStyle
  pool_container_m :: "pool_container option"
  shared_input_blob :: "raw_buffer option"

definition ImageExpressStyle_default :: ImageExpressStyle where
  "ImageExpressStyle_default = ImageExpressStyle_new 0 0 pixel_int ltx_type False 1 0 0 0 0"

definition FrameFormattingContext_new :: frame_context where
  "FrameFormattingContext_new = \<lparr>ctx_initialized = False, need_resize = True, src_w = 0, src_h = 0, target_w = 0, target_h = 0,
     scale_w = 0, scale_h = 0, pad_top = 0, pad_bottom = 0, pad_left = 0, pad_right = 0, sws_scale_ctx = None,
     save_snapshot_mat = [], inference_style = ImageExpressStyle_default, original_style = ImageExpressStyle_default,
     pool_container_m = None, shared_input_blob = None\<rparr>"

definition ClearPool :: "frame_context \<Rightarrow> frame_context" where
  "ClearPool ctx = ctx\<lparr>pool_container_m := map_option (\<lambda>p. p\<lparr>pool := []\<rparr>) (pool_container_m ctx)\<rparr>"

definition InitPool :: "nat \<Rightarrow> frame_context \<Rightarrow> frame_context" where
  "InitPool max_sz ctx = ctx\<lparr>pool_container_m := Some \<lparr>pool = [], pool_max_size = max_sz\<rparr>\<rparr>"

definition IsResolutionChanged :: "int \<Rightarrow> int \<Rightarrow> int \<Rightarrow> int \<Rightarrow> frame_context \<Rightarrow> bool" where
  "IsResolutionChanged new_src_w new_src_h new_target_w new_target_h ctx =
     (src_w ctx \<noteq> new_src_w \<or> src_h ctx \<noteq> new_src_h \<or> target_w ctx \<noteq> new_target_w \<or> target_h ctx \<noteq> new_target_h)"

definition cast_round :: "cfloat \<Rightarrow> int" where
  "cast_round r = int_cast (round_away r)"

text \<open>The letterbox: the common scale, then how the remaining pixels are split between the two sides.\<close>

definition letterbox :: "frame_context \<Rightarrow> cfloat \<times> frame_context" where
  "letterbox ctx =
     (if src_w ctx = target_w ctx \<and> src_h ctx = target_h ctx
      then (1, ctx\<lparr>need_resize := False, scale_w := src_w ctx, scale_h := src_h ctx,
                  pad_left := 0, pad_right := 0, pad_top := 0, pad_bottom := 0\<rparr>)
      else let w_ratio = of_int (target_w ctx) / of_int (src_w ctx);
               h_ratio = of_int (target_h ctx) / of_int (src_h ctx);
               scale_factor = min w_ratio h_ratio;
               sw = cast_round (of_int (src_w ctx) * scale_factor);
               sh = cast_round (of_int (src_h ctx) * scale_factor);
               total_pad_w = of_int (target_w ctx - sw) / 2;
               total_pad_h = of_int (target_h ctx - sh) / 2
           in (scale_factor, ctx\<lparr>need_resize := True, scale_w := sw, scale_h := sh,
                 pad_left := cast_round (total_pad_w - 1/10), pad_right := cast_round (total_pad_w + 1/10),
                 pad_top := cast_round (total_pad_h - 1/10), pad_bottom := cast_round (total_pad_h + 1/10)\<rparr>))"

definition Update :: "ffmpeg \<Rightarrow> int \<Rightarrow> int \<Rightarrow> int \<Rightarrow> int \<Rightarrow> int \<Rightarrow> frame_context \<Rightarrow> bool \<times> frame_context" where
  "Update ff new_src_w new_src_h new_target_w new_target_h format ctx =
     (let is_resolution_changed = IsResolutionChanged new_src_w new_src_h new_target_w new_target_h ctx
      in if ctx_initialized ctx \<and> \<not> is_resolution_changed then (True, ctx)
         else let ctx = (if pool_container_m ctx = None then InitPool 10 ctx else ctx);
                  ctx = (if is_resolution_changed then ClearPool ctx else ctx);
                  ctx = ctx\<lparr>src_w := new_src_w, src_h := new_src_h, target_w := new_target_w, target_h := new_target_h\<rparr>;
                  (scale_factor, ctx) = letterbox ctx;
                  scaler = \<lparr>sws_src_w = src_w ctx, sws_src_h = src_h ctx, sws_src_fmt = format,
                            sws_dst_w = scale_w ctx, sws_dst_h = scale_h ctx\<rparr>
              in if \<not> sws_getContext ff scaler then (False, ctx\<lparr>sws_scale_ctx := None\<rparr>)
                 else (True, ctx\<lparr>sws_scale_ctx := Some scaler,
                        original_style := ImageExpressStyle_new (src_w ctx) (src_h ctx) pixel_int ltx_type False 1 0 0 0 0,
                        inference_style := (ImageExpressStyle_new (target_w ctx) (target_h ctx) ratio_float ltx_type False 1 0 0 0 0)
                          \<lparr>is_padded_or_scaled := True, scale_factor_from_original := scale_factor,
                           pad_x_offset := pad_left ctx, pad_y_offset := pad_top ctx,
                           original_width := src_w ctx, original_height := src_h ctx\<rparr>,
                        ctx_initialized := True\<rparr>))"

subsection \<open>Pixels\<close>

definition write_at :: "nat \<Rightarrow> raw_buffer \<Rightarrow> raw_buffer \<Rightarrow> raw_buffer option" where
  "write_at off bytes buf =
     (if off + length bytes \<le> length buf then Some (take off buf @ bytes @ drop (off + length bytes) buf) else None)"

fun put_rows :: "nat \<Rightarrow> nat \<Rightarrow> raw_buffer list \<Rightarrow> raw_buffer \<Rightarrow> raw_buffer option" where
  "put_rows stride off [] buf = Some buf"
| "put_rows stride off (row # rows) buf = Option.bind (write_at off row buf) (put_rows stride (off + stride) rows)"

text \<open>The rectangle check of \<open>cv::Mat::operator()\<close>.\<close>

definition rect_ok :: "frame_context \<Rightarrow> int \<Rightarrow> int \<Rightarrow> int \<Rightarrow> int \<Rightarrow> bool" where
  "rect_ok ctx x y w h = (0 \<le> x \<and> 0 \<le> w \<and> x + w \<le> target_w ctx \<and> 0 \<le> y \<and> 0 \<le> h \<and> y + h \<le> target_h ctx)"

definition set_grey :: "frame_context \<Rightarrow> nat \<Rightarrow> int \<Rightarrow> int \<Rightarrow> int \<Rightarrow> int \<Rightarrow> raw_buffer \<Rightarrow> raw_buffer option" where
  "set_grey ctx stride x y w h buf =
     (if rect_ok ctx x y w h
      then put_rows stride (nat y * stride + 3 * nat x) (replicate (nat h) (replicate (3 * nat w) 114)) buf
      else None)"

definition pad_grey :: "frame_context \<Rightarrow> nat \<Rightarrow> raw_buffer \<Rightarrow> raw_buffer option" where
  "pad_grey ctx stride buf =
     (if need_resize ctx then do {
        buf \<leftarrow> (if pad_top ctx > 0 then set_grey ctx stride 0 0 (target_w ctx) (pad_top ctx) buf else Some buf);
        buf \<leftarrow> (if pad_bottom ctx > 0
                then set_grey ctx stride 0 (target_h ctx - pad_bottom ctx) (target_w ctx) (pad_bottom ctx) buf else Some buf);
        buf \<leftarrow> (if pad_left ctx > 0 then set_grey ctx stride 0 (pad_top ctx) (pad_left ctx) (scale_h ctx) buf else Some buf);
        (if pad_right ctx > 0
         then set_grey ctx stride (target_w ctx - pad_right ctx) (pad_top ctx) (pad_right ctx) (scale_h ctx) buf else Some buf) }
      else Some buf)"

text \<open>Scaling into the region of interest, then the grey frame; the flag says whether \<open>sws_scale\<close> succeeded.\<close>

definition render :: "ffmpeg \<Rightarrow> sws_context \<Rightarrow> av_frame \<Rightarrow> frame_context \<Rightarrow> nat \<Rightarrow> raw_buffer \<Rightarrow> (bool \<times> raw_buffer) option" where
  "render ff scaler frame ctx stride buf =
     (if \<not> rect_ok ctx (pad_left ctx) (pad_top ctx) (scale_w ctx) (scale_h ctx) then None
      else case sws_scale ff scaler frame of
             (processed_h, rows) \<Rightarrow>
               (case put_rows stride (nat (pad_top ctx) * stride + 3 * nat (pad_left ctx)) rows buf of
                  None \<Rightarrow> None
                | Some buf \<Rightarrow> if processed_h \<le> 0 then Some (False, buf)
                              else map_option (Pair True) (pad_grey ctx stride buf)))"

definition crop :: "frame_context \<Rightarrow> nat \<Rightarrow> raw_buffer \<Rightarrow> raw_buffer" where
  "crop ctx stride buf = concat (map (\<lambda>y. take (3 * nat (target_w ctx)) (drop (y * stride) buf)) [0..<nat (target_h ctx)])"

subsection \<open>Converting\<close>

text \<open>The deleter of a shared blob returns its memory to the pool or frees it.\<close>

definition release_blob :: "raw_buffer \<Rightarrow> pool_container \<Rightarrow> pool_container" where
  "release_blob b p = (if length (pool p) < pool_max_size p then p\<lparr>pool := pool p @ [b]\<rparr> else p)"

definition line_size :: "frame_context \<Rightarrow> nat" where
  "line_size ctx = nat ((target_w ctx * 3 + 31) div 32 * 32)"

definition take_buffer :: "nat \<Rightarrow> pool_container \<Rightarrow> raw_buffer \<times> pool_container" where
  "take_buffer required p =
     (case pool p of
        [] \<Rightarrow> (replicate required 0, p)
      | b # bs \<Rightarrow> (if length b < required then b @ replicate (required - length b) 0 else b, p\<lparr>pool := bs\<rparr>))"

text \<open>
  \<open>released\<close>: what the engines left in the previous blob, when the context was its last owner; its
  deleter runs when the member is assigned.
\<close>

definition Convert ::
  "ffmpeg \<Rightarrow> av_frame option \<Rightarrow> bool \<Rightarrow> bool \<Rightarrow> raw_buffer option \<Rightarrow> frame_context \<Rightarrow> (bool \<times> frame_context) option" where
  "Convert ff frame capture_save_image generate_inference_blob released ctx =
     (case (sws_scale_ctx ctx, frame) of
        (Some scaler, Some frame) \<Rightarrow>
          if \<not> ctx_initialized ctx then Some (False, ctx)
          else let ctx = (if pool_container_m ctx = None then InitPool 10 ctx else ctx);
                   p = the (pool_container_m ctx);
                   drop_old = (\<lambda>p. case released of None \<Rightarrow> p | Some b \<Rightarrow> release_blob b p);
                   required_size = nat (image_buffer_size ff (target_w ctx) (target_h ctx))
               in if generate_inference_blob
                  then case take_buffer required_size p of
                    (buf, p) \<Rightarrow>
                      (case render ff scaler frame ctx (line_size ctx) buf of
                         None \<Rightarrow> None
                       | Some (False, _) \<Rightarrow> Some (False, ctx\<lparr>pool_container_m := Some p\<rparr>)
                       | Some (True, buf) \<Rightarrow>
                           let ctx = (if capture_save_image then ctx\<lparr>save_snapshot_mat := crop ctx (line_size ctx) buf\<rparr> else ctx)
                           in if capture_save_image \<and> save_snapshot_mat ctx = []
                              then Some (False, ctx\<lparr>pool_container_m := Some p\<rparr>)
                              else Some (True, ctx\<lparr>pool_container_m := Some (drop_old p), shared_input_blob := Some buf\<rparr>))
                  else if capture_save_image
                  then let ctx = ctx\<lparr>shared_input_blob := None, pool_container_m := Some (drop_old p)\<rparr>;
                           stride = 3 * nat (target_w ctx);
                           bytes = stride * nat (target_h ctx);
                           mat = (if length (save_snapshot_mat ctx) = bytes then save_snapshot_mat ctx else mat_memory ff bytes)
                       in map_option (\<lambda>(ok, mat). (ok, ctx\<lparr>save_snapshot_mat := mat\<rparr>)) (render ff scaler frame ctx stride mat)
                  else Some (True, ctx)
      | _ \<Rightarrow> Some (False, ctx))"

definition IsReadyForInference :: "frame_context \<Rightarrow> bool" where
  "IsReadyForInference ctx = (shared_input_blob ctx \<noteq> None \<and> shared_input_blob ctx \<noteq> Some [])"

subsection \<open>The cache of contexts\<close>

record sws_manager =
  contexts :: "(int \<times> int) \<rightharpoonup> frame_context"
  current_src_w :: int
  current_src_h :: int

definition SwsContextManager_new :: sws_manager where
  "SwsContextManager_new = \<lparr>contexts = Map.empty, current_src_w = 0, current_src_h = 0\<rparr>"

definition ClearAll :: "sws_manager \<Rightarrow> sws_manager" where
  "ClearAll m = m\<lparr>contexts := Map.empty, current_src_w := 0, current_src_h := 0\<rparr>"

text \<open>The pointer into the map is the context under its key; \<open>put_context\<close> is a write through it.\<close>

definition GetContext :: "int \<Rightarrow> int \<Rightarrow> av_frame option \<Rightarrow> sws_manager \<Rightarrow> frame_context option \<times> sws_manager" where
  "GetContext w h frame m =
     (case frame of
        None \<Rightarrow> (None, m)
      | Some f \<Rightarrow>
          let m = (if current_src_w m \<noteq> frame_width f \<or> current_src_h m \<noteq> frame_height f
                   then (ClearAll m)\<lparr>current_src_w := frame_width f, current_src_h := frame_height f\<rparr> else m);
              ctx = (case contexts m (w, h) of None \<Rightarrow> FrameFormattingContext_new | Some c \<Rightarrow> c)
          in (Some ctx, m\<lparr>contexts := (contexts m)((w, h) \<mapsto> ctx)\<rparr>))"

definition put_context :: "int \<Rightarrow> int \<Rightarrow> frame_context \<Rightarrow> sws_manager \<Rightarrow> sws_manager" where
  "put_context w h ctx m = m\<lparr>contexts := (contexts m)((w, h) \<mapsto> ctx)\<rparr>"

subsection \<open>The geometry of the letterbox\<close>

lemma cast_round_floor: "- (1/2) < r \<Longrightarrow> cast_round r = \<lfloor>r + 1/2\<rfloor>"
proof -
  assume r: "- (1/2) < r"
  have "\<lceil>r - 1/2\<rceil> = \<lfloor>r + 1/2\<rfloor>" if "r < 0"
  proof -
    have "\<lceil>r - 1/2\<rceil> = 0" using r that by (intro ceiling_unique) auto
    moreover have "\<lfloor>r + 1/2\<rfloor> = 0" using r that by (intro floor_unique) auto
    ultimately show ?thesis by simp
  qed
  then show ?thesis by (simp add: cast_round_def int_cast_round)
qed

lemma cast_round_of_int [simp]: "cast_round (of_int n) = n"
  by (auto simp: cast_round_def int_cast_round) linarith

lemma cast_round_close: "\<bar>of_int (cast_round r) - r\<bar> \<le> 1 / 2"
  using round_away_close [of r] by (simp add: cast_round_def of_int_cast_round)

lemma cast_round_mono_int: "0 \<le> r \<Longrightarrow> r \<le> of_int n \<Longrightarrow> 0 \<le> cast_round r \<and> cast_round r \<le> n"
  using cast_round_floor [of r] by (auto simp: floor_le_iff)

lemma pad_split:
  assumes "0 \<le> d"
  shows "cast_round (of_int d / 2 - 1/10) + cast_round (of_int d / 2 + 1/10) = d"
    "0 \<le> cast_round (of_int d / 2 - 1/10)"
    "cast_round (of_int d / 2 - 1/10) \<le> cast_round (of_int d / 2 + 1/10)"
    "cast_round (of_int d / 2 + 1/10) \<le> cast_round (of_int d / 2 - 1/10) + 1"
proof -
  define n where "n = d div 2"
  have l: "cast_round (of_int d / 2 - 1/10) = n"
  proof (subst cast_round_floor)
    show "\<lfloor>of_int d / 2 - 1 / 10 + 1 / 2 :: real\<rfloor> = n"
      by (rule floor_unique) (use n_def in linarith)+
  qed (use assms in simp)
  have r: "cast_round (of_int d / 2 + 1/10) = d - n"
  proof (subst cast_round_floor)
    show "\<lfloor>of_int d / 2 + 1 / 10 + 1 / 2 :: real\<rfloor> = d - n"
      by (rule floor_unique) (use n_def in linarith)+
  qed (use assms in simp)
  show "cast_round (of_int d / 2 - 1/10) + cast_round (of_int d / 2 + 1/10) = d" using l r by simp
  show "0 \<le> cast_round (of_int d / 2 - 1/10)" using l assms n_def by simp
  show "cast_round (of_int d / 2 - 1/10) \<le> cast_round (of_int d / 2 + 1/10)" using l r n_def by simp
  show "cast_round (of_int d / 2 + 1/10) \<le> cast_round (of_int d / 2 - 1/10) + 1" using l r n_def by simp
qed

definition letterboxed :: "cfloat \<Rightarrow> frame_context \<Rightarrow> bool" where
  "letterboxed s ctx = (0 < s
     \<and> pad_left ctx + scale_w ctx + pad_right ctx = target_w ctx \<and> pad_top ctx + scale_h ctx + pad_bottom ctx = target_h ctx
     \<and> 0 \<le> pad_left ctx \<and> pad_left ctx \<le> pad_right ctx \<and> pad_right ctx \<le> pad_left ctx + 1
     \<and> 0 \<le> pad_top ctx \<and> pad_top ctx \<le> pad_bottom ctx \<and> pad_bottom ctx \<le> pad_top ctx + 1
     \<and> 0 \<le> scale_w ctx \<and> 0 \<le> scale_h ctx \<and> (scale_w ctx = target_w ctx \<or> scale_h ctx = target_h ctx)
     \<and> s * of_int (src_w ctx) \<le> of_int (target_w ctx) \<and> s * of_int (src_h ctx) \<le> of_int (target_h ctx)
     \<and> \<bar>of_int (scale_w ctx) - s * of_int (src_w ctx)\<bar> \<le> 1/2 \<and> \<bar>of_int (scale_h ctx) - s * of_int (src_h ctx)\<bar> \<le> 1/2
     \<and> (\<not> need_resize ctx \<longrightarrow> scale_w ctx = target_w ctx \<and> scale_h ctx = target_h ctx))"

lemma letterbox_letterboxed:
  assumes pos: "0 < src_w ctx" "0 < src_h ctx" "0 < target_w ctx" "0 < target_h ctx"
    and lb: "letterbox ctx = (s, ctx')"
  shows "letterboxed s ctx'"
proof (cases "src_w ctx = target_w ctx \<and> src_h ctx = target_h ctx")
  case True
  then show ?thesis using lb pos by (auto simp: letterbox_def letterboxed_def)
next
  case False
  let ?wr = "of_int (target_w ctx) / of_int (src_w ctx) :: real" and ?hr = "of_int (target_h ctx) / of_int (src_h ctx) :: real"
  have s: "s = min ?wr ?hr" using lb False by (auto simp: letterbox_def Let_def)
  have s0: "0 < s" using pos s by simp
  have fit: "s * of_int (src_w ctx) \<le> of_int (target_w ctx)" "s * of_int (src_h ctx) \<le> of_int (target_h ctx)"
    using pos by (simp_all add: s min_def field_simps)
  have tight: "s * of_int (src_w ctx) = of_int (target_w ctx) \<or> s * of_int (src_h ctx) = of_int (target_h ctx)"
    using pos by (auto simp: s min_def)
  define sw where "sw = cast_round (of_int (src_w ctx) * s)"
  define sh where "sh = cast_round (of_int (src_h ctx) * s)"
  have b: "0 \<le> sw" "sw \<le> target_w ctx" "0 \<le> sh" "sh \<le> target_h ctx"
    using cast_round_mono_int [of "of_int (src_w ctx) * s" "target_w ctx"] cast_round_mono_int [of "of_int (src_h ctx) * s" "target_h ctx"]
      fit s0 pos by (auto simp: sw_def sh_def mult.commute)
  have t: "sw = target_w ctx \<or> sh = target_h ctx"
    using tight by (auto simp: sw_def sh_def mult.commute)
  have c: "\<bar>of_int sw - s * of_int (src_w ctx)\<bar> \<le> 1/2" "\<bar>of_int sh - s * of_int (src_h ctx)\<bar> \<le> 1/2"
    using cast_round_close [of "of_int (src_w ctx) * s"] cast_round_close [of "of_int (src_h ctx) * s"]
    by (simp_all add: sw_def sh_def mult.commute)
  have ctx': "ctx' = ctx\<lparr>need_resize := True, scale_w := sw, scale_h := sh,
      pad_left := cast_round (of_int (target_w ctx - sw) / 2 - 1/10), pad_right := cast_round (of_int (target_w ctx - sw) / 2 + 1/10),
      pad_top := cast_round (of_int (target_h ctx - sh) / 2 - 1/10), pad_bottom := cast_round (of_int (target_h ctx - sh) / 2 + 1/10)\<rparr>"
    using lb False s by (auto simp: letterbox_def Let_def sw_def sh_def)
  have "0 \<le> target_w ctx - sw" "0 \<le> target_h ctx - sh" using b by auto
  note pw = pad_split [OF this(1)] and ph = pad_split [OF this(2)]
  show ?thesis unfolding letterboxed_def ctx'
    using s0 fit b t c pw(2,3,4) ph(2,3,4) pw(1) ph(1) by (simp del: of_int_diff)
qed

text \<open>What a context with a scaler promises; the format of the network style is set by the caller.\<close>

definition framed :: "frame_context \<Rightarrow> bool" where
  "framed ctx = (\<forall>scaler. sws_scale_ctx ctx = Some scaler \<longrightarrow> ctx_initialized ctx
     \<and> 0 < src_w ctx \<and> 0 < src_h ctx \<and> 0 < target_w ctx \<and> 0 < target_h ctx
     \<and> letterboxed (scale_factor_from_original (inference_style ctx)) ctx
     \<and> original_style ctx = ImageExpressStyle_new (src_w ctx) (src_h ctx) pixel_int ltx_type False 1 0 0 0 0
     \<and> style_width (inference_style ctx) = target_w ctx \<and> style_height (inference_style ctx) = target_h ctx
     \<and> style_ref_type (inference_style ctx) = ltx_type \<and> is_padded_or_scaled (inference_style ctx)
     \<and> pad_x_offset (inference_style ctx) = pad_left ctx \<and> pad_y_offset (inference_style ctx) = pad_top ctx
     \<and> original_width (inference_style ctx) = src_w ctx \<and> original_height (inference_style ctx) = src_h ctx
     \<and> sws_src_w scaler = src_w ctx \<and> sws_src_h scaler = src_h ctx \<and> sws_dst_w scaler = scale_w ctx \<and> sws_dst_h scaler = scale_h ctx)"

lemma framed_new [simp]: "framed FrameFormattingContext_new"
  by (simp add: framed_def FrameFormattingContext_new_def)

lemma framed_style_format: "framed ctx \<Longrightarrow> framed (ctx\<lparr>inference_style := (inference_style ctx)\<lparr>style_format := f\<rparr>\<rparr>)"
  by (simp add: framed_def letterboxed_def)

lemma letterbox_keeps:
  "letterbox ctx = (s, ctx') \<Longrightarrow> src_w ctx' = src_w ctx \<and> src_h ctx' = src_h ctx \<and> target_w ctx' = target_w ctx \<and> target_h ctx' = target_h ctx
     \<and> pool_container_m ctx' = pool_container_m ctx \<and> shared_input_blob ctx' = shared_input_blob ctx
     \<and> ctx_initialized ctx' = ctx_initialized ctx"
  by (auto simp: letterbox_def Let_def split: if_splits)

lemma letterboxed_frame [simp]:
  "letterboxed s (ctx\<lparr>sws_scale_ctx := a\<rparr>) = letterboxed s ctx"
  "letterboxed s (ctx\<lparr>original_style := b\<rparr>) = letterboxed s ctx"
  "letterboxed s (ctx\<lparr>inference_style := b\<rparr>) = letterboxed s ctx"
  "letterboxed s (ctx\<lparr>ctx_initialized := c\<rparr>) = letterboxed s ctx"
  "letterboxed s (ctx\<lparr>pool_container_m := d\<rparr>) = letterboxed s ctx"
  "letterboxed s (ctx\<lparr>shared_input_blob := e\<rparr>) = letterboxed s ctx"
  "letterboxed s (ctx\<lparr>save_snapshot_mat := f\<rparr>) = letterboxed s ctx"
  by (simp_all add: letterboxed_def)

definition resized :: "int \<Rightarrow> int \<Rightarrow> int \<Rightarrow> int \<Rightarrow> frame_context \<Rightarrow> frame_context" where
  "resized sw sh tw th ctx =
     (let ctx' = (if pool_container_m ctx = None then InitPool 10 ctx else ctx);
          ctx' = (if IsResolutionChanged sw sh tw th ctx then ClearPool ctx' else ctx')
      in ctx'\<lparr>src_w := sw, src_h := sh, target_w := tw, target_h := th\<rparr>)"

lemma resized_fields [simp]:
  "src_w (resized sw sh tw th ctx) = sw" "src_h (resized sw sh tw th ctx) = sh"
  "target_w (resized sw sh tw th ctx) = tw" "target_h (resized sw sh tw th ctx) = th"
  "shared_input_blob (resized sw sh tw th ctx) = shared_input_blob ctx"
  by (simp_all add: resized_def Let_def InitPool_def ClearPool_def)

lemma Update_new:
  assumes "\<not> (ctx_initialized ctx \<and> \<not> IsResolutionChanged sw sh tw th ctx)" and "letterbox (resized sw sh tw th ctx) = (s, c)"
  shows "Update ff sw sh tw th fmt ctx =
     (if \<not> sws_getContext ff \<lparr>sws_src_w = sw, sws_src_h = sh, sws_src_fmt = fmt, sws_dst_w = scale_w c, sws_dst_h = scale_h c\<rparr>
      then (False, c\<lparr>sws_scale_ctx := None\<rparr>)
      else (True, c\<lparr>sws_scale_ctx := Some \<lparr>sws_src_w = sw, sws_src_h = sh, sws_src_fmt = fmt, sws_dst_w = scale_w c, sws_dst_h = scale_h c\<rparr>,
        original_style := ImageExpressStyle_new sw sh pixel_int ltx_type False 1 0 0 0 0,
        inference_style := \<lparr>style_width = tw, style_height = th, style_format = ratio_float, style_ref_type = ltx_type,
           is_padded_or_scaled = True, scale_factor_from_original = s, pad_x_offset = pad_left c, pad_y_offset = pad_top c,
           original_width = sw, original_height = sh\<rparr>,
        ctx_initialized := True\<rparr>))"
proof -
  have "src_w c = sw" "src_h c = sh" "target_w c = tw" "target_h c = th" using letterbox_keeps [OF assms(2)] by simp_all
  then show ?thesis using assms unfolding Update_def resized_def Let_def
    by (simp only: if_False split_conv) (simp add: ImageExpressStyle_new_def)
qed

lemma Update_framed:
  assumes "framed ctx" and pos: "0 < sw" "0 < sh" "0 < tw" "0 < th" and "Update ff sw sh tw th fmt ctx = (ok, ctx')"
  shows "framed ctx'" "src_w ctx' = sw" "src_h ctx' = sh" "target_w ctx' = tw" "target_h ctx' = th"
proof -
  have "framed ctx' \<and> src_w ctx' = sw \<and> src_h ctx' = sh \<and> target_w ctx' = tw \<and> target_h ctx' = th"
  proof (cases "ctx_initialized ctx \<and> \<not> IsResolutionChanged sw sh tw th ctx")
    case True
    then show ?thesis using assms(1,6) by (auto simp: Update_def IsResolutionChanged_def)
  next
    case False
    obtain s c where lb: "letterbox (resized sw sh tw th ctx) = (s, c)" by fastforce
    have "letterboxed s c" by (rule letterbox_letterboxed [OF _ _ _ _ lb]) (use pos in simp_all)
    moreover have "src_w c = sw" "src_h c = sh" "target_w c = tw" "target_h c = th" using letterbox_keeps [OF lb] by simp_all
    ultimately show ?thesis
      using assms(6) pos unfolding Update_new [OF False lb] by (simp add: framed_def split: if_splits) (auto simp: framed_def)
  qed
  then show "framed ctx'" "src_w ctx' = sw" "src_h ctx' = sh" "target_w ctx' = tw" "target_h ctx' = th" by auto
qed

subsection \<open>From the network's boxes to the camera's\<close>

lemma letterboxed_scale:
  assumes "letterboxed s ctx" and "0 < target_w ctx" "0 < target_h ctx"
    and "0 < src_w ctx" "src_w ctx \<le> 100000" "0 < src_h ctx" "src_h ctx \<le> 100000"
  shows "1 / 10 ^ 6 < s"
proof (rule ccontr)
  assume "\<not> 1 / 10 ^ 6 < s"
  then have s: "0 < s" "s \<le> 1 / 10 ^ 6" using assms(1) by (auto simp: letterboxed_def)
  have small: "s * of_int n < 1 / 2" if "0 < n" "n \<le> 100000" for n
  proof -
    have "s * of_int n \<le> 1 / 10 ^ 6 * of_int n" using s that by (intro mult_right_mono) auto
    also have "\<dots> \<le> 1 / 10 ^ 6 * 100000" using that by (intro mult_left_mono) auto
    finally show ?thesis by simp
  qed
  have "1 / 2 \<le> s * of_int (src_w ctx) \<or> 1 / 2 \<le> s * of_int (src_h ctx)"
    using assms(1-3) by (auto simp: letterboxed_def abs_le_iff)
  then show False using small [OF assms(4,5)] small [OF assms(6,7)] by linarith
qed

lemma letterboxed_room:
  assumes "letterboxed s ctx"
  shows "of_int (pad_left ctx) + s * of_int (src_w ctx) \<le> of_int (target_w ctx)"
    "of_int (pad_top ctx) + s * of_int (src_h ctx) \<le> of_int (target_h ctx)"
proof -
  have room: "of_int a + x \<le> of_int t"
    if "a + c + b = t" "0 \<le> a" "a \<le> b" "x \<le> of_int t" "\<bar>of_int c - x\<bar> \<le> 1/2" for a b c t :: int and x :: real
  proof (cases "b \<ge> 1")
    case True
    have "of_int a + of_int c + of_int b = (of_int t :: real)" using that(1) by (metis of_int_add)
    moreover have "(1 :: real) \<le> of_int b" using True by simp
    ultimately show ?thesis using that(5) by linarith
  qed (use that in auto)
  show "of_int (pad_left ctx) + s * of_int (src_w ctx) \<le> of_int (target_w ctx)"
    using assms unfolding letterboxed_def by (intro room [of _ "scale_w ctx" "pad_right ctx"]) auto
  show "of_int (pad_top ctx) + s * of_int (src_h ctx) \<le> of_int (target_h ctx)"
    using assms unfolding letterboxed_def by (intro room [of _ "scale_h ctx" "pad_bottom ctx"]) auto
qed

lemma framed_letterbox_of:
  assumes "framed ctx" and "sws_scale_ctx ctx \<noteq> None" and "src_w ctx \<le> 100000" "src_h ctx \<le> 100000"
  shows "letterbox_of (original_style ctx) ((inference_style ctx)\<lparr>style_format := fmt\<rparr>)"
proof -
  obtain scaler where "sws_scale_ctx ctx = Some scaler" using assms(2) by blast
  then have f: "letterboxed (scale_factor_from_original (inference_style ctx)) ctx" "0 < src_w ctx" "0 < src_h ctx" "0 < target_w ctx" "0 < target_h ctx"
    "original_style ctx = ImageExpressStyle_new (src_w ctx) (src_h ctx) pixel_int ltx_type False 1 0 0 0 0"
    "style_width (inference_style ctx) = target_w ctx" "style_height (inference_style ctx) = target_h ctx"
    "is_padded_or_scaled (inference_style ctx)" "pad_x_offset (inference_style ctx) = pad_left ctx"
    "pad_y_offset (inference_style ctx) = pad_top ctx" "original_width (inference_style ctx) = src_w ctx"
    "original_height (inference_style ctx) = src_h ctx"
    using assms(1) by (simp_all add: framed_def)
  moreover have "0 \<le> pad_left ctx" "0 \<le> pad_top ctx" using f(1) by (simp_all add: letterboxed_def)
  ultimately show ?thesis
    using letterboxed_scale [OF f(1,4,5,2) assms(3) f(3) assms(4)] letterboxed_room [OF f(1)]
    by (simp add: letterbox_of_def ImageExpressStyle_new_def)
qed

lemma to_network:
  assumes fr: "framed ctx" "sws_scale_ctx ctx \<noteq> None" "src_w ctx \<le> 100000" "src_h ctx \<le> 100000"
    and obj: "coord_format obj = pixel_int" "xy_ref_type obj = ltx_type"
      "box_within (of_int (src_w ctx), of_int (src_h ctx)) ltx_type (bbox obj)"
    and s: "s = scale_factor_from_original (inference_style ctx)"
  shows "snd (ConvertInferObjectCoordinate obj (original_style ctx) ((inference_style ctx)\<lparr>style_format := pixel_int\<rparr>)) =
    obj\<lparr>bbox := \<lparr>bbox_x = bbox_x (bbox obj) * s + of_int (pad_left ctx), bbox_y = bbox_y (bbox obj) * s + of_int (pad_top ctx),
                bbox_w = bbox_w (bbox obj) * s, bbox_h = bbox_h (bbox obj) * s\<rparr>\<rparr>"
proof -
  let ?o = "original_style ctx" and ?n = "(inference_style ctx)\<lparr>style_format := pixel_int\<rparr>"
  note lb = framed_letterbox_of [OF fr, of pixel_int]
  note pos = letterbox_positive [OF lb]
  obtain scaler where sc: "sws_scale_ctx ctx = Some scaler" using fr(2) by blast
  have f: "0 < src_w ctx" "0 < src_h ctx" "0 < target_w ctx" "0 < target_h ctx"
    "?o = ImageExpressStyle_new (src_w ctx) (src_h ctx) pixel_int ltx_type False 1 0 0 0 0"
    "style_width ?n = target_w ctx" "style_height ?n = target_h ctx" "style_ref_type ?n = ltx_type" "is_padded_or_scaled ?n"
    "pad_x_offset ?n = pad_left ctx" "pad_y_offset ?n = pad_top ctx" "original_width ?n = src_w ctx" "original_height ?n = src_h ctx"
    "scale_factor_from_original ?n = s" "style_format ?n = pixel_int"
    using fr(1) sc s by (auto simp: framed_def)
  have img: "style_width ?o = src_w ctx" "style_height ?o = src_h ctx" "style_format ?o = pixel_int" "style_ref_type ?o = ltx_type"
    "\<not> is_padded_or_scaled ?o" by (simp_all add: f(5) ImageExpressStyle_new_def)
  obtain r where r: "ConvertToIntermediateRatioLtx (bbox obj) (style_ref_type ?o) (style_format ?o) (style_width ?o) (style_height ?o) = Some r"
    using f(1,2) by (auto simp: img ConvertToIntermediateRatioLtx_def Let_def)
  then have rv: "r = \<lparr>bbox_x = bbox_x (bbox obj) / src_w ctx, bbox_y = bbox_y (bbox obj) / src_h ctx,
      bbox_w = bbox_w (bbox obj) / src_w ctx, bbox_h = bbox_h (bbox obj) / src_h ctx\<rparr>"
    using f(1,2) by (simp add: img ConvertToIntermediateRatioLtx_def Let_def)
  have "box_within (1, 1) ltx_type r"
    using obj(3) f(1,2) by (auto simp: rv box_within_def corners_def field_simps)
  then have "box_within (1, 1) ltx_type (original_to_padded ?o ?n r)" by (rule letterbox_within [OF lb])
  then obtain b where b: "ConvertFromIntermediateRatioLtx (adjust_padding ?o ?n r) ?n = Some b"
    and c: "ConvertInferObjectCoordinate obj ?o ?n = (True, obj\<lparr>bbox := b, coord_format := style_format ?n, xy_ref_type := style_ref_type ?n\<rparr>)"
    using convert_exact [of ?o ?n obj r] r f img obj by (auto simp: adjust_padding_def)
  have "b = \<lparr>bbox_x = bbox_x (bbox obj) * s + of_int (pad_left ctx), bbox_y = bbox_y (bbox obj) * s + of_int (pad_top ctx),
                bbox_w = bbox_w (bbox obj) * s, bbox_h = bbox_h (bbox obj) * s\<rparr>"
    using b pos(3) lb f(1-4) unfolding adjust_padding_def ConvertFromIntermediateRatioLtx_def original_to_padded_def letterbox_of_def
    by (simp only: img f(6-) rv Let_def) simp
  then show ?thesis using c obj f by simp
qed

text \<open>
  C11. The letterbox fits and is undone.  After a successful \<open>Update\<close> the scaled frame and its borders fill the
  network input exactly, one dimension without a border, opposite borders equal up to one pixel; and a
  detection the network reports where the scaled frame shows a box of the camera image is converted back
  to exactly that box.
\<close>

theorem camera_boxes_return:
  assumes "framed ctx" and "0 < sw" "sw \<le> 100000" "0 < sh" "sh \<le> 100000" "0 < tw" "0 < th"
    and "Update ff sw sh tw th fmt ctx = (True, ctx')" and "sws_scale_ctx ctx' \<noteq> None"
    and "coord_format obj = pixel_int" "xy_ref_type obj = ltx_type" "box_within (of_int sw, of_int sh) ltx_type (bbox obj)"
  shows "pad_left ctx' + scale_w ctx' + pad_right ctx' = tw \<and> pad_top ctx' + scale_h ctx' + pad_bottom ctx' = th
    \<and> 0 \<le> pad_left ctx' \<and> pad_left ctx' \<le> pad_right ctx' \<and> pad_right ctx' \<le> pad_left ctx' + 1
    \<and> 0 \<le> pad_top ctx' \<and> pad_top ctx' \<le> pad_bottom ctx' \<and> pad_bottom ctx' \<le> pad_top ctx' + 1
    \<and> (scale_w ctx' = tw \<or> scale_h ctx' = th)
    \<and> (let s = scale_factor_from_original (inference_style ctx')
       in ConvertInferObjectCoordinate
            (obj\<lparr>bbox := \<lparr>bbox_x = bbox_x (bbox obj) * s + of_int (pad_left ctx'), bbox_y = bbox_y (bbox obj) * s + of_int (pad_top ctx'),
                         bbox_w = bbox_w (bbox obj) * s, bbox_h = bbox_h (bbox obj) * s\<rparr>\<rparr>)
            ((inference_style ctx')\<lparr>style_format := pixel_int\<rparr>) (original_style ctx') = (True, obj))"
proof -
  note u = Update_framed [OF assms(1,2,4,6,7,8)]
  have small: "src_w ctx' \<le> 100000" "src_h ctx' \<le> 100000" using u assms by simp_all
  have style: "style_format (original_style ctx') = pixel_int" "style_ref_type (original_style ctx') = ltx_type"
    "frame_limit (original_style ctx') = (of_int sw, of_int sh)"
    using u assms(9) by (auto simp: framed_def ImageExpressStyle_new_def frame_limit_def)
  have "letterboxed (scale_factor_from_original (inference_style ctx')) ctx'" using u assms(9) by (auto simp: framed_def)
  then show ?thesis
    using letterbox_round_trip [OF framed_letterbox_of [OF u(1) assms(9) small, of pixel_int], of obj] u(4,5) assms(10-12) style
      to_network [OF u(1) assms(9) small assms(10,11) _ refl] assms(12) u(2,3)
    by (auto simp: letterboxed_def Let_def)
qed

subsection \<open>The pixels of the letterbox\<close>

lemma write_at_nth:
  assumes "off + length bytes \<le> length buf"
  shows "\<exists>buf'. write_at off bytes buf = Some buf' \<and> length buf' = length buf
    \<and> (\<forall>k < length buf. buf' ! k = (if off \<le> k \<and> k < off + length bytes then bytes ! (k - off) else buf ! k))"
  using assms by (auto simp: write_at_def nth_append)

lemma row_coordinates:
  assumes "j < stride" "b \<le> stride"
  shows "Y * stride + a \<le> y * stride + j \<and> y * stride + j < Y * stride + b \<longleftrightarrow> y = Y \<and> a \<le> j \<and> j < (b :: nat)"
proof (cases y Y rule: linorder_cases)
  case less
  then have "Suc y * stride \<le> Y * stride" by (intro mult_le_mono1) simp
  then show ?thesis using less assms by auto
next
  case greater
  then have "Suc Y * stride \<le> y * stride" by (intro mult_le_mono1) simp
  then show ?thesis using greater assms by auto
qed auto

lemma put_rows_nth:
  assumes "\<forall>row \<in> set rows. length row = n" and "x + n \<le> stride" and "rows = [] \<or> (Y + length rows) * stride \<le> length buf"
  shows "\<exists>buf'. put_rows stride (Y * stride + x) rows buf = Some buf' \<and> length buf' = length buf
    \<and> (\<forall>y j. j < stride \<longrightarrow> y * stride + j < length buf \<longrightarrow>
         buf' ! (y * stride + j) = (if Y \<le> y \<and> y < Y + length rows \<and> x \<le> j \<and> j < x + n then rows ! (y - Y) ! (j - x)
                                    else buf ! (y * stride + j)))"
  using assms(1,3)
proof (induction rows arbitrary: Y buf)
  case (Cons row rows)
  have len: "length row = n" using Cons.prems by simp
  have "Suc Y * stride \<le> (Y + length (row # rows)) * stride" by (intro mult_le_mono1) simp
  also have "\<dots> \<le> length buf" using Cons.prems(2) by simp
  finally have fits: "Suc Y * stride \<le> length buf" .
  then have "Y * stride + x + length row \<le> length buf" using assms(2) len by simp
  from write_at_nth [OF this] obtain b where b: "write_at (Y * stride + x) row buf = Some b" "length b = length buf"
    "\<And>k. k < length buf \<Longrightarrow> b ! k = (if Y * stride + x \<le> k \<and> k < Y * stride + (x + n) then row ! (k - (Y * stride + x)) else buf ! k)"
    using len by (auto simp: add.assoc)
  have "rows = [] \<or> (Suc Y + length rows) * stride \<le> length b" using Cons.prems(2) b(2) by auto
  from Cons.IH [OF _ this] Cons.prems(1) obtain b' where b': "put_rows stride (Suc Y * stride + x) rows b = Some b'" "length b' = length b"
    "\<And>y j. j < stride \<Longrightarrow> y * stride + j < length b \<Longrightarrow>
       b' ! (y * stride + j) = (if Suc Y \<le> y \<and> y < Suc Y + length rows \<and> x \<le> j \<and> j < x + n then rows ! (y - Suc Y) ! (j - x)
                                  else b ! (y * stride + j))"
    by auto
  have "b' ! (y * stride + j) = (if Y \<le> y \<and> y < Y + length (row # rows) \<and> x \<le> j \<and> j < x + n then (row # rows) ! (y - Y) ! (j - x)
      else buf ! (y * stride + j))" if "j < stride" "y * stride + j < length buf" for y j
    using b'(3) [OF that(1)] b(3) [OF that(2)] that b(2) row_coordinates [OF that(1) assms(2), of Y x y]
    by (cases "y = Y") (auto simp: nth_Cons' less_Suc_eq_le)
  moreover have "put_rows stride (Y * stride + x) (row # rows) buf = Some b'"
    using b(1) b'(1) by (simp add: add.commute add.left_commute)
  ultimately show ?case using b(2) b'(2) by auto
qed auto

definition canvas :: "frame_context \<Rightarrow> nat \<Rightarrow> raw_buffer \<Rightarrow> bool" where
  "canvas ctx stride buf = (3 * nat (target_w ctx) \<le> stride \<and> nat (target_h ctx) * stride \<le> length buf)"

lemma set_grey_nth:
  assumes "rect_ok ctx x y w h" and "canvas ctx stride buf"
  shows "\<exists>buf'. set_grey ctx stride x y w h buf = Some buf' \<and> length buf' = length buf
    \<and> (\<forall>r j. j < stride \<longrightarrow> r * stride + j < length buf \<longrightarrow>
         buf' ! (r * stride + j) = (if nat y \<le> r \<and> r < nat (y + h) \<and> 3 * nat x \<le> j \<and> j < 3 * nat (x + w) then 114
                                    else buf ! (r * stride + j)))"
proof -
  have r: "3 * nat x + 3 * nat w \<le> stride" "nat (x + w) = nat x + nat w" "nat (y + h) = nat y + nat h" "nat y + nat h \<le> nat (target_h ctx)"
    using assms by (auto simp: rect_ok_def canvas_def nat_add_distrib)
  have fits: "(nat y + nat h) * stride \<le> length buf"
    using mult_le_mono1 [OF r(4), of stride] assms(2) by (simp only: canvas_def) (elim conjE, rule order_trans)
  have rows: "\<forall>row \<in> set (replicate (nat h) (replicate (3 * nat w) (114 :: 8 word))). length row = 3 * nat w" by simp
  obtain b where b: "put_rows stride (nat y * stride + 3 * nat x) (replicate (nat h) (replicate (3 * nat w) 114)) buf = Some b"
    "length b = length buf"
    "\<And>r j. j < stride \<Longrightarrow> r * stride + j < length buf \<Longrightarrow> b ! (r * stride + j) =
       (if nat y \<le> r \<and> r < nat y + length (replicate (nat h) (replicate (3 * nat w) (114 :: 8 word))) \<and> 3 * nat x \<le> j \<and> j < 3 * nat x + 3 * nat w
        then replicate (nat h) (replicate (3 * nat w) 114) ! (r - nat y) ! (j - 3 * nat x) else buf ! (r * stride + j))"
    using put_rows_nth [OF rows r(1), of "nat y" buf] fits by auto
  have "b ! (q * stride + j) = (if nat y \<le> q \<and> q < nat (y + h) \<and> 3 * nat x \<le> j \<and> j < 3 * nat (x + w) then 114 else buf ! (q * stride + j))"
    if "j < stride" "q * stride + j < length buf" for q j
    unfolding b(3) [OF that] r(2,3) by auto
  then show ?thesis using b(1,2) assms(1) by (simp add: set_grey_def)
qed

lemma pad_grey_nth:
  assumes "letterboxed s ctx" and "canvas ctx stride buf"
  shows "\<exists>buf'. pad_grey ctx stride buf = Some buf' \<and> length buf' = length buf
    \<and> (\<forall>y j. y < nat (target_h ctx) \<longrightarrow> j < 3 * nat (target_w ctx) \<longrightarrow>
         buf' ! (y * stride + j) =
           (if nat (pad_top ctx) \<le> y \<and> y < nat (pad_top ctx + scale_h ctx)
               \<and> 3 * nat (pad_left ctx) \<le> j \<and> j < 3 * nat (pad_left ctx + scale_w ctx)
            then buf ! (y * stride + j) else 114))"
proof -
  note g = assms(1) [unfolded letterboxed_def]
  obtain T H B L W R :: nat where n: "pad_top ctx = int T" "scale_h ctx = int H" "pad_bottom ctx = int B"
      "pad_left ctx = int L" "scale_w ctx = int W" "pad_right ctx = int R"
    using g by (metis order_trans zero_le_imp_eq_int)
  have t: "target_w ctx = int (L + W + R)" "target_h ctx = int (T + H + B)"
    "target_w ctx - pad_right ctx = int (L + W)" "target_h ctx - pad_bottom ctx = int (T + H)"
    "pad_top ctx + scale_h ctx = int (T + H)" "pad_left ctx + scale_w ctx = int (L + W)"
    using g n by auto
  have grey: "\<exists>buf'. (if 0 < n then set_grey ctx stride x y w h b else Some b) = Some buf' \<and> length buf' = length b
      \<and> (\<forall>r j. j < stride \<longrightarrow> r * stride + j < length b \<longrightarrow>
         buf' ! (r * stride + j) = (if 0 < n \<and> nat y \<le> r \<and> r < nat (y + h) \<and> 3 * nat x \<le> j \<and> j < 3 * nat (x + w) then 114
                                    else b ! (r * stride + j)))"
    if "0 < n \<Longrightarrow> rect_ok ctx x y w h" "canvas ctx stride b" for n x y w h b
    using set_grey_nth that by auto
  have canv: "canvas ctx stride b" if "length b = length buf" for b using assms(2) that by (simp add: canvas_def)
  obtain b1 where b1: "(if 0 < pad_top ctx then set_grey ctx stride 0 0 (target_w ctx) (pad_top ctx) buf else Some buf) = Some b1"
    "length b1 = length buf" "\<And>r j. j < stride \<Longrightarrow> r * stride + j < length buf \<Longrightarrow> b1 ! (r * stride + j) =
       (if 0 < pad_top ctx \<and> nat 0 \<le> r \<and> r < nat (0 + pad_top ctx) \<and> 3 * nat 0 \<le> j \<and> j < 3 * nat (0 + target_w ctx) then 114
        else buf ! (r * stride + j))"
    using grey [of "pad_top ctx" 0 0 "target_w ctx" "pad_top ctx" buf] assms(2) g by (auto simp: rect_ok_def)
  obtain b2 where b2: "(if 0 < pad_bottom ctx then set_grey ctx stride 0 (target_h ctx - pad_bottom ctx) (target_w ctx) (pad_bottom ctx) b1
       else Some b1) = Some b2" "length b2 = length buf"
    "\<And>r j. j < stride \<Longrightarrow> r * stride + j < length buf \<Longrightarrow> b2 ! (r * stride + j) =
       (if 0 < pad_bottom ctx \<and> nat (target_h ctx - pad_bottom ctx) \<le> r \<and> r < nat (target_h ctx - pad_bottom ctx + pad_bottom ctx)
           \<and> 3 * nat 0 \<le> j \<and> j < 3 * nat (0 + target_w ctx) then 114 else b1 ! (r * stride + j))"
    using grey [of "pad_bottom ctx" 0 "target_h ctx - pad_bottom ctx" "target_w ctx" "pad_bottom ctx" b1] canv b1(2) g
    by (auto simp: rect_ok_def)
  obtain b3 where b3: "(if 0 < pad_left ctx then set_grey ctx stride 0 (pad_top ctx) (pad_left ctx) (scale_h ctx) b2 else Some b2) = Some b3"
    "length b3 = length buf" "\<And>r j. j < stride \<Longrightarrow> r * stride + j < length buf \<Longrightarrow> b3 ! (r * stride + j) =
       (if 0 < pad_left ctx \<and> nat (pad_top ctx) \<le> r \<and> r < nat (pad_top ctx + scale_h ctx) \<and> 3 * nat 0 \<le> j \<and> j < 3 * nat (0 + pad_left ctx)
        then 114 else b2 ! (r * stride + j))"
    using grey [of "pad_left ctx" 0 "pad_top ctx" "pad_left ctx" "scale_h ctx" b2] canv b2(2) g by (auto simp: rect_ok_def)
  obtain b4 where b4: "(if 0 < pad_right ctx then set_grey ctx stride (target_w ctx - pad_right ctx) (pad_top ctx) (pad_right ctx) (scale_h ctx) b3
       else Some b3) = Some b4" "length b4 = length buf"
    "\<And>r j. j < stride \<Longrightarrow> r * stride + j < length buf \<Longrightarrow> b4 ! (r * stride + j) =
       (if 0 < pad_right ctx \<and> nat (pad_top ctx) \<le> r \<and> r < nat (pad_top ctx + scale_h ctx)
           \<and> 3 * nat (target_w ctx - pad_right ctx) \<le> j \<and> j < 3 * nat (target_w ctx - pad_right ctx + pad_right ctx)
        then 114 else b3 ! (r * stride + j))"
    using grey [of "pad_right ctx" "target_w ctx - pad_right ctx" "pad_top ctx" "pad_right ctx" "scale_h ctx" b3] canv b3(2) g
    by (auto simp: rect_ok_def)
  show ?thesis
  proof (cases "need_resize ctx")
    case True
    have "b4 ! (y * stride + j) = (if nat (pad_top ctx) \<le> y \<and> y < nat (pad_top ctx + scale_h ctx)
               \<and> 3 * nat (pad_left ctx) \<le> j \<and> j < 3 * nat (pad_left ctx + scale_w ctx) then buf ! (y * stride + j) else 114)"
      if y: "y < nat (target_h ctx)" and j: "j < 3 * nat (target_w ctx)" for y j
    proof -
      have "Suc y * stride \<le> nat (target_h ctx) * stride" using y by (intro mult_le_mono1) simp
      then have k: "j < stride" "y * stride + j < length buf" using j assms(2) by (auto simp: canvas_def)
      show ?thesis unfolding b4(3) [OF k] b3(3) [OF k] b2(3) [OF k] b1(3) [OF k] using y j unfolding t(3-) unfolding t(1,2) n
        by (cases "y < T"; cases "y < T + H"; cases "j < 3 * L"; cases "j < 3 * (L + W)") (auto simp del: of_nat_add simp: of_nat_add [symmetric])
    qed
    moreover have "pad_grey ctx stride buf = Some b4" using True b1(1) b2(1) b3(1) b4(1) by (simp add: pad_grey_def)
    ultimately show ?thesis using b4(2) by blast
  next
    case False
    then have "T = 0" "L = 0" "B = 0" "R = 0" using g t n by auto
    then show ?thesis unfolding t(5,6) unfolding t(1,2) n using False by (auto simp: pad_grey_def simp del: of_nat_add)
  qed
qed

text \<open>What the program relies on in FFmpeg and OpenCV.\<close>

definition ffmpeg_conforms :: "ffmpeg \<Rightarrow> bool" where
  "ffmpeg_conforms ff =
     ((\<forall>w h. image_buffer_size ff w h = (w * 3 + 31) div 32 * 32 * h)
      \<and> (\<forall>scaler frame code rows. sws_scale ff scaler frame = (code, rows) \<longrightarrow>
           length rows \<le> nat (sws_dst_h scaler) \<and> (0 < code \<longrightarrow> length rows = nat (sws_dst_h scaler))
           \<and> (\<forall>row \<in> set rows. length row = 3 * nat (sws_dst_w scaler)))
      \<and> (\<forall>n. length (mat_memory ff n) = n))"

definition pictures :: "frame_context \<Rightarrow> raw_buffer list \<Rightarrow> nat \<Rightarrow> raw_buffer \<Rightarrow> bool" where
  "pictures ctx rows stride buf = (\<forall>y j. y < nat (target_h ctx) \<longrightarrow> j < 3 * nat (target_w ctx) \<longrightarrow>
     buf ! (y * stride + j) =
       (if nat (pad_top ctx) \<le> y \<and> y < nat (pad_top ctx + scale_h ctx) \<and> 3 * nat (pad_left ctx) \<le> j \<and> j < 3 * nat (pad_left ctx + scale_w ctx)
        then rows ! (y - nat (pad_top ctx)) ! (j - 3 * nat (pad_left ctx)) else 114))"

lemma context_frame [simp]:
  "framed (ctx\<lparr>shared_input_blob := b\<rparr>) = framed ctx" "framed (ctx\<lparr>pool_container_m := p\<rparr>) = framed ctx"
  "framed (ctx\<lparr>save_snapshot_mat := m\<rparr>) = framed ctx"
  "pictures (ctx\<lparr>shared_input_blob := b\<rparr>) = pictures ctx" "pictures (ctx\<lparr>pool_container_m := p\<rparr>) = pictures ctx"
  "pictures (ctx\<lparr>save_snapshot_mat := m\<rparr>) = pictures ctx"
  by (simp_all add: framed_def pictures_def fun_eq_iff)

lemma render_exact:
  assumes "framed ctx" and "sws_scale_ctx ctx = Some scaler" and "ffmpeg_conforms ff" and "canvas ctx stride buf"
    and "sws_scale ff scaler frame = (code, rows)"
  obtains buf' where "render ff scaler frame ctx stride buf = Some (0 < code, buf')" "length buf' = length buf"
    "0 < code \<Longrightarrow> pictures ctx rows stride buf'"
proof -
  obtain s where lb: "letterboxed s ctx" and dst: "sws_dst_w scaler = scale_w ctx" "sws_dst_h scaler = scale_h ctx"
    using assms(1,2) by (auto simp: framed_def)
  note g = lb [unfolded letterboxed_def]
  have rect: "rect_ok ctx (pad_left ctx) (pad_top ctx) (scale_w ctx) (scale_h ctx)" using g by (auto simp: rect_ok_def)
  have rows: "length rows \<le> nat (scale_h ctx)" "0 < code \<Longrightarrow> length rows = nat (scale_h ctx)"
    "\<forall>row \<in> set rows. length row = 3 * nat (scale_w ctx)"
    using assms(3,5) dst unfolding ffmpeg_conforms_def by metis+
  have w: "3 * nat (pad_left ctx) + 3 * nat (scale_w ctx) \<le> stride" using assms(4) g by (auto simp: canvas_def)
  have h: "nat (pad_top ctx) + length rows \<le> nat (target_h ctx)" using rows(1) g by auto
  have fit: "(nat (pad_top ctx) + length rows) * stride \<le> length buf"
    using mult_le_mono1 [OF h, of stride] assms(4) by (simp only: canvas_def) (elim conjE, rule order_trans)
  obtain b where b: "put_rows stride (nat (pad_top ctx) * stride + 3 * nat (pad_left ctx)) rows buf = Some b" "length b = length buf"
    "\<And>y j. j < stride \<Longrightarrow> y * stride + j < length buf \<Longrightarrow> b ! (y * stride + j) =
       (if nat (pad_top ctx) \<le> y \<and> y < nat (pad_top ctx) + length rows \<and> 3 * nat (pad_left ctx) \<le> j \<and> j < 3 * nat (pad_left ctx) + 3 * nat (scale_w ctx)
        then rows ! (y - nat (pad_top ctx)) ! (j - 3 * nat (pad_left ctx)) else buf ! (y * stride + j))"
    using put_rows_nth [OF rows(3) w, of "nat (pad_top ctx)" buf] fit by auto
  have canv: "canvas ctx stride b" using assms(4) b(2) by (simp add: canvas_def)
  obtain b' where b': "pad_grey ctx stride b = Some b'" "length b' = length b"
    "\<And>y j. y < nat (target_h ctx) \<Longrightarrow> j < 3 * nat (target_w ctx) \<Longrightarrow> b' ! (y * stride + j) =
       (if nat (pad_top ctx) \<le> y \<and> y < nat (pad_top ctx + scale_h ctx) \<and> 3 * nat (pad_left ctx) \<le> j \<and> j < 3 * nat (pad_left ctx + scale_w ctx)
        then b ! (y * stride + j) else 114)"
    using pad_grey_nth [OF lb canv] by auto
  have shown: "pictures ctx rows stride b'" if "0 < code"
    unfolding pictures_def
  proof (intro allI impI)
    fix y j assume y: "y < nat (target_h ctx)" and j: "j < 3 * nat (target_w ctx)"
    have "Suc y * stride \<le> nat (target_h ctx) * stride" using y by (intro mult_le_mono1) simp
    then have k: "j < stride" "y * stride + j < length buf" using j assms(4) by (auto simp: canvas_def)
    have e: "nat (pad_top ctx + scale_h ctx) = nat (pad_top ctx) + nat (scale_h ctx)" "nat (pad_left ctx + scale_w ctx) = nat (pad_left ctx) + nat (scale_w ctx)"
      using g by (auto simp: nat_add_distrib)
    show "b' ! (y * stride + j) = (if nat (pad_top ctx) \<le> y \<and> y < nat (pad_top ctx + scale_h ctx) \<and> 3 * nat (pad_left ctx) \<le> j \<and> j < 3 * nat (pad_left ctx + scale_w ctx)
        then rows ! (y - nat (pad_top ctx)) ! (j - 3 * nat (pad_left ctx)) else 114)"
      unfolding b'(3) [OF y j] b(3) [OF k] e rows(2) [OF that] distrib_left by simp
  qed
  show ?thesis
  proof (cases "0 < code")
    case True
    then have "render ff scaler frame ctx stride buf = Some (0 < code, b')"
      using rect assms(5) b(1) b'(1) by (simp add: render_def)
    then show ?thesis using that b(2) b'(2) shown by simp
  next
    case False
    then have "render ff scaler frame ctx stride buf = Some (0 < code, b)" using rect assms(5) b(1) by (simp add: render_def)
    then show ?thesis using that b(2) False by blast
  qed
qed

lemma canvas_sizes:
  assumes "ffmpeg_conforms ff" and "0 < target_w ctx" "0 < target_h ctx"
  shows "3 * nat (target_w ctx) \<le> line_size ctx" "nat (image_buffer_size ff (target_w ctx) (target_h ctx)) = nat (target_h ctx) * line_size ctx"
proof -
  have "target_w ctx * 3 \<le> (target_w ctx * 3 + 31) div 32 * 32" by linarith
  then show "3 * nat (target_w ctx) \<le> line_size ctx" unfolding line_size_def using assms(2) by linarith
  show "nat (image_buffer_size ff (target_w ctx) (target_h ctx)) = nat (target_h ctx) * line_size ctx"
    using assms by (simp add: ffmpeg_conforms_def line_size_def nat_mult_distrib mult.commute)
qed

lemma take_buffer_length: "take_buffer n p = (buf, p') \<Longrightarrow> n \<le> length buf"
  by (auto simp: take_buffer_def split: list.splits if_splits)

lemma crop_not_empty:
  assumes "0 < target_w ctx" "0 < target_h ctx" and "buf \<noteq> []"
  shows "crop ctx stride buf \<noteq> []"
proof -
  have "[0..<nat (target_h ctx)] = 0 # [1..<nat (target_h ctx)]" using assms(2) by (simp add: upt_conv_Cons)
  then show ?thesis using assms by (simp add: crop_def)
qed

definition with_pool :: "frame_context \<Rightarrow> frame_context" where
  "with_pool ctx = (if pool_container_m ctx = None then InitPool 10 ctx else ctx)"

lemma with_pool_fields [simp]:
  "framed (with_pool ctx) = framed ctx" "sws_scale_ctx (with_pool ctx) = sws_scale_ctx ctx" "target_w (with_pool ctx) = target_w ctx"
  "target_h (with_pool ctx) = target_h ctx" "line_size (with_pool ctx) = line_size ctx" "pictures (with_pool ctx) = pictures ctx"
  "save_snapshot_mat (with_pool ctx) = save_snapshot_mat ctx"
  by (auto simp: with_pool_def InitPool_def line_size_def)

lemma Convert_blob:
  assumes "framed ctx" and "sws_scale_ctx ctx = Some scaler" and "ffmpeg_conforms ff"
    and "sws_scale ff scaler frame = (code, rows)" and "0 < code"
  shows "\<exists>ctx' blob. Convert ff (Some frame) capture True released ctx = Some (True, ctx') \<and> shared_input_blob ctx' = Some blob
    \<and> 3 * (nat (target_w ctx) * nat (target_h ctx)) \<le> length blob \<and> blob \<noteq> [] \<and> pictures ctx rows (line_size ctx) blob"
proof -
  have pos: "0 < target_w ctx" "0 < target_h ctx" "ctx_initialized ctx" using assms(1,2) by (auto simp: framed_def)
  note sz = canvas_sizes [OF assms(3) pos(1,2)]
  obtain buf p where take: "take_buffer (nat (image_buffer_size ff (target_w ctx) (target_h ctx))) (the (pool_container_m (with_pool ctx))) = (buf, p)"
    by fastforce
  have canv: "canvas (with_pool ctx) (line_size ctx) buf" using take_buffer_length [OF take] sz by (simp add: canvas_def)
  obtain b where b: "render ff scaler frame (with_pool ctx) (line_size ctx) buf = Some (True, b)" "length b = length buf"
      "pictures ctx rows (line_size ctx) b"
    by (rule render_exact [OF _ _ assms(3) canv assms(4)]) (use assms in auto)
  have "nat (target_h ctx) * (3 * nat (target_w ctx)) \<le> nat (target_h ctx) * line_size ctx" using sz(1) by (rule mult_le_mono2)
  also have "\<dots> \<le> length b" using take_buffer_length [OF take] b(2) sz(2) by simp
  finally have room: "3 * (nat (target_w ctx) * nat (target_h ctx)) \<le> length b" by (simp only: ac_simps)
  then have "b \<noteq> []" using pos by auto
  then have "crop (with_pool ctx) (line_size ctx) b \<noteq> []" using crop_not_empty [of "with_pool ctx" b] pos by simp
  then show ?thesis using assms(2) pos(3) take b room \<open>b \<noteq> []\<close>
    by (cases capture) (auto simp: Convert_def with_pool_def [symmetric] Let_def split: option.splits)
qed

lemma Convert_snapshot:
  assumes "framed ctx" and "sws_scale_ctx ctx = Some scaler" and "ffmpeg_conforms ff"
    and "sws_scale ff scaler frame = (code, rows)" and "0 < code"
  shows "\<exists>ctx'. Convert ff (Some frame) True False released ctx = Some (True, ctx')
    \<and> pictures ctx rows (3 * nat (target_w ctx)) (save_snapshot_mat ctx')"
proof -
  have "ctx_initialized ctx" using assms(1,2) by (auto simp: framed_def)
  define c where "c = (with_pool ctx)\<lparr>shared_input_blob := None,
      pool_container_m := Some ((case released of None \<Rightarrow> \<lambda>p. p | Some b \<Rightarrow> release_blob b) (the (pool_container_m (with_pool ctx))))\<rparr>"
  define mat where "mat = (if length (save_snapshot_mat ctx) = 3 * nat (target_w ctx) * nat (target_h ctx) then save_snapshot_mat ctx
      else mat_memory ff (3 * nat (target_w ctx) * nat (target_h ctx)))"
  have "length mat = 3 * nat (target_w ctx) * nat (target_h ctx)" using assms(3) by (simp add: mat_def ffmpeg_conforms_def)
  then have "canvas c (3 * nat (target_w ctx)) mat" by (simp add: canvas_def c_def)
  from render_exact [OF _ _ assms(3) this assms(4)]
  obtain m where m: "render ff scaler frame c (3 * nat (target_w ctx)) mat = Some (True, m)" "pictures ctx rows (3 * nat (target_w ctx)) m"
    using assms by (auto simp: c_def)
  have "Convert ff (Some frame) True False released ctx =
      map_option (\<lambda>(ok, mat). (ok, c\<lparr>save_snapshot_mat := mat\<rparr>)) (render ff scaler frame c (3 * nat (target_w ctx)) mat)"
    unfolding Convert_def with_pool_def [symmetric] c_def mat_def using assms(2) \<open>ctx_initialized ctx\<close>
    by (cases released) (simp_all add: Let_def)
  then show ?thesis using m by simp
qed

text \<open>
  C12. The network sees the whole frame and nothing else.  A conversion for inference with a working scaler
  succeeds, writes only inside its buffer, and hands out a blob with room for every pixel of the network
  input, in which the scaled lines stand at the position of the letterbox and every other pixel is grey,
  whatever the recycled buffer held before; a conversion for a snapshot draws the same picture.
\<close>

theorem letterbox_image_exact:
  assumes "framed ctx" and "sws_scale_ctx ctx = Some scaler" and "ffmpeg_conforms ff"
    and "sws_scale ff scaler frame = (code, rows)" and "0 < code"
  shows "(\<exists>ctx' blob. Convert ff (Some frame) capture True released ctx = Some (True, ctx') \<and> shared_input_blob ctx' = Some blob
       \<and> 3 * (nat (target_w ctx) * nat (target_h ctx)) \<le> length blob \<and> IsReadyForInference ctx'
       \<and> pictures ctx rows (line_size ctx) blob)
    \<and> (\<exists>ctx'. Convert ff (Some frame) True False released ctx = Some (True, ctx')
       \<and> pictures ctx rows (3 * nat (target_w ctx)) (save_snapshot_mat ctx'))"
  using Convert_blob [OF assms, of capture released] Convert_snapshot [OF assms, of released]
  by (fastforce simp: IsReadyForInference_def)

definition sample_ffmpeg :: ffmpeg where
  "sample_ffmpeg = \<lparr>sws_getContext = (\<lambda>_. True),
     sws_scale = (\<lambda>c f. (sws_dst_h c, replicate (nat (sws_dst_h c)) (replicate (3 * nat (sws_dst_w c)) 7))),
     image_buffer_size = (\<lambda>w h. (w * 3 + 31) div 32 * 32 * h), mat_memory = (\<lambda>n. replicate n 0)\<rparr>"

lemma sample_ffmpeg_conforms: "ffmpeg_conforms sample_ffmpeg"
  by (auto simp: ffmpeg_conforms_def sample_ffmpeg_def)

definition sample_ctx :: frame_context where
  "sample_ctx = snd (Update sample_ffmpeg 4 2 2 2 0 FrameFormattingContext_new)"

lemma sample_Update:
  "Update sample_ffmpeg 4 2 2 2 0 FrameFormattingContext_new = (True, sample_ctx)"
  "sws_scale_ctx sample_ctx = Some \<lparr>sws_src_w = 4, sws_src_h = 2, sws_src_fmt = 0, sws_dst_w = 2, sws_dst_h = 1\<rparr>"
  by (simp_all add: sample_ctx_def Update_def FrameFormattingContext_new_def sample_ffmpeg_def letterbox_def IsResolutionChanged_def
      InitPool_def ClearPool_def cast_round_def int_cast_def round_away_def Let_def)

theorem camera_boxes_return_witness:
  "let obj = InferObject_default\<lparr>coord_format := pixel_int, xy_ref_type := ltx_type,
         bbox := \<lparr>bbox_x = 1, bbox_y = 0, bbox_w = 2, bbox_h = 2\<rparr>\<rparr>;
       s = scale_factor_from_original (inference_style sample_ctx)
   in ConvertInferObjectCoordinate
        (obj\<lparr>bbox := \<lparr>bbox_x = 1 * s + of_int (pad_left sample_ctx), bbox_y = 0 * s + of_int (pad_top sample_ctx),
                     bbox_w = 2 * s, bbox_h = 2 * s\<rparr>\<rparr>)
        ((inference_style sample_ctx)\<lparr>style_format := pixel_int\<rparr>) (original_style sample_ctx) = (True, obj)"
  using camera_boxes_return [OF framed_new, of 4 2 2 2 sample_ffmpeg 0 sample_ctx
      "InferObject_default\<lparr>coord_format := pixel_int, xy_ref_type := ltx_type,
         bbox := \<lparr>bbox_x = 1, bbox_y = 0, bbox_w = 2, bbox_h = 2\<rparr>\<rparr>"]
    sample_Update by (simp add: box_within_def corners_def Let_def)

theorem letterbox_image_exact_witness:
  "\<exists>ctx' blob. Convert sample_ffmpeg (Some \<lparr>frame_width = 4, frame_height = 2, frame_format = 0, frame_planes = []\<rparr>) False True None sample_ctx
     = Some (True, ctx') \<and> shared_input_blob ctx' = Some blob \<and> pictures sample_ctx [replicate 6 7] (line_size sample_ctx) blob"
proof -
  have "framed sample_ctx" using Update_framed(1) [OF framed_new _ _ _ _ sample_Update(1)] by simp
  then show ?thesis
    using letterbox_image_exact [of sample_ctx _ sample_ffmpeg "\<lparr>frame_width = 4, frame_height = 2, frame_format = 0, frame_planes = []\<rparr>"
        1 "[replicate 6 7]" False None] sample_Update(2) sample_ffmpeg_conforms
    by (auto simp: sample_ffmpeg_def numeral_nat)
qed

subsection \<open>Stale contexts\<close>

text \<open>
  A failed re-initialisation is not retried.  When the scaler of an initialised context cannot be made for
  a new size, \<open>Update\<close> fails once; called again with the same sizes it reports success without a scaler,
  and every conversion fails.  A change of the pixel format alone is not noticed either.
\<close>

theorem failed_update_not_retried:
  assumes "ctx_initialized ctx" and "IsResolutionChanged sw sh tw th ctx" and "Update ff sw sh tw th fmt ctx = (False, ctx')"
  shows "Update ff2 sw sh tw th fmt ctx' = (True, ctx') \<and> Convert ff2 frame capture blob released ctx' = Some (False, ctx')"
proof -
  obtain s c where lb: "letterbox (resized sw sh tw th ctx) = (s, c)" by fastforce
  have n: "\<not> (ctx_initialized ctx \<and> \<not> IsResolutionChanged sw sh tw th ctx)" using assms(2) by simp
  have ctx': "ctx' = c\<lparr>sws_scale_ctx := None\<rparr>" using assms(3) unfolding Update_new [OF n lb] by (auto split: if_splits)
  have "ctx_initialized (resized sw sh tw th ctx)" using assms(1) by (simp add: resized_def InitPool_def ClearPool_def Let_def)
  then show ?thesis using letterbox_keeps [OF lb] by (auto simp: ctx' Update_def IsResolutionChanged_def Convert_def)
qed

lemma format_change_ignored:
  "ctx_initialized ctx \<Longrightarrow> Update ff (src_w ctx) (src_h ctx) (target_w ctx) (target_h ctx) fmt ctx = (True, ctx)"
  by (simp add: Update_def IsResolutionChanged_def)

subsection \<open>The cache\<close>

definition cache_ok :: "sws_manager \<Rightarrow> bool" where
  "cache_ok m = (\<forall>w h ctx. contexts m (w, h) = Some ctx \<longrightarrow> framed ctx
     \<and> (ctx_initialized ctx \<longrightarrow> src_w ctx = current_src_w m \<and> src_h ctx = current_src_h m \<and> target_w ctx = w \<and> target_h ctx = h))"

lemma cache_ok_new [simp]: "cache_ok SwsContextManager_new" and cache_ok_ClearAll [simp]: "cache_ok (ClearAll m)"
  by (simp_all add: cache_ok_def SwsContextManager_new_def ClearAll_def)

lemma new_not_initialized [simp]: "\<not> ctx_initialized FrameFormattingContext_new"
  by (simp add: FrameFormattingContext_new_def)

lemma GetContext_ok:
  assumes "cache_ok m" and "GetContext w h (Some f) m = (c, m')"
  obtains ctx where "c = Some ctx" "framed ctx" "cache_ok m'" "current_src_w m' = frame_width f" "current_src_h m' = frame_height f"
    "ctx_initialized ctx \<Longrightarrow> src_w ctx = frame_width f \<and> src_h ctx = frame_height f \<and> target_w ctx = w \<and> target_h ctx = h"
    "contexts m' (w, h) = Some ctx"
proof (cases "current_src_w m \<noteq> frame_width f \<or> current_src_h m \<noteq> frame_height f")
  case True
  then show ?thesis using assms(2) that by (auto simp: GetContext_def Let_def ClearAll_def cache_ok_def)
next
  case False
  then show ?thesis using assms that
    by (cases "contexts m (w, h)") (auto simp: GetContext_def Let_def cache_ok_def fun_upd_idem, metis)
qed

end
