(* ===== verification/Text_Format.thy ===== *)
theory Text_Format
  imports Schedule "HOL-Library.List_Lexorder" "HOL-Library.Char_ord"
begin

text \<open>
  The number formats of the C++ library the sources use: \<open>std::stoi\<close>, \<open>std::to_string\<close> and the \<open>%0wd\<close>
  conversion of \<open>snprintf\<close>, with the facts the components rest on: reading back what was printed, and
  that zero-padded numbers are ordered like their texts.
\<close>

text \<open>\<open>std::stoi\<close>: white space, a sign, digits; without digits or outside the range of \<open>int\<close> it throws.\<close>

definition stoi :: "string \<Rightarrow> int option" where
  "stoi s =
     (let s = dropWhile is_space s;
          (sgn, body) = (case s of
             c # cs \<Rightarrow> if c = CHR ''-'' then (-1, cs) else if c = CHR ''+'' then (1, cs) else (1, s)
           | [] \<Rightarrow> (1, []));
          ds = takeWhile is_digit body;
          v = sgn * digits_value ds
      in if ds = [] then None else if - (2 ^ 31) \<le> v \<and> v < 2 ^ 31 then Some v else None)"

fun dec :: "nat \<Rightarrow> string" where
  "dec n = (if n < 10 then [char_of (48 + n)] else dec (n div 10) @ [char_of (48 + n mod 10)])"

declare dec.simps [simp del]

definition to_string :: "int \<Rightarrow> string" where
  "to_string i = (if i < 0 then CHR ''-'' # dec (nat (- i)) else dec (nat i))"

definition zero_padded :: "nat \<Rightarrow> int \<Rightarrow> string" where
  "zero_padded w i =
     (if i < 0 then CHR ''-'' # replicate (w - 1 - length (dec (nat (- i)))) (CHR ''0'') @ dec (nat (- i))
      else replicate (w - length (dec (nat i))) (CHR ''0'') @ dec (nat i))"

subsection \<open>Digits\<close>

lemma digit_facts:
  assumes "d < 10"
  shows "is_digit (char_of (48 + d :: nat))" "\<not> is_space (char_of (48 + d :: nat))"
    "char_of (48 + d :: nat) \<noteq> CHR ''-''" "char_of (48 + d :: nat) \<noteq> CHR ''+''" "of_char (char_of (48 + d :: nat)) - 48 = (int d)"
  using digit_char [OF assms] of_char_digit [OF assms] by auto

lemma digits_value_snoc: "digits_value (ds @ [c]) = 10 * digits_value ds + (of_char c - 48)"
  by (simp add: digits_value_def)

lemma digits_value_zeros [simp]: "digits_value (replicate k (CHR ''0'') @ ds) = digits_value ds"
  by (induction k) (simp_all add: digits_value_def)

lemma dec_facts: "(\<forall>c \<in> set (dec n). is_digit c) \<and> dec n \<noteq> [] \<and> digits_value (dec n) = int n"
proof (induction n rule: dec.induct)
  case (1 n)
  show ?case
  proof (cases "n < 10")
    case True
    then show ?thesis using digit_facts [OF True] by (simp add: dec.simps [of n] digits_value_def)
  next
    case False
    have "10 * int (n div 10) + int (n mod 10) = int n" by presburger
    then show ?thesis using 1 [OF False] False digit_facts [of "n mod 10"] by (simp add: dec.simps [of n] digits_value_snoc)
  qed
qed

lemma length_dec: "n < 10 ^ k \<Longrightarrow> 0 < k \<Longrightarrow> length (dec n) \<le> k"
proof (induction n arbitrary: k rule: dec.induct)
  case (1 n)
  show ?case
  proof (cases "n < 10")
    case False
    then obtain j where k: "k = Suc j" "0 < j" using 1(2,3) by (cases k; cases "k - 1") auto
    then have "length (dec (n div 10)) \<le> j" using 1(1) [OF False, of j] 1(2) by (simp add: less_mult_imp_div_less mult.commute)
    then show ?thesis using False k by (simp add: dec.simps [of n])
  qed (use 1(3) in \<open>simp add: dec.simps [of n]\<close>)
qed

lemma is_digit_not_special: "is_digit c \<Longrightarrow> \<not> is_space c \<and> c \<noteq> CHR ''-'' \<and> c \<noteq> CHR ''+''"
  by (auto simp: is_digit_def is_space_def)

lemma stoi_digits:
  assumes "\<forall>c \<in> set ds. is_digit c" and "ds \<noteq> []" and "digits_value ds < 2 ^ 31" "0 \<le> digits_value ds"
  shows "stoi ds = Some (digits_value ds)"
proof -
  obtain c cs where ds: "ds = c # cs" using assms(2) by (cases ds) auto
  then have c: "\<not> is_space c" "c \<noteq> CHR ''-''" "c \<noteq> CHR ''+''" using assms(1) is_digit_not_special by auto
  then have "dropWhile is_space ds = ds" using ds by simp
  moreover have "takeWhile is_digit ds = ds" using assms(1) by (simp add: takeWhile_eq_all_conv)
  ultimately show ?thesis using assms(3,4) c by (simp add: stoi_def ds)
qed

lemma zero_padded_facts:
  assumes "0 \<le> i"
  shows "\<forall>c \<in> set (zero_padded w i). is_digit c" "zero_padded w i \<noteq> []" "digits_value (zero_padded w i) = i"
    "i < 10 ^ w \<Longrightarrow> 0 < w \<Longrightarrow> length (zero_padded w i) = w"
proof -
  note d = dec_facts [of "nat i"]
  have z: "is_digit (CHR ''0'')" by (simp add: is_digit_def)
  show "\<forall>c \<in> set (zero_padded w i). is_digit c" "zero_padded w i \<noteq> []" "digits_value (zero_padded w i) = i"
    using d assms z by (auto simp: zero_padded_def)
  assume "i < 10 ^ w" "0 < w"
  then have "length (dec (nat i)) \<le> w" using assms by (intro length_dec) (auto simp: nat_less_iff)
  then show "length (zero_padded w i) = w" using assms by (simp add: zero_padded_def)
qed

lemma stoi_zero_padded: "0 \<le> i \<Longrightarrow> i < 2 ^ 31 \<Longrightarrow> stoi (zero_padded w i) = Some i"
  using stoi_digits [of "zero_padded w i"] zero_padded_facts [of i w] by simp

lemma stoi_to_string: "0 \<le> i \<Longrightarrow> i < 2 ^ 31 \<Longrightarrow> stoi (to_string i) = Some i"
  using stoi_digits [of "dec (nat i)"] dec_facts [of "nat i"] by (simp add: to_string_def)

subsection \<open>Order\<close>

lemma digits_value_Cons: "digits_value (c # cs) = (of_char c - 48) * 10 ^ length cs + digits_value cs"
proof (induction cs rule: rev_induct)
  case (snoc d cs)
  then show ?case using digits_value_snoc [of "c # cs" d] by (simp add: digits_value_snoc algebra_simps)
qed (simp add: digits_value_def)

lemma digits_value_bounds: "\<forall>c \<in> set ds. is_digit c \<Longrightarrow> 0 \<le> digits_value ds \<and> digits_value ds < 10 ^ length ds"
proof (induction ds)
  case (Cons c cs)
  have c: "0 \<le> (of_char c :: int) - 48" "(of_char c :: int) - 48 \<le> 9"
    using Cons.prems by (auto simp: is_digit_def) (metis of_nat_le_iff of_nat_numeral of_nat_of_char)+
  have "((of_char c :: int) - 48) * 10 ^ length cs \<le> 9 * 10 ^ length cs" using c by (intro mult_right_mono) auto
  moreover have "0 \<le> ((of_char c :: int) - 48) * 10 ^ length cs" using c by simp
  moreover have "0 \<le> digits_value cs" "digits_value cs < 10 ^ length cs" using Cons by auto
  ultimately show ?case unfolding digits_value_Cons list.size add_Suc_right add_0_right power_Suc by linarith
qed (simp add: digits_value_def)

lemma digits_order:
  assumes "length a = length b" "\<forall>c \<in> set a. is_digit c" "\<forall>c \<in> set b. is_digit c"
  shows "a < b \<longleftrightarrow> digits_value a < digits_value b"
  using assms
proof (induction a b rule: list_induct2)
  case (Cons x xs y ys)
  let ?p = "10 ^ length ys :: int"
  have order: "x < y \<longleftrightarrow> (of_char x :: int) < of_char y"
  proof -
    have "(of_char z :: int) = int (of_char z)" for z by (rule of_nat_of_char [symmetric])
    then show ?thesis unfolding less_char_def by (simp only: of_nat_less_iff)
  qed
  have eq: "x = y \<longleftrightarrow> (of_char x :: int) = of_char y" by simp
  have bx: "0 \<le> digits_value xs" "digits_value xs < ?p" and by': "0 \<le> digits_value ys" "digits_value ys < ?p"
    using digits_value_bounds [of xs] digits_value_bounds [of ys] Cons by auto
  have step: "a * ?p + u < b * ?p + v" if "a < b" "u < ?p" "0 \<le> v" for a b u v :: int
  proof -
    have "(a + 1) * ?p \<le> b * ?p" using that by (intro mult_right_mono) auto
    then show ?thesis using that by (simp add: distrib_right)
  qed
  have vals: "digits_value (x # xs) = (of_char x - 48) * ?p + digits_value xs" "digits_value (y # ys) = (of_char y - 48) * ?p + digits_value ys"
    using Cons.hyps by (simp_all add: digits_value_Cons)
  show ?case
  proof (cases "(of_char x :: int)" "of_char y :: int" rule: linorder_cases)
    case less
    then have "x # xs < y # ys" using order by simp
    moreover have "digits_value (x # xs) < digits_value (y # ys)"
      unfolding vals by (rule step [OF _ bx(2) by'(1)]) (use less in simp)
    ultimately show ?thesis by blast
  next
    case equal
    then have "x = y" using eq by blast
    then show ?thesis using Cons vals equal by auto
  next
    case greater
    then have "\<not> x # xs < y # ys" using order by auto
    moreover have "digits_value (y # ys) < digits_value (x # xs)"
      unfolding vals by (rule step [OF _ by'(2) bx(1)]) (use greater in simp)
    ultimately show ?thesis by linarith
  qed
qed (simp add: digits_value_def)

lemma zero_padded_order:
  assumes "0 \<le> i" "i < 10 ^ w" "0 \<le> j" "j < 10 ^ w" "0 < w"
  shows "zero_padded w i < zero_padded w j \<longleftrightarrow> i < j" "zero_padded w i = zero_padded w j \<longleftrightarrow> i = j"
proof -
  note i = zero_padded_facts [OF assms(1), of w] and j = zero_padded_facts [OF assms(3), of w]
  have "length (zero_padded w i) = length (zero_padded w j)" using i(4) j(4) assms by simp
  then show "zero_padded w i < zero_padded w j \<longleftrightarrow> i < j" using digits_order [of "zero_padded w i" "zero_padded w j"] i(1,3) j(1,3) by simp
  show "zero_padded w i = zero_padded w j \<longleftrightarrow> i = j" using i(3) j(3) by metis
qed

end
