(* ===== verification/Engine_Client.thy ===== *)
theory Engine_Client
  imports Engine_Load_Balancer Frame_Preprocessor Json String_Utils Text_Format
begin

text \<open>
  \<open>ClassChecker\<close> (\<open>BasicLibs/core/types/ClassChecker.h\<close>), the table of class names of an engine read from its
  JSON file, and \<open>EngineClient\<close> (\<open>Management/worker/src/EngineClient.cpp\<close>), the end of the inference pipeline on
  the camera's side: it finds an engine, prepares the request template and the ids of the classes wanted.
  The file is a parameter: whether the path is a regular file, and what parsing its text gives
  (\<open>None\<close> when it cannot be opened or parsed).  The constructor's \<open>assert\<close> is not compiled in release builds.
\<close>

subsection \<open>Class names\<close>

record class_files =
  is_valid_file :: "string \<Rightarrow> bool"
  parse_json_file :: "string \<Rightarrow> json option"

record class_checker =
  cc_engine_id :: u32
  parse_yaml_path :: string
  id_to_name :: "int \<rightharpoonup> string"
  name_to_id :: "string \<rightharpoonup> int"
  classify_activate :: bool
  cc_class_num :: int

fun get_bool :: "json \<Rightarrow> bool option" where
  "get_bool (JBool b) = Some b"
| "get_bool _ = None"

text \<open>The members of an object in the order of its keys; the names already read stay when one of them throws.\<close>

fun read_names :: "(string \<times> json) list \<Rightarrow> class_checker \<Rightarrow> bool \<times> class_checker" where
  "read_names [] cc = (True, cc)"
| "read_names ((key, val) # rest) cc =
     (case stoi key of
        None \<Rightarrow> (False, cc)
      | Some i \<Rightarrow>
          (case get_string val of
             None \<Rightarrow> (False, cc)
           | Some name \<Rightarrow>
               read_names rest (cc\<lparr>id_to_name := (id_to_name cc)(i \<mapsto> name),
                                   name_to_id := (name_to_id cc)(ToUpperCase name \<mapsto> i)\<rparr>)))"

definition Initialize :: "class_files \<Rightarrow> class_checker \<Rightarrow> bool \<times> class_checker" where
  "Initialize files cc =
     (if \<not> is_valid_file files (parse_yaml_path cc) then (False, cc)
      else case parse_json_file files (parse_yaml_path cc) of
             None \<Rightarrow> (False, cc)
           | Some doc \<Rightarrow>
               (case Option.bind (at_key doc ''classify_activate'') get_bool of
                  None \<Rightarrow> (False, cc)
                | Some active \<Rightarrow>
                    let cc = cc\<lparr>classify_activate := active\<rparr>
                    in if \<not> active then (True, cc)
                       else case Option.bind (at_key doc ''num_class'') get_int of
                              None \<Rightarrow> (False, cc)
                            | Some n \<Rightarrow>
                                let cc = cc\<lparr>cc_class_num := n\<rparr>
                                in case at_key doc ''names'' of
                                     Some (JObject ms) \<Rightarrow> read_names (sort_key fst ms) cc
                                   | _ \<Rightarrow> (False, cc)))"

definition ClassChecker_new :: "class_files \<Rightarrow> EngineProfile \<Rightarrow> class_checker" where
  "ClassChecker_new files profile = snd (Initialize files
     \<lparr>cc_engine_id = profile_uuid profile, parse_yaml_path = classes_yml_path profile, id_to_name = Map.empty, name_to_id = Map.empty,
      classify_activate = False, cc_class_num = 0\<rparr>)"

definition GetClassEqualChecker :: "class_checker \<Rightarrow> ClassEqualChecker" where
  "GetClassEqualChecker cc = (\<lambda>i tag. name_to_id cc (ToUpperCase tag) = Some i)"

definition GetClassIDToNameConvertor :: "class_checker \<Rightarrow> int \<Rightarrow> string" where
  "GetClassIDToNameConvertor cc i = (case id_to_name cc i of Some name \<Rightarrow> name | None \<Rightarrow> ''NONE'')"

subsection \<open>The client\<close>

datatype CameraColorMode = RGB | IR | UNKNOWN

record engine_client =
  magic_name :: string
  client_subscribe_id :: int
  client_engine_id :: u32
  task_type :: ModelMajorType
  optimize_type :: ModelOptimizeType
  input_width :: int
  input_height :: int
  request_meta :: "InputLayerWrapper option"
  is_active_condition :: "CameraColorMode \<Rightarrow> bool"
  target_class_ids :: "(string \<times> int) list"

definition EngineClient_new :: engine_client where
  "EngineClient_new = \<lparr>magic_name = [], client_subscribe_id = UNIT_ID_NOT_SET, client_engine_id = INFER_ENGINE_ID_NOT_SET,
     task_type = Detection_Major, optimize_type = Opt_None, input_width = 0, input_height = 0, request_meta = None,
     is_active_condition = (\<lambda>_. False), target_class_ids = []\<rparr>"

text \<open>The first class id that bears the name; \<open>size_t\<close> and \<open>int\<close> conversions included.\<close>

definition find_class :: "class_checker \<Rightarrow> string \<Rightarrow> int option" where
  "find_class cc upper_target =
     map_option (\<lambda>i. to_int32 (int i))
       (find (\<lambda>i. GetClassEqualChecker cc (to_int32 (int i)) upper_target) [0..<nat (cc_class_num cc mod 2 ^ 64)])"

definition client_Init ::
  "class_files \<Rightarrow> int \<Rightarrow> load_balancer option \<Rightarrow> string \<Rightarrow> int \<Rightarrow> string list \<Rightarrow> (CameraColorMode \<Rightarrow> bool) \<Rightarrow> engine_client \<Rightarrow>
   bool \<times> engine_client" where
  "client_Init files my_unit_id lb target_magic_name magic_code target_class_names condition c =
     (case lb of
        None \<Rightarrow> (False, c)
      | Some lb \<Rightarrow>
          let c = c\<lparr>client_engine_id := GetAvailableInferEngineID lb (Magic_Require target_magic_name)\<rparr>
          in if client_engine_id c = INFER_ENGINE_ID_NOT_SET then (False, c)
             else case GetEngineProfileTargetInferEngineID lb (client_engine_id c) of
                    None \<Rightarrow> (False, c)
                  | Some profile \<Rightarrow>
                      let c = c\<lparr>magic_name := target_magic_name, input_width := sint (input_image_w profile),
                                input_height := sint (input_image_h profile), task_type := model_major_type profile,
                                optimize_type := opt_type profile, is_active_condition := condition,
                                client_subscribe_id := GetInferenceRequesterID_magic my_unit_id (model_major_type profile)
                                  (model_minor_type profile) magic_code\<rparr>;
                          meta_data = EngineStreamMetaData_default\<lparr>requester_unit_id := client_subscribe_id c,
                            requestee_engine_uuid := client_engine_id c, request_image_pixel_w := word_of_int (input_width c),
                            request_image_pixel_h := word_of_int (input_height c), correlation_id := 0\<rparr>;
                          c = c\<lparr>request_meta := Some \<lparr>in_meta = meta_data,
                            requirements = CreateRequirementsFromSingle (Uuid_Require (client_engine_id c)), image_data = None\<rparr>\<rparr>;
                          cc = ClassChecker_new files profile
                      in (True, c\<lparr>target_class_ids := fold (\<lambda>name ids. case find_class cc (ToUpperCase name) of
                                     None \<Rightarrow> ids | Some i \<Rightarrow> AList.update (ToUpperCase name) i ids)
                                   target_class_names (target_class_ids c)\<rparr>))"

text \<open>Dereferencing the template of a client that was not initialised is undefined: \<open>None\<close>.\<close>

definition BuildRequest :: "frame_context option \<Rightarrow> u64 \<Rightarrow> engine_client \<Rightarrow> InputLayerWrapper option" where
  "BuildRequest ctx corr c =
     map_option (\<lambda>req.
       let req = req\<lparr>in_meta := (in_meta req)\<lparr>correlation_id := corr\<rparr>\<rparr>
       in case ctx of
            Some ctx \<Rightarrow> if IsReadyForInference ctx then req\<lparr>image_data := shared_input_blob ctx\<rparr> else req\<lparr>image_data := None\<rparr>
          | None \<Rightarrow> req\<lparr>image_data := None\<rparr>) (request_meta c)"

definition GetClassID :: "string \<Rightarrow> engine_client \<Rightarrow> int" where
  "GetClassID class_name c =
     (case map_of (target_class_ids c) (ToUpperCase class_name) of Some i \<Rightarrow> i | None \<Rightarrow> INFER_CLASS_ID_NOT_SET)"

subsection \<open>The classes wanted\<close>

lemma to_upper_idem [simp]: "to_upper (to_upper c) = to_upper c"
  by (auto simp: to_upper_def is_lower_def char_code_def)

lemma ToUpperCase_idem [simp]: "ToUpperCase (ToUpperCase s) = ToUpperCase s"
  by (simp add: ToUpperCase_def)

lemma find_class_exact:
  assumes "0 \<le> cc_class_num cc" "cc_class_num cc \<le> 2 ^ 31"
  shows "find_class cc (ToUpperCase name) =
    (case name_to_id cc (ToUpperCase name) of Some i \<Rightarrow> if 0 \<le> i \<and> i < cc_class_num cc then Some i else None | None \<Rightarrow> None)"
proof -
  have id: "to_int32 (int i) = int i" if "i < nat (cc_class_num cc)" for i
    using that assms by (intro to_int32_id) auto
  have "find (\<lambda>i. GetClassEqualChecker cc (to_int32 (int i)) (ToUpperCase name)) [0..<nat (cc_class_num cc)]
      = find (\<lambda>i. name_to_id cc (ToUpperCase name) = Some (int i)) [0..<nat (cc_class_num cc)]"
    by (rule find_cong) (auto simp: GetClassEqualChecker_def id)
  moreover have "nat (cc_class_num cc mod 2 ^ 64) = nat (cc_class_num cc)" using assms by simp
  moreover have "map_option (\<lambda>i. to_int32 (int i)) (find (\<lambda>i. x = Some (int i)) [0..<nat (cc_class_num cc)]) =
      (case x of Some i \<Rightarrow> if 0 \<le> i \<and> i < cc_class_num cc then Some i else None | None \<Rightarrow> None)" for x
  proof (cases "find (\<lambda>i. x = Some (int i)) [0..<nat (cc_class_num cc)]")
    case None
    then have "x \<noteq> Some (int (nat j))" if "0 \<le> j" "j < cc_class_num cc" for j
      using that unfolding find_None_iff by (auto dest!: spec [of _ "nat j"])
    then show ?thesis using None by (cases x) auto
  next
    case (Some i)
    then have "i < nat (cc_class_num cc)" "x = Some (int i)" using find_SomeD by force+
    then show ?thesis using Some id by auto
  qed
  ultimately show ?thesis by (simp add: find_class_def)
qed

lemma fold_update_map_of:
  "map_of (fold (\<lambda>name ids. case f (g name) of None \<Rightarrow> ids | Some i \<Rightarrow> AList.update (g name) i ids) names ids) u =
     (if u \<in> g ` set names \<and> f u \<noteq> None then f u else map_of ids u)"
  by (induction names arbitrary: ids) (auto simp: update_conv' split: option.splits)

lemma BuildRequest_fields:
  "request_meta c = Some req \<Longrightarrow> \<exists>r. BuildRequest ctx corr c = Some r \<and> in_meta r = (in_meta req)\<lparr>correlation_id := corr\<rparr>
     \<and> image_data r = (case ctx of Some ctx \<Rightarrow> if IsReadyForInference ctx then shared_input_blob ctx else None | None \<Rightarrow> None)"
  by (cases ctx) (auto simp: BuildRequest_def Let_def)

text \<open>
  The classes wanted are found.  A client that initialises is bound to the engine the balancer chose for
  the magic name, carries its camera's requester id, and knows exactly those of the wanted classes that
  the engine's table lists with an id below the class count, under their upper-case names.
\<close>

theorem target_classes_exact:
  assumes init: "client_Init files u (Some lb) magic code names cond EngineClient_new = (True, c)"
    and profile: "GetEngineProfileTargetInferEngineID lb (GetAvailableInferEngineID lb (Magic_Require magic)) = Some profile"
    and count: "0 \<le> cc_class_num (ClassChecker_new files profile)" "cc_class_num (ClassChecker_new files profile) \<le> 2 ^ 31"
  shows "(\<forall>name i. map_of (target_class_ids c) name = Some i \<longleftrightarrow>
       name \<in> ToUpperCase ` set names \<and> name_to_id (ClassChecker_new files profile) name = Some i
       \<and> 0 \<le> i \<and> i < cc_class_num (ClassChecker_new files profile))
    \<and> client_engine_id c = GetAvailableInferEngineID lb (Magic_Require magic) \<and> client_engine_id c \<noteq> INFER_ENGINE_ID_NOT_SET
    \<and> client_subscribe_id c = GetInferenceRequesterID_magic u (model_major_type profile) (model_minor_type profile) code
    \<and> (\<exists>req. BuildRequest ctx corr c = Some req \<and> requester_unit_id (in_meta req) = client_subscribe_id c \<and> correlation_id (in_meta req) = corr)"
proof -
  let ?cc = "ClassChecker_new files profile"
  have ids: "target_class_ids c = fold (\<lambda>name ids. case find_class ?cc (ToUpperCase name) of None \<Rightarrow> ids | Some i \<Rightarrow> AList.update (ToUpperCase name) i ids) names []"
    and rest: "client_engine_id c = GetAvailableInferEngineID lb (Magic_Require magic)" "client_engine_id c \<noteq> INFER_ENGINE_ID_NOT_SET"
      "client_subscribe_id c = GetInferenceRequesterID_magic u (model_major_type profile) (model_minor_type profile) code"
      "\<exists>req. request_meta c = Some req \<and> requester_unit_id (in_meta req) = client_subscribe_id c"
    using init profile by (auto simp: client_Init_def EngineClient_new_def Let_def split: if_splits)
  have "map_of (target_class_ids c) name = Some i \<longleftrightarrow>
       name \<in> ToUpperCase ` set names \<and> name_to_id ?cc name = Some i \<and> 0 \<le> i \<and> i < cc_class_num ?cc" for name i
  proof (cases "name \<in> ToUpperCase ` set names")
    case True
    then obtain n where "name = ToUpperCase n" by blast
    then have "find_class ?cc name = (case name_to_id ?cc name of Some i \<Rightarrow> if 0 \<le> i \<and> i < cc_class_num ?cc then Some i else None | None \<Rightarrow> None)"
      using find_class_exact [OF count, of n] by simp
    then show ?thesis using True by (auto simp: ids fold_update_map_of split: option.splits if_splits)
  qed (auto simp: ids fold_update_map_of)
  moreover obtain req where req: "request_meta c = Some req" "requester_unit_id (in_meta req) = client_subscribe_id c" using rest(4) by blast
  obtain r where "BuildRequest ctx corr c = Some r" "in_meta r = (in_meta req)\<lparr>correlation_id := corr\<rparr>"
    using BuildRequest_fields [OF req(1)] by blast
  ultimately show ?thesis using rest(1-3) req(2) by auto
qed

definition sample_files :: class_files where
  "sample_files = \<lparr>is_valid_file = (\<lambda>_. True), parse_json_file = (\<lambda>_. Some (JObject
     [(''classify_activate'', JBool True), (''names'', JObject [(''0'', JString ''Person''), (''1'', JString ''Car'')]), (''num_class'', JInt 2)]))\<rparr>"

lemma sample_upper:
  "ToUpperCase ''person'' = ''PERSON''" "ToUpperCase ''dog'' = ''DOG''" "ToUpperCase ''Person'' = ''PERSON''" "ToUpperCase ''Car'' = ''CAR''"
  by code_simp+

lemma sample_classes:
  "cc_class_num (ClassChecker_new sample_files p) = 2"
  "name_to_id (ClassChecker_new sample_files p) = [''PERSON'' \<mapsto> 0, ''CAR'' \<mapsto> 1]"
  by (simp_all add: ClassChecker_new_def Initialize_def sample_files_def to_int32_def stoi_def is_space_def is_digit_def digits_value_def
      sample_upper fun_upd_twist)

theorem target_classes_exact_witness:
  "\<exists>c. client_Init sample_files 5 (Some sample_balancer) ''Detection'' 0 [''person'', ''dog''] (\<lambda>_. True) EngineClient_new = (True, c)
     \<and> map_of (target_class_ids c) ''PERSON'' = Some 0 \<and> map_of (target_class_ids c) ''DOG'' = None \<and> client_engine_id c = 7"
proof -
  have profiles: "engine_profiles sample_balancer = [(7, sample_profile 7 1)]"
    by (simp add: sample_balancer_def sample_simps)
  have chosen: "GetAvailableInferEngineID sample_balancer (Magic_Require ''Detection'') = 7"
    "GetEngineProfileTargetInferEngineID sample_balancer 7 = Some (sample_profile 7 1)"
    by (simp_all add: GetAvailableInferEngineID_def GetEngineProfileTargetInferEngineID_def profiles SearchEngineUUID_one_def SearchEngineUUID_def
        IsRequireAtLeastOne_def profile_matches_def InferRequestRequirements_default_def ModelMagicTypeDontCare_def InferModelUUIDDontCare_def
        sample_profile_def)
  obtain c where c: "client_Init sample_files 5 (Some sample_balancer) ''Detection'' 0 [''person'', ''dog''] (\<lambda>_. True) EngineClient_new = (True, c)"
    using chosen by (simp add: client_Init_def EngineClient_new_def INFER_ENGINE_ID_NOT_SET_def Let_def)
  note t = target_classes_exact [OF c, of "sample_profile 7 1" None 0]
  have ids: "map_of (target_class_ids c) name = Some i \<longleftrightarrow> name \<in> {''PERSON'', ''DOG''} \<and> [''PERSON'' \<mapsto> 0, ''CAR'' \<mapsto> 1] name = Some i \<and> 0 \<le> i \<and> i < 2"
    for name i using t chosen by (simp add: sample_classes sample_upper)
  have "client_engine_id c = 7" using t chosen by (simp add: sample_classes)
  moreover have "map_of (target_class_ids c) ''PERSON'' = Some 0" using ids [of "''PERSON''" 0] by simp
  moreover have "map_of (target_class_ids c) ''DOG'' \<noteq> Some i" for i using ids [of "''DOG''" i] by simp
  ultimately show ?thesis using c by (cases "map_of (target_class_ids c) ''DOG''") auto
qed

end
