(* ===== verification/Frame_Store.thy ===== *)
theory Frame_Store
  imports Text_Format Safe_Queue Setting_Data
begin

text \<open>
  The snapshot store of \<open>Main/DETECTOR/src/RtspDetectorUnit.cpp\<close>: where event images are saved
  (\<open>/frame/YYYY/MM/DD/\<close>), the disk policy that protects the disk (no image above 90 per cent, daily
  directories removed after seven days, emergency removal above 80 per cent) and the worker that writes
  the images.  A directory tree is a datatype; \<open>statvfs\<close>, the removability of a path, the order \<open>std::sort\<close>
  gives to files of equal age and the result of \<open>cv::imwrite\<close> are parameters.  \<open>timegm\<close> is the proleptic Gregorian calendar.
\<close>

subsection \<open>The directory tree\<close>

datatype node = Reg_file int | Dir "(string \<times> node) list"

fun is_directory :: "node \<Rightarrow> bool" where
  "is_directory (Dir _) = True" | "is_directory _ = False"

fun dir_entries :: "node \<Rightarrow> (string \<times> node) list" where
  "dir_entries (Dir es) = es" | "dir_entries (Reg_file _) = []"

fun mtime :: "node \<Rightarrow> int" where
  "mtime (Reg_file t) = t" | "mtime (Dir _) = 0"

record disk =
  statvfs :: "node \<Rightarrow> int \<times> u64 \<times> u64"
  removable :: "string list \<Rightarrow> bool"
  sort_by_age :: "(string \<times> node) list \<Rightarrow> (string \<times> node) list"

definition FRAME_DISK_FULL_PCT :: cfloat where "FRAME_DISK_FULL_PCT = 90"
definition FRAME_DISK_EMERGENCY_PCT :: cfloat where "FRAME_DISK_EMERGENCY_PCT = 80"
definition FRAME_RETENTION_DAYS :: int where "FRAME_RETENTION_DAYS = 7"
definition FRAME_CLEANUP_INTERVAL :: int where "FRAME_CLEANUP_INTERVAL = 3600000"
definition FRAME_EMERGENCY_INTERVAL :: int where "FRAME_EMERGENCY_INTERVAL = 300000"

definition GetFrameDiskUsedPercent :: "disk \<Rightarrow> node \<Rightarrow> cfloat" where
  "GetFrameDiskUsedPercent dk tree =
     (case statvfs dk tree of
        (code, blocks, avail) \<Rightarrow>
          if code \<noteq> 0 then -1 else if blocks = 0 then -1
          else 100 * of_nat (unat (blocks - avail)) / of_nat (unat blocks))"

subsection \<open>Dates\<close>

definition leap_year :: "int \<Rightarrow> bool" where
  "leap_year y = (4 dvd y \<and> (\<not> 100 dvd y \<or> 400 dvd y))"

definition days_before_year :: "int \<Rightarrow> int" where
  "days_before_year y = 365 * y + (y - 1) div 4 - (y - 1) div 100 + (y - 1) div 400 - 719527"

definition days_before_month :: "int \<Rightarrow> nat \<Rightarrow> int" where
  "days_before_month y m = [0, 31, 59, 90, 120, 151, 181, 212, 243, 273, 304, 334] ! m + (if 2 \<le> m \<and> leap_year y then 1 else 0)"

text \<open>Seconds since 1970 of a broken-down time whose month and day need not be in range.\<close>

definition timegm :: "int \<Rightarrow> int \<Rightarrow> int \<Rightarrow> int \<Rightarrow> int \<Rightarrow> int \<Rightarrow> int" where
  "timegm year mon mday hour minute sec =
     (let y = year + mon div 12; m = nat (mon mod 12)
      in ((days_before_year y + days_before_month y m + mday - 1) * 24 + hour) * 3600 + minute * 60 + sec)"

definition parse_dir_time :: "string \<Rightarrow> string \<Rightarrow> string \<Rightarrow> int option" where
  "parse_dir_time y m d =
     (case (stoi y, stoi m, stoi d) of
        (Some yy, Some mm, Some dd) \<Rightarrow>
          let tt = timegm yy (mm - 1) dd 23 59 59 in if tt = -1 then None else Some tt
      | _ \<Rightarrow> None)"

subsection \<open>Regular clean-up\<close>

text \<open>Times of the system clock are in milliseconds.\<close>

definition expired_day :: "int \<Rightarrow> string \<Rightarrow> string \<Rightarrow> string \<Rightarrow> bool" where
  "expired_day cutoff y m d = (case parse_dir_time y m d of None \<Rightarrow> False | Some t \<Rightarrow> t * 1000 < cutoff)"

definition drops_day :: "disk \<Rightarrow> int \<Rightarrow> string \<Rightarrow> string \<Rightarrow> string \<times> node \<Rightarrow> bool" where
  "drops_day dk cutoff y m = (\<lambda>(d, nd). is_directory nd \<and> expired_day cutoff y m d \<and> removable dk [y, m, d])"

definition drops_empty :: "disk \<Rightarrow> string list \<Rightarrow> node \<Rightarrow> bool" where
  "drops_empty dk path nd = (is_directory nd \<and> dir_entries nd = [] \<and> removable dk path)"

definition clean_month :: "disk \<Rightarrow> int \<Rightarrow> string \<Rightarrow> string \<times> node \<Rightarrow> nat \<times> node" where
  "clean_month dk cutoff y = (\<lambda>(m, nd). case nd of
     Reg_file t \<Rightarrow> (0, nd)
   | Dir days \<Rightarrow> (length (filter (drops_day dk cutoff y m) days), Dir (filter (\<lambda>e. \<not> drops_day dk cutoff y m e) days)))"

definition clean_year :: "disk \<Rightarrow> int \<Rightarrow> string \<times> node \<Rightarrow> nat \<times> node" where
  "clean_year dk cutoff = (\<lambda>(y, nd). case nd of
     Reg_file t \<Rightarrow> (0, nd)
   | Dir months \<Rightarrow>
       let rs = map (\<lambda>(m, x). (m, clean_month dk cutoff y (m, x))) months
       in (sum_list (map (\<lambda>(m, r). fst r) rs), Dir (filter (\<lambda>(m, x). \<not> drops_empty dk [y, m] x) (map (\<lambda>(m, r). (m, snd r)) rs))))"

definition CleanupOldFrameDirs :: "disk \<Rightarrow> int \<Rightarrow> int \<Rightarrow> node option \<Rightarrow> nat \<times> node option" where
  "CleanupOldFrameDirs dk now retention_days frame_root =
     (case frame_root of
        None \<Rightarrow> (0, None)
      | Some tree \<Rightarrow>
          if \<not> is_directory tree then (0, Some tree)
          else let cutoff = now - 24 * retention_days * 3600000;
              rs = map (\<lambda>(y, x). (y, clean_year dk cutoff (y, x))) (dir_entries tree)
          in (sum_list (map (\<lambda>(y, r). fst r) rs), Some (Dir (filter (\<lambda>(y, x). \<not> drops_empty dk [y] x) (map (\<lambda>(y, r). (y, snd r)) rs)))))"

subsection \<open>Emergency clean-up\<close>

fun remove_at :: "string list \<Rightarrow> node \<Rightarrow> node" where
  "remove_at [x] (Dir es) = Dir (filter (\<lambda>(n, c). n \<noteq> x) es)"
| "remove_at (x # p) (Dir es) = Dir (map (\<lambda>(n, c). (n, if n = x then remove_at p c else c)) es)"
| "remove_at p t = t"

definition try_remove :: "disk \<Rightarrow> string list \<Rightarrow> node \<Rightarrow> node" where
  "try_remove dk p tree = (if removable dk p then remove_at p tree else tree)"

text \<open>All day directories; a file has no entries, so the directory tests of the outer loops are implied.\<close>

definition day_dirs :: "node \<Rightarrow> (string list \<times> node) list" where
  "day_dirs tree = concat (map (\<lambda>(y, yn). concat (map (\<lambda>(m, mn).
     map (\<lambda>(d, dn). ([y, m, d], dn)) (filter (\<lambda>(d, dn). is_directory dn) (dir_entries mn))) (dir_entries yn))) (dir_entries tree))"

fun emergency_loop :: "disk \<Rightarrow> string list list \<Rightarrow> node \<Rightarrow> nat \<Rightarrow> string list list \<times> node \<times> nat" where
  "emergency_loop dk (oldest # next # rest) tree n =
     (if GetFrameDiskUsedPercent dk tree \<ge> FRAME_DISK_EMERGENCY_PCT
      then emergency_loop dk (next # rest) (try_remove dk oldest tree) (n + 1)
      else (oldest # next # rest, tree, n))"
| "emergency_loop dk dirs tree n = (dirs, tree, n)"

definition regular_files :: "string list \<Rightarrow> node \<Rightarrow> (string \<times> node) list" where
  "regular_files p tree = (case find (\<lambda>(q, dn). q = p) (day_dirs tree) of
     None \<Rightarrow> [] | Some (q, dn) \<Rightarrow> filter (\<lambda>(f, x). \<not> is_directory x) (dir_entries dn))"

definition halve_files :: "disk \<Rightarrow> string list \<Rightarrow> node \<Rightarrow> nat \<times> node" where
  "halve_files dk p tree =
     (let files = sort_by_age dk (regular_files p tree);
          victims = take (length files div 2) files
      in (length (filter (\<lambda>(f, x). removable dk (p @ [f])) victims), fold (\<lambda>(f, x). try_remove dk (p @ [f])) victims tree))"

definition remove_empty_dirs :: "disk \<Rightarrow> node \<Rightarrow> node" where
  "remove_empty_dirs dk tree =
     Dir (filter (\<lambda>(y, yn). \<not> drops_empty dk [y] yn)
       (map (\<lambda>(y, yn). (y, case yn of Reg_file t \<Rightarrow> yn
          | Dir months \<Rightarrow> Dir (filter (\<lambda>(m, mn). \<not> drops_empty dk [y, m] mn) months))) (dir_entries tree)))"

text \<open>\<open>owns_lock\<close>: no other worker is cleaning.  The result counts removed day directories and files.\<close>

definition EmergencyCleanupIfDiskHigh :: "disk \<Rightarrow> bool \<Rightarrow> node option \<Rightarrow> (nat \<times> nat) \<times> node option" where
  "EmergencyCleanupIfDiskHigh dk owns_lock frame_root =
     (if \<not> owns_lock then ((0, 0), frame_root)
      else case frame_root of
             None \<Rightarrow> ((0, 0), None)
           | Some tree \<Rightarrow>
               if GetFrameDiskUsedPercent dk tree < FRAME_DISK_EMERGENCY_PCT \<or> \<not> is_directory tree then ((0, 0), Some tree)
               else case emergency_loop dk (sort (map fst (day_dirs tree))) tree 0 of
                      (dirs, tree, deleted_day_dirs) \<Rightarrow>
                        (case (if length dirs = 1 \<and> GetFrameDiskUsedPercent dk tree \<ge> FRAME_DISK_EMERGENCY_PCT
                               then halve_files dk (hd dirs) tree else (0, tree)) of
                           (deleted_files, tree) \<Rightarrow> ((deleted_day_dirs, deleted_files), Some (remove_empty_dirs dk tree))))"

subsection \<open>Saving images\<close>

record tm =
  tm_year :: int
  tm_mon :: int
  tm_mday :: int
  tm_hours :: int
  tm_minutes :: int
  tm_seconds :: int

definition day_path :: "int \<Rightarrow> int \<Rightarrow> int \<Rightarrow> string list" where
  "day_path year month day = [zero_padded 4 year, zero_padded 2 month, zero_padded 2 day]"

text \<open>\<open>snprintf\<close> keeps at most one character less than its buffer; \<open>make_dir\<close> says whether the directory exists or could be made.\<close>

definition MakeImageSavePath :: "(string \<Rightarrow> bool) \<Rightarrow> tm \<Rightarrow> string \<Rightarrow> int \<Rightarrow> string \<Rightarrow> string option" where
  "MakeImageSavePath make_dir time_info uuid cam_id root_path =
     (let dir_path = take 255 (root_path @ concat (map (\<lambda>c. CHR ''/'' # c)
            (day_path (tm_year time_info + 1900) (tm_mon time_info + 1) (tm_mday time_info))))
      in if \<not> make_dir dir_path then None
         else Some (dir_path @ take 127 (CHR ''/'' # zero_padded 4 cam_id @ CHR ''_'' # zero_padded 2 (tm_hours time_info)
                @ zero_padded 2 (tm_minutes time_info) @ zero_padded 2 (tm_seconds time_info) @ CHR ''_'' # uuid @ ''.jpg'')))"

text \<open>One iteration of the worker; the clock is monotonic, in milliseconds.\<close>

record 'img io_item =
  item_frame_path :: string
  image_mat :: 'img

record io_worker =
  last_skip_warn :: int
  last_cleanup :: int
  last_emergency :: int

datatype 'img io_effect = Cleaned nat | Emergency "nat \<times> nat" | Skipped_disk_full | Skip_warning | Imwrite "'img io_item"

definition io_cycle ::
  "disk \<Rightarrow> int \<Rightarrow> int \<Rightarrow> bool \<Rightarrow> 'img io_item option \<Rightarrow> io_worker \<Rightarrow> node option \<Rightarrow> 'img io_effect list \<times> io_worker \<times> node option" where
  "io_cycle dk now_steady now_system owns_lock opt_item w tree =
     (let (log1, w, tree) =
            (if now_steady - last_cleanup w > FRAME_CLEANUP_INTERVAL
             then case CleanupOldFrameDirs dk now_system FRAME_RETENTION_DAYS tree of
                    (deleted, tree) \<Rightarrow> ([Cleaned deleted], w\<lparr>last_cleanup := now_steady\<rparr>, tree)
             else ([], w, tree));
          (log2, w, tree) =
            (if now_steady - last_emergency w > FRAME_EMERGENCY_INTERVAL
             then case EmergencyCleanupIfDiskHigh dk owns_lock tree of
                    (res, tree) \<Rightarrow> ([Emergency res], w\<lparr>last_emergency := now_steady\<rparr>, tree)
             else ([], w, tree))
      in case opt_item of
           None \<Rightarrow> (log1 @ log2, w, tree)
         | Some item \<Rightarrow>
             if (case tree of None \<Rightarrow> -1 | Some t \<Rightarrow> GetFrameDiskUsedPercent dk t) \<ge> FRAME_DISK_FULL_PCT
             then if now_steady - last_skip_warn w > 60000
                  then (log1 @ log2 @ [Skipped_disk_full, Skip_warning], w\<lparr>last_skip_warn := now_steady\<rparr>, tree)
                  else (log1 @ log2 @ [Skipped_disk_full], w, tree)
             else (log1 @ log2 @ [Imwrite item], w, tree))"


subsection \<open>The calendar\<close>

definition days_in_month :: "int \<Rightarrow> int \<Rightarrow> int" where
  "days_in_month y m = (if m = 2 then if leap_year y then 29 else 28 else if m \<in> {4, 6, 9, 11} then 30 else 31)"

definition valid_date :: "int \<times> int \<times> int \<Rightarrow> bool" where
  "valid_date = (\<lambda>(y, m, d). 1970 \<le> y \<and> y \<le> 9999 \<and> 1 \<le> m \<and> m \<le> 12 \<and> 1 \<le> d \<and> d \<le> days_in_month y m)"

definition day_number :: "int \<times> int \<times> int \<Rightarrow> int" where
  "day_number = (\<lambda>(y, m, d). days_before_year y + days_before_month y (nat (m - 1)) + d - 1)"

definition earlier_date :: "int \<times> int \<times> int \<Rightarrow> int \<times> int \<times> int \<Rightarrow> bool" where
  "earlier_date = (\<lambda>(y, m, d) (y', m', d'). y < y' \<or> y = y' \<and> (m < m' \<or> m = m' \<and> d < d'))"

lemma month_cases: "1 \<le> m \<Longrightarrow> m \<le> (12 :: int) \<Longrightarrow> m \<in> {1, 2, 3, 4, 5, 6, 7, 8, 9, 10, 11, 12}"
  unfolding insert_iff empty_iff by arith

lemma days_before_month_step:
  assumes "1 \<le> m" "m < 12"
  shows "days_before_month y (nat m) = days_before_month y (nat (m - 1)) + days_in_month y m"
  using month_cases [of m] assms by (auto simp: days_before_month_def days_in_month_def)

lemma days_in_month_pos: "28 \<le> days_in_month y m" "days_in_month y m \<le> 31"
  by (auto simp: days_in_month_def)

lemma days_before_month_mono:
  assumes "1 \<le> m" "m \<le> m'" "m' \<le> 12"
  shows "days_before_month y (nat (m - 1)) \<le> days_before_month y (nat (m' - 1))"
  using assms(2,3)
proof (induction m' rule: int_ge_induct)
  case (step i)
  then show ?case using days_before_month_step [of i y] days_in_month_pos(1) [of y i] assms(1) by simp
qed simp

lemma days_before_month_bounds:
  assumes "1 \<le> m" "m \<le> 12"
  shows "0 \<le> days_before_month y (nat (m - 1))"
    "days_before_month y (nat (m - 1)) + days_in_month y m \<le> 365 + (if leap_year y then 1 else 0)"
  using month_cases [OF assms] by (auto simp: days_before_month_def days_in_month_def)

lemma div_step:
  assumes "0 < (n :: int)"
  shows "y div n = (y - 1) div n + (if n dvd y then 1 else 0)"
proof (cases "n dvd y")
  case True
  then have "(y - 1) div n = y div n - 1" using assms by (intro int_div_pos_eq [of _ n _ "n - 1"]) (auto simp: algebra_simps)
  then show ?thesis using True by simp
next
  case False
  then have "y mod n \<noteq> 0" "0 \<le> y mod n" "y mod n < n" using assms by (auto simp: dvd_eq_mod_eq_0)
  then have "(y - 1) div n = y div n" by (intro int_div_pos_eq [of _ n _ "y mod n - 1"]) auto
  then show ?thesis using False by simp
qed

lemma year_arith:
  "a' = a + i \<Longrightarrow> b' = b + j \<Longrightarrow> c' = c + k \<Longrightarrow> i - j + k = l \<Longrightarrow> 365 * (y + 1) + a' - b' + c' - n = (365 * y + a - b + c - n) + 365 + (l :: int)"
  by (simp add: algebra_simps)

lemma days_before_year_step: "days_before_year (y + 1) = days_before_year y + 365 + (if leap_year y then 1 else 0)"
proof -
  have "(100 :: int) dvd 400" "(4 :: int) dvd 100" by simp_all
  then have "400 dvd y \<Longrightarrow> 100 dvd y" "100 dvd y \<Longrightarrow> 4 dvd y" by (blast intro: dvd_trans)+
  then have "(if 4 dvd y then 1 else 0) - (if 100 dvd y then 1 else 0) + (if 400 dvd y then 1 else 0) = (if leap_year y then 1 else (0 :: int))"
    unfolding leap_year_def by (cases "400 dvd y"; cases "100 dvd y"; cases "4 dvd y"; simp only: if_True if_False simp_thms)
  then show ?thesis
    using year_arith [OF div_step [of 4 y] div_step [of 100 y] div_step [of 400 y]] unfolding days_before_year_def add_diff_cancel_right' by simp
qed

lemma days_before_year_mono: "y \<le> y' \<Longrightarrow> days_before_year y \<le> days_before_year y'"
proof (induction y' rule: int_ge_induct)
  case (step i)
  then show ?case by (simp add: days_before_year_step)
qed simp

lemma day_number_less:
  assumes "valid_date a" "valid_date b" "earlier_date a b"
  shows "day_number a < day_number b"
proof -
  obtain y m d y' m' d' where ab [simp]: "a = (y, m, d)" "b = (y', m', d')" by (metis prod.exhaust)
  note v = assms(1,2) [unfolded valid_date_def, simplified]
  consider "y < y'" | "y = y'" "m < m'" | "y = y'" "m = m'" "d < d'" using assms(3) by (auto simp: earlier_date_def)
  then show ?thesis
  proof cases
    case 1
    then have "days_before_year (y + 1) \<le> days_before_year y'" by (intro days_before_year_mono) simp
    then show ?thesis
      using v days_before_month_bounds [of m y] days_before_month_bounds(1) [of m' y']
      unfolding days_before_year_step by (simp add: day_number_def)
  next
    case 2
    then have "days_before_month y (nat m) \<le> days_before_month y (nat (m' - 1))"
      using days_before_month_mono [of "m + 1" m' y] v by simp
    then show ?thesis using 2 v days_before_month_step [of m y] by (simp add: day_number_def)
  qed (simp add: day_number_def)
qed

lemma earlier_date_total: "earlier_date a b \<or> a = b \<or> earlier_date b a"
  by (auto simp: earlier_date_def split: prod.splits)

lemma day_number_order: "valid_date a \<Longrightarrow> valid_date b \<Longrightarrow> day_number a < day_number b \<longleftrightarrow> earlier_date a b"
  using day_number_less [of a b] day_number_less [of b a] earlier_date_total [of a b] by auto

lemma day_number_nonneg: "valid_date a \<Longrightarrow> 0 \<le> day_number a"
  using days_before_year_mono [of 1970 "fst a"] days_before_month_bounds(1) [of "fst (snd a)" "fst a"]
  by (auto simp: valid_date_def day_number_def days_before_year_def split: prod.splits)

lemma timegm_end_of_day:
  assumes "valid_date (y, m, d)"
  shows "timegm y (m - 1) d 23 59 59 = day_number (y, m, d) * 86400 + 86399"
proof -
  have "(m - 1) div 12 = 0" "(m - 1) mod 12 = m - 1" using assms by (auto simp: valid_date_def)
  then show ?thesis by (simp add: timegm_def day_number_def)
qed

lemma parse_printed_day:
  assumes "valid_date (y, m, d)" and "day_path y m d = [ys, ms, ds]"
  shows "parse_dir_time ys ms ds = Some (day_number (y, m, d) * 86400 + 86399)"
proof -
  have "d \<le> 31" using assms(1) days_in_month_pos(2) [of y m] by (simp add: valid_date_def)
  then have "stoi ys = Some y" "stoi ms = Some m" "stoi ds = Some d"
    using assms by (auto simp: valid_date_def day_path_def stoi_zero_padded)
  then show ?thesis
    using day_number_nonneg [OF assms(1)] timegm_end_of_day [OF assms(1)] by (simp add: parse_dir_time_def)
qed

text \<open>
  The clean-up orders the day directories by their names.  For calendar dates of the years 1970 to
  9999 this is the order of time: the name of one day is smaller than that of another exactly when the
  day is earlier, which is when the end of the day that the regular clean-up reads back from the name is earlier.
\<close>

theorem day_paths_chronological:
  assumes "valid_date (y, m, d)" and "valid_date (y', m', d')"
  shows "(day_path y m d < day_path y' m' d' \<longleftrightarrow> earlier_date (y, m, d) (y', m', d'))
    \<and> (day_path y m d < day_path y' m' d' \<longleftrightarrow> timegm y (m - 1) d 23 59 59 < timegm y' (m' - 1) d' 23 59 59)"
proof
  have "d \<le> 31" "d' \<le> 31"
    using assms days_in_month_pos(2) [of y m] days_in_month_pos(2) [of y' m'] by (simp_all add: valid_date_def)
  then show order: "day_path y m d < day_path y' m' d' \<longleftrightarrow> earlier_date (y, m, d) (y', m', d')"
    using assms zero_padded_order [of y 4 y'] zero_padded_order [of m 2 m'] zero_padded_order [of d 2 d']
    by (auto simp: day_path_def earlier_date_def valid_date_def)
  show "day_path y m d < day_path y' m' d' \<longleftrightarrow> timegm y (m - 1) d 23 59 59 < timegm y' (m' - 1) d' 23 59 59"
    unfolding order day_number_order [OF assms, symmetric] timegm_end_of_day [OF assms(1)] timegm_end_of_day [OF assms(2)]
    by simp
qed

theorem day_paths_chronological_witness:
  "day_path 2024 2 29 < day_path 2024 3 1 \<and> timegm 2024 1 29 23 59 59 < timegm 2024 2 1 23 59 59"
  using day_paths_chronological [of 2024 2 29 2024 3 1]
  by (auto simp: valid_date_def earlier_date_def days_in_month_def leap_year_def)


subsection \<open>Regular clean-up\<close>

definition expired_path :: "int \<Rightarrow> string list \<Rightarrow> bool" where
  "expired_path cutoff p = (case p of [y, m, d] \<Rightarrow> expired_day cutoff y m d | _ \<Rightarrow> False)"

definition month_days :: "string \<Rightarrow> string \<times> node \<Rightarrow> (string list \<times> node) list" where
  "month_days y = (\<lambda>(m, mn). map (\<lambda>(d, dn). ([y, m, d], dn)) (filter (\<lambda>(d, dn). is_directory dn) (dir_entries mn)))"

definition year_days :: "string \<times> node \<Rightarrow> (string list \<times> node) list" where
  "year_days = (\<lambda>(y, yn). concat (map (month_days y) (dir_entries yn)))"

lemma day_dirs_years: "day_dirs tree = concat (map year_days (dir_entries tree))"
  by (simp add: day_dirs_def year_days_def month_days_def case_prod_unfold)

definition dropped :: "disk \<Rightarrow> int \<Rightarrow> string list \<times> node \<Rightarrow> bool" where
  "dropped dk cutoff = (\<lambda>(p, dn). expired_path cutoff p \<and> removable dk p)"

lemma clean_days_list:
  "map (\<lambda>(d, dn). ([y, m, d], dn)) (filter (\<lambda>(d, dn). is_directory dn) (filter (\<lambda>e. \<not> drops_day dk cutoff y m e) days))
     = filter (\<lambda>e. \<not> dropped dk cutoff e) (map (\<lambda>(d, dn). ([y, m, d], dn)) (filter (\<lambda>(d, dn). is_directory dn) days))
   \<and> length (filter (drops_day dk cutoff y m) days)
     = length (filter (dropped dk cutoff) (map (\<lambda>(d, dn). ([y, m, d], dn)) (filter (\<lambda>(d, dn). is_directory dn) days)))"
  by (induction days) (auto simp: drops_day_def dropped_def expired_path_def)

lemma clean_month_days:
  "month_days y (m, snd (clean_month dk cutoff y (m, nd))) = filter (\<lambda>e. \<not> dropped dk cutoff e) (month_days y (m, nd))
     \<and> fst (clean_month dk cutoff y (m, nd)) = length (filter (dropped dk cutoff) (month_days y (m, nd)))"
  using clean_days_list by (cases nd) (simp_all add: clean_month_def month_days_def)

lemma drops_empty_days: "drops_empty dk p mn \<Longrightarrow> month_days y (m, mn) = []" "drops_empty dk p yn \<Longrightarrow> year_days (y, yn) = []"
  by (simp_all add: drops_empty_def month_days_def year_days_def)

text \<open>One level of the tree: clean every entry, then drop the entries that hold no day.\<close>

lemma cleaned_level:
  assumes "\<And>k x. f (k, snd (c (k, x))) = filter (\<lambda>e. \<not> P e) (f (k, x)) \<and> fst (c (k, x)) = length (filter P (f (k, x)))"
    and "\<And>k x. g k x \<Longrightarrow> f (k, x) = []"
  shows "concat (map f (filter (\<lambda>(k, x). \<not> g k x) (map (\<lambda>(k, r). (k, snd r)) (map (\<lambda>(k, x). (k, c (k, x))) es))))
      = filter (\<lambda>e. \<not> P e) (concat (map f es))
    \<and> sum_list (map (\<lambda>(k, r). fst r) (map (\<lambda>(k, x). (k, c (k, x))) es)) = length (filter P (concat (map f es)))"
proof (induction es)
  case (Cons e es)
  obtain k x where "e = (k, x)" by (cases e)
  then show ?case using Cons assms(1) [of k x] assms(2) [of k "snd (c (k, x))"] by auto
qed simp

lemma clean_year_days:
  "year_days (y, snd (clean_year dk cutoff (y, nd))) = filter (\<lambda>e. \<not> dropped dk cutoff e) (year_days (y, nd))
     \<and> fst (clean_year dk cutoff (y, nd)) = length (filter (dropped dk cutoff) (year_days (y, nd)))"
proof (cases nd)
  case (Dir months)
  then show ?thesis
    using cleaned_level [of "month_days y" "clean_month dk cutoff y" "dropped dk cutoff" "\<lambda>m. drops_empty dk [y, m]" months]
      clean_month_days drops_empty_days(1)
    by (auto simp: clean_year_def year_days_def Let_def)
qed (simp add: clean_year_def year_days_def)

lemma CleanupOldFrameDirs_days:
  assumes "CleanupOldFrameDirs dk now days (Some tree) = (n, Some tree')"
  shows "day_dirs tree' = filter (\<lambda>e. \<not> dropped dk (now - 24 * days * 3600000) e) (day_dirs tree)
    \<and> n = length (filter (dropped dk (now - 24 * days * 3600000)) (day_dirs tree))"
proof (cases tree)
  case (Dir years)
  let ?cutoff = "now - 24 * days * 3600000"
  show ?thesis
    using assms Dir clean_year_days drops_empty_days(2)
      cleaned_level [of year_days "clean_year dk ?cutoff" "dropped dk ?cutoff" "\<lambda>y. drops_empty dk [y]" years]
    by (auto simp: CleanupOldFrameDirs_def day_dirs_years Let_def)
qed (use assms in \<open>auto simp: CleanupOldFrameDirs_def day_dirs_years\<close>)



definition sample_disk :: disk where
  "sample_disk = \<lparr>statvfs = (\<lambda>t. (0, 100, 100 - of_nat (30 * length (day_dirs t)))), removable = (\<lambda>p. True), sort_by_age = (\<lambda>fs. fs)\<rparr>"

definition sample_tree :: node where
  "sample_tree = Dir [(''2024'', Dir [(''03'', Dir [(''01'', Dir [(''a.jpg'', Reg_file 5)]), (''02'', Dir [])]), (''02'', Dir [(''29'', Dir [])])])]"


subsection \<open>Emergency clean-up\<close>

definition kids :: "string \<Rightarrow> node \<Rightarrow> node set" where
  "kids x t = {c. (x, c) \<in> set (dir_entries t)}"

definition day_at :: "node \<Rightarrow> string list \<Rightarrow> bool" where
  "day_at t p = (\<exists>y m d. p = [y, m, d] \<and> (\<exists>yn \<in> kids y t. \<exists>mn \<in> kids m yn. \<exists>dn \<in> kids d mn. is_directory dn))"

lemma day_at_Cons [simp]: "day_at t [y, m, d] = (\<exists>yn \<in> kids y t. \<exists>mn \<in> kids m yn. \<exists>dn \<in> kids d mn. is_directory dn)"
  by (simp add: day_at_def)

lemma day_dirs_iff: "p \<in> fst ` set (day_dirs t) \<longleftrightarrow> day_at t p"
proof
  assume "p \<in> fst ` set (day_dirs t)"
  then show "day_at t p" by (auto simp: day_dirs_def kids_def) blast
next
  assume "day_at t p"
  then obtain y m d yn mn dn where "p = [y, m, d]" and e: "(y, yn) \<in> set (dir_entries t)" "(m, mn) \<in> set (dir_entries yn)"
    "(d, dn) \<in> set (dir_entries mn)" "is_directory dn"
    by (auto simp: day_at_def kids_def)
  have "(p, dn) \<in> set (month_days y (m, mn))" using e \<open>p = _\<close> by (force simp: month_days_def)
  then have "(p, dn) \<in> set (year_days (y, yn))" using e by (auto simp: year_days_def)
  then have "(p, dn) \<in> set (day_dirs t)" using e by (auto simp: day_dirs_years)
  then show "p \<in> fst ` set (day_dirs t)" by force
qed

lemma is_directory_remove_at [simp]: "is_directory (remove_at p t) = is_directory t"
  by (induction p t rule: remove_at.induct) simp_all

lemma kids_remove_at [simp]:
  "kids a (remove_at [x] t) = (if a = x then {} else kids a t)"
  "kids a (remove_at (x # y # p) t) = (if a = x then remove_at (y # p) ` kids a t else kids a t)"
  by (cases t; force simp: kids_def)+

lemma day_at_cases:
  obtains (day) y m d where "p = [y, m, d]" | (other) "\<And>t. \<not> day_at t p"
  by (auto simp: day_at_def)

lemma day_at_remove_day: "day_at (remove_at [y, m, d] t) p \<longleftrightarrow> day_at t p \<and> p \<noteq> [y, m, d]"
proof (cases p rule: day_at_cases)
  case (day y' m' d')
  then show ?thesis by (cases "y' = y"; cases "m' = m"; cases "d' = d"; simp)
qed simp

lemma day_at_remove_file: "day_at (remove_at [y, m, d, f] t) p \<longleftrightarrow> day_at t p"
proof (cases p rule: day_at_cases)
  case (day y' m' d')
  then show ?thesis by (cases "y' = y"; cases "m' = m"; cases "d' = d"; simp)
qed simp

lemma pruned_level:
  assumes "\<And>k x. f (k, h k x) = f (k, x)" and "\<And>k x. g k x \<Longrightarrow> f (k, x) = []"
  shows "concat (map f (filter (\<lambda>(k, x). \<not> g k x) (map (\<lambda>(k, x). (k, h k x)) es))) = concat (map f es)"
  by (induction es) (use assms in \<open>auto, metis+\<close>)

lemma day_dirs_remove_empty: "is_directory t \<Longrightarrow> day_dirs (remove_empty_dirs dk t) = day_dirs t"
proof -
  let ?h = "\<lambda>y yn. case yn of Reg_file t \<Rightarrow> yn | Dir months \<Rightarrow> Dir (filter (\<lambda>(m, mn). \<not> drops_empty dk [y, m] mn) months)"
  have "year_days (y, ?h y yn) = year_days (y, yn)" for y yn
    using pruned_level [of "month_days y" "\<lambda>m mn. mn" "\<lambda>m. drops_empty dk [y, m]"] drops_empty_days(1)
    by (cases yn) (auto simp: year_days_def)
  then show ?thesis
    using pruned_level [of year_days ?h "\<lambda>y. drops_empty dk [y]"] drops_empty_days(2)
    by (auto simp: remove_empty_dirs_def day_dirs_years)
qed


definition after_removing :: "disk \<Rightarrow> string list list \<Rightarrow> node \<Rightarrow> nat \<Rightarrow> node" where
  "after_removing dk ds t k = fold (try_remove dk) (take k ds) t"

lemma after_removing_simps [simp]:
  "after_removing dk ds t 0 = t" "after_removing dk (p # ds) t (Suc k) = after_removing dk ds (try_remove dk p t) k"
  by (simp_all add: after_removing_def)

lemma emergency_loop_exact:
  assumes "emergency_loop dk ds t n = (ds', t', n')"
  shows "\<exists>k. n' = n + k \<and> ds' = drop k ds \<and> t' = after_removing dk ds t k \<and> (k = 0 \<or> k < length ds)
    \<and> (\<forall>j < k. GetFrameDiskUsedPercent dk (after_removing dk ds t j) \<ge> FRAME_DISK_EMERGENCY_PCT)
    \<and> (k + 1 < length ds \<longrightarrow> GetFrameDiskUsedPercent dk t' < FRAME_DISK_EMERGENCY_PCT)"
  using assms
proof (induction dk ds t n rule: emergency_loop.induct)
  case (1 dk oldest nxt rest t n)
  show ?case
  proof (cases "GetFrameDiskUsedPercent dk t \<ge> FRAME_DISK_EMERGENCY_PCT")
    case True
    then obtain k where k: "n' = n + 1 + k" "ds' = drop k (nxt # rest)" "t' = after_removing dk (nxt # rest) (try_remove dk oldest t) k"
      "k = 0 \<or> k < length (nxt # rest)"
      "\<forall>j < k. GetFrameDiskUsedPercent dk (after_removing dk (nxt # rest) (try_remove dk oldest t) j) \<ge> FRAME_DISK_EMERGENCY_PCT"
      "k + 1 < length (nxt # rest) \<longrightarrow> GetFrameDiskUsedPercent dk t' < FRAME_DISK_EMERGENCY_PCT"
      using 1 by auto
    then have "\<forall>j < Suc k. GetFrameDiskUsedPercent dk (after_removing dk (oldest # nxt # rest) t j) \<ge> FRAME_DISK_EMERGENCY_PCT"
      using True less_Suc_eq_0_disj by auto
    then show ?thesis using k by (intro exI [of _ "Suc k"]) auto
  next
    case False
    then show ?thesis using 1(2) by (intro exI [of _ 0]) auto
  qed
qed (auto intro: exI [of _ 0])

lemma day_at_try_remove: "length p = 3 \<Longrightarrow> day_at (try_remove dk p t) q \<longleftrightarrow> day_at t q \<and> \<not> (q = p \<and> removable dk p)"
  by (auto simp: try_remove_def day_at_remove_day length_Suc_conv eval_nat_numeral)

lemma day_at_after_removing:
  assumes "\<forall>p \<in> set ds. length p = 3"
  shows "day_at (after_removing dk ds t k) q \<longleftrightarrow> day_at t q \<and> \<not> (q \<in> set (take k ds) \<and> removable dk q)"
proof -
  have "day_at (fold (try_remove dk) ps t) q \<longleftrightarrow> day_at t q \<and> \<not> (q \<in> set ps \<and> removable dk q)" if "\<forall>p \<in> set ps. length p = 3" for ps
    using that by (induction ps arbitrary: t) (auto simp: day_at_try_remove)
  then show ?thesis using assms by (auto simp: after_removing_def dest: in_set_takeD)
qed

lemma is_directory_after_removing: "is_directory (after_removing dk ds t k) = is_directory t"
proof -
  have "is_directory (fold (try_remove dk) ps t) = is_directory t" for ps
    by (induction ps arbitrary: t) (auto simp: try_remove_def)
  then show ?thesis by (simp add: after_removing_def)
qed

lemma halve_files_days:
  assumes "length p = 3" "halve_files dk p t = (n, t')"
  shows "day_at t' q \<longleftrightarrow> day_at t q" "is_directory t' = is_directory t"
proof -
  have one: "day_at (try_remove dk (p @ [f]) u) q \<longleftrightarrow> day_at u q" "is_directory (try_remove dk (p @ [f]) u) = is_directory u" for f u
    using assms(1) by (auto simp: try_remove_def day_at_remove_file length_Suc_conv eval_nat_numeral)
  have "day_at (fold (\<lambda>(f, x). try_remove dk (p @ [f])) vs u) q \<longleftrightarrow> day_at u q"
    "is_directory (fold (\<lambda>(f, x). try_remove dk (p @ [f])) vs u) = is_directory u" for vs u
    by (induction vs arbitrary: u) (auto simp: one)
  then show "day_at t' q \<longleftrightarrow> day_at t q" "is_directory t' = is_directory t" using assms(2) by (auto simp: halve_files_def Let_def)
qed




end
