(* ===== verification/Detector_Unit.thy ===== *)
theory Detector_Unit
  imports Engine_Client Abnormal_Checker Setting_Manager Sort_Tracker Frame_Store
begin

text \<open>
  \<open>RtspDetectorUnit\<close> of \<open>Main/DETECTOR/src/RtspDetectorUnit.cpp\<close>, the pipeline of one camera: four threads
  joined by bounded queues.  The inference thread takes decoded frames, formats them and sends the
  requests; the response thread collects the results, filters and tracks them; the event thread runs
  the schedules and notifies; the IO worker writes the images.  This theory holds the state, the life
  cycle and the inference thread.

  One iteration of a thread is one function; what the other threads do meanwhile is an argument of the
  iteration.  The managers of the process that only hand out pointers are the record \<open>unit_links\<close>.  A
  frame is a non-null pointer.  Times are in milliseconds; the counters and clocks that are only logged
  are left out.  \<open>None\<close> is an exception that leaves the thread function (the process ends).
\<close>

subsection \<open>State\<close>

definition REINIT_THRESHOLD_COUNT :: nat where "REINIT_THRESHOLD_COUNT = 10"
definition MAGIC_DETECTION_ENGINE_NAME :: string where "MAGIC_DETECTION_ENGINE_NAME = ''DetectionEngine''"
definition SERVER_IDENTIFIER_NOT_SET :: int where "SERVER_IDENTIFIER_NOT_SET = 0"

record EngineInflight =
  inflight_subscribe_id :: int
  inflight_input_width :: int
  inflight_input_height :: int
  inflight_target_class_ids :: "(string \<times> int) list"
  inflight_inference_style :: ImageExpressStyle
  inflight_original_style :: ImageExpressStyle
  inflight_magic_name :: string

record InflightItem =
  item_frame :: av_frame
  item_engines :: "EngineInflight list"
  item_correlation_id :: u64
  item_request_time :: int
  item_inference_wait_ms :: int

record EventItem =
  event_frame :: av_frame
  track_results :: "InferObject list"

datatype unit_fun = Inference_runner | Inference_closer | Response_runner | Response_closer
  | Event_runner | Event_closer | IOWorker_runner | IOWorker_closer

record 'kf rtsp_unit =
  unit_id :: int
  inference_thread :: "unit_fun safe_thread"
  avframe_q :: "av_frame safe_queue option"
  response_thread :: "unit_fun safe_thread"
  inflight_q :: "InflightItem safe_queue option"
  event_thread :: "unit_fun safe_thread"
  event_q :: "EventItem safe_queue option"
  io_worker_thread :: "unit_fun safe_thread"
  io_work_queue :: "raw_buffer io_item safe_queue option"
  balancer :: "load_balancer option"
  trackers :: "int \<rightharpoonup> 'kf sort_tracker"
  tracker_seqs :: "int \<rightharpoonup> u32"
  class_id_person :: int
  class_id_car :: int
  frame_count :: u32
  is_initialized_service :: bool
  consecutive_mismatch_count :: nat
  stable_frame_w :: int
  stable_frame_h :: int
  subscribe_ids :: "int list"
  exclude_setting :: "bool setting"
  schedule_settings :: "AbnormalEventScheduleInfo list setting"
  is_schedule_updated :: bool
  scheduler :: "schedule list"
  socket_io_server_id :: int
  detect_fps_limit :: int
  realtime_fps :: int

definition RtspDetectorUnit_new :: "int \<Rightarrow> load_balancer option \<Rightarrow> 'kf rtsp_unit" where
  "RtspDetectorUnit_new service_unit_id lb =
     \<lparr>unit_id = service_unit_id, inference_thread = SafeThread_init, avframe_q = None, response_thread = SafeThread_init,
      inflight_q = None, event_thread = SafeThread_init, event_q = None, io_worker_thread = SafeThread_init, io_work_queue = None,
      balancer = lb, trackers = Map.empty, tracker_seqs = Map.empty, class_id_person = INFER_CLASS_ID_NOT_SET,
      class_id_car = INFER_CLASS_ID_NOT_SET, frame_count = 0, is_initialized_service = False, consecutive_mismatch_count = 0,
      stable_frame_w = 0, stable_frame_h = 0, subscribe_ids = [], exclude_setting = ISettingData_new FirstOnly False,
      schedule_settings = ISettingData_new FullArray [], is_schedule_updated = False, scheduler = [],
      socket_io_server_id = SERVER_IDENTIFIER_NOT_SET, detect_fps_limit = 30, realtime_fps = 30\<rparr>"

subsection \<open>Initialisation\<close>

text \<open>The two schedules every camera gets: three horizontal and three vertical lines for persons and for vehicles.\<close>

definition build_two_way_lines :: ROI where
  "build_two_way_lines =
     [[(0, 1/4), (1, 1/4)], [(0, 1/2), (1, 1/2)], [(0, 3/4), (1, 3/4)],
      [(1/4, 0), (1/4, 1)], [(1/2, 0), (1/2, 1)], [(3/4, 0), (3/4, 1)]]"

definition virtual_schedule :: "int \<Rightarrow> EventClass \<Rightarrow> AbnormalEventScheduleInfo" where
  "virtual_schedule sid event =
     \<lparr>schedule_id = sid, event_code = event, level_code = LowLevel, start_time = ''00:00'', range_minutes = 24 * 60,
      weekly = [1, 1, 1, 1, 1, 1, 1], roi = [], exclude_roi = [], two_way_roi = build_two_way_lines, one_way_roi = [],
      black_list_days = [], notification_min_interval_sec = 1, loitering_require_dur_sec = 0\<rparr>"

definition AddDebugVirtualLines_REMOVABLE ::
  "AbnormalEventScheduleInfo list setting \<Rightarrow> AbnormalEventScheduleInfo list setting" where
  "AddDebugVirtualLines_REMOVABLE data =
     data\<lparr>payload := payload data @ [virtual_schedule 99999 LineIntrusion, virtual_schedule 99998 VehicleIntrusion]\<rparr>"

text \<open>What the managers answer: the handlers, the frame queue of the camera, and the settings.\<close>

record unit_settings =
  cam_exclude :: "bool setting option"
  cam_schedules :: "AbnormalEventScheduleInfo list setting option"
  server_settings :: "server_setting setting option"

record unit_links =
  has_network_manager :: bool
  has_rtsp_handler :: bool
  sio_handler_id :: "int option"
  has_iostream_manager :: bool
  frame_queue :: "av_frame safe_queue option"
  setting_manager_m :: "unit_settings option"

definition exclude_callback :: "bool setting \<Rightarrow> 'kf rtsp_unit \<Rightarrow> 'kf rtsp_unit" where
  "exclude_callback newData u = u\<lparr>exclude_setting := newData\<rparr>"

definition schedule_callback :: "AbnormalEventScheduleInfo list setting \<Rightarrow> 'kf rtsp_unit \<Rightarrow> 'kf rtsp_unit" where
  "schedule_callback newData u =
     u\<lparr>schedule_settings := AddDebugVirtualLines_REMOVABLE newData, is_schedule_updated := True\<rparr>"

definition init_queues :: "'kf rtsp_unit \<Rightarrow> 'kf rtsp_unit" where
  "init_queues u =
     (let u = u\<lparr>inference_thread := SetThreadFunctions (Some Inference_runner) (Some Inference_closer) (inference_thread u)\<rparr>;
          u = u\<lparr>io_work_queue := Some (SetMaxSize 30 SafeQueue_init),
                io_worker_thread := SetThreadFunctions (Some IOWorker_runner) (Some IOWorker_closer) (io_worker_thread u)\<rparr>;
          u = u\<lparr>inflight_q := Some (SetMaxSize 10 SafeQueue_init),
                response_thread := SetThreadFunctions (Some Response_runner) (Some Response_closer) (response_thread u)\<rparr>
      in u\<lparr>event_q := Some (SetMaxSize 10 SafeQueue_init),
           event_thread := SetThreadFunctions (Some Event_runner) (Some Event_closer) (event_thread u)\<rparr>)"

definition init_settings :: "unit_settings \<Rightarrow> 'kf rtsp_unit \<Rightarrow> 'kf rtsp_unit" where
  "init_settings sm u =
     (let u = (case cam_exclude sm of Some d \<Rightarrow> u\<lparr>exclude_setting := d\<rparr> | None \<Rightarrow> u);
          u = (case cam_schedules sm of Some d \<Rightarrow> u\<lparr>schedule_settings := d\<rparr> | None \<Rightarrow> u);
          u = u\<lparr>schedule_settings := AddDebugVirtualLines_REMOVABLE (schedule_settings u)\<rparr>;
          u = (if length (payload (schedule_settings u)) > 0 then u\<lparr>is_schedule_updated := True\<rparr> else u);
          u = (case server_settings sm of Some d \<Rightarrow> u\<lparr>detect_fps_limit := inference_per_cams_fps_limit (payload d)\<rparr> | None \<Rightarrow> u)
      in u\<lparr>realtime_fps := min (detect_fps_limit u) 30, is_initialized_service := True\<rparr>)"

definition unit_Init :: "unit_links \<Rightarrow> 'kf rtsp_unit \<Rightarrow> bool \<times> 'kf rtsp_unit" where
  "unit_Init links u =
     (if unit_id u = UNIT_ID_NOT_SET then (False, u)
      else if balancer u = None then (False, u)
      else if \<not> has_network_manager links then (False, u)
      else if \<not> has_rtsp_handler links then (False, u)
      else case sio_handler_id links of
             None \<Rightarrow> (False, u)
           | Some sio_id \<Rightarrow>
               let u = u\<lparr>socket_io_server_id := sio_id\<rparr>
               in if sio_id = SERVER_IDENTIFIER_NOT_SET then (False, u)
                  else if \<not> has_iostream_manager links then (False, u)
                  else case frame_queue links of
                         None \<Rightarrow> (False, u\<lparr>avframe_q := None\<rparr>)
                       | Some q \<Rightarrow>
                           let u = u\<lparr>avframe_q := Some (SetMaxSize (2 * nat (detect_fps_limit u mod 2 ^ 64)) q)\<rparr>;
                               u = init_queues u
                           in case setting_manager_m links of
                                None \<Rightarrow> (False, u)
                              | Some sm \<Rightarrow> (True, init_settings sm u))"

subsection \<open>Closers, start and stop\<close>

definition InferenceThreadCloser :: "'kf rtsp_unit \<Rightarrow> 'kf rtsp_unit" where
  "InferenceThreadCloser u =
     (let u = u\<lparr>balancer := map_option (fold Unsubscribe (subscribe_ids u)) (balancer u)\<rparr>;
          u = u\<lparr>avframe_q := map_option (\<lambda>q. clear_without_action (terminate q)) (avframe_q u)\<rparr>
      in u\<lparr>inflight_q := map_option terminate (inflight_q u)\<rparr>)"

definition ResponseThreadCloser :: "'kf rtsp_unit \<Rightarrow> 'kf rtsp_unit" where
  "ResponseThreadCloser u =
     u\<lparr>inflight_q := map_option clear_without_action (inflight_q u), event_q := map_option terminate (event_q u)\<rparr>"

definition EventThreadCloser :: "'kf rtsp_unit \<Rightarrow> 'kf rtsp_unit" where
  "EventThreadCloser u = u\<lparr>event_q := map_option clear_without_action (event_q u)\<rparr>"

definition IOWorkerThreadCloser :: "'kf rtsp_unit \<Rightarrow> 'kf rtsp_unit" where
  "IOWorkerThreadCloser u = u\<lparr>io_work_queue := map_option (\<lambda>q. clear_without_action (terminate q)) (io_work_queue u)\<rparr>"

fun call_closer :: "unit_fun \<Rightarrow> 'kf rtsp_unit \<Rightarrow> 'kf rtsp_unit" where
  "call_closer Inference_closer u = InferenceThreadCloser u"
| "call_closer Response_closer u = ResponseThreadCloser u"
| "call_closer Event_closer u = EventThreadCloser u"
| "call_closer IOWorker_closer u = IOWorkerThreadCloser u"
| "call_closer _ u = u"

definition run_closer :: "unit_fun safe_thread \<Rightarrow> 'kf rtsp_unit \<Rightarrow> 'kf rtsp_unit" where
  "run_closer t u = (if is_running t then case thread_closer t of Some f \<Rightarrow> call_closer f u | None \<Rightarrow> u else u)"

text \<open>
  The threads start from the last consumer to the producer.  A thread whose \<open>std::thread\<close> object is
  still joinable ends the process (\<open>Inl\<close>).
\<close>

definition unit_Start :: "unit_links \<Rightarrow> 'kf rtsp_unit \<Rightarrow> thread_error + bool \<times> 'kf rtsp_unit" where
  "unit_Start links u =
     (let (ready, u) = (if is_initialized_service u then (True, u) else unit_Init links u)
      in if \<not> ready then Inr (False, u)
         else case Start (io_worker_thread u) of
           Inl e \<Rightarrow> Inl e
         | Inr (ok, t) \<Rightarrow> let u = u\<lparr>io_worker_thread := t\<rparr> in if \<not> ok then Inr (False, u)
         else case Start (event_thread u) of
           Inl e \<Rightarrow> Inl e
         | Inr (ok, t) \<Rightarrow> let u = u\<lparr>event_thread := t\<rparr> in if \<not> ok then Inr (False, u)
         else case Start (response_thread u) of
           Inl e \<Rightarrow> Inl e
         | Inr (ok, t) \<Rightarrow> let u = u\<lparr>response_thread := t\<rparr> in if \<not> ok then Inr (False, u)
         else case Start (inference_thread u) of
           Inl e \<Rightarrow> Inl e
         | Inr (ok, t) \<Rightarrow> Inr (ok, u\<lparr>inference_thread := t\<rparr>))"

text \<open>
  \<open>Stop\<close> of one thread runs its closer and joins; the arguments are what the iteration each thread is in
  still does before it ends.
\<close>

definition unit_Stop ::
  "('kf rtsp_unit \<Rightarrow> 'kf rtsp_unit) \<Rightarrow> ('kf rtsp_unit \<Rightarrow> 'kf rtsp_unit) \<Rightarrow> ('kf rtsp_unit \<Rightarrow> 'kf rtsp_unit) \<Rightarrow> 'kf rtsp_unit \<Rightarrow> 'kf rtsp_unit" where
  "unit_Stop last_inference last_response last_event u =
     (let t = inference_thread u; u = (last_inference (run_closer t u))\<lparr>inference_thread := Stop t\<rparr>;
          t = response_thread u; u = (last_response (run_closer t u))\<lparr>response_thread := Stop t\<rparr>;
          t = event_thread u; u = (last_event (run_closer t u))\<lparr>event_thread := Stop t\<rparr>;
          t = io_worker_thread u
      in (run_closer t u)\<lparr>io_worker_thread := Stop t\<rparr>)"


subsection \<open>The inference thread: setup\<close>

record inference_locals =
  detection_engines :: "engine_client list"
  context_manager :: sws_manager
  origin_ctx :: frame_context

definition IsOverTime :: "int \<Rightarrow> int \<Rightarrow> int \<Rightarrow> bool" where
  "IsOverTime t1 t2 lapse = (\<bar>t1 - t2\<bar> > lapse)"

definition IsLoadable :: "string \<Rightarrow> 'kf rtsp_unit \<Rightarrow> bool" where
  "IsLoadable target_engine_magic_name u =
     (case balancer u of
        None \<Rightarrow> False
      | Some lb \<Rightarrow> INFER_ENGINE_ID_NOT_SET \<noteq> GetAvailableInferEngineID lb (Magic_Require target_engine_magic_name))"

text \<open>The detection engine is bound and subscribed; the class ids stay with the unit for the response thread.\<close>

definition bind_engines :: "class_files \<Rightarrow> 'kf rtsp_unit \<Rightarrow> engine_client list \<times> 'kf rtsp_unit" where
  "bind_engines files u =
     (let (engines, u) =
        (if IsLoadable MAGIC_DETECTION_ENGINE_NAME u
         then case client_Init files (unit_id u) (balancer u) MAGIC_DETECTION_ENGINE_NAME ENGINE_MAGIC_TYPE_DETECTION
                     [''Person'', ''Car''] (\<lambda>_. True) EngineClient_new of
                (success, client) \<Rightarrow>
                  if success then ([client], u\<lparr>class_id_person := GetClassID ''Person'' client, class_id_car := GetClassID ''Car'' client\<rparr>)
                  else ([], u)
         else ([], u));
          u = u\<lparr>subscribe_ids := foldl (\<lambda>ids e. if client_subscribe_id e \<in> set ids then ids else insort (client_subscribe_id e) ids)
                  (subscribe_ids u) engines\<rparr>
      in (engines, u\<lparr>balancer := map_option (fold (\<lambda>sid lb. snd (Subscribe sid lb)) (subscribe_ids u)) (balancer u)\<rparr>))"

text \<open>
  The part of the runner before its loop: \<open>cam_setting\<close> is the camera's setting, \<open>gst_started\<close> whether the
  RTSP client starts, \<open>still_running\<close> the running flag when it has.  \<open>None\<close>: the runner returns.
\<close>

definition InferenceThreadRunner_setup ::
  "class_files \<Rightarrow> camera_setting setting option \<Rightarrow> bool \<Rightarrow> bool \<Rightarrow> 'kf rtsp_unit \<Rightarrow> inference_locals option \<times> 'kf rtsp_unit" where
  "InferenceThreadRunner_setup files cam_setting gst_started still_running u =
     (case bind_engines files u of
        (engines, u) \<Rightarrow>
          if cam_setting = None \<or> \<not> gst_started \<or> \<not> still_running then (None, u)
          else (Some \<lparr>detection_engines = engines, context_manager = SwsContextManager_new, origin_ctx = FrameFormattingContext_new\<rparr>,
                u\<lparr>consecutive_mismatch_count := 0\<rparr>))"

subsection \<open>The inference thread: one frame\<close>

text \<open>
  The debounce of resolution changes.  \<open>None\<close>: the frame is skipped; \<open>Some reset\<close>: it is processed, and
  \<open>reset\<close> says that the resolution has changed.
\<close>

definition check_resolution :: "av_frame \<Rightarrow> 'kf rtsp_unit \<Rightarrow> bool option \<times> 'kf rtsp_unit" where
  "check_resolution frame u =
     (let u = (if stable_frame_w u = 0 \<or> stable_frame_h u = 0
               then u\<lparr>stable_frame_w := frame_width frame, stable_frame_h := frame_height frame\<rparr> else u)
      in if frame_width frame \<noteq> stable_frame_w u \<or> frame_height frame \<noteq> stable_frame_h u
         then let u = u\<lparr>consecutive_mismatch_count := consecutive_mismatch_count u + 1\<rparr>
              in if consecutive_mismatch_count u < REINIT_THRESHOLD_COUNT then (None, u)
                 else (Some True, u\<lparr>stable_frame_w := frame_width frame, stable_frame_h := frame_height frame, consecutive_mismatch_count := 0\<rparr>)
         else (Some False, u\<lparr>consecutive_mismatch_count := 0\<rparr>))"

definition ReleaseSchedules :: "'kf rtsp_unit \<Rightarrow> 'kf rtsp_unit" where
  "ReleaseSchedules u = u\<lparr>scheduler := []\<rparr>"

definition ResetTrackers :: "'kf rtsp_unit \<Rightarrow> 'kf rtsp_unit" where
  "ResetTrackers u = u\<lparr>trackers := Map.empty, tracker_seqs := Map.empty\<rparr>"

definition event_class_checker :: "int \<Rightarrow> int \<Rightarrow> ClassEqualChecker" where
  "event_class_checker person car i tag =
     (let upper = ToUpperCase tag
      in if upper = ''PERSON'' \<and> INFER_CLASS_ID_NOT_SET \<noteq> person then i = person
         else if upper = ''CAR'' \<and> INFER_CLASS_ID_NOT_SET \<noteq> car then i = car
         else False)"

text \<open>
  The realtime rate is never updated (its branch is compiled with the condition \<open>false\<close>), so only the two
  other triggers remain; the schedule does not use the rate.
\<close>

definition update_schedules :: "clock \<Rightarrow> int \<Rightarrow> int \<Rightarrow> bool \<Rightarrow> 'kf rtsp_unit \<Rightarrow> 'kf rtsp_unit" where
  "update_schedules clk person car reset u =
     (if is_schedule_updated u \<or> reset
      then let u = ReleaseSchedules u;
               schedule_capture = schedule_settings u;
               u = u\<lparr>is_schedule_updated := False\<rparr>;
               u = (if reset then ResetTrackers u else u)
           in u\<lparr>scheduler := scheduler u @ map (\<lambda>sch. Schedule_new clk sch (stable_frame_w u) (stable_frame_h u)
                  (Some (event_class_checker person car))) (payload schedule_capture)\<rparr>
      else u)"

text \<open>The resolutions required by the active engines, in the order of \<open>std::set\<close>.\<close>

definition resolution_keys :: "engine_client list \<Rightarrow> (int \<times> int) list" where
  "resolution_keys engines = sort_key fst (sort_key snd (remdups (map (\<lambda>e. (input_width e, input_height e)) engines)))"

definition set_pixel_format :: "frame_context \<Rightarrow> frame_context" where
  "set_pixel_format ctx = ctx\<lparr>inference_style := (inference_style ctx)\<lparr>style_format := pixel_int\<rparr>\<rparr>"

text \<open>\<open>released k\<close>: what was left in the previous blob of resolution \<open>k\<close> when the context was its last owner.\<close>

fun preprocess ::
  "ffmpeg \<Rightarrow> (int \<times> int \<Rightarrow> raw_buffer option) \<Rightarrow> av_frame \<Rightarrow> (int \<times> int) list \<Rightarrow> sws_manager \<Rightarrow> (bool \<times> sws_manager) option" where
  "preprocess ff released frame [] m = Some (True, m)"
| "preprocess ff released frame ((w, h) # keys) m =
     (case GetContext w h (Some frame) m of
        (None, m) \<Rightarrow> None
      | (Some ctx, m) \<Rightarrow>
          (case Update ff (frame_width frame) (frame_height frame) w h (frame_format frame) ctx of
             (False, ctx) \<Rightarrow> Some (False, put_context w h ctx m)
           | (True, ctx) \<Rightarrow>
               (case Convert ff (Some frame) False True (released (w, h)) (set_pixel_format ctx) of
                  None \<Rightarrow> None
                | Some (False, ctx) \<Rightarrow> Some (False, put_context w h ctx m)
                | Some (True, ctx) \<Rightarrow>
                    if \<not> IsReadyForInference ctx then Some (False, put_context w h ctx m)
                    else preprocess ff released frame keys (put_context w h ctx m))))"

text \<open>The requests; \<open>race k\<close>: what other threads do to the chosen input queue during the \<open>k\<close>-th request.\<close>

fun request_engines ::
  "(nat \<Rightarrow> InputLayerWrapper sq_call list) \<Rightarrow> nat \<Rightarrow> av_frame \<Rightarrow> u64 \<Rightarrow> engine_client list \<Rightarrow> sws_manager \<Rightarrow> load_balancer \<Rightarrow>
   (engine_client list \<times> sws_manager \<times> load_balancer) option" where
  "request_engines race k frame corr [] m lb = Some ([], m, lb)"
| "request_engines race k frame corr (e # es) m lb =
     (case GetContext (input_width e) (input_height e) (Some frame) m of
        (ctx, m) \<Rightarrow>
          (case BuildRequest ctx corr e of
             None \<Rightarrow> None
           | Some req \<Rightarrow>
               (case RequestAsync (race k) req lb of
                  None \<Rightarrow> None
                | Some (ok, lb) \<Rightarrow>
                    map_option (\<lambda>(requested, r). ((if ok then [e] else []) @ requested, r))
                      (request_engines race (Suc k) frame corr es m lb))))"

definition engine_inflight :: "sws_manager \<Rightarrow> engine_client \<Rightarrow> EngineInflight" where
  "engine_inflight m e =
     (let ctx = contexts m (input_width e, input_height e)
      in \<lparr>inflight_subscribe_id = client_subscribe_id e, inflight_input_width = input_width e, inflight_input_height = input_height e,
          inflight_target_class_ids = target_class_ids e,
          inflight_inference_style = (case ctx of Some c \<Rightarrow> inference_style c | None \<Rightarrow> ImageExpressStyle_default),
          inflight_original_style = (case ctx of Some c \<Rightarrow> original_style c | None \<Rightarrow> ImageExpressStyle_default),
          inflight_magic_name = magic_name e\<rparr>)"

text \<open>
  What happens around one iteration: the calls of the producer while the thread waits for a frame,
  the clock, the races of the requests, the returned buffers and the time of the request.
\<close>

record inference_env =
  frame_wakes :: "av_frame sq_call list list"
  inference_clock :: clock
  request_race :: "nat \<Rightarrow> InputLayerWrapper sq_call list"
  released_blobs :: "int \<times> int \<Rightarrow> raw_buffer option"
  request_now :: int

definition send_frame :: "ffmpeg \<Rightarrow> inference_env \<Rightarrow> av_frame \<Rightarrow> inference_locals \<Rightarrow> 'kf rtsp_unit \<Rightarrow> (inference_locals \<times> 'kf rtsp_unit) option" where
  "send_frame ff env frame l u =
     (let active = filter (\<lambda>e. is_active_condition e RGB) (detection_engines l)
      in if active = [] then Some (l, u)
         else case preprocess ff (released_blobs env) frame (resolution_keys active) (context_manager l) of
                None \<Rightarrow> None
              | Some (ok, m) \<Rightarrow>
                  if \<not> ok then Some (l\<lparr>context_manager := m\<rparr>, u)
                  else let corr = ucast (frame_count u); u = u\<lparr>frame_count := frame_count u + 1\<rparr>
                       in case balancer u of
                            None \<Rightarrow> None
                          | Some lb \<Rightarrow>
                              (case request_engines (request_race env) 0 frame corr active m lb of
                                 None \<Rightarrow> None
                               | Some (requested, m, lb) \<Rightarrow>
                                   let l = l\<lparr>context_manager := m\<rparr>; u = u\<lparr>balancer := Some lb\<rparr>
                                   in if requested = [] then Some (l, u)
                                      else let item = \<lparr>item_frame = frame, item_engines = map (engine_inflight m) requested,
                                                 item_correlation_id = corr, item_request_time = request_now env,
                                                 item_inference_wait_ms = 5000\<rparr>
                                           in Some (l, u\<lparr>inflight_q := map_option (enqueue_move item) (inflight_q u)\<rparr>)))"

definition process_frame :: "ffmpeg \<Rightarrow> inference_env \<Rightarrow> av_frame \<Rightarrow> inference_locals \<Rightarrow> 'kf rtsp_unit \<Rightarrow> (inference_locals \<times> 'kf rtsp_unit) option" where
  "process_frame ff env frame l u =
     (case check_resolution frame u of
        (None, u) \<Rightarrow> Some (l, u)
      | (Some reset, u) \<Rightarrow>
          let l = (if reset then l\<lparr>context_manager := ClearAll (context_manager l)\<rparr> else l);
              u = update_schedules (inference_clock env) (class_id_person u) (class_id_car u) reset u;
              l = l\<lparr>origin_ctx := snd (Update ff (frame_width frame) (frame_height frame) (frame_width frame) (frame_height frame)
                       (frame_format frame) (origin_ctx l))\<rparr>
          in send_frame ff env frame l u)"

definition inference_cycle :: "ffmpeg \<Rightarrow> inference_env \<Rightarrow> inference_locals \<Rightarrow> 'kf rtsp_unit \<Rightarrow> (inference_locals \<times> 'kf rtsp_unit) option" where
  "inference_cycle ff env l u =
     (case avframe_q u of
        None \<Rightarrow> None
      | Some q \<Rightarrow>
          (case dequeue_wait_for (frame_wakes env) q of
             (opt_frame, q) \<Rightarrow>
               let u = u\<lparr>avframe_q := Some q\<rparr>
               in case opt_frame of
                    None \<Rightarrow> Some (l, u)
                  | Some frame \<Rightarrow>
                      (case balancer u of
                         None \<Rightarrow> None
                       | Some lb \<Rightarrow>
                           if \<not> IsLoadEngine lb then Some (l, u)
                           else if \<not> is_empty (exclude_setting u) then Some (l, u)
                           else process_frame ff env frame l u)))"


subsection \<open>The debounce of the resolution\<close>

definition frame_size :: "av_frame \<Rightarrow> int \<times> int" where
  "frame_size f = (frame_width f, frame_height f)"

definition stable_size :: "'kf rtsp_unit \<Rightarrow> int \<times> int" where
  "stable_size u = (stable_frame_w u, stable_frame_h u)"

text \<open>The frames that pass the check, with their reset flags.\<close>

fun resolution_run :: "av_frame list \<Rightarrow> 'kf rtsp_unit \<Rightarrow> (av_frame \<times> bool) list \<times> 'kf rtsp_unit" where
  "resolution_run [] u = ([], u)"
| "resolution_run (f # fs) u =
     (case check_resolution f u of
        (None, u) \<Rightarrow> resolution_run fs u
      | (Some reset, u) \<Rightarrow> (case resolution_run fs u of (passed, u) \<Rightarrow> ((f, reset) # passed, u)))"

text \<open>No ten mismatches in a row, given that \<open>c\<close> have just been seen.\<close>

fun short_gaps :: "nat \<Rightarrow> bool list \<Rightarrow> bool" where
  "short_gaps c [] = True"
| "short_gaps c (b # bs) = (if b then short_gaps 0 bs else c + 1 < REINIT_THRESHOLD_COUNT \<and> short_gaps (c + 1) bs)"

lemma short_gapsI:
  "c < REINIT_THRESHOLD_COUNT \<Longrightarrow>
   (\<And>i. i + REINIT_THRESHOLD_COUNT \<le> c + length bs \<Longrightarrow> \<exists>j < REINIT_THRESHOLD_COUNT. (replicate c False @ bs) ! (i + j)) \<Longrightarrow> short_gaps c bs"
proof (induction bs arbitrary: c)
  case (Cons b bs)
  note window = Cons.prems(2)
  show ?case
  proof (cases b)
    case True
    have "\<exists>j < REINIT_THRESHOLD_COUNT. (replicate 0 False @ bs) ! (i + j)" if "i + REINIT_THRESHOLD_COUNT \<le> 0 + length bs" for i
      using window [of "Suc c + i"] that by (auto simp: nth_append)
    then have "short_gaps 0 bs" by (intro Cons.IH) (auto simp: REINIT_THRESHOLD_COUNT_def)
    then show ?thesis using True by simp
  next
    case False
    have same: "replicate c False @ b # bs = replicate (Suc c) False @ bs" using False by (simp add: replicate_app_Cons_same)
    have "Suc c < REINIT_THRESHOLD_COUNT"
    proof (rule ccontr)
      assume "\<not> Suc c < REINIT_THRESHOLD_COUNT"
      then have full: "Suc c = REINIT_THRESHOLD_COUNT" using Cons.prems(1) by simp
      obtain j where "j < REINIT_THRESHOLD_COUNT" "(replicate (Suc c) False @ bs) ! (0 + j)"
        using window [of 0] full unfolding same by auto
      then show False using full by (simp add: nth_append del: replicate_Suc)
    qed
    moreover have "short_gaps (Suc c) bs"
      by (rule Cons.IH [OF calculation]) (use window same in \<open>auto simp del: replicate_Suc\<close>)
    ultimately show ?thesis using False by simp
  qed
qed simp

lemma check_resolution_cases:
  assumes "stable_frame_w u \<noteq> 0" "stable_frame_h u \<noteq> 0"
  shows "check_resolution f u =
    (if frame_size f = stable_size u then (Some False, u\<lparr>consecutive_mismatch_count := 0\<rparr>)
     else if consecutive_mismatch_count u + 1 < REINIT_THRESHOLD_COUNT
     then (None, u\<lparr>consecutive_mismatch_count := consecutive_mismatch_count u + 1\<rparr>)
     else (Some True, u\<lparr>stable_frame_w := frame_width f, stable_frame_h := frame_height f, consecutive_mismatch_count := 0\<rparr>))"
  using assms by (auto simp: check_resolution_def frame_size_def stable_size_def Let_def)

lemma check_resolution_passes:
  "check_resolution f u = (Some reset, u') \<Longrightarrow> stable_size u' = frame_size f \<and> consecutive_mismatch_count u' = 0"
  by (auto simp: check_resolution_def stable_size_def frame_size_def Let_def split: if_splits)

lemma resolution_run_short:
  assumes "stable_size u = (w, h)" "w \<noteq> 0" "h \<noteq> 0" "short_gaps (consecutive_mismatch_count u) (map (\<lambda>f. frame_size f = (w, h)) fs)"
  shows "\<exists>u'. resolution_run fs u = (map (\<lambda>f. (f, False)) (filter (\<lambda>f. frame_size f = (w, h)) fs), u') \<and> stable_size u' = (w, h)"
  using assms
proof (induction fs arbitrary: u)
  case (Cons f fs)
  have nz: "stable_frame_w u \<noteq> 0" "stable_frame_h u \<noteq> 0" using Cons.prems by (auto simp: stable_size_def)
  note check = check_resolution_cases [OF nz, of f]
  show ?case
  proof (cases "frame_size f = (w, h)")
    case True
    let ?u = "u\<lparr>consecutive_mismatch_count := 0\<rparr>"
    have "\<exists>u'. resolution_run fs ?u = (map (\<lambda>f. (f, False)) (filter (\<lambda>f. frame_size f = (w, h)) fs), u') \<and> stable_size u' = (w, h)"
      by (rule Cons.IH) (use Cons.prems True in \<open>auto simp: stable_size_def\<close>)
    then show ?thesis using True Cons.prems(1) by (auto simp: check)
  next
    case False
    let ?u = "u\<lparr>consecutive_mismatch_count := consecutive_mismatch_count u + 1\<rparr>"
    have "\<exists>u'. resolution_run fs ?u = (map (\<lambda>f. (f, False)) (filter (\<lambda>f. frame_size f = (w, h)) fs), u') \<and> stable_size u' = (w, h)"
      by (rule Cons.IH) (use Cons.prems False in \<open>auto simp: stable_size_def\<close>)
    then show ?thesis using False Cons.prems by (auto simp: check)
  qed
qed simp

lemma resolution_run_switch:
  assumes "stable_size u = (w, h)" "w \<noteq> 0" "h \<noteq> 0" "\<forall>f \<in> set fs. frame_size f \<noteq> (w, h)" "frame_size g \<noteq> (w, h)"
    and "consecutive_mismatch_count u + length fs + 1 = REINIT_THRESHOLD_COUNT"
  shows "\<exists>u'. resolution_run (fs @ [g]) u = ([(g, True)], u') \<and> stable_size u' = frame_size g \<and> consecutive_mismatch_count u' = 0"
  using assms
proof (induction fs arbitrary: u)
  case Nil
  then show ?case using check_resolution_cases [of u g] by (auto simp: stable_size_def frame_size_def)
next
  case (Cons f fs)
  let ?u = "u\<lparr>consecutive_mismatch_count := consecutive_mismatch_count u + 1\<rparr>"
  have "\<exists>u'. resolution_run (fs @ [g]) ?u = ([(g, True)], u') \<and> stable_size u' = frame_size g \<and> consecutive_mismatch_count u' = 0"
    by (rule Cons.IH) (use Cons.prems in \<open>auto simp: stable_size_def\<close>)
  then show ?case using check_resolution_cases [of u f] Cons.prems by (auto simp: stable_size_def)
qed

text \<open>
  C31. The working resolution is debounced.  As long as every ten consecutive frames contain one of the
  working resolution, it stays and exactly the frames of that resolution are processed, in order, without
  a reset; the tenth mismatching frame in a row, and no earlier one, makes its own size the working
  resolution and resets schedules and trackers.  A processed frame always has the working resolution.
\<close>

theorem resolution_debounced:
  fixes u v :: "'kf rtsp_unit"
  assumes "stable_size u = (w, h)" and "w \<noteq> 0" "h \<noteq> 0" and "consecutive_mismatch_count u = 0"
  shows "(\<forall>fs. (\<forall>i. i + 10 \<le> length fs \<longrightarrow> (\<exists>j < 10. frame_size (fs ! (i + j)) = (w, h))) \<longrightarrow>
      (\<exists>u'. resolution_run fs u = (map (\<lambda>f. (f, False)) (filter (\<lambda>f. frame_size f = (w, h)) fs), u') \<and> stable_size u' = (w, h)))
    \<and> (\<forall>gs g. length gs = 9 \<and> (\<forall>f \<in> set (gs @ [g]). frame_size f \<noteq> (w, h)) \<longrightarrow>
      (\<exists>u'. resolution_run (gs @ [g]) u = ([(g, True)], u') \<and> stable_size u' = frame_size g \<and> consecutive_mismatch_count u' = 0))
    \<and> (\<forall>f reset v'. check_resolution f v = (Some reset, v') \<longrightarrow> stable_size v' = frame_size f)"
proof (intro conjI allI impI)
  fix fs :: "av_frame list"
  assume window: "\<forall>i. i + 10 \<le> length fs \<longrightarrow> (\<exists>j < 10. frame_size (fs ! (i + j)) = (w, h))"
  have "short_gaps 0 (map (\<lambda>f. frame_size f = (w, h)) fs)"
  proof (rule short_gapsI)
    fix i
    assume "i + REINIT_THRESHOLD_COUNT \<le> 0 + length (map (\<lambda>f. frame_size f = (w, h)) fs)"
    then have i: "i + 10 \<le> length fs" by (simp add: REINIT_THRESHOLD_COUNT_def)
    obtain j where "j < 10" "frame_size (fs ! (i + j)) = (w, h)" using window i by blast
    then show "\<exists>j < REINIT_THRESHOLD_COUNT. (replicate 0 False @ map (\<lambda>f. frame_size f = (w, h)) fs) ! (i + j)"
      using i by (intro exI [of _ j]) (simp add: REINIT_THRESHOLD_COUNT_def)
  qed (simp add: REINIT_THRESHOLD_COUNT_def)
  then show "\<exists>u'. resolution_run fs u = (map (\<lambda>f. (f, False)) (filter (\<lambda>f. frame_size f = (w, h)) fs), u') \<and> stable_size u' = (w, h)"
    using resolution_run_short assms by metis
next
  fix gs g
  assume "length gs = 9 \<and> (\<forall>f \<in> set (gs @ [g]). frame_size f \<noteq> (w, h))"
  then show "\<exists>u'. resolution_run (gs @ [g]) u = ([(g, True)], u') \<and> stable_size u' = frame_size g \<and> consecutive_mismatch_count u' = 0"
    by (intro resolution_run_switch [OF assms(1-3)]) (auto simp: assms(4) REINIT_THRESHOLD_COUNT_def)
next
  fix f reset v'
  assume "check_resolution f v = (Some reset, v')"
  then show "stable_size v' = frame_size f" using check_resolution_passes by blast
qed


definition sample_unit :: "kf_vector rtsp_unit" where
  "sample_unit = RtspDetectorUnit_new 5 (Some sample_balancer)"

definition sized_frame :: "int \<Rightarrow> int \<Rightarrow> av_frame" where
  "sized_frame w h = \<lparr>frame_width = w, frame_height = h, frame_format = 0, frame_planes = []\<rparr>"

theorem resolution_debounced_witness:
  "\<exists>u'. resolution_run [sized_frame 4 2, sized_frame 8 8, sized_frame 4 2] (sample_unit\<lparr>stable_frame_w := 4, stable_frame_h := 2\<rparr>)
     = ([(sized_frame 4 2, False), (sized_frame 4 2, False)], u') \<and> stable_size u' = (4, 2)"
  using resolution_debounced [of "sample_unit\<lparr>stable_frame_w := 4, stable_frame_h := 2\<rparr>" 4 2 sample_unit]
  by (auto simp: stable_size_def sample_unit_def RtspDetectorUnit_new_def frame_size_def sized_frame_def
      dest!: spec [of _ "[sized_frame 4 2, sized_frame 8 8, sized_frame 4 2]"])


subsection \<open>From a frame to its request\<close>

lemma Convert_keeps:
  assumes "Convert ff (Some frame) False True released ctx = Some (ok, ctx')"
  shows "\<exists>p b. ctx' = ctx\<lparr>pool_container_m := p, shared_input_blob := b\<rparr>" "ok \<Longrightarrow> sws_scale_ctx ctx \<noteq> None"
proof -
  show "\<exists>p b. ctx' = ctx\<lparr>pool_container_m := p, shared_input_blob := b\<rparr>"
  proof (cases "sws_scale_ctx ctx")
    case None
    then show ?thesis using assms by (intro exI [of _ "pool_container_m ctx"] exI [of _ "shared_input_blob ctx"]) (simp add: Convert_def)
  next
    case (Some scaler)
    show ?thesis
    proof (cases "ctx_initialized ctx")
      case False
      then show ?thesis using assms Some
        by (intro exI [of _ "pool_container_m ctx"] exI [of _ "shared_input_blob ctx"]) (simp add: Convert_def)
    next
      case True
      have blob: "ctx\<lparr>pool_container_m := p\<rparr> = ctx\<lparr>pool_container_m := p, shared_input_blob := shared_input_blob ctx\<rparr>" for p by simp
      obtain buf p where tb: "take_buffer (nat (image_buffer_size ff (target_w ctx) (target_h ctx)))
          (the (pool_container_m (if pool_container_m ctx = None then InitPool 10 ctx else ctx))) = (buf, p)" by fastforce
      let ?c = "if pool_container_m ctx = None then InitPool 10 ctx else ctx"
      have sizes: "target_w ?c = target_w ctx" "target_h ?c = target_h ctx" "line_size ?c = line_size ctx" by (simp_all add: InitPool_def line_size_def)
      obtain rok rbuf where ren: "render ff scaler frame ?c (line_size ctx) buf = Some (rok, rbuf)"
        using assms Some True tb by (auto simp: Convert_def Let_def sizes split: option.splits)
      have "ctx' = ctx\<lparr>pool_container_m := Some p\<rparr> 
          \<or> ctx' = ctx\<lparr>pool_container_m := Some (case released of None \<Rightarrow> p | Some b \<Rightarrow> release_blob b p), shared_input_blob := Some rbuf\<rparr>"
        using assms Some True tb ren unfolding Convert_def Let_def
        by (cases rok) (auto simp: sizes InitPool_def)
      then show ?thesis using blob by metis
    qed
  qed
  show "sws_scale_ctx ctx \<noteq> None" if "ok" using assms that by (auto simp: Convert_def split: option.splits)
qed

lemma framed_frame [simp]:
  "framed (ctx\<lparr>pool_container_m := p\<rparr>) = framed ctx" "framed (ctx\<lparr>shared_input_blob := b\<rparr>) = framed ctx"
  by (simp_all add: framed_def)

lemma framed_set_pixel_format: "framed ctx \<Longrightarrow> framed (set_pixel_format ctx)"
  by (simp add: set_pixel_format_def framed_style_format)

lemma cache_ok_put:
  assumes "cache_ok m" "framed ctx" "src_w ctx = current_src_w m" "src_h ctx = current_src_h m" "target_w ctx = w" "target_h ctx = h"
  shows "cache_ok (put_context w h ctx m)"
  using assms by (auto simp: cache_ok_def put_context_def)

lemma put_context_src [simp]: "current_src_w (put_context w h ctx m) = current_src_w m" "current_src_h (put_context w h ctx m) = current_src_h m"
  by (simp_all add: put_context_def)

definition formatted :: "av_frame \<Rightarrow> int \<Rightarrow> int \<Rightarrow> frame_context \<Rightarrow> bool" where
  "formatted frame w h ctx = (framed ctx \<and> sws_scale_ctx ctx \<noteq> None \<and> src_w ctx = frame_width frame \<and> src_h ctx = frame_height frame
     \<and> target_w ctx = w \<and> target_h ctx = h \<and> style_format (inference_style ctx) = pixel_int \<and> IsReadyForInference ctx)"

lemma preprocess_one:
  assumes "cache_ok m" "0 < frame_width frame" "0 < frame_height frame" "0 < w" "0 < h"
    and "preprocess ff released frame [(w, h)] m = Some (ok, m')"
  shows "cache_ok m' \<and> current_src_w m' = frame_width frame \<and> current_src_h m' = frame_height frame
    \<and> (ok \<longrightarrow> (\<exists>ctx. contexts m' (w, h) = Some ctx \<and> formatted frame w h ctx))"
proof -
  obtain c m1 where get: "GetContext w h (Some frame) m = (c, m1)" by fastforce
  obtain ctx where ctx: "c = Some ctx" "framed ctx" "cache_ok m1" "current_src_w m1 = frame_width frame" "current_src_h m1 = frame_height frame"
    by (rule GetContext_ok [OF assms(1) get]) blast
  obtain up ctx1 where upd: "Update ff (frame_width frame) (frame_height frame) w h (frame_format frame) ctx = (up, ctx1)" by fastforce
  note u = Update_framed [OF ctx(2) assms(2-5) upd]
  have put: "cache_ok (put_context w h x m1)" "current_src_w (put_context w h x m1) = frame_width frame" "current_src_h (put_context w h x m1) = frame_height frame"
    if "x = ctx1 \<or> (\<exists>p b. x = (set_pixel_format ctx1)\<lparr>pool_container_m := p, shared_input_blob := b\<rparr>)" for x
    using that u ctx(3-5) framed_set_pixel_format [OF u(1)] by (auto intro!: cache_ok_put simp: set_pixel_format_def)
  show ?thesis
  proof (cases up)
    case False
    then show ?thesis using assms(6) put [of ctx1] by (auto simp: get ctx(1) upd)
  next
    case True
    then obtain cok ctx2 where conv: "Convert ff (Some frame) False True (released (w, h)) (set_pixel_format ctx1) = Some (cok, ctx2)"
      using assms(6) by (auto simp: get ctx(1) upd split: option.splits)
    obtain p b where ctx2: "ctx2 = (set_pixel_format ctx1)\<lparr>pool_container_m := p, shared_input_blob := b\<rparr>"
      using Convert_keeps(1) [OF conv] by blast
    have m': "m' = put_context w h ctx2 m1" "ok = (cok \<and> IsReadyForInference ctx2)"
      using assms(6) True by (auto simp: get ctx(1) upd conv split: bool.splits if_splits)
    have "formatted frame w h ctx2" if "ok"
      using that m'(2) Convert_keeps(2) [OF conv] u framed_set_pixel_format [OF u(1)]
      by (auto simp: formatted_def ctx2 set_pixel_format_def)
    moreover have "contexts m' (w, h) = Some ctx2" by (simp add: m'(1) put_context_def)
    ultimately show ?thesis using put [of ctx2] ctx2 m'(1) by blast
  qed
qed

lemma GetContext_same:
  assumes "contexts m (w, h) = Some ctx" "current_src_w m = frame_width f" "current_src_h m = frame_height f"
  shows "GetContext w h (Some f) m = (Some ctx, m)"
  using assms by (simp add: GetContext_def Let_def fun_upd_idem)

lemma RequestAsync_refused: "RequestAsync race req lb = Some (False, lb') \<Longrightarrow> input_store lb' = input_store lb"
  by (auto simp: RequestAsync_def Let_def split: if_splits option.splits)

lemma resolution_keys_single [simp]: "resolution_keys [e] = [(input_width e, input_height e)]"
  by (simp add: resolution_keys_def)

lemma check_resolution_frame:
  assumes "check_resolution f u = (r, u')"
  shows "balancer u' = balancer u" "inflight_q u' = inflight_q u" "frame_count u' = frame_count u"
    "class_id_person u' = class_id_person u" "class_id_car u' = class_id_car u"
  using assms by (auto simp: check_resolution_def Let_def split: if_splits)

lemma update_schedules_frame [simp]:
  "balancer (update_schedules clk p c r u) = balancer u" "inflight_q (update_schedules clk p c r u) = inflight_q u"
  "frame_count (update_schedules clk p c r u) = frame_count u" "stable_size (update_schedules clk p c r u) = stable_size u"
  by (simp_all add: update_schedules_def ReleaseSchedules_def ResetTrackers_def stable_size_def Let_def)


lemma request_one:
  assumes "contexts m (input_width e, input_height e) = Some ctx" "formatted frame (input_width e) (input_height e) ctx"
    and "current_src_w m = frame_width frame" "current_src_h m = frame_height frame"
    and "request_meta e = Some req0" and run: "request_engines race 0 frame corr [e] m lb = Some (requested, m', lb')"
  obtains req ok where "m' = m" "in_meta req = (in_meta req0)\<lparr>correlation_id := corr\<rparr>" "image_data req = shared_input_blob ctx"
    "RequestAsync (race 0) req lb = Some (ok, lb')" "requested = (if ok then [e] else [])"
proof -
  note get = GetContext_same [OF assms(1,3,4)]
  obtain req where req: "BuildRequest (Some ctx) corr e = Some req" "in_meta req = (in_meta req0)\<lparr>correlation_id := corr\<rparr>"
    "image_data req = shared_input_blob ctx"
    using BuildRequest_fields [OF assms(5), of "Some ctx" corr] assms(2) by (auto simp: formatted_def)
  obtain ok lb1 where r: "RequestAsync (race 0) req lb = Some (ok, lb1)" using run by (auto simp: get req(1) split: option.splits)
  then have "m' = m" "lb' = lb1" "requested = (if ok then [e] else [])" using run by (simp_all add: get req(1) split: if_splits)
  then show ?thesis using that req(2,3) r by simp
qed

text \<open>What an iteration leaves when nothing was sent, and when one request was.\<close>

definition nothing_sent :: "load_balancer \<Rightarrow> InflightItem safe_queue \<Rightarrow> 'kf rtsp_unit \<Rightarrow> bool" where
  "nothing_sent lb q u' = (inflight_q u' = Some q \<and> (\<exists>lb'. balancer u' = Some lb' \<and> input_store lb' = input_store lb))"

definition item_of :: "av_frame \<Rightarrow> u64 \<Rightarrow> engine_client \<Rightarrow> frame_context \<Rightarrow> InflightItem \<Rightarrow> bool" where
  "item_of frame corr e ctx item = (item_frame item = frame \<and> item_correlation_id item = corr \<and> item_inference_wait_ms item = 5000
     \<and> (\<exists>ei. item_engines item = [ei] \<and> inflight_subscribe_id ei = client_subscribe_id e \<and> inflight_target_class_ids ei = target_class_ids e
          \<and> inflight_inference_style ei = inference_style ctx \<and> inflight_original_style ei = original_style ctx))"

lemma send_frame_exact:
  assumes run: "send_frame ff env frame l u = Some (l', u')"
    and engine: "detection_engines l = [e]" "is_active_condition e RGB" "request_meta e = Some req0" "0 < input_width e" "0 < input_height e"
    and ok: "cache_ok (context_manager l)" "0 < frame_width frame" "0 < frame_height frame" "balancer u = Some lb" "inflight_q u = Some q"
  shows "cache_ok (context_manager l') \<and> detection_engines l' = [e] \<and> stable_size u' = stable_size u
    \<and> (nothing_sent lb q u' \<or> (\<exists>ctx req lb' item. formatted frame (input_width e) (input_height e) ctx
         \<and> in_meta req = (in_meta req0)\<lparr>correlation_id := ucast (frame_count u)\<rparr> \<and> image_data req = shared_input_blob ctx
         \<and> RequestAsync (request_race env 0) req lb = Some (True, lb') \<and> balancer u' = Some lb'
         \<and> inflight_q u' = Some (enqueue_move item q) \<and> item_of frame (ucast (frame_count u)) e ctx item
         \<and> frame_count u' = frame_count u + 1))"
proof -
  have active: "filter (\<lambda>e. is_active_condition e RGB) (detection_engines l) = [e]" using engine by simp
  obtain pok m where pre: "preprocess ff (released_blobs env) frame [(input_width e, input_height e)] (context_manager l) = Some (pok, m)"
    using run by (auto simp: send_frame_def active Let_def simp del: preprocess.simps split: option.splits)
  note one = preprocess_one [OF ok(1-3) engine(4,5) pre]
  show ?thesis
  proof (cases pok)
    case False
    then have "l' = l\<lparr>context_manager := m\<rparr>" "u' = u" using run by (simp_all add: send_frame_def active pre Let_def del: preprocess.simps)
    then show ?thesis using one ok(4,5) engine(1) by (simp add: nothing_sent_def)
  next
    case True
    from one True obtain ctx where ctx: "contexts m (input_width e, input_height e) = Some ctx" "formatted frame (input_width e) (input_height e) ctx" by blast
    obtain requested m' lb' where req: "request_engines (request_race env) 0 frame (ucast (frame_count u)) [e] m lb = Some (requested, m', lb')"
      using run True ok(4) by (auto simp: send_frame_def active pre Let_def simp del: request_engines.simps preprocess.simps split: option.splits)
    obtain rq sent where rq: "m' = m" "in_meta rq = (in_meta req0)\<lparr>correlation_id := ucast (frame_count u)\<rparr>" "image_data rq = shared_input_blob ctx"
        "RequestAsync (request_race env 0) rq lb = Some (sent, lb')" "requested = (if sent then [e] else [])"
      by (rule request_one [OF ctx _ _ engine(3) req]) (use one in simp_all)
    show ?thesis
    proof (cases sent)
      case False
      then have "l' = l\<lparr>context_manager := m\<rparr>" "u' = u\<lparr>frame_count := frame_count u + 1, balancer := Some lb'\<rparr>"
        using run True ok(4) rq(1,5) by (simp_all add: send_frame_def active pre req Let_def del: request_engines.simps preprocess.simps)
      moreover have "input_store lb' = input_store lb" using RequestAsync_refused rq(4) False by simp
      ultimately show ?thesis using one ok(5) engine(1) by (simp add: nothing_sent_def stable_size_def)
    next
      case sent: True
      let ?item = "\<lparr>item_frame = frame, item_engines = [engine_inflight m e], item_correlation_id = ucast (frame_count u),
        item_request_time = request_now env, item_inference_wait_ms = 5000\<rparr>"
      have res: "l' = l\<lparr>context_manager := m\<rparr>"
        "u' = u\<lparr>frame_count := frame_count u + 1, balancer := Some lb', inflight_q := Some (enqueue_move ?item q)\<rparr>"
        using run True ok(4,5) rq(1,5) sent by (simp_all add: send_frame_def active pre req Let_def del: request_engines.simps preprocess.simps)
      have "item_of frame (ucast (frame_count u)) e ctx ?item" by (simp add: item_of_def engine_inflight_def ctx(1))
      then show ?thesis using one ctx(2) rq(2-4) sent engine(1) unfolding res
        by (intro conjI disjI2 exI [of _ ctx] exI [of _ rq] exI [of _ lb'] exI [of _ ?item]) (simp_all add: stable_size_def)
    qed
  qed
qed



definition sample_engine :: engine_client where
  "sample_engine = EngineClient_new\<lparr>client_subscribe_id := 5, input_width := 2, input_height := 2, is_active_condition := (\<lambda>_. True),
     request_meta := Some (sample_request 5), target_class_ids := [(''PERSON'', 0)]\<rparr>"

definition sample_inference_env :: inference_env where
  "sample_inference_env = \<lparr>frame_wakes = [], inference_clock = \<lparr>steady_now = 0, system_now = 0, tm_date = [], tm_wday = 0, tm_hour = 0, tm_min = 0\<rparr>,
     request_race = (\<lambda>_. []), released_blobs = (\<lambda>_. None), request_now = 0\<rparr>"

definition sample_locals :: inference_locals where
  "sample_locals = \<lparr>detection_engines = [sample_engine], context_manager = SwsContextManager_new, origin_ctx = FrameFormattingContext_new\<rparr>"

definition ready_unit :: "kf_vector rtsp_unit" where
  "ready_unit = sample_unit\<lparr>inflight_q := Some (SetMaxSize 10 SafeQueue_init)\<rparr>"

lemma sample_preprocess: "\<exists>m. preprocess sample_ffmpeg (\<lambda>_. None) (sized_frame 4 2) [(2, 2)] SwsContextManager_new = Some (True, m)"
proof -
  have up: "Update sample_ffmpeg 4 2 2 2 0 FrameFormattingContext_new = (True, sample_ctx)" by (rule sample_Update(1))
  have fr: "framed (set_pixel_format sample_ctx)" using framed_set_pixel_format Update_framed(1) [OF framed_new _ _ _ _ up] by simp
  have sc: "sws_scale_ctx (set_pixel_format sample_ctx) = Some \<lparr>sws_src_w = 4, sws_src_h = 2, sws_src_fmt = 0, sws_dst_w = 2, sws_dst_h = 1\<rparr>"
    using sample_Update(2) by (simp add: set_pixel_format_def)
  obtain ctx' blob where "Convert sample_ffmpeg (Some (sized_frame 4 2)) False True None (set_pixel_format sample_ctx) = Some (True, ctx')"
    "shared_input_blob ctx' = Some blob" "blob \<noteq> []"
    using Convert_blob [OF fr sc sample_ffmpeg_conforms, of "sized_frame 4 2" 1 "[replicate 6 7]" False None]
    by (auto simp: sample_ffmpeg_def numeral_nat)
  then show ?thesis
    using up by (auto simp: sized_frame_def GetContext_def SwsContextManager_new_def ClearAll_def Let_def IsReadyForInference_def)
qed


subsection \<open>Excluded cameras\<close>

text \<open>
  The flag of the exclude setting is never read.  Whatever a received exclude setting says, its arrival
  stops the camera: every iteration takes a frame and drops it, also when the setting that arrived says that the
  camera is not excluded.
\<close>

theorem exclude_flag_ignored:
  assumes "ExcludeCamSettingData_new j = Some d" and "inference_cycle ff env l (exclude_callback d u) = Some (l', u')"
  shows "payload d = (\<not> json_empty (if is_array j \<and> \<not> json_empty j then hd (elements j) else j))
    \<and> l' = l \<and> (\<exists>q. u' = (exclude_callback d u)\<lparr>avframe_q := q\<rparr>)"
proof -
  have d: "\<not> is_empty d" "payload d = (\<not> json_empty (if is_array j \<and> \<not> json_empty j then hd (elements j) else j))"
    using assms(1) by (auto simp: ExcludeCamSettingData_new_def construct_def UpdateFromJson_def SetUpdater_def ISettingData_new_def
        Impl_ExcludeCamSettingData_UpdateFromJsonObject_def SetEmptyFlag_def Let_def)
  have "l' = l \<and> (\<exists>q. u' = (exclude_callback d u)\<lparr>avframe_q := q\<rparr>)"
    using assms(2) d(1) by (auto simp: inference_cycle_def exclude_callback_def Let_def split: option.splits prod.splits if_splits)
  then show ?thesis using d(2) by blast
qed


theorem exclude_flag_ignored_witness:
  "\<exists>d. ExcludeCamSettingData_new (JObject []) = Some d \<and> \<not> payload d
     \<and> (\<exists>q. inference_cycle sample_ffmpeg sample_inference_env sample_locals
              (exclude_callback d (ready_unit\<lparr>avframe_q := Some (enqueue_move (sized_frame 4 2) SafeQueue_init)\<rparr>))
           = Some (sample_locals, (exclude_callback d ready_unit)\<lparr>avframe_q := q\<rparr>))"
proof -
  have new: "\<exists>d. ExcludeCamSettingData_new (JObject []) = Some d \<and> \<not> is_empty d"
    by (simp add: ExcludeCamSettingData_new_def construct_def UpdateFromJson_def SetUpdater_def ISettingData_new_def
        Impl_ExcludeCamSettingData_UpdateFromJsonObject_def SetEmptyFlag_def Let_def)
  then obtain d where d: "ExcludeCamSettingData_new (JObject []) = Some d" "\<not> is_empty d" by blast
  let ?u = "ready_unit\<lparr>avframe_q := Some (enqueue_move (sized_frame 4 2) SafeQueue_init)\<rparr>"
  have "inference_cycle sample_ffmpeg sample_inference_env sample_locals (exclude_callback d ?u) \<noteq> None"
    using d(2) by (auto simp: inference_cycle_def exclude_callback_def ready_unit_def sample_unit_def RtspDetectorUnit_new_def Let_def
        split: prod.splits option.splits)
  then obtain l' u' where run: "inference_cycle sample_ffmpeg sample_inference_env sample_locals (exclude_callback d ?u) = Some (l', u')" by auto
  from exclude_flag_ignored [OF d(1) run] show ?thesis using d(1) run by (auto simp: exclude_callback_def)
qed

end
