(* ===== verification/Detector_Response.thy ===== *)
theory Detector_Response
  imports Detector_Unit
begin

text \<open>
  The response thread of \<open>RtspDetectorUnit.cpp\<close>: it takes the items in flight one by one, waits for the
  results of their engines within the remaining time budget, keeps the objects of the wanted classes in
  camera coordinates, tracks persons and cars per class, and hands the tracks to the event thread.
\<close>

subsection \<open>One item\<close>

record response_env =
  item_wakes :: "InflightItem sq_call list list"
  respond_now :: "nat \<Rightarrow> int"
  respond_wakes :: "nat \<Rightarrow> OutputLayerWrapper sq_call list list"

datatype response_effect = Correlation_mismatch u64 u64 | Engine_skipped string | Engine_timeout string | Metadata "InferObject list"

definition is_target :: "EngineInflight \<Rightarrow> InferObject \<Rightarrow> bool" where
  "is_target ei obj = list_ex (\<lambda>(name, i). i = class_id obj) (inflight_target_class_ids ei)"

definition camera_objects :: "EngineInflight \<Rightarrow> InferObject list \<Rightarrow> InferObject list" where
  "camera_objects ei objs =
     map (\<lambda>obj. snd (ConvertInferObjectCoordinate obj (inflight_inference_style ei) (inflight_original_style ei))) (filter (is_target ei) objs)"

text \<open>The loop over the engines of an item; the result queue of the camera is read in the order of arrival.\<close>

fun collect_results ::
  "response_env \<Rightarrow> nat \<Rightarrow> InflightItem \<Rightarrow> EngineInflight list \<Rightarrow> load_balancer \<Rightarrow> InferObject list \<times> response_effect list \<times> load_balancer" where
  "collect_results env k item [] lb = ([], [], lb)"
| "collect_results env k item (ei # eis) lb =
     (let elapsed_ms = respond_now env k - item_request_time item;
          remaining_budget = item_inference_wait_ms item - to_int32 elapsed_ms
      in if remaining_budget \<le> 0
         then (case collect_results env (Suc k) item eis lb of (objs, es, lb) \<Rightarrow> (objs, Engine_skipped (inflight_magic_name ei) # es, lb))
         else case RespondAsync (inflight_subscribe_id ei) (respond_wakes env k) lb of
                (None, lb) \<Rightarrow>
                  (case collect_results env (Suc k) item eis lb of (objs, es, lb) \<Rightarrow> (objs, Engine_timeout (inflight_magic_name ei) # es, lb))
              | (Some result, lb) \<Rightarrow>
                  let mismatch = (if correlation_id (out_meta result) \<noteq> item_correlation_id item
                                  then [Correlation_mismatch (item_correlation_id item) (correlation_id (out_meta result))] else []);
                      lb = AddInferCount (inflight_subscribe_id ei) lb
                  in (case collect_results env (Suc k) item eis lb of
                        (objs, es, lb) \<Rightarrow> (camera_objects ei (out_infer_objects result) @ objs, mismatch @ es, lb)))"

text \<open>\<open>std::map\<close> of the objects by class, in the order of the class ids.\<close>

definition classified_objects :: "InferObject list \<Rightarrow> (int \<times> InferObject list) list" where
  "classified_objects objs = map (\<lambda>c. (c, filter (\<lambda>obj. class_id obj = c) objs)) (sort (remdups (map class_id objs)))"

definition track_class ::
  "'kf opencv \<Rightarrow> av_frame \<Rightarrow> int \<Rightarrow> InferObject list \<Rightarrow> 'kf rtsp_unit \<Rightarrow> (InferObject list \<times> 'kf rtsp_unit) option" where
  "track_class cv frame c objects u =
     (if c = class_id_person u \<or> c = class_id_car u
      then let tracker_style = ImageExpressStyle_new (frame_width frame) (frame_height frame) pixel_int ltx_type False 1 0 0 0 0;
               u = (if trackers u c = None
                    then u\<lparr>trackers := (trackers u)(c \<mapsto> SORTTracker_new tracker_style tracker_style), tracker_seqs := (tracker_seqs u)(c \<mapsto> 1)\<rparr>
                    else u);
               seq = (case tracker_seqs u c of None \<Rightarrow> 0 | Some n \<Rightarrow> n);
               u = u\<lparr>tracker_seqs := (tracker_seqs u)(c \<mapsto> seq + 1)\<rparr>
           in (case TrackObjects cv objects (sint seq) (the (trackers u c)) of
                 None \<Rightarrow> None
               | Some (res, t) \<Rightarrow> Some (case res of None \<Rightarrow> [] | Some tracks \<Rightarrow> tracks, u\<lparr>trackers := (trackers u)(c \<mapsto> t)\<rparr>))
      else Some (objects, u))"

fun track_all ::
  "'kf opencv \<Rightarrow> av_frame \<Rightarrow> (int \<times> InferObject list) list \<Rightarrow> 'kf rtsp_unit \<Rightarrow> (InferObject list \<times> 'kf rtsp_unit) option" where
  "track_all cv frame [] u = Some ([], u)"
| "track_all cv frame ((c, objects) # rest) u =
     (case track_class cv frame c objects u of
        None \<Rightarrow> None
      | Some (tracks, u) \<Rightarrow> map_option (\<lambda>(more, u). (tracks @ more, u)) (track_all cv frame rest u))"

text \<open>The metadata goes to the RTSP proxy, also when there is no object.\<close>

definition respond_item ::
  "'kf opencv \<Rightarrow> response_env \<Rightarrow> InflightItem \<Rightarrow> 'kf rtsp_unit \<Rightarrow> (response_effect list \<times> 'kf rtsp_unit) option" where
  "respond_item cv env item u =
     (case balancer u of
        None \<Rightarrow> None
      | Some lb \<Rightarrow>
          (case collect_results env 0 item (item_engines item) lb of
             (merged_results, effects, lb) \<Rightarrow>
               (case track_all cv (item_frame item) (classified_objects merged_results) (u\<lparr>balancer := Some lb\<rparr>) of
                  None \<Rightarrow> None
                | Some (entire_track_results, u) \<Rightarrow>
                    let effects = effects @ [Metadata entire_track_results]
                    in if entire_track_results = [] then Some (effects, u)
                       else Some (effects, u\<lparr>event_q := map_option
                              (enqueue_move \<lparr>event_frame = item_frame item, track_results = entire_track_results\<rparr>) (event_q u)\<rparr>))))"

text \<open>One iteration; the flag says whether the loop goes on.\<close>

definition response_cycle ::
  "'kf opencv \<Rightarrow> response_env \<Rightarrow> 'kf rtsp_unit \<Rightarrow> (bool \<times> response_effect list \<times> 'kf rtsp_unit) option" where
  "response_cycle cv env u =
     (case inflight_q u of
        None \<Rightarrow> Some (True, [], u)
      | Some q \<Rightarrow>
          (case dequeue_wait_for (item_wakes env) q of
             (opt_item, q) \<Rightarrow>
               let u = u\<lparr>inflight_q := Some q\<rparr>
               in case opt_item of
                    None \<Rightarrow> Some (\<not> is_terminated q, [], u)
                  | Some item \<Rightarrow> map_option (\<lambda>(es, u). (True, es, u)) (respond_item cv env item u)))"


subsection \<open>Which result an item gets\<close>

text \<open>The items the thread takes one after the other, each with its environment; the balancer is shared state.\<close>

fun collect_run ::
  "(response_env \<times> InflightItem) list \<Rightarrow> load_balancer \<Rightarrow> (InferObject list \<times> response_effect list) list \<times> load_balancer" where
  "collect_run [] lb = ([], lb)"
| "collect_run ((env, item) # rest) lb =
     (case collect_results env 0 item (item_engines item) lb of
        (objs, es, lb) \<Rightarrow> (case collect_run rest lb of (outs, lb) \<Rightarrow> ((objs, es) # outs, lb)))"

definition within_budget :: "response_env \<Rightarrow> InflightItem \<Rightarrow> bool" where
  "within_budget env item = (0 \<le> respond_now env 0 - item_request_time item
     \<and> respond_now env 0 - item_request_time item < item_inference_wait_ms item \<and> item_inference_wait_ms item < 2 ^ 31)"

definition waits_on :: "int \<Rightarrow> nat \<Rightarrow> load_balancer \<Rightarrow> bool" where
  "waits_on sid a lb = (sid \<in> subscribers lb \<and> map_of (cam_result_qs lb) sid = Some a \<and> \<not> b_terminate (result_store lb a))"

definition paired :: "InflightItem \<Rightarrow> EngineInflight \<Rightarrow> OutputLayerWrapper \<Rightarrow> InferObject list \<times> response_effect list" where
  "paired item ei r = (camera_objects ei (out_infer_objects r),
     if correlation_id (out_meta r) \<noteq> item_correlation_id item
     then [Correlation_mismatch (item_correlation_id item) (correlation_id (out_meta r))] else [])"

lemma within_budget_time: "within_budget env item \<Longrightarrow> \<not> item_inference_wait_ms item - to_int32 (respond_now env 0 - item_request_time item) \<le> 0"
  using to_int32_id [of "respond_now env 0 - item_request_time item"] by (auto simp: within_budget_def)

lemma RespondAsync_front:
  assumes "waits_on sid a lb" and "sq_q (result_store lb a) = r # rs"
  shows "\<exists>lb'. RespondAsync sid [] lb = (Some r, lb') \<and> waits_on sid a lb' \<and> sq_q (result_store lb' a) = rs"
  using assms by (auto simp: RespondAsync_def waits_on_def dequeue_wait_for_def wait_pred_def take_front_def)

lemma AddInferCount_frame [simp]:
  "waits_on sid a (AddInferCount u lb) = waits_on sid a lb" "result_store (AddInferCount u lb) = result_store lb"
  by (simp_all add: AddInferCount_def waits_on_def)

lemma collect_front:
  assumes "waits_on sid a lb" and "sq_q (result_store lb a) = r # rs"
    and "item_engines item = [ei]" "inflight_subscribe_id ei = sid" "within_budget env item" "respond_wakes env 0 = []"
  shows "\<exists>lb'. collect_results env 0 item (item_engines item) lb = (fst (paired item ei r), snd (paired item ei r), lb')
    \<and> waits_on sid a lb' \<and> sq_q (result_store lb' a) = rs"
  using RespondAsync_front [OF assms(1,2)] within_budget_time [OF assms(5)] assms(3,4,6)
  by (auto simp: paired_def Let_def)

definition answered_by :: "int \<Rightarrow> (response_env \<times> InflightItem) list \<Rightarrow> EngineInflight list \<Rightarrow> bool" where
  "answered_by sid work eis = list_all2 (\<lambda>(env, item) ei. item_engines item = [ei] \<and> inflight_subscribe_id ei = sid
     \<and> within_budget env item \<and> respond_wakes env 0 = []) work eis"

lemma collect_run_in_order:
  assumes "answered_by sid work eis" and "waits_on sid a lb" and "sq_q (result_store lb a) = rs @ rest" and "length rs = length work"
  shows "\<exists>lb'. collect_run work lb = (map (\<lambda>((env, item), ei, r). paired item ei r) (zip work (zip eis rs)), lb')
    \<and> waits_on sid a lb' \<and> sq_q (result_store lb' a) = rest"
  using assms
proof (induction work arbitrary: eis rs lb)
  case Nil
  then show ?case by (auto simp: answered_by_def)
next
  case (Cons w work)
  obtain env item where w: "w = (env, item)" by (cases w)
  obtain r rs' where rs: "rs = r # rs'" using Cons.prems(4) by (cases rs) auto
  obtain ei eis' where eis: "eis = ei # eis'" "answered_by sid work eis'"
    and one: "item_engines item = [ei]" "inflight_subscribe_id ei = sid" "within_budget env item" "respond_wakes env 0 = []"
    using Cons.prems(1) w by (auto simp: answered_by_def list_all2_Cons1)
  obtain lb1 where lb1: "collect_results env 0 item (item_engines item) lb = (fst (paired item ei r), snd (paired item ei r), lb1)"
    "waits_on sid a lb1" "sq_q (result_store lb1 a) = rs' @ rest"
    using collect_front [OF Cons.prems(2) _ one, of r "rs' @ rest"] Cons.prems(3) rs by auto
  obtain lb2 where "collect_run work lb1 = (map (\<lambda>((env, item), ei, r). paired item ei r) (zip work (zip eis' rs')), lb2)"
    "waits_on sid a lb2" "sq_q (result_store lb2 a) = rest"
    using Cons.IH [OF eis(2) lb1(2,3)] Cons.prems(4) rs by auto
  then show ?case using lb1(1) by (simp add: w rs eis(1) del: collect_results.simps)
qed

text \<open>
  Items and results are matched by their order alone.  While the results of a camera arrive in
  the order of its requests and none is missing, every item is answered with its own result, unfiltered only
  by class, and no mismatch is counted.
\<close>

theorem results_in_step:
  assumes "answered_by sid work eis" and "waits_on sid a lb" and "sq_q (result_store lb a) = rs"
    and "map (\<lambda>(env, item). item_correlation_id item) work = map (\<lambda>r. correlation_id (out_meta r)) rs"
  shows "\<exists>lb'. collect_run work lb = (map2 (\<lambda>ei r. (camera_objects ei (out_infer_objects r), [])) eis rs, lb') \<and> sq_q (result_store lb' a) = []"
proof -
  have len: "length rs = length work" using assms(4) by (metis length_map)
  obtain lb' where run: "collect_run work lb = (map (\<lambda>((env, item), ei, r). paired item ei r) (zip work (zip eis rs)), lb')"
    "sq_q (result_store lb' a) = []"
    using collect_run_in_order [OF assms(1,2), of rs "[]"] assms(3) len by auto
  have "length eis = length work" using assms(1) by (simp add: answered_by_def list_all2_lengthD)
  moreover have "item_correlation_id (snd (work ! i)) = correlation_id (out_meta (rs ! i))" if "i < length work" for i
    using arg_cong [OF assms(4), of "\<lambda>xs. xs ! i"] that len by (simp add: case_prod_unfold)
  ultimately have "map (\<lambda>((env, item), ei, r). paired item ei r) (zip work (zip eis rs)) = map2 (\<lambda>ei r. (camera_objects ei (out_infer_objects r), [])) eis rs"
    using len by (intro nth_equalityI) (simp_all add: paired_def case_prod_unfold)
  then show ?thesis using run by auto
qed


lemma deliver_waiting:
  assumes "waits_on sid a lb" and "\<forall>r \<in> set rs. requester_unit_id (out_meta r) = sid"
    and "max_size (result_store lb a) = 10" and "length (sq_q (result_store lb a)) + length rs \<le> 10"
  shows "waits_on sid a (fold deliver rs lb) \<and> sq_q (result_store (fold deliver rs lb) a) = sq_q (result_store lb a) @ rs"
  using assms
proof (induction rs arbitrary: lb)
  case (Cons r rs)
  have d: "deliver r lb = lb\<lparr>result_store := (result_store lb)(a := enqueue_move r (result_store lb a))\<rparr>"
    using Cons.prems by (simp add: deliver_def waits_on_def)
  have "waits_on sid a (deliver r lb)" "max_size (result_store (deliver r lb) a) = 10"
    "sq_q (result_store (deliver r lb) a) = sq_q (result_store lb a) @ [r]"
    using Cons.prems by (auto simp: d waits_on_def enqueue_move_copy sq_q_enqueue)
  then show ?case using Cons.IH [of "deliver r lb"] Cons.prems by simp
qed simp

text \<open>
  C38. A late result shifts every later frame.  When an item times out with its result still on the way and
  the results of this and the following frames arrive afterwards, every later item is answered with the
  objects of the frame before it: each is converted with the styles and used for the frame of the later
  item, and the only trace is the mismatch counter.  Nothing in the loop brings the two queues in step again.
\<close>

theorem late_result_shifts_frames:
  assumes "waits_on sid a lb" and "sq_q (result_store lb a) = []" and "max_size (result_store lb a) = 10"
    and "item_engines item0 = [ei0]" "inflight_subscribe_id ei0 = sid" "within_budget env0 item0" "respond_wakes env0 0 = []"
    and "answered_by sid work eis" and "length rs = length work" and "length rs \<le> 10"
    and "\<forall>r \<in> set rs. requester_unit_id (out_meta r) = sid"
    and "map (\<lambda>r. correlation_id (out_meta r)) rs = butlast (item_correlation_id item0 # map (\<lambda>(env, item). item_correlation_id item) work)"
    and "distinct (item_correlation_id item0 # map (\<lambda>(env, item). item_correlation_id item) work)"
  shows "\<exists>lb1. collect_results env0 0 item0 (item_engines item0) lb = ([], [Engine_timeout (inflight_magic_name ei0)], lb1)
    \<and> (\<exists>lb2. collect_run work (fold deliver rs lb1) =
          (map (\<lambda>((env, item), ei, r). (camera_objects ei (out_infer_objects r),
              [Correlation_mismatch (item_correlation_id item) (correlation_id (out_meta r))])) (zip work (zip eis rs)), lb2))"
proof -
  let ?c = "item_correlation_id item0 # map (\<lambda>(env, item). item_correlation_id item) work"
  have empty: "RespondAsync sid [] lb = (None, lb)"
    using assms(1,2) by (auto simp: RespondAsync_def waits_on_def dequeue_wait_for_def wait_pred_def fun_upd_idem)
  have first: "collect_results env0 0 item0 (item_engines item0) lb = ([], [Engine_timeout (inflight_magic_name ei0)], lb)"
    using within_budget_time [OF assms(6)] assms(4,5,7) empty by (simp add: Let_def)
  have del: "waits_on sid a (fold deliver rs lb)" "sq_q (result_store (fold deliver rs lb) a) = rs @ []"
    using deliver_waiting [OF assms(1,11,3)] assms(2,10) by simp_all
  obtain lb2 where run: "collect_run work (fold deliver rs lb) = (map (\<lambda>((env, item), ei, r). paired item ei r) (zip work (zip eis rs)), lb2)"
    using collect_run_in_order [OF assms(8) del assms(9)] by blast
  have ids: "correlation_id (out_meta (rs ! i)) \<noteq> item_correlation_id (snd (work ! i))" if i: "i < length work" for i
  proof -
    have "correlation_id (out_meta (rs ! i)) = butlast ?c ! i"
      using arg_cong [OF assms(12), of "\<lambda>xs. xs ! i"] i assms(9) by (simp del: butlast.simps)
    also have "\<dots> = ?c ! i" by (rule nth_butlast) (use i in \<open>auto simp del: butlast.simps\<close>)
    finally have "correlation_id (out_meta (rs ! i)) = ?c ! i" .
    moreover have "item_correlation_id (snd (work ! i)) = ?c ! Suc i" using i by (simp add: case_prod_unfold)
    ultimately show ?thesis using nth_eq_iff_index_eq [OF assms(13), of i "Suc i"] i by simp
  qed
  have len: "length eis = length work" using assms(8) by (simp add: answered_by_def list_all2_lengthD)
  have "map (\<lambda>((env, item), ei, r). paired item ei r) (zip work (zip eis rs)) =
      map (\<lambda>((env, item), ei, r). (camera_objects ei (out_infer_objects r),
              [Correlation_mismatch (item_correlation_id item) (correlation_id (out_meta r))])) (zip work (zip eis rs))"
    using ids len assms(9) by (intro nth_equalityI) (simp_all add: paired_def case_prod_unfold)
  then show ?thesis using run by (intro exI [of _ lb] conjI exI [of _ lb2] first) simp
qed


subsection \<open>Tracking\<close>

definition tracker_before :: "av_frame \<Rightarrow> int \<Rightarrow> 'kf rtsp_unit \<Rightarrow> 'kf sort_tracker \<times> u32" where
  "tracker_before frame c u =
     (case trackers u c of
        None \<Rightarrow> (let style = ImageExpressStyle_new (frame_width frame) (frame_height frame) pixel_int ltx_type False 1 0 0 0 0
                 in SORTTracker_new style style, 1)
      | Some t \<Rightarrow> (t, case tracker_seqs u c of None \<Rightarrow> 0 | Some n \<Rightarrow> n))"

definition tracked_class :: "'kf rtsp_unit \<Rightarrow> int \<Rightarrow> bool" where
  "tracked_class u c = (c = class_id_person u \<or> c = class_id_car u)"

lemma track_class_exact:
  assumes "track_class cv frame c objects u = Some (tracks, u')" and "tracker_before frame c u = (t, seq)"
  shows "class_id_person u' = class_id_person u \<and> class_id_car u' = class_id_car u
    \<and> (\<forall>d. d \<noteq> c \<longrightarrow> trackers u' d = trackers u d \<and> tracker_seqs u' d = tracker_seqs u d)
    \<and> (if tracked_class u c
       then \<exists>res t'. TrackObjects cv objects (sint seq) t = Some (res, t') \<and> trackers u' c = Some t' \<and> tracker_seqs u' c = Some (seq + 1)
          \<and> tracks = (case res of None \<Rightarrow> [] | Some ts \<Rightarrow> ts)
       else u' = u \<and> tracks = objects)"
  using assms by (cases "trackers u c")
    (auto simp: track_class_def tracker_before_def tracked_class_def Let_def split: option.splits if_splits)

lemma tracker_before_cong: "trackers u c = trackers v c \<Longrightarrow> tracker_seqs u c = tracker_seqs v c \<Longrightarrow> tracker_before frame c u = tracker_before frame c v"
  by (simp add: tracker_before_def split: option.split)

lemma track_all_exact:
  assumes "track_all cv frame groups u = Some (tracks, u')" and "distinct (map fst groups)"
  shows "\<forall>c. case map_of groups c of
      None \<Rightarrow> trackers u' c = trackers u c \<and> tracker_seqs u' c = tracker_seqs u c
    | Some objects \<Rightarrow>
        if tracked_class u c
        then \<exists>res t'. TrackObjects cv objects (sint (snd (tracker_before frame c u))) (fst (tracker_before frame c u)) = Some (res, t')
           \<and> trackers u' c = Some t' \<and> tracker_seqs u' c = Some (snd (tracker_before frame c u) + 1)
        else trackers u' c = trackers u c \<and> tracker_seqs u' c = tracker_seqs u c"
  using assms
proof (induction groups arbitrary: u tracks)
  case (Cons g groups)
  obtain c objects where g: "g = (c, objects)" by (cases g)
  obtain ts u1 more where step: "track_class cv frame c objects u = Some (ts, u1)" "track_all cv frame groups u1 = Some (more, u')"
    using Cons.prems(1) by (auto simp: g split: option.splits)
  obtain t seq where before: "tracker_before frame c u = (t, seq)" by fastforce
  note one = track_class_exact [OF step(1) before]
  have keep: "tracked_class u1 = tracked_class u" using one by (simp add: tracked_class_def fun_eq_iff)
  have other: "tracker_before frame d u1 = tracker_before frame d u" if "d \<noteq> c" for d
    using one that by (intro tracker_before_cong) auto
  have new: "map_of groups c = None" using Cons.prems(2) by (simp add: g map_of_eq_None_iff)
  have dist: "distinct (map fst groups)" using Cons.prems(2) by simp
  note rest = Cons.IH [OF step(2) dist]
  show ?case
  proof
    fix d
    show "case map_of (g # groups) d of
      None \<Rightarrow> trackers u' d = trackers u d \<and> tracker_seqs u' d = tracker_seqs u d
    | Some objects \<Rightarrow>
        if tracked_class u d
        then \<exists>res t'. TrackObjects cv objects (sint (snd (tracker_before frame d u))) (fst (tracker_before frame d u)) = Some (res, t')
           \<and> trackers u' d = Some t' \<and> tracker_seqs u' d = Some (snd (tracker_before frame d u) + 1)
        else trackers u' d = trackers u d \<and> tracker_seqs u' d = tracker_seqs u d"
    proof (cases "d = c")
      case True
      have "trackers u' c = trackers u1 c" "tracker_seqs u' c = tracker_seqs u1 c" using spec [OF rest, of c] new by simp_all
      then show ?thesis using one True by (auto simp: g before)
    next
      case False
      have "trackers u1 d = trackers u d" "tracker_seqs u1 d = tracker_seqs u d" using one False by auto
      then show ?thesis using spec [OF rest, of d, unfolded other [OF False] keep] False by (cases "map_of groups d") (simp_all add: g split: if_splits)
    qed
  qed
qed simp

lemma classified_objects_facts:
  "map_of (classified_objects objs) c = (if c \<in> class_id ` set objs then Some (filter (\<lambda>obj. class_id obj = c) objs) else None)"
  "distinct (map fst (classified_objects objs))"
  by (auto simp: classified_objects_def map_of_map_keys map_of_map_restrict restrict_map_def comp_def)

text \<open>
  C21. Exactly the trackers of the person and car classes that were detected in this frame advance: each runs once
  on the detections of its class with the next sequence number (a new tracker of the frame's size starts
  when there was none).  All other trackers stand still.  In particular a class without a detection is
  not aged, however many frames pass without one.
\<close>

theorem trackers_advance_exactly:
  assumes "respond_item cv env item u = Some (es, u')" and "balancer u = Some lb"
    and "collect_results env 0 item (item_engines item) lb = (merged, effects, lb')"
  shows "\<forall>c. if tracked_class u c \<and> c \<in> class_id ` set merged
      then \<exists>res t'. TrackObjects cv (filter (\<lambda>obj. class_id obj = c) merged) (sint (snd (tracker_before (item_frame item) c u)))
                 (fst (tracker_before (item_frame item) c u)) = Some (res, t')
              \<and> trackers u' c = Some t' \<and> tracker_seqs u' c = Some (snd (tracker_before (item_frame item) c u) + 1)
      else trackers u' c = trackers u c \<and> tracker_seqs u' c = tracker_seqs u c"
proof -
  let ?u = "u\<lparr>balancer := Some lb'\<rparr>"
  obtain tracks u1 where run: "track_all cv (item_frame item) (classified_objects merged) ?u = Some (tracks, u1)"
    using assms by (auto simp: respond_item_def split: option.splits)
  have u': "trackers u' = trackers u1" "tracker_seqs u' = tracker_seqs u1"
    using assms run by (auto simp: respond_item_def Let_def split: if_splits)
  have same: "tracked_class ?u = tracked_class u" "tracker_before (item_frame item) c ?u = tracker_before (item_frame item) c u" for c
    by (simp add: tracked_class_def fun_eq_iff) (rule tracker_before_cong; simp)
  note all = track_all_exact [OF run classified_objects_facts(2)]
  show ?thesis
  proof
    fix c
    show "if tracked_class u c \<and> c \<in> class_id ` set merged
      then \<exists>res t'. TrackObjects cv (filter (\<lambda>obj. class_id obj = c) merged) (sint (snd (tracker_before (item_frame item) c u)))
                 (fst (tracker_before (item_frame item) c u)) = Some (res, t')
              \<and> trackers u' c = Some t' \<and> tracker_seqs u' c = Some (snd (tracker_before (item_frame item) c u) + 1)
      else trackers u' c = trackers u c \<and> tracker_seqs u' c = tracker_seqs u c"
      using all [rule_format, of c] unfolding same u' classified_objects_facts(1) by (auto split: if_splits)
  qed
qed


definition sample_inflight :: EngineInflight where
  "sample_inflight = \<lparr>inflight_subscribe_id = 5, inflight_input_width = 2, inflight_input_height = 2,
     inflight_target_class_ids = [(''PERSON'', 0)], inflight_inference_style = ImageExpressStyle_default,
     inflight_original_style = ImageExpressStyle_default, inflight_magic_name = ''DetectionEngine''\<rparr>"

definition sample_item :: "u64 \<Rightarrow> InflightItem" where
  "sample_item c = \<lparr>item_frame = sized_frame 4 2, item_engines = [sample_inflight], item_correlation_id = c, item_request_time = 0,
     item_inference_wait_ms = 5000\<rparr>"

definition sample_response_env :: response_env where
  "sample_response_env = \<lparr>item_wakes = [], respond_now = (\<lambda>_. 10), respond_wakes = (\<lambda>_. [])\<rparr>"

lemma sample_waits: "waits_on 5 0 sample_balancer" "sq_q (result_store sample_balancer 0) = []" "max_size (result_store sample_balancer 0) = 10"
  by (simp_all add: waits_on_def sample_balancer_def sample_simps)

lemma sample_answered: "answered_by 5 [(sample_response_env, sample_item c)] [sample_inflight]" "within_budget sample_response_env (sample_item c)"
  by (simp_all add: answered_by_def within_budget_def sample_item_def sample_inflight_def sample_response_env_def)

theorem late_result_shifts_frames_witness:
  "\<exists>lb1 lb2. collect_results sample_response_env 0 (sample_item 0) [sample_inflight] sample_balancer = ([], [Engine_timeout ''DetectionEngine''], lb1)
     \<and> collect_run [(sample_response_env, sample_item 1)] (fold deliver [sample_result 5] lb1)
       = ([(camera_objects sample_inflight [], [Correlation_mismatch 1 0])], lb2)"
  using late_result_shifts_frames [OF sample_waits, of "sample_item 0" sample_inflight sample_response_env
      "[(sample_response_env, sample_item 1)]" "[sample_inflight]" "[sample_result 5]"] sample_answered
  by (simp add: sample_item_def sample_inflight_def sample_response_env_def sample_result_def EngineStreamMetaData_default_def
      del: collect_results.simps collect_run.simps)

theorem results_in_step_witness:
  "\<exists>lb'. collect_run [(sample_response_env, sample_item 0)] (deliver (sample_result 5) sample_balancer)
     = ([(camera_objects sample_inflight [], [])], lb')"
proof -
  have "waits_on 5 0 (deliver (sample_result 5) sample_balancer)" "sq_q (result_store (deliver (sample_result 5) sample_balancer) 0) = [sample_result 5]"
    using deliver_waiting [OF sample_waits(1), of "[sample_result 5]"] sample_waits
    by (simp_all add: sample_result_def EngineStreamMetaData_default_def)
  from results_in_step [OF sample_answered(1) this] show ?thesis
    by (auto simp: sample_item_def sample_result_def EngineStreamMetaData_default_def simp del: collect_run.simps)
qed

theorem trackers_advance_exactly_witness:
  "\<exists>es u'. respond_item sample_cv sample_response_env (sample_item 0) (ready_unit\<lparr>class_id_person := 0, trackers := [0 \<mapsto> sample_tracker]\<rparr>) = Some (es, u')
     \<and> trackers u' 0 = Some sample_tracker"
proof -
  let ?u = "ready_unit\<lparr>class_id_person := 0, trackers := [0 \<mapsto> sample_tracker]\<rparr>"
  obtain lb' where c: "collect_results sample_response_env 0 (sample_item 0) (item_engines (sample_item 0)) sample_balancer
      = ([], [Engine_timeout ''DetectionEngine''], lb')"
    using sample_waits by (auto simp: sample_item_def sample_inflight_def sample_response_env_def RespondAsync_def waits_on_def
        dequeue_wait_for_def wait_pred_def to_int32_def)
  have b: "balancer ?u = Some sample_balancer" by (simp add: ready_unit_def sample_unit_def RtspDetectorUnit_new_def)
  obtain es u' where run: "respond_item sample_cv sample_response_env (sample_item 0) ?u = Some (es, u')"
    using c b by (auto simp: respond_item_def classified_objects_def simp del: collect_results.simps)
  have "trackers u' 0 = Some sample_tracker"
    using spec [OF trackers_advance_exactly [OF run b c], of 0] by simp
  then show ?thesis using run by blast
qed

end
