(* ===== verification/Detector_Event.thy ===== *)
theory Detector_Event
  imports Detector_Response
begin

text \<open>
  The event thread of \<open>RtspDetectorUnit.cpp\<close>: every batch of tracks is shown to the schedules of the camera;
  the alarms they raise become notification messages (\<open>BuildNotifyJsonImpl_Analysis\<close>), a snapshot for the IO
  worker, and are emitted through Socket.IO and gRPC.
\<close>

subsection \<open>Notifications\<close>

fun int_of_EventClass :: "EventClass \<Rightarrow> int" where
  "int_of_EventClass NoEvent = -1"
| "int_of_EventClass LineIntrusion = 202"
| "int_of_EventClass AreaIntrusion = 203"
| "int_of_EventClass VehicleIntrusion = 209"
| "int_of_EventClass VehicleParking = 210"
| "int_of_EventClass (OtherEvent c) = c"

text \<open>\<open>strftime\<close>; the buffers hold the text of every year up to 9999.\<close>

definition strftime_readable :: "tm \<Rightarrow> string" where
  "strftime_readable t = to_string (tm_year t + 1900) @ ''-'' @ zero_padded 2 (tm_mon t + 1) @ ''-'' @ zero_padded 2 (tm_mday t) @ '' ''
     @ zero_padded 2 (tm_hours t) @ '':'' @ zero_padded 2 (tm_minutes t) @ '':'' @ zero_padded 2 (tm_seconds t)"

definition strftime_compact :: "tm \<Rightarrow> string" where
  "strftime_compact t = to_string (tm_year t + 1900) @ zero_padded 2 (tm_mon t + 1) @ zero_padded 2 (tm_mday t) @ ''_''
     @ zero_padded 2 (tm_hours t) @ zero_padded 2 (tm_minutes t) @ zero_padded 2 (tm_seconds t)"

text \<open>Assignments to members one after the other, and to a member inside members.\<close>

fun set_keys :: "(string \<times> json) list \<Rightarrow> json \<Rightarrow> json option" where
  "set_keys [] j = Some j"
| "set_keys ((k, v) # kvs) j = Option.bind (set_key j k v) (set_keys kvs)"

fun set_path :: "string list \<Rightarrow> json \<Rightarrow> json \<Rightarrow> json option" where
  "set_path [] v j = Some v"
| "set_path (k # ks) v j = Option.bind (set_path ks v (case at_key j k of Some c \<Rightarrow> c | None \<Rightarrow> JNull)) (set_key j k)"

definition BuildNotifyJsonBase :: "string \<Rightarrow> int \<Rightarrow> tm \<Rightarrow> string \<Rightarrow> 'kf rtsp_unit \<Rightarrow> json option" where
  "BuildNotifyJsonBase message_type trans_type time_info destination u = do {
     data \<leftarrow> set_keys [(''MessageType'', JString message_type), (''Message'', JNull)] JNull;
     set_keys [(''TransmissionMethod'', JInt trans_type), (''Time'', JString (strftime_readable time_info)),
       (''Source'', JString (to_string (socket_io_server_id u))), (''Destination'', JString destination), (''Data'', data)] JNull }"

definition notify_object :: "'kf rtsp_unit \<Rightarrow> EventClass \<Rightarrow> InferObject \<Rightarrow> json option" where
  "notify_object u event result = do {
     obj \<leftarrow> set_keys [(''Confidence'', JFloat (score result)), (''ClassId'', JInt (class_id result)), (''TrackId'', JInt (track_id result)),
       (''VideoWidth'', JInt (stable_frame_w u)), (''VideoHeight'', JInt (stable_frame_h u)),
       (''Box'', JArray [JInt (int_cast (bbox_x (bbox result))), JInt (int_cast (bbox_y (bbox result))),
          JInt (int_cast (bbox_x (bbox result) + bbox_w (bbox result))), JInt (int_cast (bbox_y (bbox result) + bbox_h (bbox result)))])] (JObject []);
     SetExtendedDataToJson obj result event }"

fun map_opt :: "('a \<Rightarrow> 'b option) \<Rightarrow> 'a list \<Rightarrow> 'b list option" where
  "map_opt f [] = Some []"
| "map_opt f (x # xs) = do { y \<leftarrow> f x; ys \<leftarrow> map_opt f xs; Some (y # ys) }"

definition BuildNotifyJsonImpl_Analysis ::
  "string \<Rightarrow> schedule \<Rightarrow> InferObject list \<Rightarrow> tm \<Rightarrow> string \<Rightarrow> 'kf rtsp_unit \<Rightarrow> json option" where
  "BuildNotifyJsonImpl_Analysis uuid sch abnormal_results time_info image_path u = (
     let EventCode = int_of_EventClass (event_code (sch_info sch));
         TrackId = (case abnormal_results of [] \<Rightarrow> NON_TRACKING_IDX | r # _ \<Rightarrow> track_id r);
         Uid = strftime_compact time_info @ ''_'' @ to_string (unit_id u) @ ''_'' @ to_string EventCode @ ''_'' @ uuid
     in do {
       Objects \<leftarrow> map_opt (notify_object u (event_code (sch_info sch))) abnormal_results;
       EventNotify \<leftarrow> BuildNotifyJsonBase ''EventNotifycation'' 1 time_info [] u;
       Analysis \<leftarrow> set_keys [(''Time'', JString (strftime_readable time_info)), (''Uid'', JString Uid), (''TrackId'', JInt TrackId),
         (''CameraId'', JInt (unit_id u)), (''EventCode'', JInt EventCode), (''LevelCode'', JInt (level_code (sch_info sch))),
         (''ScheduleId'', JInt (schedule_id (sch_info sch))), (''ServerId'', JInt (socket_io_server_id u)),
         (''ImagePath'', JString image_path), (''Objects'', JArray Objects), (''Confirm'', JInt 0), (''Checker'', JString [])] (JObject []);
       set_path [''Data'', ''Message'', ''Analysis''] Analysis EventNotify })"

subsection \<open>One batch of tracks\<close>

record event_env =
  event_wakes :: "EventItem sq_call list list"
  check_clock :: "nat \<Rightarrow> clock"
  local_time :: tm
  make_directory :: "string \<Rightarrow> bool"
  image_uuid :: string
  event_uuid :: "nat \<Rightarrow> string"
  event_released :: "raw_buffer option"
  has_sio_handler :: bool
  grpc_client_enabled :: bool

datatype event_effect = Events_counted string nat | Emitted string json | Grpc_broadcast json

text \<open>The loop over the schedules; the \<open>k\<close>-th reads the clock and the UUID generator at its own time.\<close>

fun check_schedules ::
  "event_env \<Rightarrow> nat \<Rightarrow> string \<Rightarrow> InferObject list \<Rightarrow> 'kf rtsp_unit \<Rightarrow> schedule list \<Rightarrow> (json list \<times> event_effect list \<times> schedule list) option" where
  "check_schedules env k path tracks u [] = Some ([], [], [])"
| "check_schedules env k path tracks u (sch # schs) =
     (case Check (check_clock env k) tracks sch of
        None \<Rightarrow> None
      | Some (on_event_results, sch') \<Rightarrow>
          if on_event_results = []
          then map_option (\<lambda>(ms, es, schs'). (ms, es, sch' # schs')) (check_schedules env (Suc k) path tracks u schs)
          else (case BuildNotifyJsonImpl_Analysis (event_uuid env k) sch' on_event_results (local_time env) path u of
                  None \<Rightarrow> None
                | Some m \<Rightarrow> map_option (\<lambda>(ms, es, schs').
                    (m # ms, Events_counted (GetEventName (event_code (sch_info sch'))) (length on_event_results) # es, sch' # schs'))
                    (check_schedules env (Suc k) path tracks u schs)))"

definition DETECTOR_MESSAGE :: string where "DETECTOR_MESSAGE = ''Message''"

definition notify_all :: "event_env \<Rightarrow> json list \<Rightarrow> event_effect list" where
  "notify_all env ms =
     (if has_sio_handler env then map (Emitted DETECTOR_MESSAGE) ms else []) @ (if grpc_client_enabled env then map Grpc_broadcast ms else [])"

definition event_item ::
  "ffmpeg \<Rightarrow> event_env \<Rightarrow> EventItem \<Rightarrow> frame_context \<Rightarrow> 'kf rtsp_unit \<Rightarrow> (event_effect list \<times> frame_context \<times> 'kf rtsp_unit) option" where
  "event_item ff env item ctx u =
     (if scheduler u = [] then Some ([], ctx, u)
      else case MakeImageSavePath (make_directory env) (local_time env) (image_uuid env) (unit_id u) FULL_FRAME_IMAGE_SAVE_ROOT_PATH of
             None \<Rightarrow> Some ([], ctx, u)
           | Some frame_path \<Rightarrow>
               (case check_schedules env 0 frame_path (track_results item) u (scheduler u) of
                  None \<Rightarrow> None
                | Some (event_list, counted, schs) \<Rightarrow>
                    let u = u\<lparr>scheduler := schs\<rparr>
                    in if event_list = [] then Some (counted, ctx, u)
                       else let frame = event_frame item;
                                ctx = snd (Update ff (frame_width frame) (frame_height frame) (frame_width frame) (frame_height frame)
                                             (frame_format frame) ctx)
                            in (case Convert ff (Some frame) True False (event_released env) ctx of
                                  None \<Rightarrow> None
                                | Some (ok, ctx) \<Rightarrow>
                                    if \<not> ok then Some (counted, ctx, u)
                                    else Some (counted @ notify_all env event_list, ctx,
                                           u\<lparr>io_work_queue := map_option (enqueue_move \<lparr>item_frame_path = frame_path, image_mat = save_snapshot_mat ctx\<rparr>)
                                               (io_work_queue u)\<rparr>))))"

definition event_cycle ::
  "ffmpeg \<Rightarrow> event_env \<Rightarrow> frame_context \<Rightarrow> 'kf rtsp_unit \<Rightarrow> (bool \<times> event_effect list \<times> frame_context \<times> 'kf rtsp_unit) option" where
  "event_cycle ff env ctx u =
     (case event_q u of
        None \<Rightarrow> Some (True, [], ctx, u)
      | Some q \<Rightarrow>
          (case dequeue_wait_for (event_wakes env) q of
             (opt_item, q) \<Rightarrow>
               let u = u\<lparr>event_q := Some q\<rparr>
               in case opt_item of
                    None \<Rightarrow> Some (\<not> is_terminated q, [], ctx, u)
                  | Some item \<Rightarrow> map_option (\<lambda>r. (True, r)) (event_item ff env item ctx u)))"


subsection \<open>The text of a notification\<close>

lemma int_of_EventClass_of_int [simp]: "int_of_EventClass (EventClass_of_int c) = c"
  by (simp add: EventClass_of_int_def)

lemma map_opt_total: "(\<And>x. x \<in> set xs \<Longrightarrow> \<exists>y. f x = Some y \<and> P x y) \<Longrightarrow> \<exists>ys. map_opt f xs = Some ys \<and> list_all2 P xs ys"
  by (induction xs) fastforce+

definition box_corners :: "InferObject \<Rightarrow> json" where
  "box_corners r = JArray [JInt (int_cast (bbox_x (bbox r))), JInt (int_cast (bbox_y (bbox r))),
     JInt (int_cast (bbox_x (bbox r) + bbox_w (bbox r))), JInt (int_cast (bbox_y (bbox r) + bbox_h (bbox r)))]"

definition describes :: "EventClass \<Rightarrow> InferObject \<Rightarrow> json \<Rightarrow> bool" where
  "describes e r j = (at_key j ''TrackId'' = Some (JInt (track_id r)) \<and> at_key j ''ClassId'' = Some (JInt (class_id r))
     \<and> at_key j ''Box'' = Some (box_corners r)
     \<and> at_key j ''Direction'' = (if e = LineIntrusion \<and> extend_data r \<noteq> [] then Some (JInt (int_cast (hd (extend_data r)))) else None)
     \<and> at_key j ''Duration'' = (if (e = AreaIntrusion \<or> e = VehicleParking) \<and> extend_data r \<noteq> []
          then Some (JInt (int_cast (hd (extend_data r)))) else None))"

lemma notify_object_describes: "\<exists>j. notify_object u e r = Some j \<and> describes e r j"
  by (cases e; cases "extend_data r") (simp_all add: notify_object_def SetExtendedDataToJson_def describes_def box_corners_def)

text \<open>
  C23. What an alarm says.  Building a notification never throws; the message is an event notification whose analysis
  names the camera, the schedule and the event code as it was received in the schedule setting, the path of
  the snapshot, the track of the first object, and lists exactly the objects that raised the alarm, in
  their order, each with its box and with the crossing direction or the stay that belongs to the event.
\<close>

theorem alarm_message_content:
  assumes "event_code (sch_info sch) = EventClass_of_int c"
  shows "\<exists>m data msg analysis objs. BuildNotifyJsonImpl_Analysis uuid sch rs t path u = Some m
    \<and> at_key m ''Data'' = Some data \<and> at_key data ''MessageType'' = Some (JString ''EventNotifycation'')
    \<and> at_key data ''Message'' = Some msg \<and> at_key msg ''Analysis'' = Some analysis
    \<and> at_key analysis ''CameraId'' = Some (JInt (unit_id u)) \<and> at_key analysis ''ScheduleId'' = Some (JInt (schedule_id (sch_info sch)))
    \<and> at_key analysis ''EventCode'' = Some (JInt c) \<and> at_key analysis ''ImagePath'' = Some (JString path)
    \<and> at_key analysis ''TrackId'' = Some (JInt (case rs of [] \<Rightarrow> NON_TRACKING_IDX | r # _ \<Rightarrow> track_id r))
    \<and> at_key analysis ''Time'' = at_key m ''Time''
    \<and> at_key analysis ''Objects'' = Some (JArray objs) \<and> list_all2 (describes (EventClass_of_int c)) rs objs"
proof -
  obtain objs where objs: "map_opt (notify_object u (EventClass_of_int c)) rs = Some objs" "list_all2 (describes (EventClass_of_int c)) rs objs"
    using map_opt_total [of rs "notify_object u (EventClass_of_int c)" "describes (EventClass_of_int c)"] notify_object_describes by blast
  show ?thesis using objs assms by (simp add: BuildNotifyJsonImpl_Analysis_def BuildNotifyJsonBase_def Let_def)
qed

lemma notification_total: "\<exists>m. BuildNotifyJsonImpl_Analysis uuid sch rs t path u = Some m"
proof -
  obtain objs where "map_opt (notify_object u (event_code (sch_info sch))) rs = Some objs"
    using map_opt_total [of rs "notify_object u (event_code (sch_info sch))" "\<lambda>_ _. True"] notify_object_describes by blast
  then show ?thesis by (simp add: BuildNotifyJsonImpl_Analysis_def BuildNotifyJsonBase_def Let_def)
qed


subsection \<open>Which alarms a batch raises\<close>

definition raised :: "nat \<Rightarrow> (InferObject list \<times> schedule) list \<Rightarrow> (nat \<times> InferObject list \<times> schedule) list" where
  "raised k outs = filter (\<lambda>(i, rs, s). rs \<noteq> []) (enumerate k outs)"

definition alarm_message :: "event_env \<Rightarrow> string \<Rightarrow> 'kf rtsp_unit \<Rightarrow> nat \<times> InferObject list \<times> schedule \<Rightarrow> json option" where
  "alarm_message env path u = (\<lambda>(i, rs, s). BuildNotifyJsonImpl_Analysis (event_uuid env i) s rs (local_time env) path u)"

definition alarm_counted :: "nat \<times> InferObject list \<times> schedule \<Rightarrow> event_effect" where
  "alarm_counted = (\<lambda>(i, rs, s). Events_counted (GetEventName (event_code (sch_info s))) (length rs))"

definition checked :: "event_env \<Rightarrow> nat \<Rightarrow> InferObject list \<Rightarrow> schedule list \<Rightarrow> (InferObject list \<times> schedule) list \<Rightarrow> bool" where
  "checked env k tracks schs outs = (length outs = length schs
     \<and> (\<forall>i < length schs. Check (check_clock env (k + i)) tracks (schs ! i) = Some (outs ! i)))"

lemma checked_Cons:
  "checked env k tracks (s # schs) (out # outs) = (Check (check_clock env k) tracks s = Some out \<and> checked env (Suc k) tracks schs outs)"
  by (auto simp: checked_def less_Suc_eq_0_disj)

lemma raised_Cons: "raised k (out # outs) = (if fst out = [] then raised (Suc k) outs else (k, out) # raised (Suc k) outs)"
  by (auto simp: raised_def case_prod_unfold)

lemma check_schedules_exact:
  assumes "list_all schedule_ok schs"
  shows "\<exists>outs ms. checked env k tracks schs outs \<and> list_all schedule_ok (map snd outs)
    \<and> map_opt (alarm_message env path u) (raised k outs) = Some ms
    \<and> check_schedules env k path tracks u schs = Some (ms, map alarm_counted (raised k outs), map snd outs)"
  using assms
proof (induction schs arbitrary: k)
  case Nil
  then show ?case by (intro exI [of _ "[]"]) (simp add: checked_def raised_def)
next
  case (Cons s schs)
  have "schedule_ok s" using Cons.prems by simp
  from Check_ok [OF this, of "check_clock env k" tracks]
  obtain rs s' where one: "Check (check_clock env k) tracks s = Some (rs, s')" "schedule_ok s'" by blast
  obtain outs ms where rest: "checked env (Suc k) tracks schs outs" "list_all schedule_ok (map snd outs)"
    "map_opt (alarm_message env path u) (raised (Suc k) outs) = Some ms"
    "check_schedules env (Suc k) path tracks u schs = Some (ms, map alarm_counted (raised (Suc k) outs), map snd outs)"
    using Cons.IH [of "Suc k"] Cons.prems by auto
  obtain m where m: "alarm_message env path u (k, rs, s') = Some m"
    using notification_total [of "event_uuid env k" s' rs "local_time env" path u] by (auto simp: alarm_message_def)
  show ?case
    by (intro exI [of _ "(rs, s') # outs"] exI [of _ "if rs = [] then ms else m # ms"])
      (use one rest m in \<open>simp add: checked_Cons raised_Cons alarm_counted_def alarm_message_def\<close>)
qed

text \<open>What became of the notifications of a batch: the effects other than the counters.\<close>

fun is_sent :: "event_effect \<Rightarrow> bool" where
  "is_sent (Events_counted n k) = False"
| "is_sent (Emitted e j) = True"
| "is_sent (Grpc_broadcast j) = True"

lemma sent_counted [simp]: "filter is_sent (map alarm_counted xs) = []"
  by (induction xs) (auto simp: alarm_counted_def)

lemma sent_notify_all [simp]: "filter is_sent (notify_all env ms) = notify_all env ms"
  by (auto simp: notify_all_def filter_map comp_def)

text \<open>
  C9. The alarms of a batch.  With well-formed schedules and a directory for the snapshot the thread never
  fails in the schedules: each schedule sees the batch once, at its own clock reading, and the thread sends exactly one
  notification per schedule that reports an object, in the order of the schedules, first over Socket.IO and then over gRPC
  (each only when connected), all naming the path under which the one snapshot is handed to the IO
  worker; when no schedule reports, nothing is sent or saved.  Only a snapshot that cannot be drawn suppresses them.
\<close>

theorem alarms_exact:
  assumes "list_all schedule_ok (scheduler u)" and "scheduler u \<noteq> []"
    and "MakeImageSavePath (make_directory env) (local_time env) (image_uuid env) (unit_id u) FULL_FRAME_IMAGE_SAVE_ROOT_PATH = Some path"
    and "snd (Update ff (frame_width (event_frame item)) (frame_height (event_frame item)) (frame_width (event_frame item))
           (frame_height (event_frame item)) (frame_format (event_frame item)) ctx) = ctx1"
    and "Convert ff (Some (event_frame item)) True False (event_released env) ctx1 = Some (drawn, ctx2)"
  shows "\<exists>outs messages effects ctx' u'. checked env 0 (track_results item) (scheduler u) outs
    \<and> map_opt (alarm_message env path u) (raised 0 outs) = Some messages
    \<and> event_item ff env item ctx u = Some (effects, ctx', u')
    \<and> scheduler u' = map snd outs \<and> list_all schedule_ok (scheduler u')
    \<and> filter is_sent effects = (if drawn \<and> has_sio_handler env then map (Emitted ''Message'') messages else [])
        @ (if drawn \<and> grpc_client_enabled env then map Grpc_broadcast messages else [])
    \<and> io_work_queue u' = (if messages \<noteq> [] \<and> drawn
         then map_option (enqueue_move \<lparr>item_frame_path = path, image_mat = save_snapshot_mat ctx2\<rparr>) (io_work_queue u) else io_work_queue u)"
proof -
  obtain outs ms where run: "checked env 0 (track_results item) (scheduler u) outs" "list_all schedule_ok (map snd outs)"
    "map_opt (alarm_message env path u) (raised 0 outs) = Some ms"
    "check_schedules env 0 path (track_results item) u (scheduler u) = Some (ms, map alarm_counted (raised 0 outs), map snd outs)"
    using check_schedules_exact [OF assms(1)] by blast
  have "notify_all env ms = (if has_sio_handler env then map (Emitted ''Message'') ms else []) @ (if grpc_client_enabled env then map Grpc_broadcast ms else [])"
    by (simp add: notify_all_def DETECTOR_MESSAGE_def)
  then show ?thesis using run assms(2-)
    by (intro exI [of _ outs] exI [of _ ms]) (simp add: event_item_def Let_def)
qed

text \<open>
  C40. An alarm whose snapshot cannot be drawn is lost for good: nothing is sent, although every schedule that
  raised one has already started its notification interval, so the same event is not reported again
  before the interval is over.
\<close>

theorem failed_snapshot_loses_alarms:
  assumes "list_all schedule_ok (scheduler u)" and "scheduler u \<noteq> []"
    and "MakeImageSavePath (make_directory env) (local_time env) (image_uuid env) (unit_id u) FULL_FRAME_IMAGE_SAVE_ROOT_PATH = Some path"
    and "snd (Update ff (frame_width (event_frame item)) (frame_height (event_frame item)) (frame_width (event_frame item))
           (frame_height (event_frame item)) (frame_format (event_frame item)) ctx) = ctx1"
    and "Convert ff (Some (event_frame item)) True False (event_released env) ctx1 = Some (False, ctx2)"
    and "i < length (scheduler u)" and "Check (check_clock env i) (track_results item) (scheduler u ! i) = Some (rs, s')" and "rs \<noteq> []"
    and "system_now clk - system_now (check_clock env i) \<le> notification_min_interval_sec (sch_info (scheduler u ! i)) * 1000"
  shows "\<exists>effects u'. event_item ff env item ctx u = Some (effects, ctx2, u') \<and> filter is_sent effects = []
    \<and> io_work_queue u' = io_work_queue u \<and> scheduler u' ! i = s'
    \<and> (\<exists>s''. Check clk tracks s' = Some ([], s''))"
proof -
  obtain outs ms where run: "checked env 0 (track_results item) (scheduler u) outs"
    "map_opt (alarm_message env path u) (raised 0 outs) = Some ms"
    "check_schedules env 0 path (track_results item) u (scheduler u) = Some (ms, map alarm_counted (raised 0 outs), map snd outs)"
    using check_schedules_exact [OF assms(1)] by blast
  have out: "outs ! i = (rs, s')" "i < length outs" using run(1) assms(6,7) by (auto simp: checked_def)
  then have "(i, rs, s') \<in> set (raised 0 outs)" using assms(8) by (auto simp: raised_def in_set_enumerate_eq)
  then have "ms \<noteq> []" using run(2) by (cases "raised 0 outs") (auto split: Option.bind_splits)
  then have item: "\<exists>effects u'. event_item ff env item ctx u = Some (effects, ctx2, u') \<and> filter is_sent effects = []
      \<and> io_work_queue u' = io_work_queue u \<and> scheduler u' ! i = s'"
    using run(3) assms(2-5) out by (simp add: event_item_def Let_def)
  have ok: "schedule_ok (scheduler u ! i)" using assms(1,6) by (simp add: list_all_length)
  have s': "schedule_ok s'" "same_settings (scheduler u ! i) s'" "last_active_time s' = system_now (check_clock env i)"
    by (rule Check_ok [OF ok, of "check_clock env i" "track_results item"]; use assms(7,8) in simp)+
  have "\<not> GetEnoughEventInterval clk s'"
    using s'(2,3) assms(9) by (simp add: GetEnoughEventInterval_def same_settings_def)
  then have "\<exists>s''. Check clk tracks s' = Some ([], s'')" using Check_ok [OF s'(1), of clk tracks] by metis
  then show ?thesis using item by blast
qed


subsection \<open>A concrete batch\<close>

lemma example_alarm:
  "\<exists>r sch'. Check (example_clock 100000) [example_box 0 60] (example_schedule LineIntrusion) = Some ([r], sch')"
proof -
  let ?sch = "example_schedule LineIntrusion" and ?boxes = "replicate 9 (example_box 0 30) @ [example_box 0 60]"
  obtain d where d: "line_direction ?sch ?boxes = Some d" "(\<exists>r \<in> set (cv_two_way_rois ?sch). path_meets ?boxes r) \<Longrightarrow> d \<noteq> NotCrossed"
    using line_direction_result [of ?boxes ?sch] example_schedule_ok [of LineIntrusion] unfolding schedule_ok_def
    by (metis Nil_is_append_conv list.distinct(1))
  have "d \<noteq> NotCrossed" using d(2) example_crossing by simp
  then have "\<exists>results sch'. Check (example_clock 100000) [example_box 0 60] ?sch = Some (results, sch') \<and> length results = 1"
    using line_check_single [where eq = example_classes, OF _ _ example_active _ _ _ _ _ _ d(1), of 100000 "example_box 0 60"]
    by (simp add: GetEnoughEventInterval_def example_info_def example_classes_def example_box_def
        IsWithinExcludeROI_def ReleaseInactiveHistory_def GetHistory_def example_clock_def)
  then show ?thesis by (auto simp: length_Suc_conv)
qed

definition sample_tm :: tm where
  "sample_tm = \<lparr>tm_year = 126, tm_mon = 0, tm_mday = 1, tm_hours = 9, tm_minutes = 5, tm_seconds = 7\<rparr>"

definition sample_event_env :: event_env where
  "sample_event_env = \<lparr>event_wakes = [], check_clock = (\<lambda>k. example_clock 100000), local_time = sample_tm, make_directory = (\<lambda>d. True),
     image_uuid = ''u'', event_uuid = (\<lambda>k. ''e''), event_released = None, has_sio_handler = True, grpc_client_enabled = False\<rparr>"

definition sample_event_item :: EventItem where
  "sample_event_item = \<lparr>event_frame = sized_frame 4 2, track_results = [example_box 0 60]\<rparr>"

definition alarm_unit :: "kf_vector rtsp_unit" where
  "alarm_unit = sample_unit\<lparr>scheduler := [example_schedule LineIntrusion], io_work_queue := Some SafeQueue_init\<rparr>"

lemma sample_event_path: "\<exists>path. MakeImageSavePath (make_directory sample_event_env) (local_time sample_event_env) (image_uuid sample_event_env)
    (unit_id alarm_unit) FULL_FRAME_IMAGE_SAVE_ROOT_PATH = Some path"
  by (simp add: sample_event_env_def MakeImageSavePath_def Let_def)

theorem alarm_message_content_witness:
  "\<exists>m data msg analysis. BuildNotifyJsonImpl_Analysis ''e'' (example_schedule LineIntrusion) [example_box 0 60] sample_tm ''/frame/a.jpg'' alarm_unit = Some m
    \<and> at_key m ''Data'' = Some data \<and> at_key data ''Message'' = Some msg \<and> at_key msg ''Analysis'' = Some analysis
    \<and> at_key analysis ''EventCode'' = Some (JInt 202) \<and> at_key analysis ''TrackId'' = Some (JInt 7)"
proof -
  have "event_code (sch_info (example_schedule LineIntrusion)) = EventClass_of_int 202"
    by (simp add: example_info_def EventClass_of_int_def)
  from alarm_message_content [OF this, of "''e''" "[example_box 0 60]" sample_tm "''/frame/a.jpg''" alarm_unit]
  show ?thesis by (simp add: example_box_def) blast
qed


lemma sample_snapshot_Update:
  "sws_scale_ctx (snd (Update sample_ffmpeg 4 2 4 2 0 FrameFormattingContext_new))
     = Some \<lparr>sws_src_w = 4, sws_src_h = 2, sws_src_fmt = 0, sws_dst_w = 4, sws_dst_h = 2\<rparr>"
  "sws_scale_ctx (snd (Update (sample_ffmpeg\<lparr>sws_getContext := \<lambda>_. False\<rparr>) 4 2 4 2 0 FrameFormattingContext_new)) = None"
  by (simp_all add: Update_def FrameFormattingContext_new_def sample_ffmpeg_def letterbox_def IsResolutionChanged_def
      InitPool_def ClearPool_def cast_round_def int_cast_def round_away_def Let_def)

lemma alarm_unit_fields [simp]:
  "scheduler alarm_unit = [example_schedule LineIntrusion]" "io_work_queue alarm_unit = Some SafeQueue_init"
  by (simp_all add: alarm_unit_def)

lemma alarm_unit_ok: "list_all schedule_ok (scheduler alarm_unit)"
  by (simp add: example_schedule_ok)

lemma sample_event_item_fields [simp]:
  "frame_width (event_frame sample_event_item) = 4" "frame_height (event_frame sample_event_item) = 2"
  "frame_format (event_frame sample_event_item) = 0" "track_results sample_event_item = [example_box 0 60]"
  by (simp_all add: sample_event_item_def sized_frame_def)

theorem alarms_exact_witness:
  "\<exists>effects ctx' u' message. event_item sample_ffmpeg sample_event_env sample_event_item FrameFormattingContext_new alarm_unit = Some (effects, ctx', u')
     \<and> filter is_sent effects = [Emitted DETECTOR_MESSAGE message]"
proof -
  let ?ctx = "snd (Update sample_ffmpeg 4 2 4 2 0 FrameFormattingContext_new)"
  obtain path where path: "MakeImageSavePath (make_directory sample_event_env) (local_time sample_event_env) (image_uuid sample_event_env)
      (unit_id alarm_unit) FULL_FRAME_IMAGE_SAVE_ROOT_PATH = Some path" using sample_event_path by blast
  have "framed ?ctx" using Update_framed(1) [OF framed_new, of 4 2 4 2 sample_ffmpeg 0 _ ?ctx] by (metis prod.collapse zero_less_numeral)
  moreover have "sws_scale sample_ffmpeg \<lparr>sws_src_w = 4, sws_src_h = 2, sws_src_fmt = 0, sws_dst_w = 4, sws_dst_h = 2\<rparr> f = (2, replicate 2 (replicate 12 7))" for f
    by (simp add: sample_ffmpeg_def)
  ultimately obtain ctx2 where conv: "Convert sample_ffmpeg (Some (event_frame sample_event_item)) True False (event_released sample_event_env) ?ctx = Some (True, ctx2)"
    using Convert_snapshot [OF _ sample_snapshot_Update(1) sample_ffmpeg_conforms] by (metis zero_less_numeral)
  obtain r s' where r: "Check (example_clock 100000) [example_box 0 60] (example_schedule LineIntrusion) = Some ([r], s')"
    using example_alarm by blast
  show ?thesis
    using alarms_exact [OF alarm_unit_ok _ path _ conv, of FrameFormattingContext_new] r
    by (auto simp: checked_def raised_def DETECTOR_MESSAGE_def sample_event_env_def length_Suc_conv split: Option.bind_splits)
qed

theorem failed_snapshot_loses_alarms_witness:
  "\<exists>effects ctx' u'. event_item (sample_ffmpeg\<lparr>sws_getContext := \<lambda>_. False\<rparr>) sample_event_env sample_event_item FrameFormattingContext_new alarm_unit
      = Some (effects, ctx', u') \<and> filter is_sent effects = []
    \<and> (\<exists>s''. Check (example_clock 150000) [example_box 0 60] (scheduler u' ! 0) = Some ([], s''))"
proof -
  let ?ff = "sample_ffmpeg\<lparr>sws_getContext := \<lambda>_. False\<rparr>"
  let ?ctx = "snd (Update ?ff 4 2 4 2 0 FrameFormattingContext_new)"
  obtain path where path: "MakeImageSavePath (make_directory sample_event_env) (local_time sample_event_env) (image_uuid sample_event_env)
      (unit_id alarm_unit) FULL_FRAME_IMAGE_SAVE_ROOT_PATH = Some path" using sample_event_path by blast
  have conv: "Convert ?ff (Some (event_frame sample_event_item)) True False (event_released sample_event_env) ?ctx = Some (False, ?ctx)"
    using sample_snapshot_Update(2) by (simp add: Convert_def)
  obtain r s' where r: "Check (check_clock sample_event_env 0) (track_results sample_event_item) (scheduler alarm_unit ! 0) = Some ([r], s')"
    using example_alarm by (auto simp: sample_event_env_def)
  show ?thesis
    using failed_snapshot_loses_alarms [OF alarm_unit_ok _ path _ conv _ r, of FrameFormattingContext_new "example_clock 150000" "[example_box 0 60]"]
    by (auto simp: sample_event_env_def example_clock_def example_info_def)
qed

end
