(* ===== verification/Rtsp_Client.thy ===== *)
theory Rtsp_Client
  imports Frame_Preprocessor Safe_Queue
begin

text \<open>
  \<open>GstRtspClient\<close> (\<open>Protocol/RTSP_GST\<close>): the receiver of one camera with its back-pressure, the frame-age
  watchdog and the reconnect worker with exponential back-off.  The GStreamer receiver itself is a
  parameter: whether it starts or resets, when it saw its last frame, and what it reports on its bus.
\<close>

subsection \<open>State\<close>

record client_config =
  cam_id :: int
  reconnect_initial_sec :: int
  reconnect_max_sec :: int
  queue_max_size :: nat

record rtsp_client =
  client_cfg :: client_config
  frame_q :: "av_frame safe_queue option"
  has_receiver :: bool
  client_running :: bool
  client_shutdown :: bool
  worker_joinable :: bool
  reconnect_pending :: bool
  eos_reconnect_pending :: bool
  reconnect_count :: u64
  enqueue_drop_count :: u64
  last_cb_ns :: int
  frame_interval_sum_ns :: u64
  frame_interval_count :: u64
  backoff_sec :: int

definition WATCHDOG_STALE_SEC :: int where "WATCHDOG_STALE_SEC = 12"

definition GstRtspClient_new :: "client_config \<Rightarrow> av_frame safe_queue option \<Rightarrow> rtsp_client" where
  "GstRtspClient_new cfg queue =
     \<lparr>client_cfg = cfg, frame_q = map_option (SetMaxSize (queue_max_size cfg)) queue, has_receiver = False, client_running = False,
      client_shutdown = False, worker_joinable = False, reconnect_pending = False, eos_reconnect_pending = False, reconnect_count = 0,
      enqueue_drop_count = 0, last_cb_ns = 0, frame_interval_sum_ns = 0, frame_interval_count = 0, backoff_sec = reconnect_initial_sec cfg\<rparr>"

subsection \<open>Callbacks of the receiver\<close>

definition frame_cb :: "int \<Rightarrow> av_frame option \<Rightarrow> rtsp_client \<Rightarrow> rtsp_client" where
  "frame_cb now_cb_ns frame c =
     (case (frame, frame_q c) of
        (Some f, Some q) \<Rightarrow>
          let last_cb = last_cb_ns c;
              c = c\<lparr>last_cb_ns := now_cb_ns\<rparr>;
              interval = now_cb_ns - last_cb;
              c = (if last_cb \<noteq> 0 \<and> interval > 0 \<and> interval < 1000000000
                   then c\<lparr>frame_interval_sum_ns := frame_interval_sum_ns c + word_of_int interval,
                          frame_interval_count := frame_interval_count c + 1\<rparr> else c)
          in if sq_size q > 0 then c\<lparr>enqueue_drop_count := enqueue_drop_count c + 1\<rparr>
             else c\<lparr>frame_q := Some (enqueue_move f q)\<rparr>
      | _ \<Rightarrow> c)"

definition GetFrameIntervalAvgUs :: "rtsp_client \<Rightarrow> u64" where
  "GetFrameIntervalAvgUs c =
     (if frame_interval_count c > 0 then frame_interval_sum_ns c div frame_interval_count c div 1000 else 0)"

definition RequestReconnect :: "rtsp_client \<Rightarrow> rtsp_client" where
  "RequestReconnect c = (if client_shutdown c then c else c\<lparr>reconnect_pending := True\<rparr>)"

datatype bus_event = On_error | On_timeout | On_eos

fun bus_callback :: "bus_event \<Rightarrow> rtsp_client \<Rightarrow> rtsp_client" where
  "bus_callback On_error c = RequestReconnect c"
| "bus_callback On_timeout c = RequestReconnect c"
| "bus_callback On_eos c = RequestReconnect (c\<lparr>eos_reconnect_pending := True\<rparr>)"

subsection \<open>Receiver, start and stop\<close>

definition StartReceiver :: "bool \<Rightarrow> rtsp_client \<Rightarrow> bool \<times> rtsp_client" where
  "StartReceiver started c = (started, c\<lparr>has_receiver := started\<rparr>)"

definition StopReceiver :: "rtsp_client \<Rightarrow> rtsp_client" where
  "StopReceiver c = c\<lparr>has_receiver := False\<rparr>"

definition client_Start :: "bool \<Rightarrow> rtsp_client \<Rightarrow> bool \<times> rtsp_client" where
  "client_Start started c =
     (if client_running c then (False, c)
      else let c = c\<lparr>client_running := True, client_shutdown := False, worker_joinable := True\<rparr>
           in case StartReceiver started c of
                (True, c) \<Rightarrow> (True, c)
              | (False, c) \<Rightarrow> (False, c\<lparr>client_shutdown := True, worker_joinable := False, client_running := False\<rparr>))"

definition client_Stop :: "rtsp_client \<Rightarrow> rtsp_client" where
  "client_Stop c =
     (if \<not> client_running c then c
      else StopReceiver (c\<lparr>client_running := False, client_shutdown := True, worker_joinable := False\<rparr>))"

subsection \<open>The reconnect worker\<close>

text \<open>
  What one iteration observes: \<open>stop_seen k\<close> the \<open>k\<close>-th reading of \<open>shutdown_\<close> when \<open>Stop\<close> comes in between,
  \<open>bus k\<close> the callbacks that arrive before the \<open>k\<close>-th step, the time and the time of the last frame (0: none yet),
  and what the receiver answers.  \<open>frames_flow\<close>: one of the at most 60 observations after a restart sees a frame.
\<close>

record worker_env =
  stop_seen :: "nat \<Rightarrow> bool"
  bus :: "nat \<Rightarrow> bus_event list"
  worker_now_ns :: int
  last_frame_ns :: int
  reset_source_only :: bool
  receiver_starts :: bool
  frames_flow :: bool

datatype worker_effect = Watchdog_fired | In_place_reset bool | Waited int | Restarted bool

definition stopping :: "worker_env \<Rightarrow> nat \<Rightarrow> rtsp_client \<Rightarrow> bool" where
  "stopping env k c = (client_shutdown c \<or> stop_seen env k)"

definition bus_at :: "worker_env \<Rightarrow> nat \<Rightarrow> rtsp_client \<Rightarrow> rtsp_client" where
  "bus_at env k c = fold bus_callback (bus env k) c"

definition watchdog :: "worker_env \<Rightarrow> rtsp_client \<Rightarrow> worker_effect list \<times> rtsp_client" where
  "watchdog env c =
     (let last_ns = (if has_receiver c then last_frame_ns env else 0)
      in if last_ns > 0 \<and> (worker_now_ns env - last_ns) div 1000000000 \<ge> WATCHDOG_STALE_SEC
         then ([Watchdog_fired], c\<lparr>eos_reconnect_pending := True, reconnect_pending := True\<rparr>) else ([], c))"

definition grow_backoff :: "rtsp_client \<Rightarrow> rtsp_client" where
  "grow_backoff c = c\<lparr>backoff_sec := min (backoff_sec c * 2) (reconnect_max_sec (client_cfg c)), reconnect_pending := True\<rparr>"

definition reconnected :: "rtsp_client \<Rightarrow> rtsp_client" where
  "reconnected c = c\<lparr>reconnect_count := reconnect_count c + 1, backoff_sec := reconnect_initial_sec (client_cfg c)\<rparr>"

definition full_restart :: "worker_env \<Rightarrow> bool \<Rightarrow> rtsp_client \<Rightarrow> bool \<times> worker_effect list \<times> rtsp_client" where
  "full_restart env is_eos c =
     (let wait_sec = (if is_eos then 0 else backoff_sec c);
          c = bus_at env 3 c
      in if stopping env 2 c then (False, [Waited wait_sec], c)
         else let c = StopReceiver c
              in if stopping env 3 c then (False, [Waited wait_sec], c)
                 else case StartReceiver (receiver_starts env) c of
                        (False, c) \<Rightarrow> (True, [Waited wait_sec, Restarted False], grow_backoff c)
                      | (True, c) \<Rightarrow>
                          let c = bus_at env 4 c
                          in if frames_flow env \<and> \<not> stopping env 4 c
                             then (True, [Waited wait_sec, Restarted True], reconnected c)
                             else (True, [Waited wait_sec, Restarted False], grow_backoff c))"

text \<open>One iteration of the loop; the flag says whether the loop goes on.\<close>

definition worker_cycle :: "worker_env \<Rightarrow> rtsp_client \<Rightarrow> bool \<times> worker_effect list \<times> rtsp_client" where
  "worker_cycle env c =
     (let c = bus_at env 0 c
      in if stopping env 0 c then (False, [], c)
         else case (if reconnect_pending c then ([], c) else watchdog env c) of
                (fired, c) \<Rightarrow>
                  if \<not> reconnect_pending c then (True, fired, c)
                  else let c = bus_at env 1 (c\<lparr>reconnect_pending := False\<rparr>);
                           is_eos = eos_reconnect_pending c;
                           c = c\<lparr>eos_reconnect_pending := False\<rparr>
                       in if is_eos
                          then let c = bus_at env 2 c
                               in if stopping env 1 c then (False, fired, c)
                                  else if has_receiver c \<and> reset_source_only env
                                  then (True, fired @ [In_place_reset True], reconnected c)
                                  else (case full_restart env True c of
                                          (go, es, c) \<Rightarrow> (go, fired @ In_place_reset False # es, c))
                          else (case full_restart env False c of (go, es, c) \<Rightarrow> (go, fired @ es, c)))"

fun worker_run :: "worker_env list \<Rightarrow> rtsp_client \<Rightarrow> worker_effect list \<times> rtsp_client" where
  "worker_run [] c = ([], c)"
| "worker_run (env # envs) c =
     (case worker_cycle env c of
        (go, es, c) \<Rightarrow> if go then case worker_run envs c of (es', c) \<Rightarrow> (es @ es', c) else (es, c))"


subsection \<open>Back-off and recovery\<close>

definition undisturbed :: "worker_env \<Rightarrow> bool" where
  "undisturbed env = ((\<forall>k. \<not> stop_seen env k) \<and> (\<forall>k. On_eos \<notin> set (bus env k)))"

lemma bus_no_eos:
  assumes "On_eos \<notin> set evs" and "\<not> client_shutdown c"
  shows "fold bus_callback evs c = (if evs = [] then c else c\<lparr>reconnect_pending := True\<rparr>)"
  using assms
proof (induction evs arbitrary: c)
  case (Cons e evs)
  then have "bus_callback e c = c\<lparr>reconnect_pending := True\<rparr>" by (cases e) (auto simp: RequestReconnect_def)
  then show ?case using Cons by simp
qed simp

lemma bus_at_undisturbed:
  "undisturbed env \<Longrightarrow> \<not> client_shutdown c \<Longrightarrow> bus_at env k c = (if bus env k = [] then c else c\<lparr>reconnect_pending := True\<rparr>)"
  by (simp add: bus_at_def undisturbed_def bus_no_eos)

text \<open>A client between two attempts, its next wait \<open>b\<close>.\<close>

definition retrying :: "int \<Rightarrow> rtsp_client \<Rightarrow> bool" where
  "retrying b c = (\<not> client_shutdown c \<and> reconnect_pending c \<and> \<not> eos_reconnect_pending c \<and> backoff_sec c = b)"

lemma worker_cycle_retry:
  assumes "undisturbed env" and "retrying b c"
  shows "\<exists>c'. worker_cycle env c = (True, [Waited b, Restarted (receiver_starts env \<and> frames_flow env)], c') \<and> client_cfg c' = client_cfg c
    \<and> (if receiver_starts env \<and> frames_flow env
       then has_receiver c' \<and> reconnect_count c' = reconnect_count c + 1 \<and> backoff_sec c' = reconnect_initial_sec (client_cfg c)
       else retrying (min (b * 2) (reconnect_max_sec (client_cfg c))) c' \<and> reconnect_count c' = reconnect_count c)"
  using assms
  by (cases "receiver_starts env"; cases "frames_flow env")
    (auto simp: worker_cycle_def full_restart_def retrying_def bus_at_undisturbed stopping_def StartReceiver_def StopReceiver_def
      grow_backoff_def reconnected_def undisturbed_def Let_def)

text \<open>
  C14. The worker never gives up and never storms.  Once a reconnect is requested after an error, the
  \<open>n\<close>-th consecutive failing attempt is made after a wait of the initial back-off times \<open>2 ^ n\<close>, at most the configured maximum,
  whatever errors the bus reports meanwhile; an attempt fails also when the pipeline starts but no frame flows.  The first attempt after which frames flow
  ends the series: the receiver stands, one reconnect is counted, and the back-off is the initial one again.
\<close>

theorem reconnect_backoff_exact:
  assumes "retrying (reconnect_initial_sec (client_cfg c)) c" and "0 < reconnect_initial_sec (client_cfg c)"
    and "reconnect_initial_sec (client_cfg c) \<le> reconnect_max_sec (client_cfg c)"
    and "\<forall>env \<in> set envs. undisturbed env \<and> \<not> (receiver_starts env \<and> frames_flow env)"
    and "undisturbed env" and "receiver_starts env" and "frames_flow env"
  shows "\<exists>c'. worker_run (envs @ [env]) c =
      (concat (map (\<lambda>n. [Waited (min (reconnect_initial_sec (client_cfg c) * 2 ^ n) (reconnect_max_sec (client_cfg c))), Restarted (n = length envs)])
         [0..<Suc (length envs)]), c')
    \<and> has_receiver c' \<and> reconnect_count c' = reconnect_count c + 1 \<and> backoff_sec c' = reconnect_initial_sec (client_cfg c)"
proof -
  define i m where "i = reconnect_initial_sec (client_cfg c)" and "m = reconnect_max_sec (client_cfg c)"
  have "\<exists>c'. worker_run (envs @ [env]) d =
      (concat (map (\<lambda>n. [Waited (min (i * 2 ^ n) m), Restarted (n = k + length envs)]) [k..<Suc (k + length envs)]), c')
    \<and> has_receiver c' \<and> reconnect_count c' = reconnect_count d + 1 \<and> backoff_sec c' = i"
    if "retrying (min (i * 2 ^ k) m) d" "client_cfg d = client_cfg c" "\<forall>e \<in> set envs. undisturbed e \<and> \<not> (receiver_starts e \<and> frames_flow e)"
    for k d envs
    using that
  proof (induction envs arbitrary: k d)
    case Nil
    then show ?case using worker_cycle_retry [OF assms(5) Nil.prems(1)] assms(6,7) by (auto simp: i_def)
  next
    case (Cons e envs)
    have e: "undisturbed e" "\<not> (receiver_starts e \<and> frames_flow e)" using Cons.prems(3) by auto
    obtain d' where d': "worker_cycle e d = (True, [Waited (min (i * 2 ^ k) m), Restarted False], d')" "client_cfg d' = client_cfg c"
      "retrying (min (min (i * 2 ^ k) m * 2) m) d'" "reconnect_count d' = reconnect_count d"
      using worker_cycle_retry [OF e(1) Cons.prems(1)] e(2) Cons.prems(2) by (auto simp: m_def)
    have "min (min (i * 2 ^ k) m * 2) m = min (i * 2 ^ Suc k) m" using assms(2,3) by (auto simp: i_def m_def min_def)
    then obtain c' where "worker_run (envs @ [env]) d' =
      (concat (map (\<lambda>n. [Waited (min (i * 2 ^ n) m), Restarted (n = Suc k + length envs)]) [Suc k..<Suc (Suc k + length envs)]), c')"
      "has_receiver c'" "reconnect_count c' = reconnect_count d' + 1" "backoff_sec c' = i"
      using Cons.IH [of "Suc k" d'] d'(2,3) Cons.prems(3) by auto
    moreover have "[k..<Suc (k + length (e # envs))] = k # [Suc k..<Suc (Suc k + length envs)]" by (subst upt_conv_Cons) (simp_all del: upt_Suc)
    ultimately show ?case using d'(1,4) by simp
  qed
  from this [of 0 c envs] show ?thesis using assms(1,3,4) by (simp add: i_def m_def min_absorb1)
qed

subsection \<open>The watchdog\<close>

text \<open>
  A camera that never delivered a frame is never reset.  The watchdog looks at the age of the last frame
  only when there was one: when the stream is silent from the start, without an error on the bus, no iteration
  of the worker does anything, however long the silence lasts; with a frame seen, twelve seconds of silence
  reset the source.
\<close>

theorem silent_start_never_reset:
  assumes "\<not> client_shutdown c" and "\<not> reconnect_pending c" and "has_receiver c"
    and "\<forall>env \<in> set envs. (\<forall>k. \<not> stop_seen env k) \<and> (\<forall>k. bus env k = []) \<and> last_frame_ns env = 0"
  shows "worker_run envs c = ([], c)
    \<and> (\<forall>env. (\<forall>k. \<not> stop_seen env k) \<and> (\<forall>k. bus env k = []) \<and> 0 < last_frame_ns env \<and> reset_source_only env
          \<and> last_frame_ns env + 12 * 1000000000 \<le> worker_now_ns env
        \<longrightarrow> (\<exists>c'. worker_cycle env c = (True, [Watchdog_fired, In_place_reset True], c') \<and> reconnect_count c' = reconnect_count c + 1))"
proof -
  have "worker_cycle env c = (True, [], c)" if "env \<in> set envs" for env
    using assms that by (simp add: worker_cycle_def bus_at_def stopping_def watchdog_def Let_def)
  then have "worker_run envs c = ([], c)" by (induction envs) auto
  moreover have "12 \<le> (worker_now_ns env - last_frame_ns env) div 1000000000" if "last_frame_ns env + 12 * 1000000000 \<le> worker_now_ns env" for env
    using that by linarith
  ultimately show ?thesis using assms(1-3)
    by (auto simp: worker_cycle_def bus_at_def stopping_def watchdog_def WATCHDOG_STALE_SEC_def reconnected_def Let_def)
qed

subsection \<open>Back-pressure\<close>

datatype client_op = Frame_arrives int av_frame | Frame_taken

fun client_step :: "rtsp_client \<Rightarrow> client_op \<Rightarrow> rtsp_client" where
  "client_step c (Frame_arrives now f) = frame_cb now (Some f) c"
| "client_step c Frame_taken = c\<lparr>frame_q := map_option (\<lambda>q. snd (dequeue_now q)) (frame_q c)\<rparr>"

fun taken_by :: "rtsp_client \<Rightarrow> client_op \<Rightarrow> nat" where
  "taken_by c Frame_taken = (case frame_q c of None \<Rightarrow> 0 | Some q \<Rightarrow> if sq_q q = [] then 0 else 1)"
| "taken_by c (Frame_arrives now f) = 0"

fun taken_in :: "rtsp_client \<Rightarrow> client_op list \<Rightarrow> nat" where
  "taken_in c [] = 0"
| "taken_in c (x # xs) = taken_by c x + taken_in (client_step c x) xs"

definition is_arrival :: "client_op \<Rightarrow> bool" where
  "is_arrival x = (x \<noteq> Frame_taken)"

definition frame_slot :: "rtsp_client \<Rightarrow> bool" where
  "frame_slot c = (\<exists>q. frame_q c = Some q \<and> \<not> b_terminate q \<and> length (sq_q q) \<le> 1 \<and> drop_count q = 0)"

lemma slot_taken: "\<not> b_terminate q \<Longrightarrow> length (sq_q q) \<le> 1 \<Longrightarrow> snd (dequeue_now q) = q\<lparr>sq_q := []\<rparr>"
  by (cases q; cases "sq_q q") (auto simp: dequeue_now_cases)

lemma frame_slot_step: "frame_slot c \<Longrightarrow> frame_slot (client_step c x)"
  by (cases x) (auto simp: frame_slot_def frame_cb_def Let_def sq_size_def enqueue_move_def slot_taken)

interpretation slot: op_system client_step "\<lambda>_. True" frame_slot
  by unfold_locales (rule frame_slot_step)

definition slot_size :: "rtsp_client \<Rightarrow> nat" where
  "slot_size c = (case frame_q c of None \<Rightarrow> 0 | Some q \<Rightarrow> length (sq_q q))"

lemma frame_balance_step:
  assumes "frame_slot c"
  shows "enqueue_drop_count (client_step c x) + of_nat (taken_by c x + slot_size (client_step c x))
    = enqueue_drop_count c + of_nat (slot_size c) + (if is_arrival x then 1 else 0)"
  using assms by (cases x)
    (auto simp: frame_slot_def frame_cb_def Let_def sq_size_def enqueue_move_def slot_size_def is_arrival_def slot_taken le_Suc_eq)

text \<open>
  At most one decoded frame waits for the inference thread.  For every interleaving of arriving frames
  and dequeues the queue holds at most one frame, its own overflow never happens, and no frame is unaccounted for: every arrival
  was taken, waits, or was counted as dropped.
\<close>

theorem one_frame_waits:
  assumes "frame_slot c"
  shows "frame_slot (foldl client_step c xs)
    \<and> enqueue_drop_count (foldl client_step c xs) + of_nat (taken_in c xs + slot_size (foldl client_step c xs))
      = enqueue_drop_count c + of_nat (slot_size c + length (filter is_arrival xs))"
proof -
  have "enqueue_drop_count (foldl client_step c xs) + of_nat (taken_in c xs + slot_size (foldl client_step c xs))
      = enqueue_drop_count c + of_nat (slot_size c + length (filter is_arrival xs))"
    using assms
  proof (induction xs arbitrary: c)
    case (Cons x xs)
    show ?case using Cons.IH [OF frame_slot_step [OF Cons.prems, of x]] frame_balance_step [OF Cons.prems, of x]
      by (simp add: algebra_simps)
  qed simp
  then show ?thesis using slot.inv_run [OF assms, of xs] by (simp add: list_all_iff)
qed

subsection \<open>A concrete client\<close>

definition sample_client :: rtsp_client where
  "sample_client = snd (client_Start True (GstRtspClient_new \<lparr>cam_id = 3, reconnect_initial_sec = 1, reconnect_max_sec = 60, queue_max_size = 60\<rparr>
     (Some SafeQueue_init)))"

definition quiet_env :: "bool \<Rightarrow> worker_env" where
  "quiet_env ok = \<lparr>stop_seen = (\<lambda>_. False), bus = (\<lambda>_. []), worker_now_ns = 90000000000, last_frame_ns = 0, reset_source_only = True,
     receiver_starts = True, frames_flow = ok\<rparr>"

lemma sample_client_fields [simp]:
  "client_cfg sample_client = \<lparr>cam_id = 3, reconnect_initial_sec = 1, reconnect_max_sec = 60, queue_max_size = 60\<rparr>"
  "\<not> client_shutdown sample_client" "\<not> reconnect_pending sample_client" "has_receiver sample_client" "\<not> eos_reconnect_pending sample_client"
  "backoff_sec sample_client = 1" "reconnect_count sample_client = 0" "enqueue_drop_count sample_client = 0"
  "frame_q sample_client = Some (SetMaxSize 60 SafeQueue_init)"
  by (simp_all add: sample_client_def GstRtspClient_new_def client_Start_def StartReceiver_def Let_def)

theorem reconnect_backoff_exact_witness:
  "\<exists>c'. worker_run [quiet_env False, quiet_env False, quiet_env True] (bus_callback On_error sample_client)
     = ([Waited 1, Restarted False, Waited 2, Restarted False, Waited 4, Restarted True], c') \<and> reconnect_count c' = 1"
  using reconnect_backoff_exact [of "bus_callback On_error sample_client" "[quiet_env False, quiet_env False]" "quiet_env True"]
  by (auto simp: retrying_def RequestReconnect_def quiet_env_def undisturbed_def upt_rec simp del: worker_run.simps)

theorem silent_start_never_reset_witness:
  "worker_run [quiet_env True, quiet_env True] sample_client = ([], sample_client)"
  using silent_start_never_reset [of sample_client "[quiet_env True, quiet_env True]"] by (simp add: quiet_env_def)

theorem one_frame_waits_witness:
  "let f = \<lparr>frame_width = 4, frame_height = 2, frame_format = 0, frame_planes = []\<rparr>
   in frame_slot (foldl client_step sample_client [Frame_arrives 1 f, Frame_arrives 2 f, Frame_taken])"
proof -
  have "frame_slot sample_client" by (simp add: frame_slot_def SetMaxSize_def SafeQueue_init_def)
  then show ?thesis using one_frame_waits by (simp only: Let_def)
qed

end
