(* ===== verification/Detector_Pipeline.thy ===== *)
theory Detector_Pipeline
  imports Detector_Event Rtsp_Client
begin

text \<open>
  The pipeline of one camera as a whole: the receiver, the inference, response and event threads and the
  IO worker run their iterations in any order on the queues and the state they share.  Invariants of every interleaving, the order of
  the shutdown, and what a restart finds.
\<close>

subsection \<open>Interleavings\<close>

record 'kf pipeline =
  pl_unit :: "'kf rtsp_unit"
  pl_client :: rtsp_client
  pl_locals :: inference_locals
  pl_event_ctx :: frame_context

text \<open>The lines of a schedule are not empty.\<close>

definition lines_ok :: "AbnormalEventScheduleInfo list \<Rightarrow> bool" where
  "lines_ok infos = list_all (\<lambda>info. [] \<notin> set (two_way_roi info) \<and> [] \<notin> set (one_way_roi info)) infos"

text \<open>
  One iteration of one thread, a frame from the receiver (into the queue the client and the unit share), or
  a setting callback.  What arrives while a thread waits is a step before its iteration.
\<close>

inductive pipeline_step :: "ffmpeg \<Rightarrow> 'kf opencv \<Rightarrow> 'kf pipeline \<Rightarrow> 'kf pipeline \<Rightarrow> bool" for ff cv where
  frame_arrives: "frame_cb now (Some f) ((pl_client s)\<lparr>frame_q := avframe_q (pl_unit s)\<rparr>) = c \<Longrightarrow>
    pipeline_step ff cv s (s\<lparr>pl_client := c, pl_unit := (pl_unit s)\<lparr>avframe_q := frame_q c\<rparr>\<rparr>)"
| inference: "frame_wakes env = [] \<Longrightarrow> inference_cycle ff env (pl_locals s) (pl_unit s) = Some (l, u) \<Longrightarrow>
    pipeline_step ff cv s (s\<lparr>pl_locals := l, pl_unit := u\<rparr>)"
| response: "item_wakes env = [] \<Longrightarrow> response_cycle cv env (pl_unit s) = Some (go, es, u) \<Longrightarrow> pipeline_step ff cv s (s\<lparr>pl_unit := u\<rparr>)"
| event: "event_wakes env = [] \<Longrightarrow> event_cycle ff env (pl_event_ctx s) (pl_unit s) = Some (go, es, ctx, u) \<Longrightarrow>
    pipeline_step ff cv s (s\<lparr>pl_event_ctx := ctx, pl_unit := u\<rparr>)"
| io_work: "io_work_queue (pl_unit s) = Some q \<Longrightarrow> dequeue_wait_for [] q = (item, q') \<Longrightarrow>
    pipeline_step ff cv s (s\<lparr>pl_unit := (pl_unit s)\<lparr>io_work_queue := Some q'\<rparr>\<rparr>)"
| exclude: "pipeline_step ff cv s (s\<lparr>pl_unit := exclude_callback new (pl_unit s)\<rparr>)"
| schedule: "lines_ok (payload infos) \<Longrightarrow> pipeline_step ff cv s (s\<lparr>pl_unit := schedule_callback infos (pl_unit s)\<rparr>)"

inductive_cases pipeline_stepE: "pipeline_step ff cv s s'"

subsection \<open>What one iteration changes\<close>

definition subscription :: "load_balancer \<Rightarrow> int set \<times> (int \<times> nat) list" where
  "subscription lb = (subscribers lb, cam_result_qs lb)"

lemma dequeue_wait_for_now: "dequeue_wait_for [] q = dequeue_now q"
  by (simp add: dequeue_wait_for_def dequeue_now_def)

lemma RequestAsync_subscription: "RequestAsync race req lb = Some (ok, lb') \<Longrightarrow> subscription lb' = subscription lb"
  by (auto simp: RequestAsync_def subscription_def Let_def split: if_splits option.splits)

lemma request_engines_subscription:
  "request_engines race k frame corr es m lb = Some (requested, m', lb') \<Longrightarrow> subscription lb' = subscription lb"
proof (induction es arbitrary: k m lb requested m' lb')
  case (Cons e es)
  then show ?case by (auto dest!: RequestAsync_subscription split: prod.splits option.splits)
qed simp

lemma RespondAsync_subscription: "RespondAsync sid wakes lb = (r, lb') \<Longrightarrow> subscription lb' = subscription lb"
  by (auto simp: RespondAsync_def subscription_def split: if_splits option.splits prod.splits)

lemma collect_results_subscription: "collect_results env k item eis lb = (objs, es, lb') \<Longrightarrow> subscription lb' = subscription lb"
proof (induction eis arbitrary: k lb objs es lb')
  case (Cons ei eis)
  have add: "subscription (AddInferCount s lb) = subscription lb" for s lb by (simp add: subscription_def AddInferCount_def)
  show ?case using Cons.prems
    by (auto simp: Let_def add dest!: Cons.IH RespondAsync_subscription split: if_splits prod.splits option.splits)
qed simp

lemma send_frame_effect:
  assumes "send_frame ff env frame l u = Some (l', u')"
  shows "\<exists>n lb iq. u' = u\<lparr>frame_count := n, balancer := lb, inflight_q := iq\<rparr> \<and> map_option subscription lb = map_option subscription (balancer u)
    \<and> (iq = inflight_q u \<or> (\<exists>item. iq = map_option (enqueue_move item) (inflight_q u)))"
proof -
  have same: "\<exists>n lb iq. v = v\<lparr>frame_count := n, balancer := lb, inflight_q := iq\<rparr> \<and> map_option subscription lb = map_option subscription (balancer v)
    \<and> (iq = inflight_q v \<or> (\<exists>item. iq = map_option (enqueue_move item) (inflight_q v)))" for v :: "'a rtsp_unit"
    by (intro exI [of _ "frame_count v"] exI [of _ "balancer v"] exI [of _ "inflight_q v"]) simp
  show ?thesis using assms same
    by (force simp: send_frame_def Let_def dest!: request_engines_subscription split: if_splits option.splits prod.splits)
qed


lemma check_resolution_effect:
  "check_resolution frame u = (r, u') \<Longrightarrow> \<exists>w h n. u' = u\<lparr>stable_frame_w := w, stable_frame_h := h, consecutive_mismatch_count := n\<rparr>"
  by (cases u) (auto simp: check_resolution_def Let_def split: if_splits)

lemma update_schedules_effect:
  "\<exists>s b ts sq. update_schedules clk person car reset u = u\<lparr>scheduler := s, is_schedule_updated := b, trackers := ts, tracker_seqs := sq\<rparr>
    \<and> (s = scheduler u \<or> (\<exists>w h chk. s = map (\<lambda>sch. Schedule_new clk sch w h chk) (payload (schedule_settings u))))
    \<and> (ts = trackers u \<and> sq = tracker_seqs u \<or> ts = Map.empty \<and> sq = Map.empty)"
proof (cases "is_schedule_updated u \<or> reset")
  case True
  then show ?thesis
    by (cases u; cases reset) (auto simp: update_schedules_def ReleaseSchedules_def ResetTrackers_def Let_def)
next
  case False
  then show ?thesis by (cases u) (auto simp: update_schedules_def)
qed

definition thread_part :: "'kf rtsp_unit \<Rightarrow> unit_fun safe_thread list \<times> int list \<times> bool" where
  "thread_part u = ([inference_thread u, response_thread u, event_thread u, io_worker_thread u], subscribe_ids u, is_initialized_service u)"

definition in_step :: "('a \<Rightarrow> 'b option) \<Rightarrow> ('a \<Rightarrow> 'c option) \<Rightarrow> bool" where
  "in_step f g = (dom f = dom g)"

lemma in_step_empty [simp]: "in_step Map.empty Map.empty"
  by (simp add: in_step_def)

definition unit_subscription :: "'kf rtsp_unit \<Rightarrow> (int set \<times> (int \<times> nat) list) option" where
  "unit_subscription u = map_option subscription (balancer u)"

definition schedules_ok :: "'kf rtsp_unit \<Rightarrow> bool" where
  "schedules_ok u = (list_all schedule_ok (scheduler u) \<and> lines_ok (payload (schedule_settings u)))"

definition pushed :: "'a safe_queue option \<Rightarrow> 'a safe_queue option \<Rightarrow> bool" where
  "pushed q q' = (q' = q \<or> (\<exists>x. q' = map_option (enqueue_move x) q))"

text \<open>What every thread leaves alone, and what it may do to a queue it feeds.\<close>

definition keeps :: "'kf rtsp_unit \<Rightarrow> 'kf rtsp_unit \<Rightarrow> bool" where
  "keeps u u' = (thread_part u' = thread_part u \<and> unit_subscription u' = unit_subscription u
     \<and> (schedules_ok u \<longrightarrow> schedules_ok u') \<and> (in_step (trackers u) (tracker_seqs u) \<longrightarrow> in_step (trackers u') (tracker_seqs u')))"

lemma process_frame_effect:
  assumes "process_frame ff env frame l u = Some (l', u')"
  shows "keeps u u' \<and> avframe_q u' = avframe_q u \<and> event_q u' = event_q u \<and> io_work_queue u' = io_work_queue u \<and> pushed (inflight_q u) (inflight_q u')"
proof -
  obtain r u1 where r: "check_resolution frame u = (r, u1)" by fastforce
  obtain w h n where u1: "u1 = u\<lparr>stable_frame_w := w, stable_frame_h := h, consecutive_mismatch_count := n\<rparr>"
    using check_resolution_effect [OF r] by blast
  show ?thesis
  proof (cases r)
    case None
    then show ?thesis using assms r u1
      by (auto simp: process_frame_def keeps_def thread_part_def unit_subscription_def schedules_ok_def pushed_def)
  next
    case (Some reset)
    obtain l1 where l1: "send_frame ff env frame l1 (update_schedules (inference_clock env) (class_id_person u1) (class_id_car u1) reset u1) = Some (l', u')"
      using assms r Some by (auto simp: process_frame_def Let_def)
    obtain s b ts sq where u2: "update_schedules (inference_clock env) (class_id_person u1) (class_id_car u1) reset u1
        = u1\<lparr>scheduler := s, is_schedule_updated := b, trackers := ts, tracker_seqs := sq\<rparr>"
      "s = scheduler u1 \<or> (\<exists>w h chk. s = map (\<lambda>sch. Schedule_new (inference_clock env) sch w h chk) (payload (schedule_settings u1)))"
      "ts = trackers u1 \<and> sq = tracker_seqs u1 \<or> ts = Map.empty \<and> sq = Map.empty"
      using update_schedules_effect by blast
    have "list_all schedule_ok s" if "schedules_ok u"
      using u2(2) that by (auto simp: u1 schedules_ok_def lines_ok_def list_all_iff intro!: Schedule_new_ok)
    then show ?thesis using send_frame_effect [OF l1, unfolded u2(1)] u2(3)
      by (auto simp: u1 keeps_def thread_part_def unit_subscription_def schedules_ok_def pushed_def)
  qed
qed

lemma track_class_effect:
  "track_class cv frame c objects u = Some (tracks, u') \<Longrightarrow> \<exists>ts sq. u' = u\<lparr>trackers := ts, tracker_seqs := sq\<rparr>
     \<and> (in_step (trackers u) (tracker_seqs u) \<longrightarrow> in_step ts sq)"
  by (cases u) (auto simp: track_class_def in_step_def Let_def split: if_splits option.splits)

lemma track_all_effect:
  "track_all cv frame groups u = Some (tracks, u') \<Longrightarrow> \<exists>ts sq. u' = u\<lparr>trackers := ts, tracker_seqs := sq\<rparr>
     \<and> (in_step (trackers u) (tracker_seqs u) \<longrightarrow> in_step ts sq)"
proof (induction groups arbitrary: u tracks)
  case Nil
  then show ?case by (cases u') auto
next
  case (Cons g groups)
  obtain c objects where g: "g = (c, objects)" by (cases g)
  obtain ts1 u1 more where step: "track_class cv frame c objects u = Some (ts1, u1)" "track_all cv frame groups u1 = Some (more, u')"
    using Cons.prems by (auto simp: g split: option.splits)
  obtain t1 s1 t2 s2 where "u1 = u\<lparr>trackers := t1, tracker_seqs := s1\<rparr>" "in_step (trackers u) (tracker_seqs u) \<longrightarrow> in_step t1 s1"
    "u' = u1\<lparr>trackers := t2, tracker_seqs := s2\<rparr>" "in_step (trackers u1) (tracker_seqs u1) \<longrightarrow> in_step t2 s2"
    using track_class_effect [OF step(1)] Cons.IH [OF step(2)] by blast
  then show ?case by (intro exI [of _ t2] exI [of _ s2]) simp
qed

lemma respond_item_effect:
  assumes "respond_item cv env item u = Some (es, u')"
  shows "keeps u u' \<and> avframe_q u' = avframe_q u \<and> inflight_q u' = inflight_q u \<and> io_work_queue u' = io_work_queue u \<and> pushed (event_q u) (event_q u')"
proof -
  obtain lb where lb: "balancer u = Some lb" using assms by (auto simp: respond_item_def split: option.splits)
  obtain objs effs lb1 where c: "collect_results env 0 item (item_engines item) lb = (objs, effs, lb1)" by (cases "collect_results env 0 item (item_engines item) lb")
  obtain tracks u1 where t: "track_all cv (item_frame item) (classified_objects objs) (u\<lparr>balancer := Some lb1\<rparr>) = Some (tracks, u1)"
    using assms lb c by (auto simp: respond_item_def split: option.splits)
  obtain ts sq where u1: "u1 = u\<lparr>balancer := Some lb1, trackers := ts, tracker_seqs := sq\<rparr>" "in_step (trackers u) (tracker_seqs u) \<longrightarrow> in_step ts sq"
    using track_all_effect [OF t] by auto
  have s: "subscription lb1 = subscription lb" by (rule collect_results_subscription [OF c])
  have "u' = u1 \<or> (\<exists>x. u' = u1\<lparr>event_q := map_option (enqueue_move x) (event_q u1)\<rparr>)"
    using assms lb c t by (auto simp: respond_item_def Let_def split: if_splits)
  then show ?thesis using s lb u1(2)
    by (auto simp: u1(1) keeps_def thread_part_def unit_subscription_def schedules_ok_def pushed_def)
qed

lemma event_item_effect:
  assumes "event_item ff env item ctx u = Some (es, ctx', u')"
  shows "avframe_q u' = avframe_q u \<and> inflight_q u' = inflight_q u \<and> event_q u' = event_q u \<and> pushed (io_work_queue u) (io_work_queue u') \<and> keeps u u'"
proof -
  have same: "keeps u u" "pushed q q" for q :: "raw_buffer io_item safe_queue option" by (simp_all add: keeps_def pushed_def)
  show ?thesis
  proof (cases "u' = u")
    case False
    then obtain path ms counted schs where path: "check_schedules env 0 path (track_results item) u (scheduler u) = Some (ms, counted, schs)"
      and made: "MakeImageSavePath (make_directory env) (local_time env) (image_uuid env) (unit_id u) FULL_FRAME_IMAGE_SAVE_ROOT_PATH = Some path"
      using assms by (auto simp: event_item_def split: if_splits option.splits)
    note run = assms [unfolded event_item_def made path option.case prod.case]
    have "list_all schedule_ok schs" if "list_all schedule_ok (scheduler u)"
      using check_schedules_exact [OF that, of env 0 "track_results item" path u] path by auto
    moreover have "u' = u\<lparr>scheduler := schs\<rparr> \<or> (\<exists>x. u' = u\<lparr>scheduler := schs, io_work_queue := map_option (enqueue_move x) (io_work_queue u)\<rparr>)"
      using run False by (auto simp: Let_def split: if_splits option.splits)
    ultimately show ?thesis
      by (auto simp: keeps_def thread_part_def unit_subscription_def schedules_ok_def pushed_def)
  qed (use same in simp)
qed


subsection \<open>The invariant\<close>

definition queue_ok :: "nat \<Rightarrow> 'a safe_queue option \<Rightarrow> bool" where
  "queue_ok n q = (\<exists>x. q = Some x \<and> within_cap n x \<and> \<not> b_terminate x)"

definition slot_ok :: "av_frame safe_queue option \<Rightarrow> bool" where
  "slot_ok q = (\<exists>x. q = Some x \<and> \<not> b_terminate x \<and> length (sq_q x) \<le> 1 \<and> drop_count x = 0)"

definition thread_up :: "unit_fun \<Rightarrow> unit_fun safe_thread \<Rightarrow> bool" where
  "thread_up closer t = (is_running t \<and> joinable t \<and> thread_closer t = Some closer)"

definition threads_up :: "'kf rtsp_unit \<Rightarrow> bool" where
  "threads_up u = (thread_up Inference_closer (inference_thread u) \<and> thread_up Response_closer (response_thread u)
     \<and> thread_up Event_closer (event_thread u) \<and> thread_up IOWorker_closer (io_worker_thread u))"

definition unit_ok :: "'kf rtsp_unit \<Rightarrow> bool" where
  "unit_ok u = (threads_up u \<and> is_initialized_service u \<and> balancer u \<noteq> None \<and> slot_ok (avframe_q u) \<and> queue_ok 10 (inflight_q u) \<and> queue_ok 10 (event_q u)
     \<and> queue_ok 30 (io_work_queue u) \<and> schedules_ok u \<and> in_step (trackers u) (tracker_seqs u))"

lemma queue_ok_pushed: "queue_ok n q \<Longrightarrow> 0 < n \<Longrightarrow> pushed q q' \<Longrightarrow> queue_ok n q'"
  by (auto simp: queue_ok_def pushed_def within_cap_def enqueue_move_copy sq_q_enqueue)

lemma queue_ok_taken: "queue_ok n (Some q) \<Longrightarrow> dequeue_wait_for [] q = (r, q') \<Longrightarrow> queue_ok n (Some q')"
  by (auto simp: queue_ok_def within_cap_def dequeue_wait_for_now dequeue_now_cases split: if_splits)

lemma slot_ok_taken: "slot_ok (Some q) \<Longrightarrow> dequeue_wait_for [] q = (r, q') \<Longrightarrow> slot_ok (Some q')"
  by (auto simp: slot_ok_def dequeue_wait_for_now dequeue_now_cases split: if_splits)

lemma slot_ok_frame: "slot_ok (frame_q c) \<Longrightarrow> slot_ok (frame_q (frame_cb now (Some f) c))"
  using frame_slot_step [of c "Frame_arrives now f"] by (auto simp: slot_ok_def frame_slot_def)

lemma keeps_refl [simp]: "keeps u u" and pushed_refl [simp]: "pushed q q"
  by (simp_all add: keeps_def pushed_def)

lemma unit_ok_keeps:
  assumes "unit_ok u" and "keeps u u'" and "slot_ok (avframe_q u')" "queue_ok 10 (inflight_q u')" "queue_ok 10 (event_q u')" "queue_ok 30 (io_work_queue u')"
  shows "unit_ok u'"
  using assms by (auto simp: unit_ok_def keeps_def threads_up_def thread_part_def unit_subscription_def)

lemma inference_cycle_ok:
  assumes "unit_ok u" and "frame_wakes env = []" and "inference_cycle ff env l u = Some (l', u')"
  shows "unit_ok u'"
proof -
  obtain q where q: "avframe_q u = Some q" using assms(1) by (auto simp: unit_ok_def slot_ok_def)
  obtain r q' where d: "dequeue_wait_for [] q = (r, q')" by fastforce
  have ok: "unit_ok (u\<lparr>avframe_q := Some q'\<rparr>)"
    by (rule unit_ok_keeps [OF assms(1)])
      (use assms(1) q slot_ok_taken [OF _ d] in \<open>auto simp: unit_ok_def keeps_def thread_part_def unit_subscription_def schedules_ok_def\<close>)
  show ?thesis
  proof (cases "u' = u\<lparr>avframe_q := Some q'\<rparr>")
    case False
    then obtain frame where "process_frame ff env frame l (u\<lparr>avframe_q := Some q'\<rparr>) = Some (l', u')"
      using assms(2,3) q d by (auto simp: inference_cycle_def Let_def split: option.splits if_splits)
    note changed = process_frame_effect [OF this]
    show ?thesis
      by (rule unit_ok_keeps [OF ok]) (use ok changed queue_ok_pushed [of 10 "inflight_q u" "inflight_q u'"] in \<open>simp_all add: unit_ok_def\<close>)
  qed (use ok in simp)
qed

lemma response_cycle_ok:
  assumes "unit_ok u" and "item_wakes env = []" and "response_cycle cv env u = Some (go, es, u')"
  shows "unit_ok u'"
proof -
  obtain q where q: "inflight_q u = Some q" using assms(1) by (auto simp: unit_ok_def queue_ok_def)
  obtain r q' where d: "dequeue_wait_for [] q = (r, q')" by fastforce
  have ok: "unit_ok (u\<lparr>inflight_q := Some q'\<rparr>)"
    by (rule unit_ok_keeps [OF assms(1)])
      (use assms(1) q queue_ok_taken [OF _ d] in \<open>auto simp: unit_ok_def keeps_def thread_part_def unit_subscription_def schedules_ok_def\<close>)
  show ?thesis
  proof (cases "u' = u\<lparr>inflight_q := Some q'\<rparr>")
    case False
    then obtain item where "respond_item cv env item (u\<lparr>inflight_q := Some q'\<rparr>) = Some (es, u')"
      using assms(2,3) q d by (auto simp: response_cycle_def Let_def split: option.splits if_splits)
    note changed = respond_item_effect [OF this]
    show ?thesis
      by (rule unit_ok_keeps [OF ok]) (use ok changed queue_ok_pushed [of 10 "event_q u" "event_q u'"] in \<open>simp_all add: unit_ok_def\<close>)
  qed (use ok in simp)
qed

lemma event_cycle_ok:
  assumes "unit_ok u" and "event_wakes env = []" and "event_cycle ff env ctx u = Some (go, es, ctx', u')"
  shows "unit_ok u'"
proof -
  obtain q where q: "event_q u = Some q" using assms(1) by (auto simp: unit_ok_def queue_ok_def)
  obtain r q' where d: "dequeue_wait_for [] q = (r, q')" by fastforce
  have ok: "unit_ok (u\<lparr>event_q := Some q'\<rparr>)"
    by (rule unit_ok_keeps [OF assms(1)])
      (use assms(1) q queue_ok_taken [OF _ d] in \<open>auto simp: unit_ok_def keeps_def thread_part_def unit_subscription_def schedules_ok_def\<close>)
  show ?thesis
  proof (cases "u' = u\<lparr>event_q := Some q'\<rparr>")
    case False
    then obtain item where "event_item ff env item ctx (u\<lparr>event_q := Some q'\<rparr>) = Some (es, ctx', u')"
      using assms(2,3) q d by (auto simp: event_cycle_def Let_def split: option.splits if_splits)
    note changed = event_item_effect [OF this]
    show ?thesis
      by (rule unit_ok_keeps [OF ok]) (use ok changed queue_ok_pushed [of 30 "io_work_queue u" "io_work_queue u'"] in \<open>simp_all add: unit_ok_def\<close>)
  qed (use ok in simp)
qed

lemma lines_ok_virtual: "lines_ok infos \<Longrightarrow> lines_ok (infos @ [virtual_schedule 99999 LineIntrusion, virtual_schedule 99998 VehicleIntrusion])"
  by (simp add: lines_ok_def virtual_schedule_def build_two_way_lines_def)

lemma pipeline_step_ok:
  assumes "pipeline_step ff cv s s'" and "unit_ok (pl_unit s)"
  shows "unit_ok (pl_unit s')"
  using assms
proof (cases rule: pipeline_step.cases)
  case (frame_arrives now f c)
  then have "slot_ok (frame_q c)" using assms(2) slot_ok_frame [of "(pl_client s)\<lparr>frame_q := avframe_q (pl_unit s)\<rparr>" now f] by (auto simp: unit_ok_def)
  then show ?thesis using frame_arrives assms(2) by (auto simp: unit_ok_def threads_up_def schedules_ok_def)
next
  case (io_work q item q')
  then show ?thesis using assms(2) queue_ok_taken [of 30 q item q'] by (auto simp: unit_ok_def threads_up_def schedules_ok_def)
next
  case (schedule infos)
  then show ?thesis using assms(2) lines_ok_virtual [of "payload infos"]
    by (auto simp: unit_ok_def threads_up_def schedules_ok_def schedule_callback_def AddDebugVirtualLines_REMOVABLE_def)
next
  case (exclude new)
  then show ?thesis using assms(2) by (auto simp: exclude_callback_def unit_ok_def threads_up_def schedules_ok_def)
qed (use assms(2) inference_cycle_ok response_cycle_ok event_cycle_ok in auto)

lemma pipeline_reach_ok: "(pipeline_step ff cv)\<^sup>*\<^sup>* s s' \<Longrightarrow> unit_ok (pl_unit s) \<Longrightarrow> unit_ok (pl_unit s')"
  by (induction rule: rtranclp_induct) (auto intro: pipeline_step_ok)


subsection \<open>From the start\<close>

definition fresh_links :: "unit_links \<Rightarrow> bool" where
  "fresh_links links = (frame_queue links = Some SafeQueue_init
     \<and> (case setting_manager_m links of None \<Rightarrow> True
        | Some sm \<Rightarrow> (case cam_schedules sm of None \<Rightarrow> True | Some d \<Rightarrow> lines_ok (payload d))))"

text \<open>The unit after \<open>Start\<close>, its inference thread past the set-up, with a client connected to the shared queue.\<close>

definition pipeline_start :: "class_files \<Rightarrow> camera_setting setting \<Rightarrow> client_config \<Rightarrow> 'kf rtsp_unit \<Rightarrow> 'kf pipeline option" where
  "pipeline_start files cam_setting cfg u =
     (case InferenceThreadRunner_setup files (Some cam_setting) True True u of
        (l, u) \<Rightarrow>
          let c = snd (client_Start True (GstRtspClient_new cfg (avframe_q u)))
          in map_option (\<lambda>l. \<lparr>pl_unit = u\<lparr>avframe_q := frame_q c\<rparr>, pl_client = c, pl_locals = l, pl_event_ctx = FrameFormattingContext_new\<rparr>) l)"

lemma started_unit_ok:
  assumes "unit_Start links (RtspDetectorUnit_new cam lb) = Inr (True, u)" and "fresh_links links"
  shows "unit_ok u"
proof -
  let ?new = "RtspDetectorUnit_new cam lb :: 'a rtsp_unit"
  obtain u1 where init: "unit_Init links ?new = (True, u1)"
    using assms(1) by (cases "unit_Init links ?new") (auto simp: unit_Start_def RtspDetectorUnit_new_def split: if_splits)
  obtain sio sm where l: "balancer ?new \<noteq> None" "sio_handler_id links = Some sio" "setting_manager_m links = Some sm"
    "u1 = init_settings sm (init_queues (?new\<lparr>socket_io_server_id := sio, avframe_q := Some (SetMaxSize 60 SafeQueue_init)\<rparr>))"
    using init assms(2) by (auto simp: unit_Init_def fresh_links_def RtspDetectorUnit_new_def Let_def split: if_splits option.splits)
  have lines: "lines_ok (payload (schedule_settings u1))"
    using assms(2) l(3) lines_ok_virtual [of "[]"] lines_ok_virtual
    by (auto simp: l(4) init_settings_def init_queues_def fresh_links_def AddDebugVirtualLines_REMOVABLE_def RtspDetectorUnit_new_def ISettingData_new_def
        lines_ok_def Let_def split: option.splits)
  have u1: "is_initialized_service u1" "balancer u1 = lb" "scheduler u1 = []" "trackers u1 = Map.empty" "tracker_seqs u1 = Map.empty"
    "avframe_q u1 = Some (SetMaxSize 60 SafeQueue_init)" "inflight_q u1 = Some (SetMaxSize 10 SafeQueue_init)"
    "event_q u1 = Some (SetMaxSize 10 SafeQueue_init)" "io_work_queue u1 = Some (SetMaxSize 30 SafeQueue_init)"
    "inference_thread u1 = SetThreadFunctions (Some Inference_runner) (Some Inference_closer) SafeThread_init"
    "response_thread u1 = SetThreadFunctions (Some Response_runner) (Some Response_closer) SafeThread_init"
    "event_thread u1 = SetThreadFunctions (Some Event_runner) (Some Event_closer) SafeThread_init"
    "io_worker_thread u1 = SetThreadFunctions (Some IOWorker_runner) (Some IOWorker_closer) SafeThread_init"
    by (auto simp: l(4) init_settings_def init_queues_def RtspDetectorUnit_new_def Let_def split: option.splits)
  have start: "Start (SetThreadFunctions (Some r) (Some f) SafeThread_init) = Inr (True, (SetThreadFunctions (Some r) (Some f) SafeThread_init)
      \<lparr>is_running := True, joinable := True, thread_log := [Spawned (Some r)]\<rparr>)" for r f :: unit_fun
    by (simp add: Start_def SetThreadFunctions_def SafeThread_init_def Let_def)
  have "thread_closer (SetThreadFunctions (Some r) (Some f) SafeThread_init) = Some f" for r f :: unit_fun
    by (simp add: SetThreadFunctions_def Let_def)
  then show ?thesis using assms(1) init l(1) lines u1
    by (auto simp: unit_Start_def start unit_ok_def threads_up_def thread_up_def slot_ok_def queue_ok_def within_cap_def SetMaxSize_def SafeQueue_init_def
        schedules_ok_def RtspDetectorUnit_new_def)
qed

lemma pipeline_start_ok:
  assumes "unit_ok u" and "pipeline_start files cam_setting cfg u = Some s"
  shows "unit_ok (pl_unit s)"
proof -
  obtain engines u1 where b: "bind_engines files u = (engines, u1)" by fastforce
  have "unit_ok u1"
    using assms(1) b by (auto simp: bind_engines_def unit_ok_def threads_up_def schedules_ok_def Let_def split: if_splits prod.splits)
  then show ?thesis using assms(2) b
    by (auto simp: pipeline_start_def InferenceThreadRunner_setup_def GstRtspClient_new_def client_Start_def StartReceiver_def SetMaxSize_def
        unit_ok_def threads_up_def schedules_ok_def slot_ok_def Let_def)
qed

text \<open>
  C8. Every interleaving is bounded and sane.  From the start of a camera unit on, whatever the threads, the receiver and the setting callbacks do in whatever
  order: at most one decoded frame waits, at most 10 items are in flight, at most 10 batches of tracks and 30 snapshots wait, no queue is
  closed, all four threads run, every schedule is well-formed (no check can end the process), and a tracker has a
  sequence number exactly when it exists.
\<close>

theorem pipeline_bounded:
  assumes "unit_Start links (RtspDetectorUnit_new cam lb) = Inr (True, u)" and "fresh_links links"
    and "pipeline_start files cam_setting cfg u = Some s" and "(pipeline_step ff cv)\<^sup>*\<^sup>* s s'"
  shows "\<exists>frames inflight events snapshots. avframe_q (pl_unit s') = Some frames \<and> inflight_q (pl_unit s') = Some inflight
    \<and> event_q (pl_unit s') = Some events \<and> io_work_queue (pl_unit s') = Some snapshots
    \<and> length (sq_q frames) \<le> 1 \<and> length (sq_q inflight) \<le> 10 \<and> length (sq_q events) \<le> 10 \<and> length (sq_q snapshots) \<le> 30
    \<and> \<not> is_terminated frames \<and> \<not> is_terminated inflight \<and> \<not> is_terminated events \<and> \<not> is_terminated snapshots
    \<and> is_running (inference_thread (pl_unit s')) \<and> is_running (response_thread (pl_unit s')) \<and> is_running (event_thread (pl_unit s'))
    \<and> is_running (io_worker_thread (pl_unit s'))
    \<and> list_all schedule_ok (scheduler (pl_unit s')) \<and> dom (trackers (pl_unit s')) = dom (tracker_seqs (pl_unit s'))"
  using pipeline_reach_ok [OF assms(4) pipeline_start_ok [OF started_unit_ok [OF assms(1,2)] assms(3)]]
  by (auto simp: unit_ok_def threads_up_def thread_up_def slot_ok_def queue_ok_def within_cap_def schedules_ok_def in_step_def is_terminated_def)


subsection \<open>Shutdown\<close>

lemma Unsubscribe_subscription:
  "subscribers (Unsubscribe x lb) = subscribers lb - {x}"
  "map_of (cam_result_qs (Unsubscribe x lb)) y = (if y = x then None else map_of (cam_result_qs lb) y)"
  by (auto simp: Unsubscribe_def Let_def delete_conv' split: option.splits)

lemma fold_Unsubscribe:
  "subscribers (fold Unsubscribe ids lb) = subscribers lb - set ids"
  "y \<in> set ids \<Longrightarrow> map_of (cam_result_qs (fold Unsubscribe ids lb)) y = None"
proof -
  show "subscribers (fold Unsubscribe ids lb) = subscribers lb - set ids"
    by (induction ids arbitrary: lb) (auto simp: Unsubscribe_subscription)
  have "map_of (cam_result_qs (fold Unsubscribe ids lb)) y = None" if "y \<in> set ids \<or> map_of (cam_result_qs lb) y = None"
    using that by (induction ids arbitrary: lb) (auto simp: Unsubscribe_subscription)
  then show "y \<in> set ids \<Longrightarrow> map_of (cam_result_qs (fold Unsubscribe ids lb)) y = None" by blast
qed

text \<open>What a thread may still do between its closer and the join: finish the iteration it is in.\<close>

definition inference_tail :: "('kf rtsp_unit \<Rightarrow> 'kf rtsp_unit) \<Rightarrow> bool" where
  "inference_tail f = (\<forall>u. f u = u \<or> (\<exists>ff env frame l l'. process_frame ff env frame l u = Some (l', f u)))"

definition response_tail :: "'kf opencv \<Rightarrow> ('kf rtsp_unit \<Rightarrow> 'kf rtsp_unit) \<Rightarrow> bool" where
  "response_tail cv f = (\<forall>u. f u = u \<or> (\<exists>env item es. respond_item cv env item u = Some (es, f u)))"

definition event_tail :: "('kf rtsp_unit \<Rightarrow> 'kf rtsp_unit) \<Rightarrow> bool" where
  "event_tail f = (\<forall>u. f u = u \<or> (\<exists>ff env item ctx ctx' es. event_item ff env item ctx u = Some (es, ctx', f u)))"

lemma tail_effects:
  "inference_tail f \<Longrightarrow> keeps u (f u) \<and> avframe_q (f u) = avframe_q u \<and> event_q (f u) = event_q u \<and> io_work_queue (f u) = io_work_queue u
     \<and> pushed (inflight_q u) (inflight_q (f u))"
  "response_tail cv f \<Longrightarrow> keeps u (f u) \<and> avframe_q (f u) = avframe_q u \<and> inflight_q (f u) = inflight_q u \<and> io_work_queue (f u) = io_work_queue u
     \<and> pushed (event_q u) (event_q (f u))"
  "event_tail f \<Longrightarrow> keeps u (f u) \<and> avframe_q (f u) = avframe_q u \<and> inflight_q (f u) = inflight_q u \<and> event_q (f u) = event_q u
     \<and> pushed (io_work_queue u) (io_work_queue (f u))"
proof -
  assume "inference_tail f"
  then consider "f u = u" | ff env frame l l' where "process_frame ff env frame l u = Some (l', f u)" unfolding inference_tail_def by blast
  then show "keeps u (f u) \<and> avframe_q (f u) = avframe_q u \<and> event_q (f u) = event_q u \<and> io_work_queue (f u) = io_work_queue u
     \<and> pushed (inflight_q u) (inflight_q (f u))" by cases (simp_all add: process_frame_effect)
next
  assume "response_tail cv f"
  then consider "f u = u" | env item es where "respond_item cv env item u = Some (es, f u)" unfolding response_tail_def by blast
  then show "keeps u (f u) \<and> avframe_q (f u) = avframe_q u \<and> inflight_q (f u) = inflight_q u \<and> io_work_queue (f u) = io_work_queue u
     \<and> pushed (event_q u) (event_q (f u))" by cases (simp_all add: respond_item_effect)
next
  assume "event_tail f"
  then consider "f u = u" | ff env item ctx ctx' es where "event_item ff env item ctx u = Some (es, ctx', f u)" unfolding event_tail_def by blast
  then show "keeps u (f u) \<and> avframe_q (f u) = avframe_q u \<and> inflight_q (f u) = inflight_q u \<and> event_q (f u) = event_q u
     \<and> pushed (io_work_queue u) (io_work_queue (f u))" by cases (simp_all add: event_item_effect)
qed

definition ended :: "'a safe_queue option \<Rightarrow> bool" where
  "ended q = (\<exists>x. q = Some x \<and> is_terminated x \<and> sq_q x = [])"

definition closed :: "'a safe_queue option \<Rightarrow> bool" where
  "closed q = (\<exists>x. q = Some x \<and> is_terminated x)"

lemma closing_queues:
  "queue_ok n q \<Longrightarrow> closed (map_option terminate q)" "slot_ok f \<Longrightarrow> ended (map_option (\<lambda>x. clear_without_action (terminate x)) f)"
  "closed q \<Longrightarrow> ended (map_option clear_without_action q)" "closed q \<Longrightarrow> pushed q q' \<Longrightarrow> closed q'"
  "queue_ok n q \<Longrightarrow> ended (map_option (\<lambda>x. clear_without_action (terminate x)) q)"
  by (auto simp: queue_ok_def slot_ok_def closed_def ended_def pushed_def terminate_def clear_without_action_def is_terminated_def enqueue_move_copy)

lemma Stop_thread_up: "thread_up f t \<Longrightarrow> \<not> is_running (Stop t) \<and> \<not> joinable (Stop t)"
  by (simp add: thread_up_def Stop_def Let_def)

lemma run_closer_up: "thread_up f t \<Longrightarrow> run_closer t u = call_closer f u"
  by (simp add: run_closer_def thread_up_def)

text \<open>
  The four steps of \<open>Stop\<close> on a running unit, each with the state it leaves: \<open>v1\<close> after the inference thread is joined, and so on.
\<close>

lemma unit_Stop_steps:
  assumes "unit_ok u" and "inference_tail f" and "response_tail cv g" and "event_tail h"
  shows "\<exists>lb. balancer u = Some lb \<and> unit_subscription (unit_Stop f g h u) = Some (subscription (fold Unsubscribe (subscribe_ids u) lb))
    \<and> ended (avframe_q (unit_Stop f g h u)) \<and> ended (inflight_q (unit_Stop f g h u)) \<and> ended (event_q (unit_Stop f g h u)) \<and> ended (io_work_queue (unit_Stop f g h u))
    \<and> inference_thread (unit_Stop f g h u) = Stop (inference_thread u) \<and> response_thread (unit_Stop f g h u) = Stop (response_thread u)
    \<and> event_thread (unit_Stop f g h u) = Stop (event_thread u) \<and> io_worker_thread (unit_Stop f g h u) = Stop (io_worker_thread u)
    \<and> is_initialized_service (unit_Stop f g h u)"
proof -
  obtain lb where lb: "balancer u = Some lb" using assms(1) by (auto simp: unit_ok_def)
  have up: "thread_up Inference_closer (inference_thread u)" "thread_up Response_closer (response_thread u)"
    "thread_up Event_closer (event_thread u)" "thread_up IOWorker_closer (io_worker_thread u)" using assms(1) by (simp_all add: unit_ok_def threads_up_def)
  define c1 where "c1 = InferenceThreadCloser u"
  have c1: "thread_part c1 = thread_part u" "unit_subscription c1 = Some (subscription (fold Unsubscribe (subscribe_ids u) lb))"
    "ended (avframe_q c1)" "closed (inflight_q c1)" "event_q c1 = event_q u" "io_work_queue c1 = io_work_queue u"
    using assms(1) lb closing_queues(1) [of 10 "inflight_q u"] closing_queues(2) [of "avframe_q u"]
    by (simp_all add: c1_def InferenceThreadCloser_def Let_def thread_part_def unit_subscription_def unit_ok_def)
  define v1 where "v1 = (f c1)\<lparr>inference_thread := Stop (inference_thread u)\<rparr>"
  note t1 = tail_effects(1) [OF assms(2), of c1]
  have v1: "unit_subscription v1 = unit_subscription c1" "ended (avframe_q v1)" "closed (inflight_q v1)" "event_q v1 = event_q u" "io_work_queue v1 = io_work_queue u"
    "response_thread v1 = response_thread u" "event_thread v1 = event_thread u" "io_worker_thread v1 = io_worker_thread u" "is_initialized_service v1 = is_initialized_service u"
    using t1 c1 closing_queues(4) by (auto simp: v1_def keeps_def thread_part_def unit_subscription_def)
  define c2 where "c2 = ResponseThreadCloser v1"
  define v2 where "v2 = (g c2)\<lparr>response_thread := Stop (response_thread u)\<rparr>"
  note t2 = tail_effects(2) [OF assms(3), of c2]
  have "closed (event_q c2)" "ended (inflight_q c2)"
    using assms(1) v1(3,4) closing_queues(1) [of 10 "event_q u"] closing_queues(3) by (simp_all add: c2_def ResponseThreadCloser_def unit_ok_def)
  then have v2: "unit_subscription v2 = unit_subscription c1" "ended (avframe_q v2)" "ended (inflight_q v2)" "closed (event_q v2)" "io_work_queue v2 = io_work_queue u"
    "inference_thread v2 = Stop (inference_thread u)" "event_thread v2 = event_thread u" "io_worker_thread v2 = io_worker_thread u" "is_initialized_service v2 = is_initialized_service u"
    using t2 v1 closing_queues(4) by (auto simp: v2_def c2_def ResponseThreadCloser_def v1_def keeps_def thread_part_def unit_subscription_def)
  define c3 where "c3 = EventThreadCloser v2"
  define v3 where "v3 = (h c3)\<lparr>event_thread := Stop (event_thread u)\<rparr>"
  note t3 = tail_effects(3) [OF assms(4), of c3]
  have "ended (event_q c3)" "queue_ok 30 (io_work_queue c3)"
    using assms(1) v2(4,5) closing_queues(3) by (simp_all add: c3_def EventThreadCloser_def unit_ok_def)
  then have v3: "unit_subscription v3 = unit_subscription c1" "ended (avframe_q v3)" "ended (inflight_q v3)" "ended (event_q v3)" "queue_ok 30 (io_work_queue v3)"
    "inference_thread v3 = Stop (inference_thread u)" "response_thread v3 = Stop (response_thread u)" "io_worker_thread v3 = io_worker_thread u"
    "is_initialized_service v3 = is_initialized_service u"
    using t3 v2 queue_ok_pushed [of 30 "io_work_queue c3" "io_work_queue (h c3)"]
    by (auto simp: v3_def c3_def EventThreadCloser_def v2_def keeps_def thread_part_def unit_subscription_def)
  have stop: "unit_Stop f g h u = (IOWorkerThreadCloser v3)\<lparr>io_worker_thread := Stop (io_worker_thread u)\<rparr>"
    by (simp only: unit_Stop_def Let_def run_closer_up [OF up(1)] run_closer_up [OF up(2)] run_closer_up [OF up(3)] run_closer_up [OF up(4)] call_closer.simps
        c1_def [symmetric] v1_def [symmetric] v1(6) c2_def [symmetric] v2_def [symmetric] v2(7) c3_def [symmetric] v3_def [symmetric] v3(8))
  have "event_thread v3 = Stop (event_thread u)" by (simp add: v3_def)
  then show ?thesis using lb v3 c1(2) assms(1) closing_queues(5) [of 30 "io_work_queue v3"]
    by (simp add: stop IOWorkerThreadCloser_def unit_subscription_def unit_ok_def)
qed


text \<open>
  C39. A stopped unit does not come back.  \<open>Start\<close> after \<open>Stop\<close> reports success and spawns the threads again, but the
  queues stay closed because only the skipped initialisation makes new ones: whatever happens, the inference
  thread takes no frame, and the response and event threads leave their loops at once.
\<close>

theorem restart_stays_dead:
  assumes "unit_ok u" and "inference_tail f" and "response_tail cv g" and "event_tail h"
  shows "\<exists>v. unit_Start links (unit_Stop f g h u) = Inr (True, v)
    \<and> (\<forall>ff env l. inference_cycle ff env l v = Some (l, v))
    \<and> (\<forall>env. response_cycle cv env v = Some (False, [], v))
    \<and> (\<forall>ff env ctx. event_cycle ff env ctx v = Some (False, [], ctx, v))"
proof -
  let ?s = "unit_Stop f g h u"
  have s: "ended (avframe_q ?s)" "ended (inflight_q ?s)" "ended (event_q ?s)" "is_initialized_service ?s"
    "inference_thread ?s = Stop (inference_thread u)" "response_thread ?s = Stop (response_thread u)"
    "event_thread ?s = Stop (event_thread u)" "io_worker_thread ?s = Stop (io_worker_thread u)"
    using unit_Stop_steps [OF assms] by blast+
  have start: "\<exists>t'. Start (Stop t) = Inr (True, t')" if "thread_up c t" for c t
    using Stop_thread_up [OF that] by (auto simp: Start_def Let_def)
  obtain t1 t2 t3 t4 where t: "Start (inference_thread ?s) = Inr (True, t1)" "Start (response_thread ?s) = Inr (True, t2)"
    "Start (event_thread ?s) = Inr (True, t3)" "Start (io_worker_thread ?s) = Inr (True, t4)"
    using start assms(1) unfolding s unit_ok_def threads_up_def by metis
  define v where "v = ?s\<lparr>io_worker_thread := t4, event_thread := t3, response_thread := t2, inference_thread := t1\<rparr>"
  have "unit_Start links ?s = Inr (True, v)" using s(4) t by (simp add: unit_Start_def v_def Let_def)
  moreover obtain frames inflight events where q: "avframe_q v = Some frames" "inflight_q v = Some inflight" "event_q v = Some events"
    "b_terminate frames" "b_terminate inflight" "b_terminate events"
    using s(1-3) by (auto simp: v_def ended_def is_terminated_def)
  moreover have "v\<lparr>avframe_q := Some frames\<rparr> = v" "v\<lparr>inflight_q := Some inflight\<rparr> = v" "v\<lparr>event_q := Some events\<rparr> = v"
    using q by (cases v; simp)+
  ultimately show ?thesis
    by (intro exI [of _ v]) (simp add: inference_cycle_def response_cycle_def event_cycle_def dequeue_wait_for_def is_terminated_def)
qed

subsection \<open>A concrete camera\<close>

definition sample_links :: unit_links where
  "sample_links = \<lparr>has_network_manager = True, has_rtsp_handler = True, sio_handler_id = Some 4, has_iostream_manager = True,
     frame_queue = Some SafeQueue_init, setting_manager_m = Some \<lparr>cam_exclude = None, cam_schedules = None, server_settings = None\<rparr>\<rparr>"

lemma sample_fresh: "fresh_links sample_links"
  by (simp add: fresh_links_def sample_links_def)

lemma sample_start: "\<exists>u. unit_Start sample_links (RtspDetectorUnit_new 5 (Some sample_balancer)) = Inr (True, u)"
  by (simp add: unit_Start_def unit_Init_def sample_links_def RtspDetectorUnit_new_def init_queues_def init_settings_def Let_def Start_def
      SetThreadFunctions_def SafeThread_init_def UNIT_ID_NOT_SET_def SERVER_IDENTIFIER_NOT_SET_def)

theorem pipeline_bounded_witness:
  "\<exists>u. \<exists>s s' :: kf_vector pipeline. unit_Start sample_links (RtspDetectorUnit_new 5 (Some sample_balancer)) = Inr (True, u)
     \<and> pipeline_start sample_files (ISettingData_new FirstOnly CameraSetting_default) (client_cfg sample_client) u = Some s
     \<and> pipeline_step sample_ffmpeg sample_cv s s'
     \<and> (\<exists>frames. avframe_q (pl_unit s') = Some frames \<and> length (sq_q frames) \<le> 1)"
proof -
  obtain u :: "kf_vector rtsp_unit" where u: "unit_Start sample_links (RtspDetectorUnit_new 5 (Some sample_balancer)) = Inr (True, u)"
    using sample_start by blast
  obtain s where s: "pipeline_start sample_files (ISettingData_new FirstOnly CameraSetting_default) (client_cfg sample_client) u = Some s"
    by (cases "bind_engines sample_files u") (simp add: pipeline_start_def InferenceThreadRunner_setup_def Let_def)
  obtain s' where s': "pipeline_step sample_ffmpeg sample_cv s s'"
    using pipeline_step.frame_arrives [OF refl, of sample_ffmpeg sample_cv s 1 "sized_frame 4 2"] by blast
  show ?thesis using pipeline_bounded [OF u sample_fresh s r_into_rtranclp [of "pipeline_step sample_ffmpeg sample_cv", OF s']] u s s' by blast
qed

lemma idle_tails: "inference_tail (\<lambda>u. u)" "response_tail cv (\<lambda>u. u)" "event_tail (\<lambda>u. u)"
  by (simp_all add: inference_tail_def response_tail_def event_tail_def)


theorem restart_stays_dead_witness:
  "\<exists>u v :: kf_vector rtsp_unit. unit_Start sample_links (RtspDetectorUnit_new 5 (Some sample_balancer)) = Inr (True, u)
     \<and> unit_Start sample_links (unit_Stop (\<lambda>u. u) (\<lambda>u. u) (\<lambda>u. u) u) = Inr (True, v)
     \<and> response_cycle sample_cv sample_response_env v = Some (False, [], v)"
proof -
  obtain u :: "kf_vector rtsp_unit" where u: "unit_Start sample_links (RtspDetectorUnit_new 5 (Some sample_balancer)) = Inr (True, u)"
    using sample_start by blast
  show ?thesis using restart_stays_dead [OF started_unit_ok [OF u sample_fresh] idle_tails(1) idle_tails(2) [of sample_cv] idle_tails(3), of sample_links] u by blast
qed

end
