(* ===== verification/Iostream_Manager.thy ===== *)
theory Iostream_Manager
  imports Safe_Queue Reply_Cleaner "HOL-Library.AList"
begin

text \<open>
  \<open>IOStreamManager\<close>: the registry of the queues and dispatchers through which receivers, services and camera units
  talk.  Queues are shared objects: a store maps addresses (the shared pointers) to queues, the registry maps keys to addresses.
  A member function runs under the mutex and is one transition.  The elements of the queues are a
  parameter type; \<open>GetSafeQueue\<close> checks the element type the caller asks for.
\<close>

subsection \<open>State\<close>

datatype QueueType = SIO_EVENT | GRPC_CLIENT_RSP | GRPC_SERVER_REQ_JSON | GRPC_SERVER_REQ_IMAGE | RTSP_AVFRAME

datatype queue_key = String_key string | Int_key int

datatype element_type = Json_element | EventDataOnlyJson_element | EventDataWithRawImages_element | AVFrame_element

fun element_of :: "QueueType \<Rightarrow> element_type" where
  "element_of SIO_EVENT = Json_element"
| "element_of GRPC_CLIENT_RSP = Json_element"
| "element_of GRPC_SERVER_REQ_JSON = EventDataOnlyJson_element"
| "element_of GRPC_SERVER_REQ_IMAGE = EventDataWithRawImages_element"
| "element_of RTSP_AVFRAME = AVFrame_element"

record ('e, 'd) iostream =
  queue_store :: "nat \<Rightarrow> 'e safe_queue"
  next_queue :: nat
  dispatcher_store :: "nat \<Rightarrow> (string, 'd) reply_cleaner"
  next_dispatcher :: nat
  sio_event_map :: "(string \<times> nat) list"
  grpc_client_respond_map :: "(string \<times> nat) list"
  grpc_server_request_json_map :: "(string \<times> nat) list"
  grpc_server_request_image_map :: "(string \<times> nat) list"
  grpc_server_respond_dispatcher_map :: "(string \<times> nat) list"
  rtsp_proxy_frame_map :: "(int \<times> nat) list"
  is_ready_socket_io_pipeline :: bool
  is_ready_rtsp_pipeline :: bool

definition IOStreamManager_new :: "('e, 'd) iostream" where
  "IOStreamManager_new = \<lparr>queue_store = (\<lambda>_. SafeQueue_init), next_queue = 0, dispatcher_store = (\<lambda>_. ReplyCleaner_init), next_dispatcher = 0, sio_event_map = [],
     grpc_client_respond_map = [], grpc_server_request_json_map = [], grpc_server_request_image_map = [],
     grpc_server_respond_dispatcher_map = [], rtsp_proxy_frame_map = [], is_ready_socket_io_pipeline = False, is_ready_rtsp_pipeline = False\<rparr>"

subsection \<open>Queues\<close>

definition make_shared_queue :: "('e, 'd) iostream \<Rightarrow> nat \<times> ('e, 'd) iostream" where
  "make_shared_queue m = (next_queue m, m\<lparr>queue_store := (queue_store m)(next_queue m := SafeQueue_init), next_queue := Suc (next_queue m)\<rparr>)"

fun RegisterSafeQueue :: "QueueType \<Rightarrow> queue_key \<Rightarrow> ('e, 'd) iostream \<Rightarrow> bool \<times> ('e, 'd) iostream" where
  "RegisterSafeQueue SIO_EVENT (String_key k) m =
     (case make_shared_queue m of (a, m) \<Rightarrow> (True, m\<lparr>sio_event_map := AList.update k a (sio_event_map m)\<rparr>))"
| "RegisterSafeQueue GRPC_CLIENT_RSP (String_key k) m =
     (case make_shared_queue m of (a, m) \<Rightarrow> (True, m\<lparr>grpc_client_respond_map := AList.update k a (grpc_client_respond_map m)\<rparr>))"
| "RegisterSafeQueue GRPC_SERVER_REQ_JSON (String_key k) m =
     (case make_shared_queue m of (a, m) \<Rightarrow> (True, m\<lparr>grpc_server_request_json_map := AList.update k a (grpc_server_request_json_map m)\<rparr>))"
| "RegisterSafeQueue GRPC_SERVER_REQ_IMAGE (String_key k) m =
     (case make_shared_queue m of (a, m) \<Rightarrow> (True, m\<lparr>grpc_server_request_image_map := AList.update k a (grpc_server_request_image_map m)\<rparr>))"
| "RegisterSafeQueue RTSP_AVFRAME (Int_key k) m =
     (case make_shared_queue m of (a, m) \<Rightarrow> (True, m\<lparr>rtsp_proxy_frame_map := AList.update k a (rtsp_proxy_frame_map m)\<rparr>))"
| "RegisterSafeQueue _ _ m = (False, m)"

text \<open>The variant of a queue pointer, with the type of its elements; \<open>None\<close> is \<open>std::monostate\<close>.\<close>

fun GetSafeQueueAuto :: "QueueType \<Rightarrow> queue_key \<Rightarrow> ('e, 'd) iostream \<Rightarrow> (element_type \<times> nat) option" where
  "GetSafeQueueAuto SIO_EVENT (String_key k) m = map_option (Pair Json_element) (map_of (sio_event_map m) k)"
| "GetSafeQueueAuto GRPC_CLIENT_RSP (String_key k) m = map_option (Pair Json_element) (map_of (grpc_client_respond_map m) k)"
| "GetSafeQueueAuto GRPC_SERVER_REQ_JSON (String_key k) m =
     map_option (Pair EventDataOnlyJson_element) (map_of (grpc_server_request_json_map m) k)"
| "GetSafeQueueAuto GRPC_SERVER_REQ_IMAGE (String_key k) m =
     map_option (Pair EventDataWithRawImages_element) (map_of (grpc_server_request_image_map m) k)"
| "GetSafeQueueAuto RTSP_AVFRAME (Int_key k) m = map_option (Pair AVFrame_element) (map_of (rtsp_proxy_frame_map m) k)"
| "GetSafeQueueAuto _ _ m = None"

definition GetSafeQueueAs :: "element_type \<Rightarrow> (element_type \<times> nat) option \<Rightarrow> nat option" where
  "GetSafeQueueAs t v = (case v of None \<Rightarrow> None | Some (t', a) \<Rightarrow> if t' = t then Some a else None)"

definition GetSafeQueue :: "element_type \<Rightarrow> QueueType \<Rightarrow> queue_key \<Rightarrow> ('e, 'd) iostream \<Rightarrow> nat option" where
  "GetSafeQueue t type key m = GetSafeQueueAs t (GetSafeQueueAuto type key m)"

fun UnregisterSafeQueue :: "QueueType \<Rightarrow> queue_key \<Rightarrow> ('e, 'd) iostream \<Rightarrow> bool \<times> ('e, 'd) iostream" where
  "UnregisterSafeQueue SIO_EVENT (String_key k) m =
     (map_of (sio_event_map m) k \<noteq> None, m\<lparr>sio_event_map := AList.delete k (sio_event_map m)\<rparr>)"
| "UnregisterSafeQueue GRPC_CLIENT_RSP (String_key k) m =
     (map_of (grpc_client_respond_map m) k \<noteq> None, m\<lparr>grpc_client_respond_map := AList.delete k (grpc_client_respond_map m)\<rparr>)"
| "UnregisterSafeQueue GRPC_SERVER_REQ_JSON (String_key k) m =
     (map_of (grpc_server_request_json_map m) k \<noteq> None, m\<lparr>grpc_server_request_json_map := AList.delete k (grpc_server_request_json_map m)\<rparr>)"
| "UnregisterSafeQueue GRPC_SERVER_REQ_IMAGE (String_key k) m =
     (map_of (grpc_server_request_image_map m) k \<noteq> None, m\<lparr>grpc_server_request_image_map := AList.delete k (grpc_server_request_image_map m)\<rparr>)"
| "UnregisterSafeQueue RTSP_AVFRAME (Int_key k) m =
     (map_of (rtsp_proxy_frame_map m) k \<noteq> None, m\<lparr>rtsp_proxy_frame_map := AList.delete k (rtsp_proxy_frame_map m)\<rparr>)"
| "UnregisterSafeQueue _ _ m = (False, m)"

subsection \<open>Dispatchers, clearing, pipelines\<close>

fun RegisterDispatcher :: "queue_key \<Rightarrow> ('e, 'd) iostream \<Rightarrow> bool \<times> ('e, 'd) iostream" where
  "RegisterDispatcher (String_key k) m =
     (let a = next_dispatcher m
      in (True, m\<lparr>dispatcher_store := (dispatcher_store m)(a := ReplyCleaner_init), next_dispatcher := Suc a,
                  grpc_server_respond_dispatcher_map := AList.update k a (grpc_server_respond_dispatcher_map m)\<rparr>))"
| "RegisterDispatcher (Int_key k) m = (False, m)"

definition GetDispatcher :: "string \<Rightarrow> ('e, 'd) iostream \<Rightarrow> nat option" where
  "GetDispatcher key m = map_of (grpc_server_respond_dispatcher_map m) key"

definition on_all :: "('q \<Rightarrow> 'q) \<Rightarrow> ('k \<times> nat) list \<Rightarrow> (nat \<Rightarrow> 'q) \<Rightarrow> nat \<Rightarrow> 'q" where
  "on_all f regs store = fold (\<lambda>(_, a) st. st(a := f (st a))) regs store"

definition ClearAll_streams :: "('e, 'd) iostream \<Rightarrow> ('e, 'd) iostream" where
  "ClearAll_streams m =
     (let st = on_all terminate (sio_event_map m) (queue_store m);
          st = on_all terminate (grpc_client_respond_map m) st;
          st = on_all terminate (grpc_server_request_json_map m) st;
          st = on_all terminate (grpc_server_request_image_map m) st;
          ds = on_all StopAutoCleanup (grpc_server_respond_dispatcher_map m) (dispatcher_store m);
          st = on_all terminate (rtsp_proxy_frame_map m) st
      in m\<lparr>queue_store := st, dispatcher_store := ds, sio_event_map := [], grpc_client_respond_map := [], grpc_server_request_json_map := [],
           grpc_server_request_image_map := [], grpc_server_respond_dispatcher_map := [], rtsp_proxy_frame_map := []\<rparr>)"

text \<open>The sets of ids are iterated in ascending order; the result is the set of ids that succeeded.\<close>

fun for_proxies :: "(queue_key \<Rightarrow> 's \<Rightarrow> bool \<times> 's) \<Rightarrow> int list \<Rightarrow> 's \<Rightarrow> int list \<times> 's" where
  "for_proxies op [] m = ([], m)"
| "for_proxies op (i # ids) m =
     (case op (Int_key i) m of (ok, m) \<Rightarrow> case for_proxies op ids m of (done_ids, m) \<Rightarrow> ((if ok then [i] else []) @ done_ids, m))"

definition RegisterRtspProxies :: "int list \<Rightarrow> ('e, 'd) iostream \<Rightarrow> int list \<times> ('e, 'd) iostream" where
  "RegisterRtspProxies unit_set m = for_proxies (RegisterSafeQueue RTSP_AVFRAME) unit_set m"

definition UnregisterRtspProxies :: "int list \<Rightarrow> ('e, 'd) iostream \<Rightarrow> int list \<times> ('e, 'd) iostream" where
  "UnregisterRtspProxies unit_set m = for_proxies (UnregisterSafeQueue RTSP_AVFRAME) unit_set m"

text \<open>What the network manager offers; \<open>None\<close> is a null pointer.\<close>

record rtsp_side =
  static_proxy_setting :: bool
  proxy_ids :: "int list"

record network_side =
  has_api_handler :: bool
  has_sio :: bool
  rtsp_handler_m :: "rtsp_side option"

definition ReadyImpl_SIO :: "network_side option \<Rightarrow> ('e, 'd) iostream \<Rightarrow> bool \<times> ('e, 'd) iostream" where
  "ReadyImpl_SIO nm m =
     (case nm of
        None \<Rightarrow> (False, m)
      | Some n \<Rightarrow> if \<not> has_api_handler n \<or> \<not> has_sio n then (False, m) else (True, m\<lparr>is_ready_socket_io_pipeline := True\<rparr>))"

definition ReadyImpl_RTSP :: "int list option \<Rightarrow> network_side option \<Rightarrow> ('e, 'd) iostream \<Rightarrow> bool \<times> ('e, 'd) iostream" where
  "ReadyImpl_RTSP camera_ids nm m =
     (case Option.bind nm rtsp_handler_m of
        None \<Rightarrow> (False, m)
      | Some rtsp \<Rightarrow>
          if \<not> static_proxy_setting rtsp then (True, m)
          else case camera_ids of
                 None \<Rightarrow> (False, m)
               | Some cams \<Rightarrow>
                   let register_proxy_ids = sort (remdups (proxy_ids rtsp @ cams))
                   in (case RegisterRtspProxies register_proxy_ids m of
                         (registered, m) \<Rightarrow>
                           if registered = register_proxy_ids then (True, m\<lparr>is_ready_rtsp_pipeline := True\<rparr>) else (False, m)))"

definition iostream_Ready :: "int list option \<Rightarrow> network_side option \<Rightarrow> ('e, 'd) iostream \<Rightarrow> bool \<times> ('e, 'd) iostream" where
  "iostream_Ready camera_ids nm m =
     (case nm of
        None \<Rightarrow> (False, m)
      | Some n \<Rightarrow>
          (case (if has_sio n \<and> \<not> is_ready_socket_io_pipeline m then ReadyImpl_SIO nm m else (True, m)) of
             (False, m) \<Rightarrow> (False, m)
           | (True, m) \<Rightarrow>
               if rtsp_handler_m n \<noteq> None \<and> \<not> is_ready_rtsp_pipeline m then ReadyImpl_RTSP camera_ids nm m else (True, m)))"


subsection \<open>The registry as an interface\<close>

text \<open>
  What the clients rely on: a registration binds its key to a new address and leaves the other keys
  alone, a removal unbinds its key.  Then no two keys ever share an address.
\<close>

locale registry =
  fixes look :: "'s \<Rightarrow> 'k \<Rightarrow> nat option"
    and reg :: "'k \<Rightarrow> 's \<Rightarrow> 's"
    and unreg :: "'k \<Rightarrow> 's \<Rightarrow> 's"
    and fresh :: "'s \<Rightarrow> nat"
    and valid :: "'k \<Rightarrow> bool"
  assumes look_reg: "look (reg k s) k' = (if valid k \<and> k' = k then Some (fresh s) else look s k')"
    and fresh_reg: "fresh (reg k s) = (if valid k then Suc (fresh s) else fresh s)"
    and look_unreg: "look (unreg k s) k' = (if k' = k then None else look s k')"
    and fresh_unreg: "fresh (unreg k s) = fresh s"
begin

definition unshared :: "'s \<Rightarrow> bool" where
  "unshared s = ((\<forall>k a. look s k = Some a \<longrightarrow> a < fresh s) \<and> (\<forall>k k' a. look s k = Some a \<longrightarrow> look s k' = Some a \<longrightarrow> k = k'))"

lemma unshared_reg: "unshared s \<Longrightarrow> unshared (reg k s)"
  unfolding unshared_def look_reg fresh_reg by (auto split: if_splits) (metis less_irrefl less_SucI)+

lemma unshared_unreg: "unshared s \<Longrightarrow> unshared (unreg k s)"
  unfolding unshared_def look_unreg fresh_unreg by (auto split: if_splits)

end

fun valid_key :: "QueueType \<times> queue_key \<Rightarrow> bool" where
  "valid_key (RTSP_AVFRAME, Int_key k) = True"
| "valid_key (RTSP_AVFRAME, String_key k) = False"
| "valid_key (t, String_key k) = True"
| "valid_key (t, Int_key k) = False"

definition queue_address :: "('e, 'd) iostream \<Rightarrow> QueueType \<times> queue_key \<Rightarrow> nat option" where
  "queue_address m tk = map_option snd (GetSafeQueueAuto (fst tk) (snd tk) m)"

lemma queue_address_Register:
  "queue_address (snd (RegisterSafeQueue (fst tk) (snd tk) m)) tk'
     = (if valid_key tk \<and> tk' = tk then Some (next_queue m) else queue_address m tk')"
  by (cases "(fst tk, snd tk, m)" rule: RegisterSafeQueue.cases; cases "(fst tk', snd tk', m)" rule: GetSafeQueueAuto.cases; cases tk; cases tk')
    (simp_all add: queue_address_def make_shared_queue_def update_conv' option.map_comp comp_def)

lemma next_queue_Register:
  "next_queue (snd (RegisterSafeQueue (fst tk) (snd tk) m)) = (if valid_key tk then Suc (next_queue m) else next_queue m)"
  by (cases "(fst tk, snd tk, m)" rule: RegisterSafeQueue.cases; cases tk) (simp_all add: make_shared_queue_def)

lemma queue_address_Unregister:
  "queue_address (snd (UnregisterSafeQueue (fst tk) (snd tk) m)) tk' = (if tk' = tk then None else queue_address m tk')"
  by (cases "(fst tk, snd tk, m)" rule: UnregisterSafeQueue.cases; cases "(fst tk', snd tk', m)" rule: GetSafeQueueAuto.cases; cases tk; cases tk')
    (simp_all add: queue_address_def delete_conv')

lemma next_queue_Unregister: "next_queue (snd (UnregisterSafeQueue (fst tk) (snd tk) m)) = next_queue m"
  by (cases "(fst tk, snd tk, m)" rule: UnregisterSafeQueue.cases) simp_all

interpretation streams: registry queue_address "\<lambda>tk m. snd (RegisterSafeQueue (fst tk) (snd tk) m)"
  "\<lambda>tk m. snd (UnregisterSafeQueue (fst tk) (snd tk) m)" next_queue valid_key
  by unfold_locales (rule queue_address_Register next_queue_Register queue_address_Unregister next_queue_Unregister)+


subsection \<open>Every sequence of calls\<close>

datatype 'e stream_call = Call_Register QueueType queue_key | Call_Unregister QueueType queue_key | Call_RegisterDispatcher queue_key
  | Call_queue nat "'e sq_call"

fun stream_step :: "('e, 'd) iostream \<Rightarrow> 'e stream_call \<Rightarrow> ('e, 'd) iostream" where
  "stream_step m (Call_Register t k) = snd (RegisterSafeQueue t k m)"
| "stream_step m (Call_Unregister t k) = snd (UnregisterSafeQueue t k m)"
| "stream_step m (Call_RegisterDispatcher k) = snd (RegisterDispatcher k m)"
| "stream_step m (Call_queue a c) = m\<lparr>queue_store := (queue_store m)(a := sq_step (queue_store m a) c)\<rparr>"

lemma queue_address_frame:
  "queue_address (snd (RegisterDispatcher k m)) = queue_address m" "next_queue (snd (RegisterDispatcher k m)) = next_queue m"
  "queue_address (m\<lparr>queue_store := st\<rparr>) = queue_address m"
proof -
  show "queue_address (snd (RegisterDispatcher k m)) = queue_address m"
  proof
    fix tk
    show "queue_address (snd (RegisterDispatcher k m)) tk = queue_address m tk"
      by (cases k; cases "(fst tk, snd tk, m)" rule: GetSafeQueueAuto.cases) (simp_all add: queue_address_def Let_def)
  qed
  show "next_queue (snd (RegisterDispatcher k m)) = next_queue m" by (cases k) (simp_all add: Let_def)
  show "queue_address (m\<lparr>queue_store := st\<rparr>) = queue_address m"
  proof
    fix tk
    show "queue_address (m\<lparr>queue_store := st\<rparr>) tk = queue_address m tk"
      by (cases "(fst tk, snd tk, m)" rule: GetSafeQueueAuto.cases) (simp_all add: queue_address_def)
  qed
qed

lemma stream_step_unshared: "streams.unshared m \<Longrightarrow> streams.unshared (stream_step m c)"
  using streams.unshared_reg [of m] streams.unshared_unreg [of m]
  by (cases c) (auto simp: streams.unshared_def queue_address_frame)

interpretation stream_calls: op_system stream_step "\<lambda>_. True" streams.unshared
  by unfold_locales (rule stream_step_unshared)

lemma new_unshared: "streams.unshared (IOStreamManager_new :: ('e, 'd) iostream)"
proof -
  have "queue_address (IOStreamManager_new :: ('e, 'd) iostream) tk = None" for tk
    by (cases "(fst tk, snd tk, IOStreamManager_new :: ('e, 'd) iostream)" rule: GetSafeQueueAuto.cases) (simp_all add: queue_address_def IOStreamManager_new_def)
  then show ?thesis by (simp add: streams.unshared_def)
qed

lemma on_all_terminate:
  "b_terminate (st a) \<or> a \<in> snd ` set regs \<Longrightarrow> b_terminate (on_all terminate regs st a)"
proof (induction regs arbitrary: st)
  case (Cons r regs)
  define st' where "st' = st(snd r := terminate (st (snd r)))"
  have "b_terminate (st' a) \<or> a \<in> snd ` set regs" using Cons.prems by (auto simp: terminate_def st'_def)
  then have "b_terminate (on_all terminate regs st' a)" by (rule Cons.IH)
  then show ?case by (simp add: on_all_def case_prod_unfold st'_def)
qed (simp add: on_all_def)

lemma map_of_address: "map_of xs k = Some a \<Longrightarrow> a \<in> snd ` set xs"
  by (force dest: map_of_SomeD)

lemma address_registered:
  "queue_address m tk = Some a \<Longrightarrow> a \<in> snd ` set (sio_event_map m) \<union> snd ` set (grpc_client_respond_map m) \<union> snd ` set (grpc_server_request_json_map m)
     \<union> snd ` set (grpc_server_request_image_map m) \<union> snd ` set (rtsp_proxy_frame_map m)"
  by (cases "(fst tk, snd tk, m)" rule: GetSafeQueueAuto.cases) (auto simp: queue_address_def dest: map_of_address)

lemma ClearAll_terminates: "queue_address m tk = Some a \<Longrightarrow> b_terminate (queue_store (ClearAll_streams m) a)"
  using address_registered [of m tk a] by (auto simp: ClearAll_streams_def Let_def intro!: on_all_terminate)

lemma ClearAll_empty: "queue_address (ClearAll_streams m) tk = None"
  by (cases "(fst tk, snd tk, m)" rule: GetSafeQueueAuto.cases) (simp_all add: queue_address_def ClearAll_streams_def Let_def)

lemma GetSafeQueue_address: "GetSafeQueue e t k m = Some a \<longleftrightarrow> queue_address m (t, k) = Some a \<and> e = element_of t"
  by (cases "(t, k, m)" rule: GetSafeQueueAuto.cases) (auto simp: GetSafeQueue_def GetSafeQueueAs_def queue_address_def split: option.splits)

text \<open>
  C22. The registry hands out what was registered, and nothing is shared by accident.  After any sequence of
  calls: a queue is found only under the element type of its kind; two requests get the same queue only for the same kind and key; a
  registration with a fitting key makes a new queue found from then on under this key, and leaves the others;
  \<open>ClearAll\<close> closes every registered queue, so that each waiting consumer returns, and leaves no entry.
\<close>

theorem stream_registry:
  fixes m :: "('e, 'd) iostream"
  assumes "m = foldl stream_step IOStreamManager_new calls"
  shows "(\<forall>e t k a. GetSafeQueue e t k m = Some a \<longrightarrow> e = element_of t)
    \<and> (\<forall>e t k e' t' k' a. GetSafeQueue e t k m = Some a \<longrightarrow> GetSafeQueue e' t' k' m = Some a \<longrightarrow> t = t' \<and> k = k')
    \<and> (\<forall>t k. valid_key (t, k) \<longrightarrow>
         (\<exists>a. GetSafeQueue (element_of t) t k (snd (RegisterSafeQueue t k m)) = Some a \<and> (\<forall>e' t' k'. GetSafeQueue e' t' k' m \<noteq> Some a)))
    \<and> (\<forall>t k e' t' k'. (t', k') \<noteq> (t, k) \<longrightarrow> GetSafeQueue e' t' k' (snd (RegisterSafeQueue t k m)) = GetSafeQueue e' t' k' m)
    \<and> (\<forall>e t k a. GetSafeQueue e t k m = Some a \<longrightarrow> is_terminated (queue_store (ClearAll_streams m) a))
    \<and> (\<forall>e t k. GetSafeQueue e t k (ClearAll_streams m) = None)"
proof -
  have inv: "streams.unshared m" using stream_calls.inv_run [OF new_unshared, of calls] assms by (simp add: list_all_iff)
  have reg: "queue_address (snd (RegisterSafeQueue t k m)) (t', k') = (if valid_key (t, k) \<and> (t', k') = (t, k) then Some (next_queue m) else queue_address m (t', k'))" for t k t' k'
    using queue_address_Register [of "(t, k)" m "(t', k')"] by simp
  have other: "GetSafeQueue e' t' k' (snd (RegisterSafeQueue t k m)) = GetSafeQueue e' t' k' m" if "(t', k') \<noteq> (t, k)" for e' t k t' k'
  proof -
    have "GetSafeQueue e' t' k' (snd (RegisterSafeQueue t k m)) = Some a \<longleftrightarrow> GetSafeQueue e' t' k' m = Some a" for a
      using reg [of t k t' k'] that unfolding GetSafeQueue_address by (metis (full_types))
    then show ?thesis by (metis option.exhaust)
  qed
  have new: "\<exists>a. GetSafeQueue (element_of t) t k (snd (RegisterSafeQueue t k m)) = Some a \<and> (\<forall>e' t' k'. GetSafeQueue e' t' k' m \<noteq> Some a)" if "valid_key (t, k)" for t k
    using reg [of t k t k] that inv unfolding GetSafeQueue_address streams.unshared_def by (intro exI [of _ "next_queue m"]) auto
  have none: "GetSafeQueue e t k (ClearAll_streams m) = None" for e t k
    using GetSafeQueue_address [of e t k "ClearAll_streams m"] ClearAll_empty [of m "(t, k)"] by (cases "GetSafeQueue e t k (ClearAll_streams m)") auto
  have uniq: "t = t' \<and> k = k'" if "GetSafeQueue e t k m = Some a" "GetSafeQueue e' t' k' m = Some a" for e t k e' t' k' a
    using inv that unfolding GetSafeQueue_address streams.unshared_def by blast
  show ?thesis using other new none uniq ClearAll_terminates unfolding is_terminated_def
    by (intro conjI allI impI) (auto simp: GetSafeQueue_address)
qed


lemma register_proxies:
  "RegisterRtspProxies ids m = (ids, foldl (\<lambda>m i. snd (RegisterSafeQueue RTSP_AVFRAME (Int_key i) m)) m ids)"
proof -
  have "for_proxies (RegisterSafeQueue RTSP_AVFRAME) ids m = (ids, foldl (\<lambda>m i. snd (RegisterSafeQueue RTSP_AVFRAME (Int_key i) m)) m ids)"
    by (induction ids arbitrary: m) (simp_all add: make_shared_queue_def)
  then show ?thesis by (simp add: RegisterRtspProxies_def)
qed

text \<open>A camera with a queue of its own: empty, open and new.\<close>

definition has_fresh_queue :: "nat \<Rightarrow> ('e, 'd) iostream \<Rightarrow> int \<Rightarrow> bool" where
  "has_fresh_queue n m i = (\<exists>a. GetSafeQueue AVFrame_element RTSP_AVFRAME (Int_key i) m = Some a \<and> queue_store m a = SafeQueue_init \<and> n \<le> a \<and> a < next_queue m)"

lemma has_fresh_queue_Register:
  "has_fresh_queue (next_queue m) (snd (RegisterSafeQueue RTSP_AVFRAME (Int_key i) m)) i"
  "has_fresh_queue n m j \<Longrightarrow> n \<le> next_queue m \<Longrightarrow> has_fresh_queue n (snd (RegisterSafeQueue RTSP_AVFRAME (Int_key i) m)) j"
proof -
  show "has_fresh_queue (next_queue m) (snd (RegisterSafeQueue RTSP_AVFRAME (Int_key i) m)) i"
    by (simp add: has_fresh_queue_def GetSafeQueue_def GetSafeQueueAs_def make_shared_queue_def update_conv')
next
  assume "has_fresh_queue n m j" and n: "n \<le> next_queue m"
  then obtain a where a: "map_of (rtsp_proxy_frame_map m) j = Some a" "queue_store m a = SafeQueue_init" "n \<le> a" "a < next_queue m"
    by (auto simp: has_fresh_queue_def GetSafeQueue_def GetSafeQueueAs_def split: option.splits if_splits)
  then show "has_fresh_queue n (snd (RegisterSafeQueue RTSP_AVFRAME (Int_key i) m)) j"
    using n unfolding has_fresh_queue_def
    by (intro exI [of _ "if j = i then next_queue m else a"]) (simp add: GetSafeQueue_def GetSafeQueueAs_def make_shared_queue_def update_conv')
qed

lemma proxies_fresh:
  fixes m :: "('e, 'd) iostream"
  assumes "n \<le> next_queue m"
  shows "\<forall>i. i \<in> set ids \<or> has_fresh_queue n m i \<longrightarrow> has_fresh_queue n (foldl (\<lambda>m i. snd (RegisterSafeQueue RTSP_AVFRAME (Int_key i) m)) m ids) i"
  using assms
proof (induction ids arbitrary: m)
  case (Cons i ids)
  let ?m = "snd (RegisterSafeQueue RTSP_AVFRAME (Int_key i) m)"
  have n: "n \<le> next_queue ?m" using Cons.prems by (simp add: make_shared_queue_def)
  have "has_fresh_queue n ?m i"
    using has_fresh_queue_Register(1) [of m i] Cons.prems by (auto simp: has_fresh_queue_def intro: order_trans)
  moreover have "has_fresh_queue n ?m j" if "has_fresh_queue n m j" for j by (rule has_fresh_queue_Register(2) [OF that Cons.prems])
  ultimately show ?case using Cons.IH [OF n] by auto
qed simp

text \<open>
  After a successful \<open>Ready\<close> with a static proxy setting, every camera of the settings and every proxy of the RTSP
  handler has its own new, open and empty frame queue, which is what the camera unit finds in \<open>Init\<close>.
\<close>

theorem ready_gives_camera_queues:
  assumes "rtsp_handler_m n = Some rtsp" and "static_proxy_setting rtsp" and "\<not> is_ready_rtsp_pipeline m"
    and "iostream_Ready (Some cams) (Some n) m = (True, m')"
  shows "is_ready_rtsp_pipeline m' \<and> (\<forall>cam \<in> set cams \<union> set (proxy_ids rtsp). \<exists>a. GetSafeQueue AVFrame_element RTSP_AVFRAME (Int_key cam) m' = Some a
    \<and> next_queue m \<le> a \<and> queue_store m' a = SafeQueue_init)"
proof -
  obtain m1 where m1: "next_queue m1 = next_queue m" "ReadyImpl_RTSP (Some cams) (Some n) m1 = (True, m')"
  proof (cases "has_sio n \<and> \<not> is_ready_socket_io_pipeline m")
    case True
    then show ?thesis using assms that [of "m\<lparr>is_ready_socket_io_pipeline := True\<rparr>"] by (auto simp: iostream_Ready_def ReadyImpl_SIO_def split: if_splits)
  next
    case False
    then show ?thesis using assms that [of m] by (auto simp: iostream_Ready_def split: if_splits)
  qed
  let ?ids = "sort (remdups (proxy_ids rtsp @ cams))"
  let ?m2 = "foldl (\<lambda>m i. snd (RegisterSafeQueue RTSP_AVFRAME (Int_key i) m)) m1 ?ids"
  have m': "m' = ?m2\<lparr>is_ready_rtsp_pipeline := True\<rparr>"
    using m1(2) assms(1,2) by (simp add: ReadyImpl_RTSP_def register_proxies Let_def)
  have "has_fresh_queue (next_queue m) ?m2 cam" if "cam \<in> set cams \<union> set (proxy_ids rtsp)" for cam
    using proxies_fresh [of "next_queue m" m1 ?ids] m1(1) that by auto
  then show ?thesis by (auto simp: m' has_fresh_queue_def GetSafeQueue_def)
qed

definition sample_network :: network_side where
  "sample_network = \<lparr>has_api_handler = True, has_sio = True, rtsp_handler_m = Some \<lparr>static_proxy_setting = True, proxy_ids = [7]\<rparr>\<rparr>"

theorem ready_gives_camera_queues_witness:
  "\<exists>m' :: (nat, nat) iostream. iostream_Ready (Some [5]) (Some sample_network) IOStreamManager_new = (True, m')
     \<and> (\<exists>a. GetSafeQueue AVFrame_element RTSP_AVFRAME (Int_key 5) m' = Some a)"
proof -
  obtain m' :: "(nat, nat) iostream" where m': "iostream_Ready (Some [5]) (Some sample_network) IOStreamManager_new = (True, m')"
    by (simp add: iostream_Ready_def ReadyImpl_SIO_def ReadyImpl_RTSP_def register_proxies sample_network_def IOStreamManager_new_def Let_def)
  have "\<not> is_ready_rtsp_pipeline (IOStreamManager_new :: (nat, nat) iostream)" by (simp add: IOStreamManager_new_def)
  from ready_gives_camera_queues [OF _ _ this m', of "\<lparr>static_proxy_setting = True, proxy_ids = [7]\<rparr>"] show ?thesis
    using m' by (auto simp: sample_network_def)
qed

theorem stream_registry_witness:
  "\<exists>a. GetSafeQueue AVFrame_element RTSP_AVFRAME (Int_key 5)
     (snd (RegisterSafeQueue RTSP_AVFRAME (Int_key 5) (foldl stream_step (IOStreamManager_new :: (nat, nat) iostream) [Call_Register RTSP_AVFRAME (Int_key 5)]))) = Some a"
  using stream_registry [OF refl, of "[Call_Register RTSP_AVFRAME (Int_key 5)] :: nat stream_call list", where 'd = nat]
  by (metis element_of.simps(5) valid_key.simps(1))

end
