(* ===== verification/Detector_Block.thy ===== *)
theory Detector_Block
  imports Detector_Pipeline Iostream_Manager
begin

text \<open>
  \<open>RtspDetectorBlock\<close>: all camera units of the service, built, initialised, started and stopped one after
  the other.  The units share one load balancer; each operation on a unit works on the shared one.
\<close>

record 'kf detector_block =
  service_units :: "'kf rtsp_unit list"
  shared_balancer :: "load_balancer option"
  built_by_unit :: bool

definition RtspDetectorBlock_new :: "load_balancer option \<Rightarrow> bool \<Rightarrow> 'kf detector_block" where
  "RtspDetectorBlock_new lb by_unit = \<lparr>service_units = [], shared_balancer = lb, built_by_unit = by_unit\<rparr>"

text \<open>The ids come as a set, so without repetition.\<close>

definition BuildServiceUnit :: "int list \<Rightarrow> 'kf detector_block \<Rightarrow> bool \<times> 'kf detector_block" where
  "BuildServiceUnit cam_set b =
     (let b = b\<lparr>service_units := service_units b @ map (\<lambda>cam_id. RtspDetectorUnit_new cam_id (shared_balancer b)) cam_set\<rparr>
      in (length (service_units b) = length cam_set, b))"

definition IsBuiltByUnit :: "'kf detector_block \<Rightarrow> bool" where
  "IsBuiltByUnit b = built_by_unit b"

text \<open>The loop over the units with its counter of successes.\<close>

fun for_units ::
  "('kf rtsp_unit \<Rightarrow> thread_error + bool \<times> 'kf rtsp_unit) \<Rightarrow> 'kf rtsp_unit list \<Rightarrow> load_balancer option \<Rightarrow>
   thread_error + nat \<times> 'kf rtsp_unit list \<times> load_balancer option" where
  "for_units op [] lb = Inr (0, [], lb)"
| "for_units op (u # us) lb =
     (case op (u\<lparr>balancer := lb\<rparr>) of
        Inl e \<Rightarrow> Inl e
      | Inr (ok, u) \<Rightarrow>
          (case for_units op us (balancer u) of
             Inl e \<Rightarrow> Inl e
           | Inr (success_count, us, lb) \<Rightarrow> Inr ((if ok then Suc success_count else success_count), u # us, lb)))"

definition on_block ::
  "('kf rtsp_unit \<Rightarrow> thread_error + bool \<times> 'kf rtsp_unit) \<Rightarrow> bool \<Rightarrow> 'kf detector_block \<Rightarrow> thread_error + bool \<times> 'kf detector_block" where
  "on_block op success_need_all_success b =
     (let total_unit_size = length (service_units b)
      in if total_unit_size = 0 then Inr (False, b)
         else case for_units op (service_units b) (shared_balancer b) of
                Inl e \<Rightarrow> Inl e
              | Inr (success_count, us, lb) \<Rightarrow>
                  Inr (if success_need_all_success then success_count = total_unit_size else success_count \<noteq> 0,
                       b\<lparr>service_units := us, shared_balancer := lb\<rparr>))"

definition block_Init :: "(int \<Rightarrow> unit_links) \<Rightarrow> bool \<Rightarrow> 'kf detector_block \<Rightarrow> thread_error + bool \<times> 'kf detector_block" where
  "block_Init links = on_block (\<lambda>u. Inr (unit_Init (links (unit_id u)) u))"

definition block_Start :: "(int \<Rightarrow> unit_links) \<Rightarrow> bool \<Rightarrow> 'kf detector_block \<Rightarrow> thread_error + bool \<times> 'kf detector_block" where
  "block_Start links = on_block (\<lambda>u. unit_Start (links (unit_id u)) u)"

definition block_Stop ::
  "('kf rtsp_unit \<Rightarrow> 'kf rtsp_unit) \<Rightarrow> ('kf rtsp_unit \<Rightarrow> 'kf rtsp_unit) \<Rightarrow> ('kf rtsp_unit \<Rightarrow> 'kf rtsp_unit) \<Rightarrow> bool \<Rightarrow> 'kf detector_block \<Rightarrow>
   thread_error + bool \<times> 'kf detector_block" where
  "block_Stop last_inference last_response last_event = on_block (\<lambda>u. Inr (True, unit_Stop last_inference last_response last_event u))"

subsection \<open>Stopping the service\<close>

definition all_ended :: "'kf rtsp_unit \<Rightarrow> bool" where
  "all_ended u = (ended (avframe_q u) \<and> ended (inflight_q u) \<and> ended (event_q u) \<and> ended (io_work_queue u)
     \<and> \<not> is_running (inference_thread u) \<and> \<not> is_running (response_thread u) \<and> \<not> is_running (event_thread u) \<and> \<not> is_running (io_worker_thread u))"

lemma unit_ok_balancer: "unit_ok (u\<lparr>balancer := Some lb\<rparr>) = unit_ok (u\<lparr>balancer := Some lb'\<rparr>)"
  by (simp add: unit_ok_def threads_up_def schedules_ok_def)

lemma stop_one:
  assumes "unit_ok (u\<lparr>balancer := Some lb\<rparr>)" and "inference_tail f" "response_tail cv g" "event_tail h"
  shows "\<exists>lb'. balancer (unit_Stop f g h (u\<lparr>balancer := Some lb\<rparr>)) = Some lb' \<and> subscribers lb' = subscribers lb - set (subscribe_ids u)
    \<and> cam_result_qs lb' = cam_result_qs (fold Unsubscribe (subscribe_ids u) lb) \<and> all_ended (unit_Stop f g h (u\<lparr>balancer := Some lb\<rparr>))"
proof -
  have up: "thread_up c t \<Longrightarrow> \<not> is_running (Stop t)" for c t using Stop_thread_up by blast
  show ?thesis using unit_Stop_steps [OF assms] assms(1) up fold_Unsubscribe(1) [of "subscribe_ids u" lb]
    by (auto simp: unit_subscription_def subscription_def all_ended_def unit_ok_def threads_up_def)
qed

lemma fold_Unsubscribe_other: "y \<notin> set ids \<Longrightarrow> map_of (cam_result_qs (fold Unsubscribe ids lb)) y = map_of (cam_result_qs lb) y"
  by (induction ids arbitrary: lb) (auto simp: Unsubscribe_subscription)

lemma stop_units:
  assumes "inference_tail f" "response_tail cv g" "event_tail h" and "\<forall>u \<in> set us. unit_ok (u\<lparr>balancer := Some lb\<rparr>)"
  shows "\<exists>vs lb'. for_units (\<lambda>u. Inr (True, unit_Stop f g h u)) us (Some lb) = Inr (length us, vs, Some lb') \<and> list_all all_ended vs \<and> length vs = length us
    \<and> subscribers lb' = subscribers lb - (\<Union>u \<in> set us. set (subscribe_ids u))
    \<and> (\<forall>sid. (map_of (cam_result_qs lb) sid = None \<or> (\<exists>u \<in> set us. sid \<in> set (subscribe_ids u))) \<longrightarrow> map_of (cam_result_qs lb') sid = None)"
  using assms(4)
proof (induction us arbitrary: lb)
  case (Cons u us)
  have "unit_ok (u\<lparr>balancer := Some lb\<rparr>)" using Cons.prems by simp
  from stop_one [OF this assms(1-3)] obtain lb1 where one: "balancer (unit_Stop f g h (u\<lparr>balancer := Some lb\<rparr>)) = Some lb1"
    "subscribers lb1 = subscribers lb - set (subscribe_ids u)" "cam_result_qs lb1 = cam_result_qs (fold Unsubscribe (subscribe_ids u) lb)"
    "all_ended (unit_Stop f g h (u\<lparr>balancer := Some lb\<rparr>))" by blast
  have "\<forall>v \<in> set us. unit_ok (v\<lparr>balancer := Some lb1\<rparr>)" using Cons.prems unit_ok_balancer by auto
  from Cons.IH [OF this] obtain vs lb' where rest: "for_units (\<lambda>u. Inr (True, unit_Stop f g h u)) us (Some lb1) = Inr (length us, vs, Some lb')"
    "list_all all_ended vs" "length vs = length us" "subscribers lb' = subscribers lb1 - (\<Union>u \<in> set us. set (subscribe_ids u))"
    "\<forall>sid. (map_of (cam_result_qs lb1) sid = None \<or> (\<exists>u \<in> set us. sid \<in> set (subscribe_ids u))) \<longrightarrow> map_of (cam_result_qs lb') sid = None" by blast
  have "map_of (cam_result_qs lb1) sid = None" if "map_of (cam_result_qs lb) sid = None \<or> sid \<in> set (subscribe_ids u)" for sid
    using that fold_Unsubscribe(2) [of sid "subscribe_ids u" lb] fold_Unsubscribe_other [of sid "subscribe_ids u" lb] one(3)
    by (cases "sid \<in> set (subscribe_ids u)") auto
  then show ?case using one rest by auto
qed simp



end
