(* ===== verification/Onvif_Metadata.thy ===== *)
theory Onvif_Metadata
  imports Detector_Event "HOL-Library.While_Combinator"
begin

text \<open>
  The ONVIF metadata stream: the XML document of a batch of tracks (\<open>ConvertTrackingBoxesToMetaData\<close> of
  \<open>RtspDetectorUnit.cpp\<close>) and its way into RTP packets (\<open>OnvifMetadataPayloader.cpp\<close>): header,
  fragmentation at character boundaries, counters.  What GStreamer answers to a push is a parameter.
\<close>

unbundle bit_operations_syntax

subsection \<open>The document\<close>

text \<open>\<open>std::fixed\<close> with two digits: the nearest hundredth, ties to the even one.\<close>

definition round_half_even :: "real \<Rightarrow> int" where
  "round_half_even r = (if r - \<lfloor>r\<rfloor> = 1/2 then (if even \<lfloor>r\<rfloor> then \<lfloor>r\<rfloor> else \<lfloor>r\<rfloor> + 1) else round r)"

definition fixed_2 :: "cfloat \<Rightarrow> string" where
  "fixed_2 x = (let n = nat (round_half_even (\<bar>x\<bar> * 100))
                in (if x < 0 then ''-'' else []) @ dec (n div 100) @ ''.'' @ zero_padded 2 (int (n mod 100)))"

definition strftime_iso :: "tm \<Rightarrow> string" where
  "strftime_iso t = to_string (tm_year t + 1900) @ ''-'' @ zero_padded 2 (tm_mon t + 1) @ ''-'' @ zero_padded 2 (tm_mday t) @ ''T''
     @ zero_padded 2 (tm_hours t) @ '':'' @ zero_padded 2 (tm_minutes t) @ '':'' @ zero_padded 2 (tm_seconds t)"

definition attribute :: "string \<Rightarrow> string \<Rightarrow> string" where
  "attribute name v = name @ [CHR ''='', CHR 0x22] @ v @ [CHR 0x22]"

definition object_xml :: "InferObject \<Rightarrow> string" where
  "object_xml obj =
     ''<tt:Object '' @ attribute ''ObjectId'' (to_string (class_id obj)) @ ''><tt:Appearance><tt:Shape><tt:BoundingBox ''
     @ attribute ''left'' (to_string (int_cast (bbox_x (bbox obj)))) @ '' ''
     @ attribute ''top'' (to_string (int_cast (bbox_y (bbox obj)))) @ '' ''
     @ attribute ''right'' (to_string (int_cast (bbox_w (bbox obj) + bbox_x (bbox obj)))) @ '' ''
     @ attribute ''bottom'' (to_string (int_cast (bbox_h (bbox obj) + bbox_y (bbox obj)))) @ '' />''
     @ ''<tt:TrackId '' @ attribute ''trackid'' (to_string (track_id obj)) @ '' />''
     @ ''<tt:CenterOfGravity '' @ attribute ''x'' ''60.0'' @ '' '' @ attribute ''y'' ''50.0'' @ '' />''
     @ ''</tt:Shape><tt:Class><tt:ClassCandidate><tt:Type>MaybeUnused</tt:Type><tt:Likelihood>'' @ fixed_2 (score obj)
     @ ''</tt:Likelihood></tt:ClassCandidate></tt:Class></tt:Appearance></tt:Object>''"

definition ConvertTrackingBoxesToMetaData :: "tm \<Rightarrow> int \<Rightarrow> InferObject list \<Rightarrow> string" where
  "ConvertTrackingBoxesToMetaData now ms detections =
     ''<?xml '' @ attribute ''version'' ''1.0'' @ '' '' @ attribute ''encoding'' ''UTF-8'' @ ''?>''
     @ ''<tt:MetadataStream '' @ attribute ''xmlns:tt'' ''http://www.onvif.org/ver10/schema'' @ ''><tt:VideoAnalytics><tt:Frame ''
     @ attribute ''UtcTime'' (strftime_iso now @ ''.'' @ zero_padded 3 ms) @ ''>''
     @ concat (map object_xml detections)
     @ ''</tt:Frame></tt:VideoAnalytics></tt:MetadataStream>''"

subsection \<open>The payloader\<close>

type_synonym byte = "8 word"

record payloader_config =
  cfg_ssrc :: u32
  payload_type :: byte
  mtu :: nat

record payloader =
  has_appsrc :: bool
  pl_cfg :: payloader_config
  ssrc :: u32
  base_time :: int
  seq_num :: "16 word"
  packet_count :: u64
  byte_count :: u64
  xml_drop_count :: u64

definition payloader_config_default :: payloader_config where
  "payloader_config_default = \<lparr>cfg_ssrc = 0, payload_type = 97, mtu = 1400\<rparr>"

definition OnvifMetadataPayloader_new :: "bool \<Rightarrow> payloader_config \<Rightarrow> int \<Rightarrow> u32 \<Rightarrow> 16 word \<Rightarrow> payloader" where
  "OnvifMetadataPayloader_new appsrc cfg now random_ssrc random_seq =
     \<lparr>has_appsrc = appsrc, pl_cfg = cfg, ssrc = (if cfg_ssrc cfg \<noteq> 0 then cfg_ssrc cfg else random_ssrc), base_time = now,
      seq_num = random_seq, packet_count = 0, byte_count = 0, xml_drop_count = 0\<rparr>"

text \<open>Nanoseconds since the creation in ticks of the 90 kHz clock; the product stays in 64 bits for three years.\<close>

definition Now90kHz :: "int \<Rightarrow> payloader \<Rightarrow> u32" where
  "Now90kHz now p = word_of_int ((now - base_time p) * 90 div 1000000)"

definition WriteRtpHeader :: "bool \<Rightarrow> u32 \<Rightarrow> payloader \<Rightarrow> byte list \<times> payloader" where
  "WriteRtpHeader marker timestamp p =
     (let s = seq_num p
      in ([0x80, (if marker then 0x80 else 0) OR (payload_type (pl_cfg p) AND 0x7F),
           ucast (drop_bit 8 s), ucast (s AND 0xFF),
           ucast (drop_bit 24 timestamp), ucast (drop_bit 16 timestamp), ucast (drop_bit 8 timestamp), ucast (timestamp AND 0xFF),
           ucast (drop_bit 24 (ssrc p)), ucast (drop_bit 16 (ssrc p)), ucast (drop_bit 8 (ssrc p)), ucast (ssrc p AND 0xFF)],
          p\<lparr>seq_num := s + 1\<rparr>))"

text \<open>What GStreamer answers: no buffer, no mapping, or the flow result of the push.\<close>

datatype push_outcome = No_buffer | No_mapping | Flow bool

definition PushPacket :: "push_outcome \<Rightarrow> byte list \<Rightarrow> bool \<Rightarrow> u32 \<Rightarrow> payloader \<Rightarrow> byte list option \<times> payloader" where
  "PushPacket outcome bytes marker ts p =
     (if \<not> has_appsrc p then (None, p)
      else case outcome of
             No_buffer \<Rightarrow> (None, p)
           | No_mapping \<Rightarrow> (None, p)
           | Flow ok \<Rightarrow>
               (case WriteRtpHeader marker ts p of
                  (header, p) \<Rightarrow>
                    if \<not> ok then (None, p)
                    else (Some (header @ bytes),
                          p\<lparr>packet_count := packet_count p + 1, byte_count := byte_count p + of_nat (12 + length bytes)\<rparr>)))"

definition continuation :: "byte \<Rightarrow> bool" where
  "continuation b = (b AND 0xC0 = 0x80)"

fun back_up :: "byte list \<Rightarrow> nat \<Rightarrow> nat" where
  "back_up data 0 = 0"
| "back_up data (Suc n) = (if continuation (data ! Suc n) then back_up data n else Suc n)"

definition SafeUtf8Chunk :: "byte list \<Rightarrow> nat \<Rightarrow> nat \<Rightarrow> nat" where
  "SafeUtf8Chunk data max_chunk remaining =
     (if max_chunk \<ge> remaining then remaining
      else let chunk = back_up data max_chunk in if chunk = 0 then max_chunk else chunk)"

definition payload_max :: "payloader \<Rightarrow> nat" where
  "payload_max p = (if mtu (pl_cfg p) > 12 then mtu (pl_cfg p) - 12 else 1)"

lemma back_up_le: "back_up data n \<le> n"
  by (induction n) auto

lemma SafeUtf8Chunk_bounds:
  "0 < m \<Longrightarrow> 0 < r \<Longrightarrow> 0 < SafeUtf8Chunk data m r" "SafeUtf8Chunk data m r \<le> r" "SafeUtf8Chunk data m r \<le> max m r"
  "m < r \<Longrightarrow> SafeUtf8Chunk data m r \<le> m"
  using back_up_le [of data m] by (auto simp: SafeUtf8Chunk_def Let_def)

lemma payload_max_pos [simp]: "0 < payload_max p"
  by (simp add: payload_max_def)

text \<open>The loop; \<open>room\<close> is \<open>payload_max\<close>, which is never 0, and \<open>push k\<close> what GStreamer answers to the \<open>k\<close>-th packet.\<close>

function push_loop ::
  "(nat \<Rightarrow> push_outcome) \<Rightarrow> nat \<Rightarrow> nat \<Rightarrow> u32 \<Rightarrow> byte list \<Rightarrow> payloader \<Rightarrow> bool \<times> byte list list \<times> payloader" where
  "push_loop push k room ts data p =
     (if data = [] \<or> room = 0 then (True, [], p)
      else let chunk = SafeUtf8Chunk data room (length data);
               marker = (chunk = length data)
           in case PushPacket (push k) (take chunk data) marker ts p of
                (None, p) \<Rightarrow> (False, [], p\<lparr>xml_drop_count := xml_drop_count p + 1\<rparr>)
              | (Some packet, p) \<Rightarrow>
                  (case push_loop push (Suc k) room ts (drop chunk data) p of (ok, packets, p) \<Rightarrow> (ok, packet # packets, p)))"
  by pat_completeness auto
termination
  by (relation "measure (\<lambda>(push, k, room, ts, data, p). length data)") (use SafeUtf8Chunk_bounds(1) in auto)

declare push_loop.simps [simp del]

definition PushXml :: "(nat \<Rightarrow> push_outcome) \<Rightarrow> int \<Rightarrow> string \<Rightarrow> payloader \<Rightarrow> bool \<times> byte list list \<times> payloader" where
  "PushXml push now xml_document p =
     (if \<not> has_appsrc p \<or> xml_document = [] then (False, [], p\<lparr>xml_drop_count := xml_drop_count p + 1\<rparr>)
      else push_loop push 0 (payload_max p) (Now90kHz now p) (map of_char xml_document) p)"

text \<open>The unit sends the document of every item when there is an RTSP handler; \<open>client\<close>: the payloader of a connected client.\<close>

definition SendDetectResultToMetaData ::
  "(nat \<Rightarrow> push_outcome) \<Rightarrow> int \<Rightarrow> tm \<Rightarrow> int \<Rightarrow> InferObject list \<Rightarrow> payloader option \<Rightarrow> byte list list \<times> payloader option" where
  "SendDetectResultToMetaData push now_ns now ms detect_results client =
     (let metadata_xml = ConvertTrackingBoxesToMetaData now ms detect_results
      in case client of
           None \<Rightarrow> ([], None)
         | Some p \<Rightarrow> if metadata_xml = [] then ([], Some p)
                     else (case PushXml push now_ns metadata_xml p of (_, packets, p) \<Rightarrow> (packets, Some p)))"


subsection \<open>What a receiver reads from a packet\<close>

text \<open>The fields of RFC 3550.\<close>

definition rtp_payload :: "byte list \<Rightarrow> byte list" where
  "rtp_payload packet = drop 12 packet"

definition rtp_marker :: "byte list \<Rightarrow> bool" where
  "rtp_marker packet = bit (packet ! 1) 7"

definition rtp_type :: "byte list \<Rightarrow> byte" where
  "rtp_type packet = packet ! 1 AND 0x7F"

definition rtp_seq :: "byte list \<Rightarrow> 16 word" where
  "rtp_seq packet = push_bit 8 (ucast (packet ! 2)) OR ucast (packet ! 3)"

definition be32 :: "byte \<Rightarrow> byte \<Rightarrow> byte \<Rightarrow> byte \<Rightarrow> u32" where
  "be32 a b c d = push_bit 24 (ucast a) OR push_bit 16 (ucast b) OR push_bit 8 (ucast c) OR ucast d"

definition rtp_timestamp :: "byte list \<Rightarrow> u32" where
  "rtp_timestamp packet = be32 (packet ! 4) (packet ! 5) (packet ! 6) (packet ! 7)"

definition rtp_ssrc :: "byte list \<Rightarrow> u32" where
  "rtp_ssrc packet = be32 (packet ! 8) (packet ! 9) (packet ! 10) (packet ! 11)"

lemma byte_masks: "(0xFF :: u32) = mask 8" "(0xFF :: 16 word) = mask 8" "(0x7F :: byte) = mask 7"
  by (simp_all add: mask_eq_exp_minus_1)

lemma be32_split: "be32 (ucast (drop_bit 24 x)) (ucast (drop_bit 16 x)) (ucast (drop_bit 8 x)) (ucast (x AND 0xFF)) = x"
proof (rule bit_word_eqI)
  fix n :: nat
  assume "n < LENGTH(32)"
  then consider "n < 8" | "8 \<le> n" "n < 16" | "16 \<le> n" "n < 24" | "24 \<le> n" "n < 32" by fastforce
  then show "bit (be32 (ucast (drop_bit 24 x)) (ucast (drop_bit 16 x)) (ucast (drop_bit 8 x)) (ucast (x AND 0xFF))) n = bit x n"
    unfolding be32_def byte_masks by cases (auto simp: bit_simps)
qed

lemma seq_split: "push_bit 8 (ucast (ucast (drop_bit 8 s) :: byte)) OR ucast (ucast (s AND 0xFF) :: byte) = (s :: 16 word)"
proof (rule bit_word_eqI)
  fix n :: nat
  assume "n < LENGTH(16)"
  then consider "n < 8" | "8 \<le> n" "n < 16" by fastforce
  then show "bit (push_bit 8 (ucast (ucast (drop_bit 8 s) :: byte)) OR ucast (ucast (s AND 0xFF) :: byte) :: 16 word) n = bit s n"
    unfolding byte_masks by cases (auto simp: bit_simps)
qed

lemma marker_byte:
  "bit ((if marker then 0x80 else 0) OR (pt AND 0x7F) :: byte) 7 = marker"
  "((if marker then 0x80 else 0) OR (pt AND 0x7F)) AND 0x7F = (pt AND 0x7F :: byte)"
proof -
  have "bit (2 ^ 7 :: byte) n \<longleftrightarrow> n = 7" for n unfolding bit_exp_iff by auto
  then have b: "bit (0x80 :: byte) n \<longleftrightarrow> n = 7" for n by simp
  show "bit ((if marker then 0x80 else 0) OR (pt AND 0x7F) :: byte) 7 = marker"
    unfolding byte_masks(3) by (simp add: bit_and_iff bit_or_iff bit_mask_iff b)
  have "bit (((if marker then 0x80 else 0) OR (pt AND 0x7F)) AND 0x7F :: byte) n = bit (pt AND 0x7F) n" for n
    unfolding byte_masks(3) bit_and_iff bit_or_iff bit_mask_iff by (cases marker; cases "n = 7") (simp_all only: if_True if_False b bit_0_eq bot_fun_def; simp)+
  then show "((if marker then 0x80 else 0) OR (pt AND 0x7F)) AND 0x7F = (pt AND 0x7F :: byte)" by (intro bit_eqI)
qed

lemma WriteRtpHeader_fields:
  assumes "WriteRtpHeader marker ts p = (h, p')"
  shows "length h = 12" "rtp_payload (h @ d) = d" "rtp_marker (h @ d) = marker" "rtp_type (h @ d) = payload_type (pl_cfg p) AND 0x7F"
    "rtp_seq (h @ d) = seq_num p" "rtp_timestamp (h @ d) = ts" "rtp_ssrc (h @ d) = ssrc p" "p' = p\<lparr>seq_num := seq_num p + 1\<rparr>"
  using assms by (auto simp: WriteRtpHeader_def Let_def rtp_payload_def rtp_marker_def rtp_type_def rtp_seq_def rtp_timestamp_def rtp_ssrc_def
      marker_byte marker_byte(1) [of True, unfolded if_True] seq_split be32_split)

subsection \<open>The fragments of a document\<close>

function fragments :: "nat \<Rightarrow> byte list \<Rightarrow> byte list list" where
  "fragments room data =
     (if data = [] \<or> room = 0 then []
      else let chunk = SafeUtf8Chunk data room (length data) in take chunk data # fragments room (drop chunk data))"
  by pat_completeness auto
termination
  by (relation "measure (\<lambda>(room, data). length data)") (use SafeUtf8Chunk_bounds(1) in auto)

declare fragments.simps [simp del]

lemma fragments_Nil [simp]: "fragments room [] = []"
  by (simp add: fragments.simps)

lemma fragments_step:
  assumes "data \<noteq> []" and "0 < room"
  obtains chunk where "SafeUtf8Chunk data room (length data) = chunk" "0 < chunk" "chunk \<le> length data" "chunk \<le> room"
    "fragments room data = take chunk data # fragments room (drop chunk data)"
  using assms SafeUtf8Chunk_bounds [where m = room and r = "length data" and data = data]
  by (fastforce simp: fragments.simps [of room data] Let_def SafeUtf8Chunk_def)

lemma fragments_exact:
  assumes "0 < room"
  shows "concat (fragments room data) = data" "list_all (\<lambda>f. f \<noteq> [] \<and> length f \<le> room) (fragments room data)"
    "fragments room data = [] \<longleftrightarrow> data = []" "length (fragments room data) \<le> length data"
  using assms
proof (induction room data rule: fragments.induct)
  case (1 room data)
  {
    case 1
    then show ?case using "1.IH"(1) by (cases "data = []") (auto simp: fragments.simps [of room data] Let_def)
  next
    case 2
    then show ?case
    proof (cases "data = []")
      case False
      with 2 obtain chunk where c: "SafeUtf8Chunk data room (length data) = chunk" "0 < chunk" "chunk \<le> length data" "chunk \<le> room"
        "fragments room data = take chunk data # fragments room (drop chunk data)" by (elim fragments_step)
      then show ?thesis using "1.IH"(2) [OF _ refl] False 2 by auto
    qed simp
  next
    case 3
    then show ?case by (auto simp: fragments.simps [of room data] Let_def)
  next
    case 4
    then show ?case
    proof (cases "data = []")
      case False
      with 4 obtain chunk where c: "SafeUtf8Chunk data room (length data) = chunk" "0 < chunk" "chunk \<le> length data" "chunk \<le> room"
        "fragments room data = take chunk data # fragments room (drop chunk data)" by (elim fragments_step)
      then show ?thesis using "1.IH"(4) [OF _ refl] False 4 by simp
    qed simp
  }
qed

definition carries :: "payloader \<Rightarrow> u32 \<Rightarrow> nat \<Rightarrow> nat \<Rightarrow> byte list \<Rightarrow> bool" where
  "carries p ts n i packet = (rtp_marker packet = (Suc i = n) \<and> rtp_type packet = payload_type (pl_cfg p) AND 0x7F
     \<and> rtp_seq packet = seq_num p + of_nat i \<and> rtp_timestamp packet = ts \<and> rtp_ssrc packet = ssrc p \<and> 12 \<le> length packet)"

lemma PushPacket_cases:
  assumes "has_appsrc p"
  obtains (sent) h p1 where "outcome = Flow True" "WriteRtpHeader marker ts p = (h, p1)"
      "PushPacket outcome d marker ts p = (Some (h @ d), p1\<lparr>packet_count := packet_count p1 + 1, byte_count := byte_count p1 + of_nat (12 + length d)\<rparr>)"
  | (failed) p1 where "outcome \<noteq> Flow True" "PushPacket outcome d marker ts p = (None, p1)" "packet_count p1 = packet_count p" "xml_drop_count p1 = xml_drop_count p"
proof (cases "outcome = Flow True")
  case True
  obtain h p1 where "WriteRtpHeader marker ts p = (h, p1)" by fastforce
  then show ?thesis using True assms by (intro sent) (simp_all add: PushPacket_def)
next
  case False
  then show ?thesis using assms by (cases outcome) (auto simp: PushPacket_def WriteRtpHeader_def Let_def intro!: failed)
qed

lemma push_loop_exact:
  assumes "has_appsrc p" and "0 < room" and "push_loop push k room ts data p = (ok, packets, p')"
  shows "map rtp_payload packets = take (length packets) (fragments room data) \<and> length packets \<le> length (fragments room data)
    \<and> (ok \<longleftrightarrow> length packets = length (fragments room data))
    \<and> (\<forall>i < length packets. push (k + i) = Flow True \<and> carries p ts (length (fragments room data)) i (packets ! i))
    \<and> (\<not> ok \<longrightarrow> push (k + length packets) \<noteq> Flow True)
    \<and> packet_count p' = packet_count p + of_nat (length packets) \<and> xml_drop_count p' = xml_drop_count p + (if ok then 0 else 1)"
  using assms
proof (induction push k room ts data p arbitrary: ok packets p' rule: push_loop.induct)
  case (1 push k room ts data p)
  show ?case
  proof (cases "data = []")
    case True
    then show ?thesis using "1.prems"(3) by (simp add: push_loop.simps)
  next
    case False
    obtain chunk where c: "SafeUtf8Chunk data room (length data) = chunk" "0 < chunk" "chunk \<le> length data" "chunk \<le> room"
      "fragments room data = take chunk data # fragments room (drop chunk data)" using False "1.prems"(2) by (elim fragments_step)
    note step = push_loop.simps [of push k room ts data p, unfolded c(1) Let_def]
    show ?thesis
    proof (rule PushPacket_cases [OF "1.prems"(1), of "push k" "chunk = length data" ts "take chunk data"])
      fix h and p1 :: payloader
      let ?p2 = "p1\<lparr>packet_count := packet_count p1 + 1, byte_count := byte_count p1 + of_nat (12 + length (take chunk data))\<rparr>"
      assume s: "push k = Flow True" "WriteRtpHeader (chunk = length data) ts p = (h, p1)"
        "PushPacket (push k) (take chunk data) (chunk = length data) ts p = (Some (h @ take chunk data), ?p2)"
      note f = WriteRtpHeader_fields [OF s(2)]
      obtain more where run: "push_loop push (Suc k) room ts (drop chunk data) ?p2 = (ok, more, p')" "packets = (h @ take chunk data) # more"
        using "1.prems"(2,3) False s(3) by (auto simp: step split: prod.splits)
      have app: "has_appsrc ?p2" using f(8) "1.prems"(1) by simp
      note ih = "1.IH" [OF _ refl refl, unfolded c(1), OF _ s(3) [symmetric] refl app "1.prems"(2) run(1)]
      have last: "(chunk = length data) = (fragments room (drop chunk data) = [])"
        using fragments_exact(3) [OF "1.prems"(2), of "drop chunk data"] c(3) by auto
      show ?thesis using ih False "1.prems"(2) f last s(1) unfolding c(5) run(2)
        by (auto simp: carries_def nth_Cons algebra_simps split: nat.split)
    next
      fix p1 :: payloader
      assume "push k \<noteq> Flow True" "PushPacket (push k) (take chunk data) (chunk = length data) ts p = (None, p1)"
        "packet_count p1 = packet_count p" "xml_drop_count p1 = xml_drop_count p"
      then show ?thesis using "1.prems"(2,3) False c(5) by (auto simp: step)
    qed
  qed
qed

subsection \<open>Characters\<close>

definition utf8_char :: "byte list \<Rightarrow> bool" where
  "utf8_char c = (c \<noteq> [] \<and> length c \<le> 4 \<and> \<not> continuation (hd c) \<and> list_all continuation (tl c))"

lemma split_at_character:
  assumes "list_all utf8_char cs" and "n \<le> length (concat cs)" and "n = length (concat cs) \<or> \<not> continuation (concat cs ! n)"
  shows "\<exists>j. take n (concat cs) = concat (take j cs) \<and> drop n (concat cs) = concat (drop j cs)"
  using assms
proof (induction cs arbitrary: n)
  case (Cons c cs)
  show ?case
  proof (cases "n < length c")
    case True
    have "continuation (c ! n)" if "0 < n"
      using Cons.prems(1) True that by (cases c) (auto simp: utf8_char_def list_all_length nth_Cons split: nat.split)
    then have "n = 0" using True Cons.prems(3) by (auto simp: nth_append)
    then show ?thesis by (intro exI [of _ 0]) simp
  next
    case False
    then have "\<exists>j. take (n - length c) (concat cs) = concat (take j cs) \<and> drop (n - length c) (concat cs) = concat (drop j cs)"
      using Cons.prems by (intro Cons.IH) (auto simp: nth_append)
    then obtain j where "take (n - length c) (concat cs) = concat (take j cs)" "drop (n - length c) (concat cs) = concat (drop j cs)" by blast
    then show ?thesis using False by (intro exI [of _ "Suc j"]) simp
  qed
qed simp

lemma back_up_stops: "back_up data n = 0 \<or> \<not> continuation (data ! back_up data n)"
  by (induction n) auto

lemma back_up_ge: "\<not> continuation (data ! m) \<Longrightarrow> m \<le> n \<Longrightarrow> m \<le> back_up data n"
  by (induction n) (auto simp: le_Suc_eq)

lemma chunk_at_character:
  assumes "list_all utf8_char cs" and "cs \<noteq> []" and "4 \<le> room" and "SafeUtf8Chunk (concat cs) room (length (concat cs)) = chunk"
  shows "chunk = length (concat cs) \<or> \<not> continuation (concat cs ! chunk)"
proof (cases "room \<ge> length (concat cs)")
  case False
  obtain c rest where cs: "cs = c # rest" using assms(2) by (cases cs) auto
  have c: "length c \<le> 4" "0 < length c" using assms(1) cs by (auto simp: utf8_char_def)
  obtain d rest' where rest: "rest = d # rest'" using False assms(3) c(1) cs by (cases rest) auto
  have "\<not> continuation (concat cs ! length c)"
    using assms(1) by (auto simp: cs rest nth_append utf8_char_def hd_conv_nth)
  then have "length c \<le> back_up (concat cs) room" using c(1) assms(3) by (intro back_up_ge) auto
  then have pos: "back_up (concat cs) room \<noteq> 0" using c(2) by linarith
  then have "chunk = back_up (concat cs) room" using assms(4) False by (simp add: SafeUtf8Chunk_def Let_def)
  then show ?thesis using back_up_stops [of "concat cs" room] pos by simp
qed (use assms(4) in \<open>simp add: SafeUtf8Chunk_def\<close>)

lemma fragments_whole_characters:
  assumes "list_all utf8_char cs" and "4 \<le> room"
  shows "\<exists>css. concat css = cs \<and> fragments room (concat cs) = map concat css"
  using assms(1)
proof (induction "length cs" arbitrary: cs rule: less_induct)
  case less
  show ?case
  proof (cases "cs = []")
    case False
    have "concat cs \<noteq> []" using less.prems False by (cases cs) (auto simp: utf8_char_def)
    moreover have "0 < room" using assms(2) by simp
    ultimately obtain chunk where c: "SafeUtf8Chunk (concat cs) room (length (concat cs)) = chunk" "0 < chunk" "chunk \<le> length (concat cs)"
      "fragments room (concat cs) = take chunk (concat cs) # fragments room (drop chunk (concat cs))" by (elim fragments_step)
    from split_at_character [OF less.prems c(3) chunk_at_character [OF less.prems False assms(2) c(1)]]
    obtain j where j: "take chunk (concat cs) = concat (take j cs)" "drop chunk (concat cs) = concat (drop j cs)" by blast
    have "0 < j" using c(2,3) j(1) \<open>concat cs \<noteq> []\<close> by (cases j) auto
    then have "\<exists>css. concat css = drop j cs \<and> fragments room (concat (drop j cs)) = map concat css"
      using less.prems False by (intro less.hyps) (auto simp: list_all_iff dest: in_set_dropD)
    then obtain css where "concat css = drop j cs" "fragments room (concat (drop j cs)) = map concat css" by blast
    then show ?thesis using c(4) j by (intro exI [of _ "take j cs # css"]) simp
  qed (intro exI [of _ "[]"], simp)
qed


lemma PushXml_loop:
  "has_appsrc p \<Longrightarrow> xml \<noteq> [] \<Longrightarrow> PushXml push now xml p = push_loop push 0 (payload_max p) (Now90kHz now p) (map of_char xml) p"
  by (simp add: PushXml_def)

lemma concat_take_all:
  assumes "list_all (\<lambda>f. f \<noteq> []) fs" and "n \<le> length fs"
  shows "concat (take n fs) = concat fs \<longleftrightarrow> n = length fs"
proof -
  have "concat fs = concat (take n fs) @ concat (drop n fs)" by (metis append_take_drop_id concat_append)
  moreover have "list_all (\<lambda>f. f \<noteq> []) (drop n fs)" using assms(1) by (auto simp: list_all_iff dest: in_set_dropD)
  then have "concat (drop n fs) = [] \<longleftrightarrow> drop n fs = []" by (cases "drop n fs") auto
  ultimately show ?thesis using assms(2) by auto
qed

text \<open>
  C13. Metadata documents survive the packets.  For every answer of GStreamer, the packets that were sent
  carry, one after the other, a prefix of the document: nothing is lost, doubled or reordered.  Each fits the MTU, has the header
  fields of the stream, consecutive sequence numbers (modulo 2 to the 16) and one common timestamp.  The call succeeds
  exactly when the payloads join to the whole document, and exactly then the last packet, and only it,
  has the marker: an interrupted document is never marked complete.
\<close>

theorem metadata_packets_exact:
  assumes "has_appsrc p" and "xml \<noteq> []" and "12 < mtu (pl_cfg p)" and "PushXml push now xml p = (ok, packets, p')"
  shows "prefix (concat (map rtp_payload packets)) (map of_char xml)
    \<and> (ok \<longleftrightarrow> concat (map rtp_payload packets) = map of_char xml)
    \<and> (\<forall>i < length packets. length (packets ! i) \<le> mtu (pl_cfg p) \<and> rtp_type (packets ! i) = payload_type (pl_cfg p) AND 0x7F
         \<and> rtp_seq (packets ! i) = seq_num p + of_nat i \<and> rtp_timestamp (packets ! i) = Now90kHz now p \<and> rtp_ssrc (packets ! i) = ssrc p
         \<and> rtp_marker (packets ! i) = (ok \<and> Suc i = length packets) \<and> push i = Flow True)
    \<and> (\<not> ok \<longrightarrow> push (length packets) \<noteq> Flow True)
    \<and> packet_count p' = packet_count p + of_nat (length packets) \<and> xml_drop_count p' = xml_drop_count p + (if ok then 0 else 1)"
proof -
  define data :: "byte list" where "data = map of_char xml"
  define fs where "fs = fragments (payload_max p) data"
  define n where "n = length packets"
  have run: "map rtp_payload packets = take n fs" "n \<le> length fs" "ok \<longleftrightarrow> n = length fs"
    "\<forall>i < n. push i = Flow True \<and> carries p (Now90kHz now p) (length fs) i (packets ! i)" "\<not> ok \<longrightarrow> push n \<noteq> Flow True"
    "packet_count p' = packet_count p + of_nat n" "xml_drop_count p' = xml_drop_count p + (if ok then 0 else 1)"
    using push_loop_exact [OF assms(1) payload_max_pos assms(4) [unfolded PushXml_loop [OF assms(1,2)]]]
    by (simp_all add: n_def fs_def data_def)
  note fr = fragments_exact [OF payload_max_pos [of p], of data, folded fs_def]
  have "concat (map rtp_payload packets) = data \<longleftrightarrow> ok"
    using concat_take_all [of fs n] fr(1,2) run(1-3) by (auto simp: list_all_iff)
  moreover have "prefix (concat (map rtp_payload packets)) data"
    using fr(1) run(1) by (metis append_take_drop_id concat_append prefixI)
  moreover have "length (packets ! i) \<le> mtu (pl_cfg p)" if "i < n" for i
  proof -
    have "rtp_payload (packets ! i) = fs ! i" using arg_cong [OF run(1), of "\<lambda>xs. xs ! i"] that run(2) by (simp add: n_def)
    moreover have "length (fs ! i) \<le> payload_max p" using fr(2) that run(2) by (simp add: list_all_length)
    ultimately have "length (packets ! i) - 12 \<le> mtu (pl_cfg p) - 12" using assms(3) by (simp add: rtp_payload_def payload_max_def flip: length_drop)
    then show ?thesis using run(4) that assms(3) by (auto simp: carries_def)
  qed
  moreover have "rtp_marker (packets ! i) = (ok \<and> Suc i = n)" if "i < n" for i
    using run(2-4) that by (auto simp: carries_def)
  ultimately show ?thesis using run(4-7) by (simp add: carries_def flip: n_def data_def)
qed

text \<open>
  C36. No character is torn.  When the document is UTF-8 text and the MTU leaves room for a character,
  every payload is a run of whole characters of the document, also when the call is interrupted.
\<close>

theorem metadata_characters_whole:
  assumes "has_appsrc p" and "xml \<noteq> []" and "16 \<le> mtu (pl_cfg p)" and "PushXml push now xml p = (ok, packets, p')"
    and "map of_char xml = concat cs" and "list_all utf8_char cs"
  shows "\<exists>css. concat css = cs \<and> map rtp_payload packets = map concat (take (length packets) css)"
proof -
  have "map rtp_payload packets = take (length packets) (fragments (payload_max p) (map of_char xml))"
    using push_loop_exact [OF assms(1) payload_max_pos assms(4) [unfolded PushXml_loop [OF assms(1,2)]]] by blast
  moreover have "4 \<le> payload_max p" using assms(3) by (simp add: payload_max_def)
  ultimately show ?thesis using fragments_whole_characters [OF assms(6), of "payload_max p"] assms(5) by (auto simp: take_map)
qed


subsection \<open>The loop ends\<close>

text \<open>
  The loop of \<open>PushXml\<close> as it is written: a condition and a body on the number of packets tried, the rest of
  the data, the packets sent, the payloader, and whether the body has returned false.
\<close>

type_synonym xml_state = "nat \<times> byte list \<times> byte list list \<times> payloader \<times> bool"

definition xml_loop_cond :: "xml_state \<Rightarrow> bool" where
  "xml_loop_cond = (\<lambda>(k, data, packets, p, failed). data \<noteq> [] \<and> \<not> failed)"

definition xml_loop_body :: "(nat \<Rightarrow> push_outcome) \<Rightarrow> nat \<Rightarrow> u32 \<Rightarrow> xml_state \<Rightarrow> xml_state" where
  "xml_loop_body push room ts = (\<lambda>(k, data, packets, p, failed).
     let chunk = SafeUtf8Chunk data room (length data)
     in case PushPacket (push k) (take chunk data) (chunk = length data) ts p of
          (None, p) \<Rightarrow> (Suc k, data, packets, p\<lparr>xml_drop_count := xml_drop_count p + 1\<rparr>, True)
        | (Some packet, p) \<Rightarrow> (Suc k, drop chunk data, packets @ [packet], p, False))"

lemma xml_loop_ends:
  assumes "0 < room"
  shows "\<exists>k' rest packets p' failed. while_option xml_loop_cond (xml_loop_body push room ts) (k, data, sent, p, False) = Some (k', rest, sent @ packets, p', failed)
    \<and> push_loop push k room ts data p = (\<not> failed, packets, p') \<and> k' \<le> k + length data"
  using assms
proof (induction push k room ts data p arbitrary: sent rule: push_loop.induct)
  case (1 push k room ts data p)
  show ?case
  proof (cases "data = []")
    case True
    then show ?thesis by (auto simp: while_option_unfold xml_loop_cond_def push_loop.simps intro: exI [of _ False])
  next
    case False
    obtain chunk where c: "SafeUtf8Chunk data room (length data) = chunk" "0 < chunk" "chunk \<le> length data"
      using fragments_step [OF False "1.prems"] by metis
    obtain out p1 where push: "PushPacket (push k) (take chunk data) (chunk = length data) ts p = (out, p1)" by fastforce
    have loop: "while_option xml_loop_cond (xml_loop_body push room ts) (k, data, sent, p, False)
        = while_option xml_loop_cond (xml_loop_body push room ts) (xml_loop_body push room ts (k, data, sent, p, False))"
      by (subst while_option_unfold) (simp add: xml_loop_cond_def False)
    note step = push_loop.simps [of push k room ts data p, unfolded c(1) Let_def push]
    show ?thesis
    proof (cases out)
      case None
      let ?dropped = "(Suc k, data, sent, p1\<lparr>xml_drop_count := xml_drop_count p1 + 1\<rparr>, True)"
      have "xml_loop_body push room ts (k, data, sent, p, False) = ?dropped" using push c(1) None by (simp add: xml_loop_body_def)
      moreover have "while_option xml_loop_cond (xml_loop_body push room ts) ?dropped = Some ?dropped"
        by (subst while_option_unfold) (simp add: xml_loop_cond_def)
      moreover have "Suc k \<le> k + length data" using c(2,3) by linarith
      ultimately show ?thesis using False "1.prems" None by (auto simp: loop step intro: exI [of _ True])
    next
      case (Some packet)
      have body: "xml_loop_body push room ts (k, data, sent, p, False) = (Suc k, drop chunk data, sent @ [packet], p1, False)"
        using push c(1) Some by (simp add: xml_loop_body_def)
      obtain k' rest packets p' failed where ih:
        "while_option xml_loop_cond (xml_loop_body push room ts) (Suc k, drop chunk data, (sent @ [packet]), p1, False)
          = Some (k', rest, (sent @ [packet]) @ packets, p', failed)"
        "push_loop push (Suc k) room ts (drop chunk data) p1 = (\<not> failed, packets, p')" "k' \<le> Suc k + length (drop chunk data)"
        using "1.IH" [OF _ refl refl, unfolded c(1), OF _ push [unfolded Some, symmetric] refl "1.prems", of "sent @ [packet]"] False "1.prems" by blast
      then show ?thesis using False "1.prems" c(2,3) Some by (auto simp: loop body step)
    qed
  qed
qed

text \<open>
  C37. Sending a document always ends.  Whatever GStreamer answers, the loop of \<open>PushXml\<close> stops after at most one
  packet per byte of the document, and stops in the state that the recursive description computes.
\<close>

theorem push_xml_terminates:
  assumes "has_appsrc p" and "xml \<noteq> []" and "PushXml push now xml p = (ok, packets, p')"
  shows "\<exists>tried rest. while_option xml_loop_cond (xml_loop_body push (payload_max p) (Now90kHz now p)) (0, map of_char xml, [], p, False)
      = Some (tried, rest, packets, p', \<not> ok) \<and> tried \<le> length xml"
  using xml_loop_ends [OF payload_max_pos, of push p "Now90kHz now p" 0 "map of_char xml" "[]" p] assms(3) [unfolded PushXml_loop [OF assms(1,2)]]
  by auto

subsection \<open>A concrete stream\<close>

definition sample_payloader :: payloader where
  "sample_payloader = OnvifMetadataPayloader_new True \<lparr>cfg_ssrc = 7, payload_type = 97, mtu = 16\<rparr> 0 0 0xFFFF"

lemma sample_payloader_fields [simp]:
  "has_appsrc sample_payloader" "mtu (pl_cfg sample_payloader) = 16" "payload_type (pl_cfg sample_payloader) = 97" "ssrc sample_payloader = 7"
  "seq_num sample_payloader = 0xFFFF"
  by (simp_all add: sample_payloader_def OnvifMetadataPayloader_new_def)

theorem metadata_packets_exact_witness:
  "\<exists>packets p'. PushXml (\<lambda>i. Flow True) 0 ''<tt:Frame>'' sample_payloader = (True, packets, p')
     \<and> concat (map rtp_payload packets) = map of_char ''<tt:Frame>'' \<and> (\<forall>packet \<in> set packets. length packet \<le> 16)"
proof -
  obtain ok packets p' where run: "PushXml (\<lambda>i. Flow True) 0 ''<tt:Frame>'' sample_payloader = (ok, packets, p')"
    by (cases "PushXml (\<lambda>i. Flow True) 0 ''<tt:Frame>'' sample_payloader") auto
  have facts: "ok" "concat (map rtp_payload packets) = map of_char ''<tt:Frame>''" "\<forall>i < length packets. length (packets ! i) \<le> 16"
    using metadata_packets_exact [OF _ _ _ run] by auto
  then have "\<forall>packet \<in> set packets. length packet \<le> 16" by (auto simp: in_set_conv_nth)
  then show ?thesis using run facts(1,2) by (metis (full_types))
qed

theorem metadata_characters_whole_witness:
  "\<exists>ok packets p' css. PushXml (\<lambda>i. Flow True) 0 [CHR ''<'', CHR 0xC3, CHR 0xA9, CHR ''>''] sample_payloader = (ok, packets, p')
     \<and> concat css = [[0x3C], [0xC3, 0xA9], [0x3E]] \<and> map rtp_payload packets = map concat (take (length packets) css)"
proof -
  let ?xml = "[CHR ''<'', CHR 0xC3, CHR 0xA9, CHR ''>'']" and ?cs = "[[0x3C], [0xC3, 0xA9], [0x3E]] :: byte list list"
  obtain ok packets p' where run: "PushXml (\<lambda>i. Flow True) 0 ?xml sample_payloader = (ok, packets, p')"
    by (cases "PushXml (\<lambda>i. Flow True) 0 ?xml sample_payloader") auto
  have bytes: "map of_char ?xml = concat ?cs" by simp
  have utf8: "list_all utf8_char ?cs" by (simp add: utf8_char_def continuation_def)
  show ?thesis using metadata_characters_whole [OF _ _ _ run bytes utf8] run by auto
qed


theorem push_xml_terminates_witness:
  "\<exists>tried rest packets p' ok. while_option xml_loop_cond (xml_loop_body (\<lambda>i. Flow (i < 1)) (payload_max sample_payloader) (Now90kHz 0 sample_payloader))
      (0, map of_char ''<tt:Frame>'', [], sample_payloader, False) = Some (tried, rest, packets, p', \<not> ok) \<and> tried \<le> 10"
proof -
  obtain ok packets p' where run: "PushXml (\<lambda>i. Flow (i < 1)) 0 ''<tt:Frame>'' sample_payloader = (ok, packets, p')"
    by (cases "PushXml (\<lambda>i. Flow (i < 1)) 0 ''<tt:Frame>'' sample_payloader") auto
  show ?thesis using push_xml_terminates [OF _ _ run] by auto
qed

end
