(* ===== verification/Spec2Isabelle.thy ===== *)
theory Spec2Isabelle
  imports Safe_Queue Reply_Cleaner Abnormal_Checker Setting_Data Sort_Tracker Npu_Handler Setting_Manager Detector_Block Onvif_Metadata
begin

text \<open>
  DetectBase is a video-surveillance server: it receives camera streams, runs a YOLOv5 detector on the
  three cores of an NPU, tracks the detections (SORT) and raises alarms when tracks cross lines, enter
  zones or park.  This development models the program's own logic, function by function, and proves the
  properties that make it correct.  Paths below are relative to \<^verbatim>\<open>src/code\<close>.

  \<^bold>\<open>The parts and how they interact.\<close>  A frame of a camera becomes a request for the load balancer
  (\<^verbatim>\<open>Management/manager/EngineLoadBalancer\<close>), which hands it in rotation to the input queue of an engine
  handler (\<^verbatim>\<open>Engine/EngineBase\<close>); the handler's thread runs the network through the YOLOv5 engine
  (\<^verbatim>\<open>Engine/NPU\<close>), decodes its tensors and answers into the respond queue, from which the balancer's
  dispatcher thread routes the answer to the camera's result queue.  A camera unit
  (\<^verbatim>\<open>Main/DETECTOR/RtspDetectorUnit\<close>) is four threads joined by queues: the inference thread takes a decoded frame
  from the RTSP client (\<^verbatim>\<open>Protocol/RTSP_GST/GstRtspClient\<close>), letterboxes it (\<^verbatim>\<open>VisionCommon\<close>) and sends the request; the response
  thread converts the boxes (\<^verbatim>\<open>BasicLibs/core/types/InferObject\<close>), tracks them (\<^verbatim>\<open>Tracker/SORT\<close>) and publishes the ONVIF
  metadata (\<^verbatim>\<open>OnvifMetadataPayloader\<close>); the event thread checks the schedules (\<^verbatim>\<open>AbnormalActions\<close>) and sends the
  notifications; the IO worker saves the snapshots and keeps the disk from filling.  The schedules come from the settings
  documents (\<^verbatim>\<open>Management/manager/SettingData\<close>) kept in the setting registries (\<^verbatim>\<open>SetterBase.h\<close>,
  \<^verbatim>\<open>SettingManagerBase.h\<close>); the frame queues are found in \<^verbatim>\<open>IOStreamManager\<close>; \<^verbatim>\<open>RtspDetectorBlock\<close> starts and stops the
  units.  Queues, threads and reply tables are shared structures (\<^verbatim>\<open>BasicLibs/core/structure\<close>).

  \<^bold>\<open>Theories.\<close>
  \<^item> \<open>Prelude\<close>: words and floats, loops that may abort (\<open>for_each\<close>), and the locale \<open>op_system\<close> of an operation
    system with an invariant, interpreted for every component that is a state machine.
  \<^item> \<open>Safe_Queue\<close>, \<open>Safe_Thread\<close>, \<open>Reply_Dispatcher\<close>, \<open>Reply_Cleaner\<close>: \<^verbatim>\<open>SafeQueue.h\<close>, \<^verbatim>\<open>SafeThread.h\<close>,
    \<^verbatim>\<open>ReplyDispatcher.h\<close>, \<^verbatim>\<open>ReplyDispatcherWithCleaner.h\<close>.  Critical sections are functions on a record; what other
    threads do while a caller sleeps is an explicit list of calls.  The queue keeps the newest elements in order
    and wakes sleepers; the dispatcher refines a map from request ids to replies.
  \<^item> \<open>Infer_Object\<close>, \<open>Geometry\<close>, \<open>History_Checker\<close>: boxes and their conversion between frames (letterbox round trip,
    staying in the frame), segment intersection and point in polygon against the real plane, expiring histories.
  \<^item> \<open>Json\<close>, \<open>String_Utils\<close>, \<open>Schedule_Types\<close>, \<open>Setting_Data\<close>, \<open>Setting_Manager\<close>: decoding of settings with exceptions as
    values, and the registry: updates touch one unit, a failed renewal changes nothing.
  \<^item> \<open>Schedule\<close>, \<open>Abnormal_Checker\<close>: \<^verbatim>\<open>MgenSchedule.cpp\<close> and the four checkers of \<^verbatim>\<open>AbnormalActionChecker.cpp\<close>; soundness of the
    alarms, absence of out-of-range accesses, spacing of the alarms.
  \<^item> \<open>Hungarian\<close>, \<open>Hungarian_Correct\<close>, \<open>Kalman\<close>, \<open>Sort_Tracker\<close>: \<^verbatim>\<open>Tracker/SORT\<close>; the assignment terminates and is optimal,
    every detection is accounted for, track ids stay distinct over any stream.
  \<^item> \<open>Yolo_Postprocess\<close>, \<open>Yolo_Decode\<close>: decoding of the quantised tensors and non-maximum suppression of
    \<^verbatim>\<open>YoloV5_Torch_Onnx_RKNN_NPU.cpp\<close>, exact against their declarative descriptions.
  \<^item> \<open>Engine_Types\<close>, \<open>Inference_Counter\<close>, \<open>Engine_Load_Balancer\<close>: profiles, stream types, statistics and the balancer with
    its invariant over any interleaving of calls.
  \<^item> \<open>Engine_Handler\<close>, \<open>Npu_Handler\<close>: the inference thread over an abstract engine, with the locales \<open>engine_contract\<close>
    (an engine answers exactly the batch it took) and \<open>exact_engine\<close>, and the NPU engine that implements them.
  \<^item> \<open>Frame_Preprocessor\<close>: \<^verbatim>\<open>FramePreProcessor.cpp\<close> and the cache of scalers; the letterboxed picture is exact, no write leaves
    the buffer, and a camera box survives the way to the network and back.
  \<^item> \<open>Text_Format\<close>, \<open>Frame_Store\<close>: number formatting, the paths of the snapshots, the two clean-ups of the disk and the IO worker;
    exactly the expired days go, and under pressure the oldest first and never the newest.
  \<^item> \<open>Engine_Client\<close>: \<^verbatim>\<open>ClassChecker.h\<close> and \<^verbatim>\<open>EngineClient.cpp\<close>, the camera's side of an engine.
  \<^item> \<open>Detector_Unit\<close>, \<open>Detector_Response\<close>, \<open>Detector_Event\<close>: the life cycle of a camera unit, and one iteration of the inference, the
    response and the event thread as functions on the unit's record.  A frame becomes one request and one item in flight;
    results are matched to items by order; every schedule that reports raises exactly one notification.
  \<^item> \<open>Onvif_Metadata\<close>: the metadata document and its RTP packets: complete, in order, within the MTU, no character torn.
  \<^item> \<open>Rtsp_Client\<close>: frame callback and reconnect worker; one frame waits at most, the back-off doubles up to its maximum.
  \<^item> \<open>Detector_Pipeline\<close>: the receiver, the four threads and the setting callbacks as one step relation; bounds of all queues for every
    interleaving, what \<open>Stop\<close> leaves, and what a restart does.
  \<^item> \<open>Iostream_Manager\<close>, \<open>Detector_Block\<close>: the registry of queues by kind and key, and the cameras over one shared balancer.
  \<^item> This theory: the properties that span components.

  \<^bold>\<open>Interfaces.\<close>  \<open>op_system\<close> is interpreted on the queue, thread, dispatcher, balancer, schedule, the frame slot of the RTSP client and
  the calls of the stream manager; \<open>drop_oldest_queue\<close> on \<open>SafeQueue\<close>; \<open>reply_store\<close> on the dispatcher; \<open>history_store\<close> on
  the track histories; \<open>assignment_solver\<close> on the Hungarian algorithm, for the tracker; \<open>exact_engine\<close> on the NPU engine;
  \<open>registry\<close> on the stream manager.

  \<^bold>\<open>Parameters.\<close>  Code outside the repository is an argument, with its documented behaviour as a named
  predicate: OpenCV's filter and rectangles (\<open>opencv\<close>, \<open>rect_laws\<close>), the order \<open>std::sort\<close> gives to equal scores
  (\<open>sorts_desc\<close>), the iteration order of hash maps (\<open>reorders\<close>), the RKNN runtime and the file system (\<open>rknn_env\<close>,
  \<open>rknn_conforms\<close>), FFmpeg's scaler (\<open>ffmpeg\<close>, \<open>ffmpeg_conforms\<close>), the class files (\<open>class_files\<close>), the disk (\<open>disk\<close>), what the
  rest of the process hands to a unit (\<open>unit_links\<close>), the answers of GStreamer (\<open>push_outcome\<close>, \<open>worker_env\<close>), the class
  predicate, the clock, and generated identifiers.

  \<^bold>\<open>Numbers.\<close>  Counters, identifiers, quantised bytes and hash values are words; pixel coordinates are integers with
  their 32-bit range proved where they are multiplied; floating-point values are exact reals, so rounding, infinities
  and NaN are not represented.

  \<^bold>\<open>Fuel and loops.\<close>  The steps of the Hungarian algorithm call each other; they are a transition function run with
  \<open>hungarian_fuel\<close>, proved sufficient for every matrix.  Thread loops take one list element per iteration (the running flag and the
  calls of other threads), so every finite run is covered.  The loop of \<open>PushXml\<close> is also given with the while combinator and proved to end.

  \<^bold>\<open>Not modelled.\<close>  Input and output: the GStreamer receiver and proxy server, the gRPC, REST and Socket.IO adapters and
  their handlers, logging, metrics, and the XML and JSON parsers of the configuration; the managers that only own these; the
  vendored libraries; the pixel operations of OpenCV and swscale; the start-up of the process (\<^verbatim>\<open>Main/DETECTOR/DETECTOR.cpp\<close>), except the
  loop that activates the engines.  Threads interleave at the iterations of their loops and at the calls of the shared
  structures; data races inside an iteration are not represented.
\<close>

section \<open>From the settings document to the alarms\<close>



section \<open>One inference, from the camera's request to the camera's result\<close>

lemma process_one:
  assumes "yolo_dinv env (inference_batch_size profile) w h (device e)" and "sorts_desc std_sort" and "inference_batch_size profile = 1"
    and "current_batch_inputs e = []" and "holds_image w h x"
  shows "\<exists>e' out. process_all (yolo_ops env std_sort profile dev_id) [x] e = Some (e', [out]) \<and> out_meta out = in_meta x"
proof -
  obtain e' outs where run: "process_all (yolo_ops env std_sort profile dev_id) [x] e = Some (e', outs)"
    "length (current_batch_inputs e') < 1" "out_metas outs @ in_metas (current_batch_inputs e') = [in_meta x]"
    using yolo.process_all_exact [of env profile w h e std_sort "[x]" dev_id] assms by auto
  then show ?thesis by (auto simp: out_metas_def)
qed

lemma holds_image_not_empty: "holds_image w h x \<Longrightarrow> \<not> no_image x"
  by (auto simp: holds_image_def no_image_def)

text \<open>
  C1. A camera gets its own answer.  A request of a subscribed camera that the balancer hands to an idle NPU
  engine of batch size one comes back to that camera: the balancer accepts it, one iteration of the
  engine's loop answers it, one iteration of the dispatcher routes the answer, and the camera's next
  \<open>RespondAsync\<close> returns it, with the meta data of the request stamped with the engine.
\<close>

theorem inference_round_trip:
  assumes ready: "rotation_ready 1 lb"
    and chosen: "engine_handles lb ! (unat (round_robin_idx lb) mod length (engine_handles lb)) = (profile_uuid profile, dev_id)"
    and addr: "map_of (engine_input_qs lb) (profile_uuid profile, dev_id) = Some a"
    and idle: "sq_q (input_store lb a) = []" "\<not> b_terminate (input_store lb a)"
    and engine: "yolo_dinv env (inference_batch_size profile) w h (device e)" "sorts_desc std_sort" "inference_batch_size profile = 1"
      "current_batch_inputs e = []"
    and receiver: "sq_q (respond_receiver lb) = []" "\<not> b_terminate (respond_receiver lb)" "max_size (respond_receiver lb) = 0"
    and camera: "map_of (cam_result_qs lb) (requester_unit_id (in_meta r)) = Some c" "sq_q (result_store lb c) = []"
      "\<not> b_terminate (result_store lb c)"
    and image: "holds_image w h r"
  shows "\<exists>lb1 e' rq sq out lb3. RequestAsync [] r lb = Some (True, lb1)
    \<and> inference_loop (yolo_ops env std_sort profile dev_id) [(True, [])] (e, input_store lb1 a, respond_receiver lb1) = Some (e', rq, sq)
    \<and> RespondAsync (requester_unit_id (in_meta r)) []
        (ReplyDispatcherThreadRunner [(True, [])] (lb1\<lparr>input_store := (input_store lb1)(a := rq), respond_receiver := sq\<rparr>)) = (Some out, lb3)
    \<and> out_meta out = (in_meta r)\<lparr>requestee_engine_uuid := profile_uuid profile\<rparr>"
proof -
  let ?u = "requester_unit_id (in_meta r)" and ?ops = "yolo_ops env std_sort profile dev_id"
  let ?x = "stamp (profile_uuid profile, dev_id) r"
  have inv: "lb_inv lb" using ready by (simp add: rotation_ready_def)
  have room: "\<not> MAX_ENGINE_INFER_INPUT_QUEUE_SIZE \<le> sq_size (input_store lb a)"
    by (simp add: idle sq_size_def MAX_ENGINE_INFER_INPUT_QUEUE_SIZE_def)
  define lb1 where "lb1 = lb\<lparr>round_robin_idx := round_robin_idx lb + 1, input_store := (input_store lb)(a := enqueue_copy ?x (input_store lb a))\<rparr>"
  have req: "RequestAsync [] r lb = Some (True, lb1)"
    using ready chosen addr room holds_image_not_empty [OF image]
    by (simp add: RequestAsync_def rotation_ready_def lb1_def stamp_def enqueue_move_copy Let_def)
  have x: "holds_image w h ?x" using image by (simp add: holds_image_def stamp_def)
  obtain e' out where run: "process_all ?ops [?x] e = Some (e', [out])" "out_meta out = in_meta ?x"
    using process_one [OF engine x] by blast
  have rq: "\<not> b_terminate (input_store lb1 a)" "sq_q (input_store lb1 a) = [?x]"
    using idle by (simp_all add: lb1_def sq_q_enqueue)
  have loop: "inference_loop ?ops [(True, [])] (e, input_store lb1 a, respond_receiver lb1)
      = Some (e', (input_store lb1 a)\<lparr>sq_q := []\<rparr>, send_all [out] (respond_receiver lb1))"
    using inference_loop_drains [OF rq, of ?ops e "respond_receiver lb1"] run(1) by simp
  define lb2 where "lb2 = lb1\<lparr>input_store := (input_store lb1)(a := (input_store lb1 a)\<lparr>sq_q := []\<rparr>), respond_receiver := send_all [out] (respond_receiver lb1)\<rparr>"
  have lb2: "lb_inv lb2" "map_of (cam_result_qs lb2) ?u = Some c" "result_store lb2 = result_store lb" "subscribers lb2 = subscribers lb"
    "respond_receiver lb2 = send_all [out] (respond_receiver lb)" "cam_result_qs lb2 = cam_result_qs lb"
    using inv camera(1) by (simp_all add: lb2_def lb1_def lb_inv_def link_inv_def)
  have sq: "sq_q (respond_receiver lb2) = [out]" "\<not> b_terminate (respond_receiver lb2)"
    using receiver by (simp_all add: lb2(5) send_all_contents) (simp add: send_all_def enqueue_move_copy)
  define lb3 where "lb3 = ReplyDispatcherThreadRunner [(True, [])] lb2"
  have disp: "lb3 = (deliver out lb2)\<lparr>respond_receiver := (respond_receiver lb2)\<lparr>sq_q := []\<rparr>\<rparr>"
    using runner_drains [OF sq(2,1)] by (simp add: lb3_def)
  have q: "result_store lb3 c = enqueue_copy out (result_store lb c)"
    using deliver_queue [OF lb2(1,2), of out] run(2) by (simp add: disp lb2(3) of_unit_def stamp_def)
  have sub: "?u \<in> subscribers lb" using inv camera(1) by (force simp: lb_inv_def results_inv_def dest: map_of_SomeD)
  have "subscribers lb3 = subscribers lb" "cam_result_qs lb3 = cam_result_qs lb"
    by (simp_all add: disp lb2 deliver_def split: option.split)
  then have "\<exists>lb4. RespondAsync ?u [] lb3 = (Some out, lb4)"
    using sub camera q by (simp add: RespondAsync_def dequeue_wait_for_def wait_pred_def take_front_def sq_q_enqueue)
  then show ?thesis using req loop run(2) unfolding lb3_def lb2_def by (auto simp: stamp_def)
qed

theorem inference_round_trip_witness:
  "\<exists>e lb lb1 e' rq sq out lb3. rotation_ready 1 lb \<and> RequestAsync [] (sample_frame 5) lb = Some (True, lb1)
    \<and> inference_loop (yolo_ops sample_env (sort_key (\<lambda>p. - fst p)) sample_npu_profile 0) [(True, [])] (e, input_store lb1 0, respond_receiver lb1)
        = Some (e', rq, sq)
    \<and> RespondAsync 5 [] (ReplyDispatcherThreadRunner [(True, [])] (lb1\<lparr>input_store := (input_store lb1)(0 := rq), respond_receiver := sq\<rparr>)) = (Some out, lb3)
    \<and> out_meta out = (in_meta (sample_frame 5))\<lparr>requestee_engine_uuid := 7\<rparr>"
proof -
  let ?sort = "sort_key (\<lambda>p :: cfloat \<times> int. - fst p)"
  obtain e lb0 where act: "ActivateEngine (yolo_ops sample_env ?sort sample_npu_profile 0) 0 (built sample_npu_profile 0) sample_new = Inr (True, e, lb0)"
    "rknn_model_w (device e) = 8" "rknn_model_h (device e) = 8"
    and lb0: "lb0 = sample_new\<lparr>input_store := (input_store sample_new)(0 := SafeQueue_init), engine_input_qs := [((7, 0), 0)],
      engine_handles := engine_handles sample_new @ [(7, 0)]\<rparr>"
    using sample_activation [of sample_new 0 ?sort 0] sample_new_fields by auto
  note dev = activated_device [OF act(1) sample_env_conforms, unfolded act(2,3)]
  have new: "lb_inv sample_new" "engine_handles sample_new = []" "round_robin_idx sample_new = 0" "subscribers sample_new = {}"
    "respond_receiver sample_new = SafeQueue_init" "cam_result_qs sample_new = []"
    using EngineLoadBalancer_new_ok [of "[sample_npu_profile]"] sample_new_eq
    by (auto simp: sample_new_def EngineLoadBalancer_new_def Start_def SetThreadFunctions_def SafeThread_init_def
        StartAutoCleanup_def ReplyCleaner_init_def)
  have "start_inv 0 sample_new" using new sample_new_fields by (simp add: start_inv_def)
  from activate_one [OF act(1) this] have "lb_inv lb0" by (simp add: start_inv_def)
  define lb where "lb = snd (Subscribe 5 lb0)"
  have inv: "lb_inv lb" unfolding lb_def by (rule lb_inv_Subscribe) fact
  have f: "engine_handles lb = [(7, 0)]" "engine_input_qs lb = [((7, 0), 0)]" "\<not> is_terminate_instance lb" "round_robin_idx lb = 0"
    "input_store lb 0 = SafeQueue_init" "respond_receiver lb = SafeQueue_init" "cam_result_qs lb = [(5, next_result lb0)]"
    "result_store lb (next_result lb0) = SetMaxSize 10 SafeQueue_init"
    using new sample_new_fields by (simp_all add: lb_def lb0 Subscribe_def Let_def)
  have q: "sq_q SafeQueue_init = []" "\<not> b_terminate SafeQueue_init" "max_size SafeQueue_init = 0"
    "sq_q (SetMaxSize 10 SafeQueue_init) = []" "\<not> b_terminate (SetMaxSize 10 SafeQueue_init)" by (simp_all add: SafeQueue_init_def SetMaxSize_def)
  have ready: "rotation_ready 1 lb"
    using inv f by (simp add: rotation_ready_def q sq_size_def MAX_ENGINE_INFER_INPUT_QUEUE_SIZE_def)
  have id: "profile_uuid sample_npu_profile = 7" "inference_batch_size sample_npu_profile = 1" "requester_unit_id (in_meta (sample_frame 5)) = 5"
    by (simp_all add: sample_npu_profile_def sample_profile_def sample_frame_def sample_request_def)
  show ?thesis
    using inference_round_trip [OF ready, of sample_npu_profile 0 0 sample_env 8 8 e ?sort "sample_frame 5" "next_result lb0"]
      dev(1,3) sort_key_sorts_desc sample_frame_image ready
    by - (rule exI [of _ e], rule exI [of _ lb], auto simp: f q id simp del: inference_loop.simps ReplyDispatcherThreadRunner.simps)
qed

end
